(* ===== verification/Js_Prelude.thy ===== *)
theory Js_Prelude
  imports Complex_Main "HOL-Library.Sublist"
begin

text \<open>
  The part of JavaScript that the modelled sources use, and the lemmas every component shares.

  \<^item> Values whose shape the code inspects at run time (\<^verbatim>\<open>any\<close>, \<^verbatim>\<open>unknown\<close>,
    \<^verbatim>\<open>JSON.parse\<close> results) are \<open>jsval\<close>; objects keep the order of their keys.
  \<^item> A handler that can throw returns an \<open>outcome\<close>: \<open>Threw e s\<close> carries the state that the
    assignments before the exception have already produced, since a JavaScript exception does not
    roll back earlier store updates.
  \<^item> \<^verbatim>\<open>findIndex\<close> answers an \<open>int\<close> (\<open>-1\<close> when nothing matches) and \<^verbatim>\<open>splice\<close> reads a negative
    start from the end of the array, because several handlers pass one result to the other.
  \<^item> A number is a real (positions, zoom factors) or an \<open>int\<close> (counters and indices). Rounding of
    doubles is not modelled.
  \<^item> \<^verbatim>\<open>cloneDeep(x)\<close> and immer's \<^verbatim>\<open>produce(x, recipe)\<close> only protect the old value from mutation;
    over immutable values they are the value itself and the recipe's result.
\<close>

named_theorems frame_simps \<open>fields an operation leaves alone\<close>
named_theorems js_list \<open>array operations on concrete shapes\<close>

section \<open>Exceptions\<close>

datatype js_error = TypeError | RangeError | JsError string

datatype 's outcome = Ok 's | Threw js_error 's

fun andThen :: "'s outcome \<Rightarrow> ('s \<Rightarrow> 's outcome) \<Rightarrow> 's outcome" where
  "andThen (Ok s) f = f s"
| "andThen (Threw e s) f = Threw e s"

fun stateOf :: "'s outcome \<Rightarrow> 's" where
  "stateOf (Ok s) = s"
| "stateOf (Threw e s) = s"

lemma andThen_eq_Ok:
  "andThen m f = Ok t \<longleftrightarrow> (\<exists>s. m = Ok s \<and> f s = Ok t)"
  by (cases m) auto

lemma andThen_assoc [simp]: "andThen (andThen m f) g = andThen m (\<lambda>s. andThen (f s) g)"
  by (cases m) auto

text \<open>A relation that every stage respects is respected by the sequence, thrown or not.\<close>

lemma andThen_rel:
  assumes "R s (stateOf m)" and "\<And>t. m = Ok t \<Longrightarrow> R t (stateOf (f t))"
    and "\<And>a b c. R a b \<Longrightarrow> R b c \<Longrightarrow> R a c"
  shows "R s (stateOf (andThen m f))"
  using assms by (cases m) auto

section \<open>Dynamic values\<close>

datatype jsnum = Finite real | NaN | Infinity | NegInfinity

datatype jsval =
    JUndefined
  | JNull
  | JBool bool
  | JNum jsnum
  | JStr string
  | JArr "jsval list"
  | JObj "(string \<times> jsval) list"

type_synonym jsobj = "(string \<times> jsval) list"

fun digit_char :: "nat \<Rightarrow> char" where
  "digit_char d = char_of (48 + d)"

fun string_of_nat :: "nat \<Rightarrow> string" where
  "string_of_nat n = (if n < 10 then [digit_char n] else string_of_nat (n div 10) @ [digit_char (n mod 10)])"

declare string_of_nat.simps [simp del]

definition string_of_int :: "int \<Rightarrow> string" where
  "string_of_int i = (if i < 0 then ''-'' @ string_of_nat (nat (- i)) else string_of_nat (nat i))"

fun js_truthy :: "jsval \<Rightarrow> bool" where
  "js_truthy JUndefined = False"
| "js_truthy JNull = False"
| "js_truthy (JBool b) = b"
| "js_truthy (JNum (Finite x)) = (x \<noteq> 0)"
| "js_truthy (JNum NaN) = False"
| "js_truthy (JNum _) = True"
| "js_truthy (JStr s) = (s \<noteq> [])"
| "js_truthy (JArr _) = True"
| "js_truthy (JObj _) = True"

fun js_typeof :: "jsval \<Rightarrow> string" where
  "js_typeof JUndefined = ''undefined''"
| "js_typeof JNull = ''object''"
| "js_typeof (JBool _) = ''boolean''"
| "js_typeof (JNum _) = ''number''"
| "js_typeof (JStr _) = ''string''"
| "js_typeof (JArr _) = ''object''"
| "js_typeof (JObj _) = ''object''"

definition obj_get :: "jsobj \<Rightarrow> string \<Rightarrow> jsval" where
  "obj_get ob k = (case map_of ob k of None \<Rightarrow> JUndefined | Some v \<Rightarrow> v)"

fun obj_set :: "string \<Rightarrow> 'v \<Rightarrow> (string \<times> 'v) list \<Rightarrow> (string \<times> 'v) list" where
  "obj_set k v [] = [(k, v)]"
| "obj_set k v ((k', v') # r) = (if k = k' then (k, v) # r else (k', v') # obj_set k v r)"

definition obj_spread :: "(string \<times> 'v) list \<Rightarrow> (string \<times> 'v) list \<Rightarrow> (string \<times> 'v) list" where
  "obj_spread a b = foldl (\<lambda>ob (k, v). obj_set k v ob) a b"

definition indices_of :: "'a list \<Rightarrow> string list" where
  "indices_of xs = map string_of_nat [0..<length xs]"

fun object_keys :: "jsval \<Rightarrow> string list" where
  "object_keys (JObj ob) = map fst ob"
| "object_keys (JArr vs) = indices_of vs"
| "object_keys (JStr s) = indices_of s"
| "object_keys _ = []"

fun js_get :: "jsval \<Rightarrow> string \<Rightarrow> jsval" where
  "js_get (JObj ob) k = obj_get ob k"
| "js_get (JArr vs) k =
     (case map_of (zip (indices_of vs) vs) k of None \<Rightarrow> JUndefined | Some v \<Rightarrow> v)"
| "js_get (JStr s) k =
     (case map_of (zip (indices_of s) s) k of None \<Rightarrow> JUndefined | Some c \<Rightarrow> JStr [c])"
| "js_get _ k = JUndefined"

lemma map_of_obj_set [simp]: "map_of (obj_set k v ob) = (map_of ob)(k \<mapsto> v)"
  by (induction ob) (auto simp: fun_eq_iff)

lemma dom_obj_set: "fst ` set (obj_set k v ob) = insert k (fst ` set ob)"
  by (induction k v ob rule: obj_set.induct) auto

lemma distinct_obj_set: "distinct (map fst ob) \<Longrightarrow> distinct (map fst (obj_set k v ob))"
  by (induction k v ob rule: obj_set.induct) (auto simp: dom_obj_set)

lemma map_of_obj_spread: "map_of (obj_spread a b) = map_of a ++ map_of (rev b)"
proof (induction b rule: rev_induct)
  case (snoc p b)
  then show ?case by (cases p) (simp add: obj_spread_def map_add_def fun_eq_iff)
qed (simp add: obj_spread_def)

lemma map_of_rev_distinct: "distinct (map fst b) \<Longrightarrow> map_of (rev b) = map_of b"
  by (rule map_of_inject_set [THEN iffD2]) (auto simp: rev_map [symmetric])

text \<open>Spreading: the right operand wins where it has the key.\<close>

lemma obj_get_spread:
  "distinct (map fst b) \<Longrightarrow>
   map_of (obj_spread a b) k = (case map_of b k of None \<Rightarrow> map_of a k | Some v \<Rightarrow> Some v)"
  by (simp add: map_of_obj_spread map_of_rev_distinct map_add_def)

text \<open>An optional property of a spread object: present on the right, else on the left.\<close>

definition opt_or :: "'a option \<Rightarrow> 'a option \<Rightarrow> 'a option" where
  "opt_or a b = (case b of None \<Rightarrow> a | Some x \<Rightarrow> Some x)"

lemma opt_or_simps [simp]: "opt_or a None = a" "opt_or a (Some x) = Some x"
  by (simp_all add: opt_or_def)

section \<open>Arrays\<close>

fun findIndex :: "('a \<Rightarrow> bool) \<Rightarrow> 'a list \<Rightarrow> int" where
  "findIndex p [] = -1"
| "findIndex p (x # xs) =
     (if p x then 0 else (let i = findIndex p xs in if i < 0 then -1 else i + 1))"

definition at_index :: "'a list \<Rightarrow> int \<Rightarrow> 'a option" where
  "at_index xs i = (if 0 \<le> i \<and> i < int (length xs) then Some (xs ! nat i) else None)"

definition set_index :: "'a list \<Rightarrow> int \<Rightarrow> 'a \<Rightarrow> 'a list" where
  "set_index xs i v = (if 0 \<le> i then xs[nat i := v] else xs)"

definition splice_start :: "'a list \<Rightarrow> int \<Rightarrow> nat" where
  "splice_start xs start =
     (if start < 0 then nat (max 0 (int (length xs) + start)) else min (nat start) (length xs))"

definition splice :: "'a list \<Rightarrow> int \<Rightarrow> nat \<Rightarrow> 'a list \<Rightarrow> 'a list" where
  "splice xs start del items =
     (let i = splice_start xs start in take i xs @ items @ drop (i + del) xs)"

fun update_first :: "('a \<Rightarrow> bool) \<Rightarrow> ('a \<Rightarrow> 'a) \<Rightarrow> 'a list \<Rightarrow> 'a list" where
  "update_first p f [] = []"
| "update_first p f (x # xs) = (if p x then f x # xs else x # update_first p f xs)"

fun remove_first :: "('a \<Rightarrow> bool) \<Rightarrow> 'a list \<Rightarrow> 'a list" where
  "remove_first p [] = []"
| "remove_first p (x # xs) = (if p x then xs else x # remove_first p xs)"

lemma findIndex_ge: "-1 \<le> findIndex p xs"
  by (induction xs) (auto simp: Let_def)

lemma findIndex_lt: "findIndex p xs < int (length xs) \<or> xs = []"
  by (induction xs) (auto simp: Let_def)

lemma findIndex_neg_iff [simp]: "findIndex p xs < 0 \<longleftrightarrow> (\<forall>x \<in> set xs. \<not> p x)"
  by (induction xs) (auto simp: Let_def)

lemma findIndex_none: "\<forall>x \<in> set xs. \<not> p x \<Longrightarrow> findIndex p xs = -1"
  by (induction xs) (auto simp: Let_def)

lemma findIndex_gt_iff [simp]: "-1 < findIndex p xs \<longleftrightarrow> (\<exists>x \<in> set xs. p x)"
proof -
  have "-1 < findIndex p xs \<longleftrightarrow> \<not> findIndex p xs < 0" by linarith
  then show ?thesis by simp
qed

lemma findIndex_nonneg_iff [simp]: "0 \<le> findIndex p xs \<longleftrightarrow> (\<exists>x \<in> set xs. p x)"
  using findIndex_gt_iff [of p xs] by linarith

lemma findIndex_hit:
  assumes "\<exists>x \<in> set xs. p x"
  obtains n where "findIndex p xs = int n" and "n < length xs" and "p (xs ! n)"
  using assms
proof (induction xs arbitrary: thesis)
  case (Cons x xs)
  show ?case
  proof (cases "p x")
    case True
    then show ?thesis using Cons.prems(1) [of 0] by simp
  next
    case False
    with Cons.prems(2) have "\<exists>x \<in> set xs. p x" by auto
    with Cons.IH obtain n where "findIndex p xs = int n" "n < length xs" "p (xs ! n)" by metis
    with False show ?thesis using Cons.prems(1) [of "Suc n"] by simp
  qed
qed simp

lemma findIndex_append:
  "findIndex p (xs @ ys) =
     (if \<exists>x \<in> set xs. p x then findIndex p xs
      else if \<exists>y \<in> set ys. p y then int (length xs) + findIndex p ys else -1)"
proof (cases "\<exists>y \<in> set ys. p y")
  case True
  then obtain n where "findIndex p ys = int n" by (rule findIndex_hit)
  then show ?thesis using True by (induction xs) (auto simp: Let_def)
next
  case False
  then show ?thesis by (induction xs) (auto simp: Let_def findIndex_none)
qed

text \<open>\<^verbatim>\<open>xs[xs.findIndex(p)] = f(xs[xs.findIndex(p)])\<close>, guarded by the index test.\<close>

lemma set_index_findIndex:
  assumes "\<exists>x \<in> set xs. p x"
  shows "set_index xs (findIndex p xs) (f (xs ! nat (findIndex p xs))) = update_first p f xs"
  using assms
proof (induction xs)
  case (Cons x xs)
  then show ?case
    by (cases "p x") (auto simp: set_index_def Let_def nat_add_distrib not_less)
qed simp

lemma update_first_none: "\<forall>x \<in> set xs. \<not> p x \<Longrightarrow> update_first p f xs = xs"
  by (induction xs) auto

lemma guarded_set_index:
  "(if findIndex p xs > -1 then set_index xs (findIndex p xs) (f (xs ! nat (findIndex p xs))) else xs)
   = update_first p f xs"
  using set_index_findIndex [of xs p f] by (auto simp: update_first_none)

lemma find_Some_of_ex: "\<exists>x \<in> set xs. p x \<Longrightarrow> \<exists>x. find p xs = Some x"
  by (induction xs) auto

lemma find_SomeD: "find p xs = Some x \<Longrightarrow> x \<in> set xs \<and> p x"
  by (induction xs) (auto split: if_splits)

lemma at_index_findIndex: "at_index xs (findIndex p xs) = find p xs"
proof (induction xs)
  case (Cons x xs)
  then show ?case
    by (auto simp: at_index_def Let_def nat_add_distrib not_less find_None_iff split: if_splits)
qed (simp add: at_index_def)

lemma splice_findIndex_hit:
  assumes "\<exists>x \<in> set xs. p x"
  shows "splice xs (findIndex p xs) 1 [] = remove_first p xs"
  using assms
proof (induction xs)
  case (Cons x xs)
  show ?case
  proof (cases "p x")
    case True
    then show ?thesis by (simp add: splice_def splice_start_def)
  next
    case False
    with Cons.prems have ex: "\<exists>x \<in> set xs. p x" by auto
    then obtain n where n: "findIndex p xs = int n" "n < length xs" by (rule findIndex_hit)
    have "take n xs @ drop (Suc n) xs = remove_first p xs"
      using Cons.IH [OF ex] n by (simp add: splice_def splice_start_def)
    with False n show ?thesis
      by (simp add: splice_def splice_start_def nat_add_distrib)
  qed
qed simp

text \<open>
  What \<^verbatim>\<open>xs.splice(xs.findIndex(p), 1)\<close> does when nothing matches: the index is \<open>-1\<close>, which
  \<^verbatim>\<open>splice\<close> counts from the end, so the last element goes.
\<close>

lemma splice_findIndex_miss:
  assumes "\<forall>x \<in> set xs. \<not> p x"
  shows "splice xs (findIndex p xs) 1 [] = butlast xs"
  using assms
  by (cases xs rule: rev_cases) (auto simp: findIndex_none splice_def splice_start_def)

lemma map_update_first:
  "(\<And>x. g (f x) = g x) \<Longrightarrow> map g (update_first p f xs) = map g xs"
  by (induction xs) auto

lemma length_update_first [simp]: "length (update_first p f xs) = length xs"
  by (induction xs) auto

lemma find_update_first:
  "(\<And>x. p (f x) = p x) \<Longrightarrow> find p (update_first p f xs) = map_option f (find p xs)"
  by (induction xs) auto

lemma find_update_first_other:
  "(\<And>x. q (f x) = q x) \<Longrightarrow> (\<And>x. p x \<Longrightarrow> \<not> q x) \<Longrightarrow> find q (update_first p f xs) = find q xs"
  by (induction xs) auto

lemma remove_first_append:
  "remove_first p (xs @ ys) = (if \<exists>x \<in> set xs. p x then remove_first p xs @ ys else xs @ remove_first p ys)"
  by (induction xs) auto

lemma remove_first_subseq: "subseq (remove_first p xs) xs"
  by (induction xs) auto

lemma set_remove_first_distinct:
  "distinct (map g xs) \<Longrightarrow>
   set (remove_first (\<lambda>x. g x = k) xs) = {x \<in> set xs. g x \<noteq> k}"
  by (induction xs) (auto simp: image_iff)

lemma distinct_map_subseq: "subseq ys xs \<Longrightarrow> distinct (map g xs) \<Longrightarrow> distinct (map g ys)"
  by (induction rule: list_emb.induct) (auto dest: list_emb_set)

section \<open>Strings\<close>

definition startsWith :: "string \<Rightarrow> string \<Rightarrow> bool" where
  "startsWith s p = (take (length p) s = p)"

definition endsWith :: "string \<Rightarrow> string \<Rightarrow> bool" where
  "endsWith s p = (length p \<le> length s \<and> drop (length s - length p) s = p)"

text \<open>A text between quotes in a template literal, as it is.\<close>

definition in_quotes :: "string \<Rightarrow> string" where
  "in_quotes x = CHR 0x22 # x @ [CHR 0x22]"

fun join :: "string \<Rightarrow> string list \<Rightarrow> string" where
  "join sep [] = []"
| "join sep [x] = x"
| "join sep (x # y # r) = x @ sep @ join sep (y # r)"

lemma startsWith_single: "startsWith s [c] \<longleftrightarrow> s \<noteq> [] \<and> hd s = c"
  by (cases s) (auto simp: startsWith_def)

lemma endsWith_single: "endsWith s [c] \<longleftrightarrow> s \<noteq> [] \<and> last s = c"
  by (cases s rule: rev_cases) (auto simp: endsWith_def)

lemma join_snoc: "join sep (xs @ [y]) = (if xs = [] then y else join sep xs @ sep @ y)"
  by (induction sep xs rule: join.induct) auto

lemma join_snoc2: "join sep (xs @ [y, z]) = join sep (xs @ [y]) @ sep @ z"
  using join_snoc [of sep "xs @ [y]" z] by simp

fun split_on :: "char \<Rightarrow> string \<Rightarrow> string list" where
  "split_on c [] = [[]]"
| "split_on c (x # xs) =
     (if x = c then [] # split_on c xs
      else (case split_on c xs of [] \<Rightarrow> [[x]] | w # ws \<Rightarrow> (x # w) # ws))"

text \<open>Case mapping of the ASCII letters; other characters are left alone.\<close>

definition lower_char :: "char \<Rightarrow> char" where
  "lower_char c =
     (let n = (of_char c :: nat) in if 65 \<le> n \<and> n \<le> 90 then char_of (n + 32) else c)"

definition upper_char :: "char \<Rightarrow> char" where
  "upper_char c =
     (let n = (of_char c :: nat) in if 97 \<le> n \<and> n \<le> 122 then char_of (n - 32) else c)"

definition toLowerCase :: "string \<Rightarrow> string" where
  "toLowerCase = map lower_char"

definition toUpperCase :: "string \<Rightarrow> string" where
  "toUpperCase = map upper_char"

lemma split_on_nonempty [simp]: "split_on c s \<noteq> []"
  by (induction s) (auto split: list.splits)

lemma join_split_on: "join [c] (split_on c s) = s"
proof (induction s)
  case (Cons x xs)
  obtain w ws where "split_on c xs = w # ws"
    using split_on_nonempty by (cases "split_on c xs") auto
  with Cons show ?case by (cases ws) auto
qed simp

lemma split_on_join:
  "xs \<noteq> [] \<Longrightarrow> \<forall>x \<in> set xs. c \<notin> set x \<Longrightarrow> split_on c (join [c] xs) = xs"
proof (induction "[c]" xs rule: join.induct)
  case (2 x)
  then have "c \<notin> set x" by simp
  then show ?case by (induction x) auto
next
  case (3 x y r)
  then have "c \<notin> set x" and "split_on c (join [c] (y # r)) = y # r" by auto
  then show ?case by (induction x) auto
qed simp

text \<open>The truth value of an optional string: absent and empty are both false.\<close>

definition nonempty_opt :: "string option \<Rightarrow> bool" where
  "nonempty_opt x = (case x of None \<Rightarrow> False | Some t \<Rightarrow> t \<noteq> [])"

section \<open>Sets in insertion order\<close>

text \<open>\<^verbatim>\<open>[...new Set(xs)]\<close>: each value once, at its first position.\<close>

fun dedup :: "'a list \<Rightarrow> 'a list" where
  "dedup [] = []"
| "dedup (x # xs) = x # filter (\<lambda>y. y \<noteq> x) (dedup xs)"

lemma set_dedup [simp]: "set (dedup xs) = set xs"
  by (induction xs) auto

lemma distinct_dedup [simp]: "distinct (dedup xs)"
  by (induction xs) auto

section \<open>Callbacks that can throw\<close>

fun map_result :: "('a \<Rightarrow> 'e + 'b) \<Rightarrow> 'a list \<Rightarrow> 'e + 'b list" where
  "map_result f [] = Inr []"
| "map_result f (x # xs) =
     (case f x of Inl e \<Rightarrow> Inl e
      | Inr y \<Rightarrow> (case map_result f xs of Inl e \<Rightarrow> Inl e | Inr ys \<Rightarrow> Inr (y # ys)))"

lemma map_result_total: "(\<And>x. x \<in> set xs \<Longrightarrow> f x = Inr (g x)) \<Longrightarrow> map_result f xs = Inr (map g xs)"
  by (induction xs) auto

text \<open>A callback that answers a list, called for each element in turn, its answers concatenated.\<close>

definition concat_result :: "('a \<Rightarrow> 'e + 'b list) \<Rightarrow> 'a list \<Rightarrow> 'e + 'b list" where
  "concat_result f xs = (case map_result f xs of Inl e \<Rightarrow> Inl e | Inr yss \<Rightarrow> Inr (concat yss))"

text \<open>A loop that stops at the first element for which the callback answers true.\<close>

fun any_result :: "('a \<Rightarrow> 'e + bool) \<Rightarrow> 'a list \<Rightarrow> 'e + bool" where
  "any_result f [] = Inr False"
| "any_result f (x # xs) =
     (case f x of Inl e \<Rightarrow> Inl e | Inr True \<Rightarrow> Inr True | Inr False \<Rightarrow> any_result f xs)"

lemma concat_result_total:
  "(\<And>x. x \<in> set xs \<Longrightarrow> f x = Inr (g x)) \<Longrightarrow> concat_result f xs = Inr (concat (map g xs))"
  by (simp add: concat_result_def map_result_total)

lemma any_result_total:
  "(\<And>x. x \<in> set xs \<Longrightarrow> f x = Inr (g x)) \<Longrightarrow> any_result f xs = Inr (\<exists>x \<in> set xs. g x)"
  by (induction xs) (auto split: bool.splits)

section \<open>Walks that end\<close>

text \<open>
  A recursive walk without a visited set returns only if every path from its start ends;
  \<open>ends_within nx k x\<close> says that every path along \<open>nx\<close> from \<open>x\<close> has fewer than \<open>k\<close> steps. In a finite
  acyclic graph the number of nodes plus one is enough, whatever the start.
\<close>

fun ends_within :: "('a \<Rightarrow> 'a list) \<Rightarrow> nat \<Rightarrow> 'a \<Rightarrow> bool" where
  "ends_within nx 0 x = False"
| "ends_within nx (Suc k) x = (\<forall>y \<in> set (nx x). ends_within nx k y)"

lemma ends_within_card:
  assumes "finite R" and "acyclic R"
    and nx: "\<And>x y. P x \<Longrightarrow> y \<in> set (nx x) \<Longrightarrow> (key x, key y) \<in> R \<and> P y"
  shows "P x \<Longrightarrow> card (R\<^sup>+ `` {key x}) < k \<Longrightarrow> ends_within nx k x"
proof (induction k arbitrary: x)
  case (Suc k)
  have fin: "finite (R\<^sup>+ `` {a})" for a
    using assms(1) by (intro finite_Image) simp
  show ?case
  proof (simp only: ends_within.simps, rule ballI)
    fix y assume y: "y \<in> set (nx x)"
    with nx Suc.prems(1) have e: "(key x, key y) \<in> R" and Py: "P y" by auto
    have "R\<^sup>+ `` {key y} \<subseteq> R\<^sup>+ `` {key x}" using e by (auto intro: trancl_into_trancl2)
    moreover have "key y \<in> R\<^sup>+ `` {key x}" using e by auto
    moreover have "key y \<notin> R\<^sup>+ `` {key y}" using assms(2) by (auto simp: acyclic_def)
    ultimately have "card (R\<^sup>+ `` {key y}) < card (R\<^sup>+ `` {key x})"
      by (intro psubset_card_mono fin) auto
    with Suc.prems(2) show "ends_within nx k y" by (intro Suc.IH Py) simp
  qed
qed simp

section \<open>First element of a list by its key\<close>

text \<open>
  Stores keep arrays of objects that handlers address by a key (\<^verbatim>\<open>findIndex(x => x.id === k)\<close>)
  and replace in place. The locale holds what every such replacement guarantees, for a key that the
  replacement does not change.
\<close>

locale keyed_update =
  fixes key :: "'a \<Rightarrow> 'k" and upd :: "'u \<Rightarrow> 'a \<Rightarrow> 'a"
  assumes key_upd: "key (upd u x) = key x"
begin

lemma keys_kept: "map key (update_first (\<lambda>x. key x = k) (upd u) xs) = map key xs"
  by (rule map_update_first) (rule key_upd)

lemma lookup_same:
  "find (\<lambda>x. key x = k) (update_first (\<lambda>x. key x = k) (upd u) xs) =
   map_option (upd u) (find (\<lambda>x. key x = k) xs)"
  by (rule find_update_first) (simp add: key_upd)

lemma lookup_other:
  "k' \<noteq> k \<Longrightarrow>
   find (\<lambda>x. key x = k') (update_first (\<lambda>x. key x = k) (upd u) xs) = find (\<lambda>x. key x = k') xs"
  by (rule find_update_first_other) (auto simp: key_upd)

lemma distinct_kept:
  "distinct (map key xs) \<Longrightarrow> distinct (map key (update_first (\<lambda>x. key x = k) (upd u) xs))"
  by (simp only: keys_kept)

end

section \<open>Runs of a machine that can throw\<close>

text \<open>
  A component whose handlers are called one after the other: a step per event, each of which may
  throw. An exception ends one handler, not the program, so a run goes on from the state that the
  handler left behind.
\<close>

fun run_events :: "('s \<Rightarrow> 'e \<Rightarrow> 's outcome) \<Rightarrow> 's \<Rightarrow> 'e list \<Rightarrow> 's" where
  "run_events stp s [] = s"
| "run_events stp s (e # es) = run_events stp (stateOf (stp s e)) es"

lemma run_events_append: "run_events stp s (es @ fs) = run_events stp (run_events stp s es) fs"
  by (induction es arbitrary: s) auto

locale event_machine =
  fixes stp :: "'s \<Rightarrow> 'e \<Rightarrow> 's outcome" and inv :: "'s \<Rightarrow> bool"
  assumes step_inv: "inv s \<Longrightarrow> inv (stateOf (stp s e))"
begin

lemma run_inv: "inv s \<Longrightarrow> inv (run_events stp s es)"
  by (induction es arbitrary: s) (auto intro: step_inv)

end

locale event_frame =
  fixes stp :: "'s \<Rightarrow> 'e \<Rightarrow> 's outcome" and view :: "'s \<Rightarrow> 'v"
  assumes step_view: "view (stateOf (stp s e)) = view s"
begin

lemma run_view: "view (run_events stp s es) = view s"
  by (induction es arbitrary: s) (auto simp: step_view)

end

end
