(* ===== verification/Flow_Types.thy ===== *)
theory Flow_Types
  imports Js_Prelude
begin

text \<open>
  The data model of the workflow canvas (\<^verbatim>\<open>web/app/components/workflow/types.ts\<close>): block kinds,
  running statuses, nodes and edges. A field that the TypeScript type marks optional is an
  \<open>option\<close> where the code distinguishes its absence; a flag that the code only tests for truth is a
  \<open>bool\<close>. Keys that start with an underscore lose it, and every field carries the prefix of its
  record (\<open>n_\<close> node, \<open>d_\<close> node data, \<open>p_\<close> the per-kind part of the data, \<open>e_\<close> edge, \<open>ed_\<close> edge
  data).
\<close>

datatype BlockEnum =
    Start | StartPlaceholder | End | Answer | LLM | KnowledgeRetrieval | QuestionClassifier
  | IfElse | Code | TemplateTransform | HttpRequest | VariableAssigner | VariableAggregator
  | Tool | ParameterExtractor | Iteration | DocExtractor | ListFilter | IterationStart
  | Assigner | Agent | AgentV2 | Loop | LoopStart | LoopEnd | HumanInput | DataSource
  | DataSourceEmpty | KnowledgeBase | TriggerSchedule | TriggerWebhook | TriggerPlugin

text \<open>
  \<^verbatim>\<open>NodeRunningStatus\<close> and \<^verbatim>\<open>WorkflowRunningStatus\<close> are string enums that share their values, and the
  wire type of a status is a plain string: \<open>OtherStatus\<close> stands for every further string.
\<close>

datatype running_status =
    NotStart | Waiting | Listening | Running | Succeeded | Failed | Exception | Retry
  | Stopped | Paused | OtherStatus string

record branch =
  branch_id :: string
  branch_name :: string

record case_item =
  case_id :: string
  case_logical_operator :: string
  case_conditions :: jsval

record retry_config =
  retry_enabled :: bool
  max_retries :: int
  retry_interval :: int

record node_payload =
  p_start_node_id :: "string option"
  p_cases :: "case_item list option"
  p_conditions :: "jsval option"
  p_logical_operator :: "string option"
  p_classes :: "branch list option"
  p_is_parallel :: "bool option"
  p_parallel_nums :: "int option"
  p_error_handle_mode :: "string option"
  p_model_provider :: "string option"
  p_reranking_provider :: "string option"
  p_retry_config :: "retry_config option"
  p_version :: "string option"
  p_tool_node_version :: "string option"
  p_tool_configurations :: "jsobj option"
  p_agent_node_kind :: "string option"

record node_data =
  d_type :: BlockEnum
  d_title :: string
  d_desc :: string
  d_selected :: bool
  d_isBundled :: bool
  d_connectedSourceHandleIds :: "string list option"
  d_connectedTargetHandleIds :: "string list option"
  d_targetBranches :: "branch list option"
  d_runningStatus :: "running_status option"
  d_runningBranchId :: jsval
  d_children :: "(string \<times> BlockEnum) list option"
  d_iterationLength :: "int option"
  d_iterationIndex :: "int option"
  d_loopLength :: "int option"
  d_loopIndex :: "int option"
  d_retryIndex :: "int option"
  d_waitingRun :: "bool option"
  d_isInIteration :: "bool option"
  d_isInLoop :: "bool option"
  d_payload :: node_payload

record node =
  n_id :: string
  n_type :: "string option"
  n_parentId :: "string option"
  n_position :: "(real \<times> real) option"
  n_width :: "real option"
  n_height :: "real option"
  n_zIndex :: "int option"
  n_selected :: bool
  n_data :: node_data

record edge_data =
  ed_sourceType :: "BlockEnum option"
  ed_targetType :: "BlockEnum option"
  ed_hovering :: bool
  ed_isBundled :: bool
  ed_connectedNodeIsSelected :: bool
  ed_sourceRunningStatus :: "running_status option"
  ed_targetRunningStatus :: "running_status option"
  ed_waitingRun :: "bool option"
  ed_isInIteration :: "bool option"
  ed_iteration_id :: "string option"
  ed_isInLoop :: "bool option"
  ed_loop_id :: "string option"

record edge =
  e_id :: string
  e_type :: "string option"
  e_source :: string
  e_sourceHandle :: "string option"
  e_target :: string
  e_targetHandle :: "string option"
  e_selected :: bool
  e_zIndex :: "int option"
  e_data :: "edge_data option"

text \<open>\<^verbatim>\<open>{ ...edge.data }\<close> of an edge without data is an object without properties.\<close>

definition no_edge_data :: edge_data where
  "no_edge_data = \<lparr>ed_sourceType = None, ed_targetType = None, ed_hovering = False,
     ed_isBundled = False, ed_connectedNodeIsSelected = False, ed_sourceRunningStatus = None,
     ed_targetRunningStatus = None, ed_waitingRun = None, ed_isInIteration = None,
     ed_iteration_id = None, ed_isInLoop = None, ed_loop_id = None\<rparr>"

definition spread_edge_data :: "edge \<Rightarrow> edge_data" where
  "spread_edge_data e = (case e_data e of None \<Rightarrow> no_edge_data | Some d \<Rightarrow> d)"

definition no_payload :: node_payload where
  "no_payload = \<lparr>p_start_node_id = None, p_cases = None, p_conditions = None,
     p_logical_operator = None, p_classes = None, p_is_parallel = None, p_parallel_nums = None,
     p_error_handle_mode = None, p_model_provider = None, p_reranking_provider = None,
     p_retry_config = None, p_version = None, p_tool_node_version = None,
     p_tool_configurations = None, p_agent_node_kind = None\<rparr>"

definition node_data_of :: "BlockEnum \<Rightarrow> string \<Rightarrow> string \<Rightarrow> node_data" where
  "node_data_of t title desc = \<lparr>d_type = t, d_title = title, d_desc = desc, d_selected = False,
     d_isBundled = False, d_connectedSourceHandleIds = None, d_connectedTargetHandleIds = None,
     d_targetBranches = None, d_runningStatus = None, d_runningBranchId = JUndefined,
     d_children = None, d_iterationLength = None, d_iterationIndex = None, d_loopLength = None,
     d_loopIndex = None, d_retryIndex = None, d_waitingRun = None, d_isInIteration = None,
     d_isInLoop = None, d_payload = no_payload\<rparr>"

section \<open>Constants of the canvas\<close>

abbreviation CUSTOM_NODE :: string where "CUSTOM_NODE \<equiv> ''custom''"
abbreviation CUSTOM_NOTE_NODE :: string where "CUSTOM_NOTE_NODE \<equiv> ''custom-note''"
abbreviation CUSTOM_ITERATION_START_NODE :: string where
  "CUSTOM_ITERATION_START_NODE \<equiv> ''custom-iteration-start''"
abbreviation CUSTOM_LOOP_START_NODE :: string where
  "CUSTOM_LOOP_START_NODE \<equiv> ''custom-loop-start''"

definition DEFAULT_ITER_TIMES :: int where "DEFAULT_ITER_TIMES = 1"

definition isTriggerNode :: "BlockEnum \<Rightarrow> bool" where
  "isTriggerNode t = (t \<in> {TriggerSchedule, TriggerWebhook, TriggerPlugin})"

text \<open>The test \<^verbatim>\<open>if (node.parentId)\<close> of an optional id: absent and empty are both false.\<close>

definition truthy_parent :: "string option \<Rightarrow> bool" where
  "truthy_parent p = (case p of None \<Rightarrow> False | Some x \<Rightarrow> x \<noteq> [])"

section \<open>Updating the data of nodes and edges\<close>

text \<open>\<^verbatim>\<open>node.data.f = v\<close> on one node.\<close>

definition with_data :: "(node_data \<Rightarrow> node_data) \<Rightarrow> node \<Rightarrow> node" where
  "with_data f n = n\<lparr>n_data := f (n_data n)\<rparr>"

definition with_edge_data :: "(edge_data \<Rightarrow> edge_data) \<Rightarrow> edge \<Rightarrow> edge" where
  "with_edge_data f e = e\<lparr>e_data := Some (f (spread_edge_data e))\<rparr>"

lemma with_data_frame [frame_simps, simp]:
  "n_id (with_data f n) = n_id n"
  "n_type (with_data f n) = n_type n"
  "n_parentId (with_data f n) = n_parentId n"
  "n_position (with_data f n) = n_position n"
  "n_width (with_data f n) = n_width n"
  "n_height (with_data f n) = n_height n"
  "n_zIndex (with_data f n) = n_zIndex n"
  "n_selected (with_data f n) = n_selected n"
  "n_data (with_data f n) = f (n_data n)"
  by (simp_all add: with_data_def)

lemma with_edge_data_frame [frame_simps, simp]:
  "e_id (with_edge_data f e) = e_id e"
  "e_type (with_edge_data f e) = e_type e"
  "e_source (with_edge_data f e) = e_source e"
  "e_sourceHandle (with_edge_data f e) = e_sourceHandle e"
  "e_target (with_edge_data f e) = e_target e"
  "e_targetHandle (with_edge_data f e) = e_targetHandle e"
  "e_selected (with_edge_data f e) = e_selected e"
  "e_zIndex (with_edge_data f e) = e_zIndex e"
  "e_data (with_edge_data f e) = Some (f (spread_edge_data e))"
  by (simp_all add: with_edge_data_def)

text \<open>Nodes are addressed by their id; changing the data of one keeps all ids.\<close>

interpretation node_store: keyed_update n_id with_data
  by unfold_locales simp

interpretation edge_store: keyed_update e_id with_edge_data
  by unfold_locales simp

text \<open>
  What the canvas draws and the draft stores, as opposed to the transient run state: a node without
  its data, except the kind, and an edge without its data.
\<close>

definition node_shape ::
  "node \<Rightarrow> string \<times> string option \<times> string option \<times> (real \<times> real) option \<times> BlockEnum \<times> node_payload"
where
  "node_shape n = (n_id n, n_type n, n_parentId n, n_position n, d_type (n_data n), d_payload (n_data n))"

definition edge_shape :: "edge \<Rightarrow> string \<times> string \<times> string option \<times> string \<times> string option" where
  "edge_shape e = (e_id e, e_source e, e_sourceHandle e, e_target e, e_targetHandle e)"

lemma edge_shape_with_edge_data [frame_simps, simp]: "edge_shape (with_edge_data f e) = edge_shape e"
  by (simp add: edge_shape_def)

lemma node_shape_with_data [frame_simps]:
  "d_type (f (n_data n)) = d_type (n_data n) \<Longrightarrow> d_payload (f (n_data n)) = d_payload (n_data n) \<Longrightarrow>
   node_shape (with_data f n) = node_shape n"
  by (simp add: node_shape_def)

section \<open>Small nodes and edges for the witnesses\<close>

definition sample_node :: "string \<Rightarrow> BlockEnum \<Rightarrow> node" where
  "sample_node i t = \<lparr>n_id = i, n_type = Some ''custom'', n_parentId = None,
     n_position = Some (80, 282), n_width = Some 240, n_height = Some 90, n_zIndex = None,
     n_selected = False, n_data = node_data_of t [] []\<rparr>"

definition sample_edge :: "string \<Rightarrow> string \<Rightarrow> edge" where
  "sample_edge a b = \<lparr>e_id = a @ ''-'' @ b, e_type = Some ''custom'', e_source = a,
     e_sourceHandle = Some ''source'', e_target = b, e_targetHandle = Some ''target'',
     e_selected = False, e_zIndex = None, e_data = None\<rparr>"

end
