(* ===== verification/File_Utils.thy ===== *)
theory File_Utils
  imports Flow_Types
begin

text \<open>
  File entries of a run's outputs (\<^verbatim>\<open>web/app/components/base/file-uploader/utils.ts\<close>): the extension
  and kind of a file, and the files found among the outputs of a finished run. The package
  \<^verbatim>\<open>mime\<close> is the parameter \<open>allExt\<close>, its \<^verbatim>\<open>getAllExtensions\<close>: the extensions of a type in the order of
  the set it returns, \<open>None\<close> for an unknown type.
\<close>

type_synonym mime_lib = "string \<Rightarrow> string list option"

definition FILE_EXTS :: "(string \<times> string list) list" where
  "FILE_EXTS =
     [(''image'', [''JPG'', ''JPEG'', ''PNG'', ''GIF'', ''WEBP'', ''SVG'']),
      (''document'', [''TXT'', ''MD'', ''MDX'', ''MARKDOWN'', ''PDF'', ''HTML'', ''XLSX'', ''XLS'', ''DOC'',
         ''DOCX'', ''CSV'', ''EML'', ''MSG'', ''PPTX'', ''PPT'', ''XML'', ''EPUB'']),
      (''audio'', [''MP3'', ''M4A'', ''WAV'', ''AMR'', ''MPGA'']),
      (''video'', [''MP4'', ''MOV'', ''MPEG'', ''WEBM''])]"

definition additionalExtensionMap :: "string \<Rightarrow> string list" where
  "additionalExtensionMap m = (if m = ''text/x-markdown'' then [''md''] else [])"

definition extensions_of :: "mime_lib \<Rightarrow> string \<Rightarrow> string list" where
  "extensions_of allExt fileMimetype =
     (if fileMimetype = [] then []
      else dedup ((case allExt fileMimetype of None \<Rightarrow> [] | Some es \<Rightarrow> es) @
                  additionalExtensionMap fileMimetype))"

definition getFileExtension :: "mime_lib \<Rightarrow> string \<Rightarrow> string \<Rightarrow> bool \<Rightarrow> string" where
  "getFileExtension allExt fileName fileMimetype isRemote =
     (let extensions = extensions_of allExt fileMimetype;
          fileNamePair = split_on CHR ''.'' fileName;
          extensionInFileName =
            (if fileName \<noteq> [] \<and> length fileNamePair > 1 then toLowerCase (last fileNamePair) else []);
          extension0 =
            (if fileName \<noteq> [] \<and> length fileNamePair > 1 \<and> extensionInFileName \<in> set extensions
             then extensionInFileName else []);
          extension =
            (if extension0 = []
             then (case extensions of e # _ \<Rightarrow> (if e = [] then [] else toLowerCase e)
                   | [] \<Rightarrow> extensionInFileName)
             else extension0)
      in if isRemote then [] else extension)"

datatype FileAppearanceType =
    FA_gif | FA_image | FA_video | FA_audio | FA_code | FA_pdf | FA_markdown | FA_excel | FA_word
  | FA_ppt | FA_document | FA_custom

definition file_exts_of :: "string \<Rightarrow> string list" where
  "file_exts_of k = (case map_of FILE_EXTS k of None \<Rightarrow> [] | Some es \<Rightarrow> es)"

definition getFileAppearanceType :: "mime_lib \<Rightarrow> string \<Rightarrow> string \<Rightarrow> FileAppearanceType" where
  "getFileAppearanceType allExt fileName fileMimetype =
     (let extension = getFileExtension allExt fileName fileMimetype False in
      if extension = ''gif'' then FA_gif
      else if toUpperCase extension \<in> set (file_exts_of ''image'') then FA_image
      else if toUpperCase extension \<in> set (file_exts_of ''video'') then FA_video
      else if toUpperCase extension \<in> set (file_exts_of ''audio'') then FA_audio
      else if extension = ''html'' then FA_code
      else if extension = ''pdf'' then FA_pdf
      else if extension \<in> {''md'', ''markdown'', ''mdx''} then FA_markdown
      else if extension \<in> {''xlsx'', ''xls''} then FA_excel
      else if extension \<in> {''docx'', ''doc''} then FA_word
      else if extension \<in> {''pptx'', ''ppt''} then FA_ppt
      else if toUpperCase extension \<in> set (file_exts_of ''document'') then FA_document
      else FA_custom)"

definition getSupportFileType :: "mime_lib \<Rightarrow> string \<Rightarrow> string \<Rightarrow> bool \<Rightarrow> string" where
  "getSupportFileType allExt fileName fileMimetype isCustom =
     (if isCustom then ''custom''
      else (let extension = getFileExtension allExt fileName fileMimetype False in
        case find (\<lambda>(key, exts). toUpperCase extension \<in> set exts) FILE_EXTS of
          Some (key, exts) \<Rightarrow> key | None \<Rightarrow> []))"

text \<open>
  A file of a response has the shape the server sent, so its properties are dynamic values. Calling
  \<^verbatim>\<open>split\<close> on a name that is not a string throws, as does reading a property of \<^verbatim>\<open>null\<close>.
\<close>

record file_entity =
  fe_id :: jsval
  fe_name :: jsval
  fe_size :: jsval
  fe_type :: jsval
  fe_progress :: int
  fe_transferMethod :: jsval
  fe_supportFileType :: jsval
  fe_uploadedId :: jsval
  fe_url :: jsval

definition js_or :: "jsval \<Rightarrow> jsval \<Rightarrow> jsval" where
  "js_or a b = (if js_truthy a then a else b)"

fun as_string :: "jsval \<Rightarrow> js_error + string" where
  "as_string (JStr s) = Inr s"
| "as_string _ = Inl TypeError"

definition detectedSupportType :: "mime_lib \<Rightarrow> jsval \<Rightarrow> js_error + jsval" where
  "detectedSupportType allExt fileItem =
     (let fname = js_get fileItem ''filename''; mtype = js_get fileItem ''mime_type'' in
      if js_truthy fname \<and> js_truthy mtype
      then (case as_string fname of Inl e \<Rightarrow> Inl e
        | Inr f \<Rightarrow> (case as_string mtype of Inl e \<Rightarrow> Inl e
          | Inr m \<Rightarrow>
            (let fromName = getSupportFileType allExt f [] False;
                 fromMime = getSupportFileType allExt [] m False
             in Inr (if fromName \<noteq> [] \<and> fromMime \<noteq> [] \<and> fromName = fromMime
                        \<and> JStr fromName \<noteq> js_get fileItem ''type''
                     then JStr fromName else js_get fileItem ''type''))))
      else Inr (js_get fileItem ''type''))"

definition processedFile :: "mime_lib \<Rightarrow> jsval \<Rightarrow> js_error + file_entity" where
  "processedFile allExt fileItem =
     (if fileItem \<in> {JNull, JUndefined} then Inl TypeError
      else (case detectedSupportType allExt fileItem of Inl e \<Rightarrow> Inl e
        | Inr supportFileType \<Rightarrow> Inr
          \<lparr>fe_id = js_get fileItem ''related_id'',
           fe_name = js_get fileItem ''filename'',
           fe_size = js_or (js_get fileItem ''size'') (JNum (Finite 0)),
           fe_type = js_get fileItem ''mime_type'',
           fe_progress = 100,
           fe_transferMethod = js_get fileItem ''transfer_method'',
           fe_supportFileType = supportFileType,
           fe_uploadedId = js_or (js_get fileItem ''upload_file_id'') (js_get fileItem ''related_id''),
           fe_url = js_or (js_get fileItem ''url'') (js_get fileItem ''remote_url'')\<rparr>))"

definition getProcessedFilesFromResponse :: "mime_lib \<Rightarrow> jsval list \<Rightarrow> js_error + file_entity list" where
  "getProcessedFilesFromResponse allExt files = map_result (processedFile allExt) files"

definition is_dify_file :: "jsval \<Rightarrow> bool" where
  "is_dify_file v = (js_get v ''dify_model_identity'' = JStr ''__dify__file__'')"

fun files_of_value :: "mime_lib \<Rightarrow> jsval \<Rightarrow> js_error + file_entity list option" where
  "files_of_value allExt (JObj ob) =
     (if is_dify_file (JObj ob)
      then (case getProcessedFilesFromResponse allExt [JObj ob] of
              Inl e \<Rightarrow> Inl e | Inr fs \<Rightarrow> Inr (Some fs))
      else Inr None)"
| "files_of_value allExt (JArr vs) =
     (if \<exists>v \<in> set vs. is_dify_file v
      then (case getProcessedFilesFromResponse allExt vs of
              Inl e \<Rightarrow> Inl e | Inr fs \<Rightarrow> Inr (Some fs))
      else Inr None)"
| "files_of_value allExt v = Inr None"

definition getFilesInLogs :: "mime_lib \<Rightarrow> jsval \<Rightarrow> js_error + (string \<times> file_entity list) list" where
  "getFilesInLogs allExt rawData =
     (case map_result (\<lambda>key. case files_of_value allExt (js_get rawData key) of
               Inl e \<Rightarrow> Inl e | Inr fs \<Rightarrow> Inr (map_option (Pair key) fs))
             (object_keys (if js_truthy rawData then rawData else JObj [])) of
        Inl e \<Rightarrow> Inl e
      | Inr rows \<Rightarrow> Inr (List.map_filter id rows))"

text \<open>
  The extension of a file is chosen from the extensions of its MIME type when the type is known, and
  from the name otherwise.
\<close>

lemma getFileExtension_choice:
  assumes "extensions_of allExt m \<noteq> []" and "[] \<notin> set (extensions_of allExt m)"
  shows "\<exists>e \<in> set (extensions_of allExt m).
           getFileExtension allExt f m False \<in> {e, toLowerCase e}"
proof (cases "extensions_of allExt m")
  case (Cons e es)
  then show ?thesis
    using assms by (auto simp: getFileExtension_def Let_def)
qed (use assms in simp)

end
