(* ===== verification/Run_Events.thy ===== *)
theory Run_Events
  imports File_Utils
begin

text \<open>
  The live view of a workflow run: what each server event does to the run panel, the nodes and the
  edges (\<^verbatim>\<open>web/app/components/workflow/hooks/use-workflow-run-event/*.ts\<close>). One definition per handler,
  under the handler's name; \<open>run_store\<close> joins the parts of the zustand store and of the React Flow
  store that the handlers read and write. A handler is a sequence of store writes, and \<open>Threw\<close> keeps
  the writes made before an exception.
\<close>

section \<open>Wire data\<close>

record AgentLogItem =
  al_message_id :: string
  al_id :: "string option"
  al_node_id :: string
  al_parent_id :: "string option"
  al_label :: string
  al_status :: string
  al_error :: "string option"
  al_rest :: jsobj

record exec_metadata =
  em_iteration_id :: "string option"
  em_iteration_index :: "int option"
  em_loop_id :: "string option"
  em_loop_index :: "int option"
  em_parallel_id :: "string option"
  em_parallel_start_node_id :: "string option"
  em_parent_parallel_id :: "string option"
  em_parent_parallel_start_node_id :: "string option"
  em_parallel_mode_run_id :: "string option"
  em_error_strategy :: "string option"
  em_agent_log :: "AgentLogItem list option"
  em_rest :: jsobj

record NodeTracing =
  nt_id :: string
  nt_index :: int
  nt_node_id :: string
  nt_node_type :: BlockEnum
  nt_title :: string
  nt_outputs :: "jsval option"
  nt_status :: running_status
  nt_error :: "string option"
  nt_execution_metadata :: "exec_metadata option"
  nt_iterator_length :: int
  nt_loop_length :: int
  nt_retry_index :: "int option"
  nt_parallel_id :: "string option"
  nt_parallel_start_node_id :: "string option"
  nt_parent_parallel_id :: "string option"
  nt_parent_parallel_start_node_id :: "string option"
  nt_rest :: jsobj

definition no_exec_metadata :: exec_metadata where
  "no_exec_metadata = \<lparr>em_iteration_id = None, em_iteration_index = None, em_loop_id = None,
     em_loop_index = None, em_parallel_id = None, em_parallel_start_node_id = None,
     em_parent_parallel_id = None, em_parent_parallel_start_node_id = None,
     em_parallel_mode_run_id = None, em_error_strategy = None, em_agent_log = None, em_rest = []\<rparr>"

text \<open>\<^verbatim>\<open>{ ...a, ...b }\<close> on two traces: the required fields of \<open>b\<close>, its optional ones where present.\<close>

definition spread_tracing :: "NodeTracing \<Rightarrow> NodeTracing \<Rightarrow> NodeTracing" where
  "spread_tracing a b = \<lparr>nt_id = nt_id b, nt_index = nt_index b, nt_node_id = nt_node_id b,
     nt_node_type = nt_node_type b, nt_title = nt_title b,
     nt_outputs = opt_or (nt_outputs a) (nt_outputs b),
     nt_status = nt_status b, nt_error = opt_or (nt_error a) (nt_error b),
     nt_execution_metadata = opt_or (nt_execution_metadata a) (nt_execution_metadata b),
     nt_iterator_length = nt_iterator_length b, nt_loop_length = nt_loop_length b,
     nt_retry_index = opt_or (nt_retry_index a) (nt_retry_index b),
     nt_parallel_id = opt_or (nt_parallel_id a) (nt_parallel_id b),
     nt_parallel_start_node_id = opt_or (nt_parallel_start_node_id a) (nt_parallel_start_node_id b),
     nt_parent_parallel_id = opt_or (nt_parent_parallel_id a) (nt_parent_parallel_id b),
     nt_parent_parallel_start_node_id =
       opt_or (nt_parent_parallel_start_node_id a) (nt_parent_parallel_start_node_id b),
     nt_rest = obj_spread (nt_rest a) (nt_rest b)\<rparr>"

definition spread_agent_log :: "AgentLogItem \<Rightarrow> AgentLogItem \<Rightarrow> AgentLogItem" where
  "spread_agent_log a b = \<lparr>al_message_id = al_message_id b, al_id = opt_or (al_id a) (al_id b),
     al_node_id = al_node_id b, al_parent_id = opt_or (al_parent_id a) (al_parent_id b),
     al_label = al_label b, al_status = al_status b, al_error = opt_or (al_error a) (al_error b),
     al_rest = obj_spread (al_rest a) (al_rest b)\<rparr>"

record HumanInputFormData =
  hf_node_id :: string
  hf_expiration_time :: int
  hf_rest :: jsobj

record HumanInputFilledFormData =
  hff_node_id :: string
  hff_rest :: jsobj

record finished_data =
  fd_status :: running_status
  fd_outputs :: jsval
  fd_rest :: jsobj

section \<open>State\<close>

record run_result =
  rr_status :: running_status
  rr_outputs :: "jsval option"
  rr_files :: "(string \<times> file_entity list) list option"
  rr_rest :: jsobj

record running_data =
  rd_task_id :: "string option"
  rd_result :: run_result
  rd_tracing :: "NodeTracing list option"
  rd_humanInputFormDataList :: "HumanInputFormData list option"
  rd_humanInputFilledFormDataList :: "HumanInputFilledFormData list option"
  rd_resultTabActive :: bool
  rd_resultText :: "string option"
  rd_resultTextSelectorKey :: "string option"
  rd_reasoningContent :: "(string \<times> string) list option"
  rd_reasoningFinished :: bool

record viewport =
  vp_x :: jsnum
  vp_y :: jsnum
  vp_zoom :: real

record container_params =
  clientWidth :: real
  clientHeight :: real

record run_store =
  rs_workflowRunningData :: "running_data option"
  rs_iterTimes :: int
  rs_iterParallelLogMap :: "(string \<times> (string \<times> NodeTracing list) list) list"
  rs_nodes :: "node list"
  rs_edges :: "edge list"
  rs_zoom :: real
  rs_viewport :: "viewport option"

section \<open>Store writes\<close>

text \<open>
  \<^verbatim>\<open>setWorkflowRunningData(produce(workflowRunningData!, recipe))\<close>: without running data the recipe
  reads a property of \<^verbatim>\<open>undefined\<close> and throws; when it throws nothing is written.
\<close>

definition setRunningData ::
  "(running_data \<Rightarrow> js_error + running_data) \<Rightarrow> run_store \<Rightarrow> run_store outcome" where
  "setRunningData recipe s =
     (case rs_workflowRunningData s of
        None \<Rightarrow> Threw TypeError s
      | Some d \<Rightarrow> (case recipe d of
          Inl e \<Rightarrow> Threw e s
        | Inr d' \<Rightarrow> Ok (s\<lparr>rs_workflowRunningData := Some d'\<rparr>)))"

definition onTracing ::
  "(NodeTracing list \<Rightarrow> NodeTracing list) \<Rightarrow> running_data \<Rightarrow> js_error + running_data" where
  "onTracing f d =
     (case rd_tracing d of None \<Rightarrow> Inl TypeError | Some tr \<Rightarrow> Inr (d\<lparr>rd_tracing := Some (f tr)\<rparr>))"

text \<open>
  \<^verbatim>\<open>draft.find(node => node.id === id)!\<close> followed by assignments to its data, written back with
  \<^verbatim>\<open>setNodes\<close>; a missing node throws inside the recipe.
\<close>

definition setNodeData ::
  "string \<Rightarrow> (node_data \<Rightarrow> node_data) \<Rightarrow> run_store \<Rightarrow> run_store outcome" where
  "setNodeData nid f s =
     (if \<exists>n \<in> set (rs_nodes s). n_id n = nid
      then Ok (s\<lparr>rs_nodes := update_first (\<lambda>n. n_id n = nid) (with_data f) (rs_nodes s)\<rparr>)
      else Threw TypeError s)"

definition setIncomeEdges ::
  "string \<Rightarrow> (edge \<Rightarrow> edge) \<Rightarrow> run_store \<Rightarrow> run_store outcome" where
  "setIncomeEdges nid f s =
     Ok (s\<lparr>rs_edges := map (\<lambda>e. if e_target e = nid then f e else e) (rs_edges s)\<rparr>)"

definition mergeTracing :: "NodeTracing \<Rightarrow> NodeTracing list \<Rightarrow> NodeTracing list" where
  "mergeTracing data tr =
     (let currentIndex = findIndex (\<lambda>item. nt_id item = nt_id data) tr in
      if currentIndex > -1
      then set_index tr currentIndex (spread_tracing (tr ! nat currentIndex) data)
      else tr)"

definition times_zoom :: "real option \<Rightarrow> real \<Rightarrow> real option" where
  "times_zoom w z = map_option (\<lambda>x. x * z) w"

definition num_of :: "real option \<Rightarrow> jsnum" where
  "num_of x = (case x of None \<Rightarrow> NaN | Some r \<Rightarrow> Finite r)"

text \<open>The canvas centres the node that starts, unless it lives inside an iteration or a loop.\<close>

definition centerViewport :: "container_params \<Rightarrow> string \<Rightarrow> run_store \<Rightarrow> run_store outcome" where
  "centerViewport cp nid s =
     (case find (\<lambda>n. n_id n = nid) (rs_nodes s) of
        None \<Rightarrow> Threw TypeError s
      | Some n \<Rightarrow>
          if truthy_parent (n_parentId n) then Ok s
          else (case n_position n of
            None \<Rightarrow> Threw TypeError s
          | Some (x, y) \<Rightarrow>
              (let z = rs_zoom s in
               Ok (s\<lparr>rs_viewport := Some \<lparr>
                 vp_x = num_of (map_option (\<lambda>w. (clientWidth cp - 400 - w) / 2 - x * z) (times_zoom (n_width n) z)),
                 vp_y = num_of (map_option (\<lambda>h. (clientHeight cp - h) / 2 - y * z) (times_zoom (n_height n) z)),
                 vp_zoom = z\<rparr>\<rparr>))))"

section \<open>Workflow level handlers\<close>

definition handleWorkflowStarted :: "string \<Rightarrow> jsobj \<Rightarrow> run_store \<Rightarrow> run_store outcome" where
  "handleWorkflowStarted task_id data s =
     (if (case rs_workflowRunningData s of None \<Rightarrow> False | Some d \<Rightarrow> rr_status (rd_result d) = Paused)
      then setRunningData (\<lambda>d. Inr (d\<lparr>rd_result := (rd_result d)\<lparr>rr_status := Running\<rparr>\<rparr>)) s
      else
        andThen (setRunningData (\<lambda>d. Inr (d\<lparr>rd_task_id := Some task_id,
             rd_result := (rd_result d)\<lparr>rr_status := Running,
               rr_rest := obj_spread (rr_rest (rd_result d)) data\<rparr>,
             rd_resultText := Some [],
             rd_resultTextSelectorKey := None\<rparr>)) (s\<lparr>rs_iterParallelLogMap := []\<rparr>))
          (\<lambda>s. Ok (s\<lparr>
             rs_nodes := map (with_data (\<lambda>d. d\<lparr>d_waitingRun := Some True, d_runningBranchId := JUndefined\<rparr>))
               (rs_nodes s),
             rs_edges := map (with_edge_data (\<lambda>d. d\<lparr>ed_sourceRunningStatus := None,
               ed_targetRunningStatus := None, ed_waitingRun := Some True\<rparr>)) (rs_edges s)\<rparr>)))"

definition isStringOutput :: "jsval \<Rightarrow> string option" where
  "isStringOutput outputs =
     (if js_truthy outputs \<and> length (object_keys outputs) = 1
      then (case js_get outputs (hd (object_keys outputs)) of JStr t \<Rightarrow> Some t | _ \<Rightarrow> None)
      else None)"

definition handleWorkflowFinished :: "mime_lib \<Rightarrow> finished_data \<Rightarrow> run_store \<Rightarrow> run_store outcome" where
  "handleWorkflowFinished allExt data s =
     setRunningData (\<lambda>d. case getFilesInLogs allExt (fd_outputs data) of
         Inl e \<Rightarrow> Inl e
       | Inr fs \<Rightarrow>
           (let d1 = d\<lparr>rd_result := \<lparr>rr_status = fd_status data, rr_outputs = Some (fd_outputs data),
                  rr_files = Some fs, rr_rest = obj_spread (rr_rest (rd_result d)) (fd_rest data)\<rparr>\<rparr>
            in Inr (case isStringOutput (fd_outputs data) of
                 None \<Rightarrow> d1
               | Some t \<Rightarrow> d1\<lparr>rd_resultTabActive := True, rd_resultText := Some t\<rparr>))) s"

definition handleWorkflowFailed :: "run_store \<Rightarrow> run_store outcome" where
  "handleWorkflowFailed s =
     setRunningData (\<lambda>d. Inr (d\<lparr>rd_result := (rd_result d)\<lparr>rr_status := Failed\<rparr>\<rparr>)) s"

definition handleWorkflowPaused :: "run_store \<Rightarrow> run_store outcome" where
  "handleWorkflowPaused s =
     setRunningData (\<lambda>d. Inr (d\<lparr>rd_result := (rd_result d)\<lparr>rr_status := Paused\<rparr>\<rparr>)) s"

section \<open>Node level handlers\<close>

text \<open>
  \<^verbatim>\<open>if (currentIndex && currentIndex > -1)\<close>: an index \<open>0\<close> is falsy, so a trace at the head of the
  list is not replaced but followed by a second one.
\<close>

definition startTracing :: "NodeTracing \<Rightarrow> run_store \<Rightarrow> run_store outcome" where
  "startTracing data s =
     (let currentIndex = Option.bind (rs_workflowRunningData s) (\<lambda>d. map_option
            (findIndex (\<lambda>item. nt_node_id item = nt_node_id data)) (rd_tracing d));
          entry = data\<lparr>nt_status := Running\<rparr>
      in case currentIndex of
           Some i \<Rightarrow>
             if i \<noteq> 0 \<and> i > -1
             then setRunningData (onTracing (\<lambda>tr. set_index tr i entry)) s
             else setRunningData (onTracing (\<lambda>tr. tr @ [entry])) s
         | None \<Rightarrow> setRunningData (onTracing (\<lambda>tr. tr @ [entry])) s)"

definition startEdge :: "node list \<Rightarrow> edge \<Rightarrow> edge" where
  "startEdge nodes e =
     (case find (\<lambda>n. n_id n = e_source e) nodes of
        None \<Rightarrow> e
      | Some incomeNode \<Rightarrow>
          (let b = d_runningBranchId (n_data incomeNode) in
           if (\<not> js_truthy b \<and> e_sourceHandle e = Some ''source'')
              \<or> (js_truthy b \<and> map_option JStr (e_sourceHandle e) = Some b)
           then with_edge_data (\<lambda>d. d\<lparr>ed_sourceRunningStatus := d_runningStatus (n_data incomeNode),
                  ed_targetRunningStatus := Some Running, ed_waitingRun := Some False\<rparr>) e
           else e))"

definition handleWorkflowNodeStarted ::
  "container_params \<Rightarrow> NodeTracing \<Rightarrow> run_store \<Rightarrow> run_store outcome" where
  "handleWorkflowNodeStarted cp data s =
     (let nodes = rs_nodes s; nid = nt_node_id data in
      andThen (startTracing data s) (\<lambda>s.
      andThen (centerViewport cp nid s) (\<lambda>s.
      andThen (setNodeData nid (\<lambda>d. d\<lparr>d_runningStatus := Some Running, d_waitingRun := Some False\<rparr>) s)
        (setIncomeEdges nid (startEdge nodes)))))"

definition finishedBranch :: "NodeTracing \<Rightarrow> node_data \<Rightarrow> node_data" where
  "finishedBranch data d =
     (let out = (\<lambda>k. case nt_outputs data of None \<Rightarrow> JUndefined | Some v \<Rightarrow> js_get v k) in
      if nt_status data = Exception
      then (if Option.bind (nt_execution_metadata data) em_error_strategy = Some ''fail-branch''
            then d\<lparr>d_runningBranchId := JStr ''fail-branch''\<rparr> else d)
      else (case nt_node_type data of
          IfElse \<Rightarrow> d\<lparr>d_runningBranchId := out ''selected_case_id''\<rparr>
        | QuestionClassifier \<Rightarrow> d\<lparr>d_runningBranchId := out ''class_id''\<rparr>
        | HumanInput \<Rightarrow> d\<lparr>d_runningBranchId := out ''__action_id''\<rparr>
        | _ \<Rightarrow> d))"

definition finishEdge :: "running_status \<Rightarrow> edge \<Rightarrow> edge" where
  "finishEdge st = with_edge_data (\<lambda>d. d\<lparr>ed_targetRunningStatus := Some st\<rparr>)"

definition handleWorkflowNodeFinished :: "NodeTracing \<Rightarrow> run_store \<Rightarrow> run_store outcome" where
  "handleWorkflowNodeFinished data s =
     andThen (setRunningData (onTracing (mergeTracing data)) s) (\<lambda>s.
     andThen (setNodeData (nt_node_id data)
         (\<lambda>d. finishedBranch data (d\<lparr>d_runningStatus := Some (nt_status data)\<rparr>)) s)
       (setIncomeEdges (nt_node_id data) (finishEdge (nt_status data))))"

definition handleWorkflowNodeRetry :: "NodeTracing \<Rightarrow> run_store \<Rightarrow> run_store outcome" where
  "handleWorkflowNodeRetry data s =
     andThen (setRunningData (onTracing (\<lambda>tr. tr @ [data])) s)
       (setNodeData (nt_node_id data) (\<lambda>d. d\<lparr>d_retryIndex := nt_retry_index data\<rparr>))"

section \<open>Iterations and loops\<close>

text \<open>
  Both handlers read the running status of the source of each incoming edge with a non-null
  assertion, so an incoming edge from a node that is not on the canvas throws.
\<close>

definition startContainerEdges :: "node list \<Rightarrow> string \<Rightarrow> run_store \<Rightarrow> run_store outcome" where
  "startContainerEdges nodes nid s =
     (if \<forall>e \<in> set (rs_edges s). e_target e = nid \<longrightarrow> (\<exists>n \<in> set nodes. n_id n = e_source e)
      then setIncomeEdges nid (\<lambda>e. with_edge_data (\<lambda>d. d\<lparr>
             ed_sourceRunningStatus := Option.bind (find (\<lambda>n. n_id n = e_source e) nodes)
               (\<lambda>n. d_runningStatus (n_data n)),
             ed_targetRunningStatus := Some Running, ed_waitingRun := Some False\<rparr>) e) s
      else Threw TypeError s)"

definition handleWorkflowNodeIterationStarted ::
  "container_params \<Rightarrow> NodeTracing \<Rightarrow> run_store \<Rightarrow> run_store outcome" where
  "handleWorkflowNodeIterationStarted cp data s =
     (let nodes = rs_nodes s; nid = nt_node_id data in
      andThen (setRunningData (onTracing (\<lambda>tr. tr @ [data\<lparr>nt_status := Running\<rparr>])) s) (\<lambda>s.
      andThen (centerViewport cp nid (s\<lparr>rs_iterTimes := DEFAULT_ITER_TIMES\<rparr>)) (\<lambda>s.
      andThen (setNodeData nid (\<lambda>d. d\<lparr>d_runningStatus := Some Running,
          d_iterationLength := Some (nt_iterator_length data), d_waitingRun := Some False\<rparr>) s)
        (startContainerEdges nodes nid))))"

definition handleWorkflowNodeIterationNext :: "NodeTracing \<Rightarrow> run_store \<Rightarrow> run_store outcome" where
  "handleWorkflowNodeIterationNext data s =
     (let iterTimes = rs_iterTimes s in
      andThen (setNodeData (nt_node_id data) (\<lambda>d. d\<lparr>d_iterationIndex := Some iterTimes\<rparr>) s)
        (\<lambda>s. Ok (s\<lparr>rs_iterTimes := iterTimes + 1\<rparr>)))"

definition handleWorkflowNodeIterationFinished :: "NodeTracing \<Rightarrow> run_store \<Rightarrow> run_store outcome" where
  "handleWorkflowNodeIterationFinished data s =
     andThen (setRunningData (onTracing (mergeTracing data)) s) (\<lambda>s.
     andThen (setNodeData (nt_node_id data) (\<lambda>d. d\<lparr>d_runningStatus := Some (nt_status data)\<rparr>)
         (s\<lparr>rs_iterTimes := DEFAULT_ITER_TIMES\<rparr>))
       (setIncomeEdges (nt_node_id data) (finishEdge (nt_status data))))"

definition handleWorkflowNodeLoopStarted ::
  "container_params \<Rightarrow> NodeTracing \<Rightarrow> run_store \<Rightarrow> run_store outcome" where
  "handleWorkflowNodeLoopStarted cp data s =
     (let nodes = rs_nodes s; nid = nt_node_id data in
      andThen (setRunningData (onTracing (\<lambda>tr. tr @ [data\<lparr>nt_status := Running\<rparr>])) s) (\<lambda>s.
      andThen (centerViewport cp nid s) (\<lambda>s.
      andThen (setNodeData nid (\<lambda>d. d\<lparr>d_runningStatus := Some Running,
          d_loopLength := Some (nt_loop_length data), d_waitingRun := Some False\<rparr>) s)
        (startContainerEdges nodes nid))))"

definition handleWorkflowNodeLoopNext :: "NodeTracing \<Rightarrow> run_store \<Rightarrow> run_store outcome" where
  "handleWorkflowNodeLoopNext data s =
     andThen (setNodeData (nt_node_id data) (\<lambda>d. d\<lparr>d_loopIndex := Some (nt_index data)\<rparr>) s)
       (\<lambda>s. Ok (s\<lparr>rs_nodes := map (\<lambda>n. if n_parentId n = Some (nt_node_id data)
          then with_data (\<lambda>d. d\<lparr>d_waitingRun := Some True, d_runningStatus := Some Waiting\<rparr>) n
          else n) (rs_nodes s)\<rparr>))"

definition handleWorkflowNodeLoopFinished :: "NodeTracing \<Rightarrow> run_store \<Rightarrow> run_store outcome" where
  "handleWorkflowNodeLoopFinished data s =
     andThen (setRunningData (onTracing (mergeTracing data)) s) (\<lambda>s.
     andThen (setNodeData (nt_node_id data) (\<lambda>d. d\<lparr>d_runningStatus := Some (nt_status data)\<rparr>) s)
       (setIncomeEdges (nt_node_id data) (finishEdge (nt_status data))))"

section \<open>Streamed text, reasoning and agent logs\<close>

definition nl :: string where "nl = [CHR 10]"

text \<open>\<^verbatim>\<open>draft.resultText += text\<close> writes the word \<^verbatim>\<open>undefined\<close> in front when there is no text yet.\<close>

definition plus_text :: "string option \<Rightarrow> string \<Rightarrow> string" where
  "plus_text old t = (case old of None \<Rightarrow> ''undefined'' | Some o' \<Rightarrow> o') @ t"

definition shouldInsertLineBreak :: "string option \<Rightarrow> running_data \<Rightarrow> string \<Rightarrow> bool" where
  "shouldInsertLineBreak nextSelectorKey d t =
     (nonempty_opt nextSelectorKey \<and> nonempty_opt (rd_resultText d)
      \<and> nonempty_opt (rd_resultTextSelectorKey d)
      \<and> rd_resultTextSelectorKey d \<noteq> nextSelectorKey
      \<and> \<not> endsWith (case rd_resultText d of None \<Rightarrow> [] | Some x \<Rightarrow> x) nl
      \<and> \<not> startsWith t nl)"

definition textChunk :: "string \<Rightarrow> string list option \<Rightarrow> running_data \<Rightarrow> running_data" where
  "textChunk t from_variable_selector d =
     (let nextSelectorKey = map_option (join ''.'') from_variable_selector;
          d1 = d\<lparr>rd_resultTabActive := True\<rparr>;
          d2 = (if shouldInsertLineBreak nextSelectorKey d1 t
                then d1\<lparr>rd_resultText := Some (plus_text (rd_resultText d1) nl)\<rparr> else d1);
          d3 = d2\<lparr>rd_resultText := Some (plus_text (rd_resultText d2) t)\<rparr>
      in if nonempty_opt nextSelectorKey then d3\<lparr>rd_resultTextSelectorKey := nextSelectorKey\<rparr> else d3)"

definition handleWorkflowTextChunk :: "string \<Rightarrow> string list option \<Rightarrow> run_store \<Rightarrow> run_store outcome" where
  "handleWorkflowTextChunk t sel s = setRunningData (\<lambda>d. Inr (textChunk t sel d)) s"

definition handleWorkflowTextReplace :: "string \<Rightarrow> run_store \<Rightarrow> run_store outcome" where
  "handleWorkflowTextReplace t s =
     setRunningData (\<lambda>d. Inr (d\<lparr>rd_resultText := Some t, rd_resultTextSelectorKey := None\<rparr>)) s"

definition reasoningChunk :: "string \<Rightarrow> string option \<Rightarrow> bool \<Rightarrow> running_data \<Rightarrow> running_data" where
  "reasoningChunk reasoning node_id is_final d =
     (let content = (case rd_reasoningContent d of None \<Rightarrow> [] | Some c \<Rightarrow> c);
          key = (if nonempty_opt node_id then the node_id else ''_'');
          old = (case map_of content key of None \<Rightarrow> [] | Some t \<Rightarrow> t);
          content' = (if reasoning \<noteq> [] then obj_set key (old @ reasoning) content else content)
      in d\<lparr>rd_reasoningContent := Some content',
           rd_reasoningFinished := (is_final \<or> rd_reasoningFinished d)\<rparr>)"

definition handleWorkflowReasoning ::
  "string \<Rightarrow> string option \<Rightarrow> bool \<Rightarrow> run_store \<Rightarrow> run_store outcome" where
  "handleWorkflowReasoning reasoning node_id is_final s =
     setRunningData (\<lambda>d. Inr (reasoningChunk reasoning node_id is_final d)) s"

definition pushAgentLog :: "AgentLogItem \<Rightarrow> AgentLogItem list \<Rightarrow> AgentLogItem list" where
  "pushAgentLog data logs =
     (let i = findIndex (\<lambda>log. al_message_id log = al_message_id data) logs in
      if i > -1 then set_index logs i (spread_agent_log (logs ! nat i) data) else logs @ [data])"

definition addAgentLog :: "AgentLogItem \<Rightarrow> NodeTracing \<Rightarrow> NodeTracing" where
  "addAgentLog data current =
     (case nt_execution_metadata current of
        None \<Rightarrow> current\<lparr>nt_execution_metadata := Some (no_exec_metadata\<lparr>em_agent_log := Some [data]\<rparr>)\<rparr>
      | Some m \<Rightarrow> current\<lparr>nt_execution_metadata := Some (m\<lparr>em_agent_log :=
          Some (case em_agent_log m of None \<Rightarrow> [data] | Some logs \<Rightarrow> pushAgentLog data logs)\<rparr>)\<rparr>)"

definition agentLogTracing :: "AgentLogItem \<Rightarrow> NodeTracing list \<Rightarrow> NodeTracing list" where
  "agentLogTracing data tr =
     (let currentIndex = findIndex (\<lambda>item. nt_node_id item = al_node_id data) tr in
      if currentIndex > -1 then set_index tr currentIndex (addAgentLog data (tr ! nat currentIndex)) else tr)"

definition handleWorkflowAgentLog :: "AgentLogItem \<Rightarrow> run_store \<Rightarrow> run_store outcome" where
  "handleWorkflowAgentLog data s = setRunningData (onTracing (agentLogTracing data)) s"

section \<open>Human input\<close>

definition requireForm :: "HumanInputFormData \<Rightarrow> HumanInputFormData list option \<Rightarrow> HumanInputFormData list" where
  "requireForm data forms =
     (case forms of
        None \<Rightarrow> [data]
      | Some fs \<Rightarrow>
          (let i = findIndex (\<lambda>item. hf_node_id item = hf_node_id data) fs in
           if i > -1 then set_index fs i data else fs @ [data]))"

definition pauseTracing :: "string \<Rightarrow> NodeTracing list \<Rightarrow> NodeTracing list" where
  "pauseTracing nid tr =
     (let i = findIndex (\<lambda>item. nt_node_id item = nid) tr in
      if i > -1 then set_index tr i ((tr ! nat i)\<lparr>nt_status := Paused\<rparr>) else tr)"

definition handleWorkflowNodeHumanInputRequired :: "HumanInputFormData \<Rightarrow> run_store \<Rightarrow> run_store outcome" where
  "handleWorkflowNodeHumanInputRequired data s =
     andThen (setRunningData (\<lambda>d. onTracing (pauseTracing (hf_node_id data))
          (d\<lparr>rd_humanInputFormDataList := Some (requireForm data (rd_humanInputFormDataList d))\<rparr>)) s)
       (setNodeData (hf_node_id data) (\<lambda>d. d\<lparr>d_runningStatus := Some Paused\<rparr>))"

definition fillForms :: "string \<Rightarrow> HumanInputFormData list option \<Rightarrow> HumanInputFormData list option" where
  "fillForms nid forms =
     map_option (\<lambda>fs. if fs = [] then fs
        else splice fs (findIndex (\<lambda>item. hf_node_id item = nid) fs) 1 []) forms"

definition handleWorkflowNodeHumanInputFormFilled ::
  "HumanInputFilledFormData \<Rightarrow> run_store \<Rightarrow> run_store outcome" where
  "handleWorkflowNodeHumanInputFormFilled data s =
     setRunningData (\<lambda>d. Inr (d\<lparr>
        rd_humanInputFormDataList := fillForms (hff_node_id data) (rd_humanInputFormDataList d),
        rd_humanInputFilledFormDataList := Some (case rd_humanInputFilledFormDataList d of
            None \<Rightarrow> [data] | Some fs \<Rightarrow> fs @ [data])\<rparr>)) s"

definition handleWorkflowNodeHumanInputFormTimeout ::
  "string \<Rightarrow> int \<Rightarrow> run_store \<Rightarrow> run_store outcome" where
  "handleWorkflowNodeHumanInputFormTimeout nid expiration_time s =
     setRunningData (\<lambda>d. case rd_humanInputFormDataList d of
         None \<Rightarrow> Inr d
       | Some fs \<Rightarrow>
           if fs = [] then Inr d
           else if \<exists>f \<in> set fs. hf_node_id f = nid
           then Inr (d\<lparr>rd_humanInputFormDataList := Some (update_first (\<lambda>f. hf_node_id f = nid)
                  (\<lambda>f. f\<lparr>hf_expiration_time := expiration_time\<rparr>) fs)\<rparr>)
           else Inl TypeError) s"

section \<open>All events\<close>

datatype run_event =
    WorkflowStarted string jsobj
  | WorkflowFinished finished_data
  | WorkflowFailed
  | WorkflowPaused
  | NodeStarted NodeTracing
  | NodeFinished NodeTracing
  | NodeRetry NodeTracing
  | IterationStarted NodeTracing
  | IterationNext NodeTracing
  | IterationFinished NodeTracing
  | LoopStarted NodeTracing
  | LoopNext NodeTracing
  | LoopFinished NodeTracing
  | TextChunk string "string list option"
  | TextReplace string
  | Reasoning string "string option" bool
  | AgentLog AgentLogItem
  | HumanInputRequired HumanInputFormData
  | HumanInputFormFilled HumanInputFilledFormData
  | HumanInputFormTimeout string int

fun useWorkflowRunEvent ::
  "mime_lib \<Rightarrow> container_params \<Rightarrow> run_store \<Rightarrow> run_event \<Rightarrow> run_store outcome" where
  "useWorkflowRunEvent mime cp s (WorkflowStarted t d) = handleWorkflowStarted t d s"
| "useWorkflowRunEvent mime cp s (WorkflowFinished d) = handleWorkflowFinished mime d s"
| "useWorkflowRunEvent mime cp s WorkflowFailed = handleWorkflowFailed s"
| "useWorkflowRunEvent mime cp s WorkflowPaused = handleWorkflowPaused s"
| "useWorkflowRunEvent mime cp s (NodeStarted d) = handleWorkflowNodeStarted cp d s"
| "useWorkflowRunEvent mime cp s (NodeFinished d) = handleWorkflowNodeFinished d s"
| "useWorkflowRunEvent mime cp s (NodeRetry d) = handleWorkflowNodeRetry d s"
| "useWorkflowRunEvent mime cp s (IterationStarted d) = handleWorkflowNodeIterationStarted cp d s"
| "useWorkflowRunEvent mime cp s (IterationNext d) = handleWorkflowNodeIterationNext d s"
| "useWorkflowRunEvent mime cp s (IterationFinished d) = handleWorkflowNodeIterationFinished d s"
| "useWorkflowRunEvent mime cp s (LoopStarted d) = handleWorkflowNodeLoopStarted cp d s"
| "useWorkflowRunEvent mime cp s (LoopNext d) = handleWorkflowNodeLoopNext d s"
| "useWorkflowRunEvent mime cp s (LoopFinished d) = handleWorkflowNodeLoopFinished d s"
| "useWorkflowRunEvent mime cp s (TextChunk t sel) = handleWorkflowTextChunk t sel s"
| "useWorkflowRunEvent mime cp s (TextReplace t) = handleWorkflowTextReplace t s"
| "useWorkflowRunEvent mime cp s (Reasoning r n f) = handleWorkflowReasoning r n f s"
| "useWorkflowRunEvent mime cp s (AgentLog d) = handleWorkflowAgentLog d s"
| "useWorkflowRunEvent mime cp s (HumanInputRequired d) = handleWorkflowNodeHumanInputRequired d s"
| "useWorkflowRunEvent mime cp s (HumanInputFormFilled d) = handleWorkflowNodeHumanInputFormFilled d s"
| "useWorkflowRunEvent mime cp s (HumanInputFormTimeout n t) = handleWorkflowNodeHumanInputFormTimeout n t s"


section \<open>What a run leaves alone\<close>

definition run_shape where
  "run_shape s = (map node_shape (rs_nodes s), map edge_shape (rs_edges s))"

lemma setRunningData_shape [frame_simps, simp]: "run_shape (stateOf (setRunningData r s)) = run_shape s"
  by (simp add: setRunningData_def run_shape_def split: option.splits sum.splits)

lemma setNodeData_shape [frame_simps]:
  assumes "\<And>d. d_type (f d) = d_type d" and "\<And>d. d_payload (f d) = d_payload d"
  shows "run_shape (stateOf (setNodeData nid f s)) = run_shape s"
  using assms
  by (auto simp: setNodeData_def run_shape_def node_shape_with_data intro!: map_update_first)

lemma setIncomeEdges_shape [frame_simps]:
  assumes "\<And>e. edge_shape (f e) = edge_shape e"
  shows "run_shape (stateOf (setIncomeEdges nid f s)) = run_shape s"
  using assms by (simp add: setIncomeEdges_def run_shape_def)

lemma centerViewport_shape [frame_simps, simp]: "run_shape (stateOf (centerViewport cp nid s)) = run_shape s"
  by (simp add: centerViewport_def run_shape_def Let_def split: option.splits)

lemma startEdge_shape [frame_simps, simp]: "edge_shape (startEdge nodes e) = edge_shape e"
  by (simp add: startEdge_def Let_def split: option.splits)

lemma finishEdge_shape [frame_simps, simp]: "edge_shape (finishEdge st e) = edge_shape e"
  by (simp add: finishEdge_def)

lemma startContainerEdges_shape [frame_simps, simp]:
  "run_shape (stateOf (startContainerEdges nodes nid s)) = run_shape s"
  by (auto simp: startContainerEdges_def intro!: setIncomeEdges_shape)

lemma startTracing_shape [frame_simps, simp]: "run_shape (stateOf (startTracing data s)) = run_shape s"
  by (simp add: startTracing_def Let_def split: option.splits)

lemma finishedBranch_frame [simp]:
  "d_type (finishedBranch data d) = d_type d" "d_payload (finishedBranch data d) = d_payload d"
  "d_runningStatus (finishedBranch data d) = d_runningStatus d"
  by (simp_all add: finishedBranch_def Let_def split: BlockEnum.splits)

text \<open>Two stages that keep the shape compose to one that does.\<close>

lemma andThen_shape:
  assumes "run_shape (stateOf m) = run_shape s"
    and "\<And>t. m = Ok t \<Longrightarrow> run_shape t = run_shape s \<Longrightarrow> run_shape (stateOf (f t)) = run_shape s"
  shows "run_shape (stateOf (andThen m f)) = run_shape s"
  using assms by (cases m) auto

lemmas shape_rules = andThen_shape setNodeData_shape setIncomeEdges_shape [THEN trans]
  setRunningData_shape [THEN trans] centerViewport_shape [THEN trans]
  startContainerEdges_shape [THEN trans] setNodeData_shape [THEN trans]

lemma run_shape_simps [simp]:
  "run_shape (s\<lparr>rs_iterTimes := i\<rparr>) = run_shape s"
  "run_shape (s\<lparr>rs_iterParallelLogMap := m\<rparr>) = run_shape s"
  by (simp_all add: run_shape_def)

lemma map_nodes_shape [frame_simps]:
  assumes "\<And>n. node_shape (g n) = node_shape n"
  shows "run_shape (s\<lparr>rs_nodes := map g (rs_nodes s)\<rparr>) = run_shape s"
  using assms by (simp add: run_shape_def)

lemma useWorkflowRunEvent_shape: "run_shape (stateOf (useWorkflowRunEvent mime cp s ev)) = run_shape s"
proof (cases ev)
  case (WorkflowStarted t d)
  then show ?thesis
    by (auto simp: handleWorkflowStarted_def run_shape_def setRunningData_def node_shape_def
        split: option.splits sum.splits)
next
  case (NodeStarted d)
  then show ?thesis
    by (simp add: handleWorkflowNodeStarted_def Let_def)
      (intro shape_rules; simp add: setIncomeEdges_shape setNodeData_shape)
next
  case (NodeFinished d)
  then show ?thesis
    by (simp add: handleWorkflowNodeFinished_def)
      (intro shape_rules; simp add: setIncomeEdges_shape setNodeData_shape)
next
  case (NodeRetry d)
  then show ?thesis
    by (simp add: handleWorkflowNodeRetry_def)
      (intro shape_rules; simp add: setNodeData_shape)
next
  case (IterationStarted d)
  then show ?thesis
    by (simp add: handleWorkflowNodeIterationStarted_def Let_def)
      (intro shape_rules; simp add: setNodeData_shape)
next
  case (IterationNext d)
  then show ?thesis
    by (simp add: handleWorkflowNodeIterationNext_def Let_def)
      (intro shape_rules; simp add: setNodeData_shape)
next
  case (IterationFinished d)
  then show ?thesis
    by (simp add: handleWorkflowNodeIterationFinished_def)
      (intro shape_rules; simp add: setIncomeEdges_shape setNodeData_shape)
next
  case (LoopStarted d)
  then show ?thesis
    by (simp add: handleWorkflowNodeLoopStarted_def Let_def)
      (intro shape_rules; simp add: setNodeData_shape)
next
  case (LoopNext d)
  then show ?thesis
    by (simp add: handleWorkflowNodeLoopNext_def)
      (rule andThen_shape, simp add: setNodeData_shape,
       simp add: map_nodes_shape node_shape_with_data)
next
  case (LoopFinished d)
  then show ?thesis
    by (simp add: handleWorkflowNodeLoopFinished_def)
      (intro shape_rules; simp add: setIncomeEdges_shape setNodeData_shape)
next
  case (HumanInputRequired d)
  then show ?thesis
    by (simp add: handleWorkflowNodeHumanInputRequired_def)
      (intro shape_rules; simp add: setNodeData_shape)
qed (simp_all add: handleWorkflowFinished_def handleWorkflowFailed_def handleWorkflowPaused_def
    handleWorkflowTextChunk_def handleWorkflowTextReplace_def handleWorkflowReasoning_def
    handleWorkflowAgentLog_def handleWorkflowNodeHumanInputFormFilled_def
    handleWorkflowNodeHumanInputFormTimeout_def)

interpretation run_frame: event_frame "useWorkflowRunEvent mime cp" run_shape for mime cp
  by unfold_locales (rule useWorkflowRunEvent_shape)

end
