(* ===== verification/Run_Laws.thy ===== *)
theory Run_Laws
  imports Run_Events
begin

text \<open>
  Properties of the run event handlers: the canvas keeps its shape, the started node is centred,
  traces are merged and restarted, streamed text is assembled, iterations are counted, and the list of
  open human input forms has one entry per node.
\<close>

section \<open>Shared facts\<close>

lemma mergeTracing_eq:
  "mergeTracing data tr = update_first (\<lambda>item. nt_id item = nt_id data) (\<lambda>a. spread_tracing a data) tr"
  unfolding mergeTracing_def Let_def by (rule guarded_set_index)

lemma pauseTracing_eq:
  "pauseTracing nid tr = update_first (\<lambda>item. nt_node_id item = nid) (\<lambda>a. a\<lparr>nt_status := Paused\<rparr>) tr"
  unfolding pauseTracing_def Let_def by (rule guarded_set_index)

lemma requireForm_eq:
  "requireForm data (Some fs) =
     (if \<exists>f \<in> set fs. hf_node_id f = hf_node_id data
      then update_first (\<lambda>f. hf_node_id f = hf_node_id data) (\<lambda>_. data) fs else fs @ [data])"
  by (simp add: requireForm_def Let_def set_index_findIndex [where f = "\<lambda>_. data"])

text \<open>The trace is addressed by its id, the forms by the node they belong to.\<close>

interpretation trace_store: keyed_update nt_id "\<lambda>st (x :: NodeTracing). x\<lparr>nt_status := st\<rparr>"
  by unfold_locales simp

interpretation form_store: keyed_update hf_node_id "\<lambda>t (f :: HumanInputFormData). f\<lparr>hf_expiration_time := t\<rparr>"
  by unfold_locales simp

definition on_canvas :: "run_store \<Rightarrow> string \<Rightarrow> bool" where
  "on_canvas s nid = (\<exists>n \<in> set (rs_nodes s). n_id n = nid)"

definition node_of :: "run_store \<Rightarrow> string \<Rightarrow> node option" where
  "node_of s nid = find (\<lambda>n. n_id n = nid) (rs_nodes s)"

definition trace_of :: "run_store \<Rightarrow> NodeTracing list option" where
  "trace_of s = Option.bind (rs_workflowRunningData s) rd_tracing"

definition forms_of :: "run_store \<Rightarrow> HumanInputFormData list" where
  "forms_of s = (case Option.bind (rs_workflowRunningData s) rd_humanInputFormDataList of
                   None \<Rightarrow> [] | Some fs \<Rightarrow> fs)"

lemma on_canvas_node_of: "on_canvas s nid \<longleftrightarrow> (\<exists>n. node_of s nid = Some n)"
  unfolding on_canvas_def node_of_def
  using find_Some_of_ex [of "rs_nodes s" "\<lambda>n. n_id n = nid"]
    find_SomeD [of "\<lambda>n. n_id n = nid" "rs_nodes s"] by blast

section \<open>Structure\<close>

text \<open>No sequence of run events, thrown exceptions included, changes what the canvas shows besides
  run state: the ids, kinds, parents, positions and settings of the nodes, and the ids, endpoints and
  handles of the edges, stay the same and in the same order.\<close>

theorem run_keeps_canvas:
  "map node_shape (rs_nodes (run_events (useWorkflowRunEvent mime cp) s evs)) = map node_shape (rs_nodes s) \<and>
   map edge_shape (rs_edges (run_events (useWorkflowRunEvent mime cp) s evs)) = map edge_shape (rs_edges s)"
  using run_frame.run_view [of mime cp s evs] by (simp add: run_shape_def)

section \<open>Starting and finishing a node\<close>

lemma startTracing_ok:
  assumes "trace_of s = Some tr"
  shows "startTracing data s = Ok (s\<lparr>rs_workflowRunningData := Some ((the (rs_workflowRunningData s))
     \<lparr>rd_tracing := Some (let i = findIndex (\<lambda>t. nt_node_id t = nt_node_id data) tr in
        if i > 0 then set_index tr i (data\<lparr>nt_status := Running\<rparr>) else tr @ [data\<lparr>nt_status := Running\<rparr>])\<rparr>)\<rparr>)"
proof -
  have pos: "i \<noteq> 0 \<and> -1 < i \<longleftrightarrow> 0 < i" for i :: int by linarith
  from assms obtain d where "rs_workflowRunningData s = Some d" and "rd_tracing d = Some tr"
    by (auto simp: trace_of_def split: Option.bind_splits)
  then show ?thesis
    unfolding startTracing_def
    by (simp add: pos setRunningData_def onTracing_def Let_def del: findIndex_gt_iff)
qed

text \<open>The trace entry that a start event writes.\<close>

lemma handleWorkflowNodeStarted_ok:
  assumes "trace_of s = Some tr" and "on_canvas s (nt_node_id data)"
    and "\<forall>n. node_of s (nt_node_id data) = Some n \<longrightarrow> n_position n \<noteq> None"
  shows "\<exists>t. handleWorkflowNodeStarted cp data s = Ok t"
  using assms startTracing_ok [OF assms(1), of data]
  by (auto simp: handleWorkflowNodeStarted_def Let_def centerViewport_def node_of_def on_canvas_def
      setNodeData_def setIncomeEdges_def find_None_iff split: option.splits)

lemma handleWorkflowNodeStarted_trace:
  assumes "trace_of s = Some tr" and "handleWorkflowNodeStarted cp data s = Ok t"
  shows "trace_of t = Some (let i = findIndex (\<lambda>t. nt_node_id t = nt_node_id data) tr in
        if i > 0 then set_index tr i (data\<lparr>nt_status := Running\<rparr>) else tr @ [data\<lparr>nt_status := Running\<rparr>])"
  using assms startTracing_ok [OF assms(1), of data]
  by (auto simp: handleWorkflowNodeStarted_def Let_def centerViewport_def andThen_eq_Ok
      setNodeData_def setIncomeEdges_def trace_of_def split: option.splits if_splits prod.splits)

text \<open>A node that starts again (after a pause) replaces its trace entry when that entry stands at
  any position but the first; at the first position the index is 0, which the guard reads as false, so
  the old entry stays and a second entry for the same node is appended.\<close>

theorem restart_of_node:
  assumes "trace_of s = Some (pre @ old # post)"
    and "\<forall>x \<in> set pre. nt_node_id x \<noteq> nt_node_id data" and "nt_node_id old = nt_node_id data"
    and "handleWorkflowNodeStarted cp data s = Ok t"
  shows "trace_of t = Some (if pre = [] then old # post @ [data\<lparr>nt_status := Running\<rparr>]
                            else pre @ data\<lparr>nt_status := Running\<rparr> # post)"
proof -
  have i: "findIndex (\<lambda>t. nt_node_id t = nt_node_id data) (pre @ old # post) = int (length pre)"
    using assms(2,3) by (auto simp: findIndex_append)
  show ?thesis
    using handleWorkflowNodeStarted_trace [OF assms(1,4)] i by (auto simp: Let_def set_index_def)
qed

text \<open>When a top-level node starts, the viewport that the handler requests puts the centre of the
  node in the middle of the canvas: horizontally in the middle of the width left of the 400 pixels the
  panel takes, vertically in the middle of the height.\<close>

theorem start_centers_node:
  assumes "node_of s (nt_node_id data) = Some n" and "\<not> truthy_parent (n_parentId n)"
    and "n_position n = Some (x, y)" and "n_width n = Some w" and "n_height n = Some h"
    and "handleWorkflowNodeStarted cp data s = Ok t"
  shows "\<exists>vx vy. rs_viewport t = Some \<lparr>vp_x = Finite vx, vp_y = Finite vy, vp_zoom = rs_zoom s\<rparr>
           \<and> (x + w / 2) * rs_zoom s + vx = (clientWidth cp - 400) / 2
           \<and> (y + h / 2) * rs_zoom s + vy = clientHeight cp / 2"
proof -
  from assms(6) obtain s1 s2 where s1: "startTracing data s = Ok s1"
    and s2: "centerViewport cp (nt_node_id data) s1 = Ok s2"
    and s3: "andThen (setNodeData (nt_node_id data)
      (\<lambda>d. d\<lparr>d_runningStatus := Some Running, d_waitingRun := Some False\<rparr>) s2)
      (setIncomeEdges (nt_node_id data) (startEdge (rs_nodes s))) = Ok t"
    by (auto simp: handleWorkflowNodeStarted_def Let_def andThen_eq_Ok)
  have "rs_nodes s1 = rs_nodes s" "rs_zoom s1 = rs_zoom s"
    using s1 by (auto simp: startTracing_def setRunningData_def Let_def
        split: option.splits sum.splits if_splits)
  then have "rs_viewport s2 = Some \<lparr>vp_x = Finite ((clientWidth cp - 400 - w * rs_zoom s) / 2 - x * rs_zoom s),
      vp_y = Finite ((clientHeight cp - h * rs_zoom s) / 2 - y * rs_zoom s), vp_zoom = rs_zoom s\<rparr>"
    using assms(1-5) s2 by (auto simp: centerViewport_def node_of_def times_zoom_def num_of_def Let_def)
  moreover have "rs_viewport t = rs_viewport s2"
    using s3 by (auto simp: setNodeData_def setIncomeEdges_def andThen_eq_Ok split: if_splits)
  ultimately show ?thesis by (simp, simp add: field_simps)
qed

lemma find_map_id: "(\<And>x. p (f x) = p x) \<Longrightarrow> find p (map f xs) = map_option f (find p xs)"
  by (induction xs) auto

lemma handleWorkflowNodeFinished_ok:
  assumes "trace_of s = Some tr" and "on_canvas s (nt_node_id data)"
  shows "handleWorkflowNodeFinished data s = Ok (s\<lparr>
     rs_workflowRunningData := Some ((the (rs_workflowRunningData s))\<lparr>rd_tracing := Some (mergeTracing data tr)\<rparr>),
     rs_nodes := update_first (\<lambda>n. n_id n = nt_node_id data)
       (with_data (\<lambda>d. finishedBranch data (d\<lparr>d_runningStatus := Some (nt_status data)\<rparr>))) (rs_nodes s),
     rs_edges := map (\<lambda>e. if e_target e = nt_node_id data then finishEdge (nt_status data) e else e) (rs_edges s)\<rparr>)"
  using assms
  by (auto simp: handleWorkflowNodeFinished_def trace_of_def on_canvas_def setRunningData_def onTracing_def
      setNodeData_def setIncomeEdges_def split: Option.bind_splits option.splits)

text \<open>A finish event for a node on the canvas, in a run that has a trace, never throws, and then the
  node, every incoming edge and the first trace entry with the event's id show the event's status, while
  every other node keeps its data and every other trace id its entry.\<close>

theorem finish_reports_status:
  assumes "trace_of s = Some tr" and "on_canvas s (nt_node_id data)"
  shows "\<exists>t. handleWorkflowNodeFinished data s = Ok t
     \<and> (\<exists>n. node_of t (nt_node_id data) = Some n \<and> d_runningStatus (n_data n) = Some (nt_status data))
     \<and> (\<forall>e \<in> set (rs_edges t). e_target e = nt_node_id data \<longrightarrow>
          (\<exists>d. e_data e = Some d \<and> ed_targetRunningStatus d = Some (nt_status data)))
     \<and> (\<forall>nid. nid \<noteq> nt_node_id data \<longrightarrow> node_of t nid = node_of s nid)
     \<and> (\<exists>tr'. trace_of t = Some tr' \<and> length tr' = length tr
          \<and> map_option nt_status (find (\<lambda>i. nt_id i = nt_id data) tr')
              = map_option (\<lambda>_. nt_status data) (find (\<lambda>i. nt_id i = nt_id data) tr)
          \<and> (\<forall>k. k \<noteq> nt_id data \<longrightarrow> find (\<lambda>i. nt_id i = k) tr' = find (\<lambda>i. nt_id i = k) tr))"
proof -
  let ?tr' = "mergeTracing data tr"
  obtain n where n: "find (\<lambda>n. n_id n = nt_node_id data) (rs_nodes s) = Some n"
    using assms(2) by (auto simp: on_canvas_node_of node_of_def)
  have tr1: "find (\<lambda>i. nt_id i = nt_id data) ?tr'
      = map_option (\<lambda>a. spread_tracing a data) (find (\<lambda>i. nt_id i = nt_id data) tr)"
    unfolding mergeTracing_eq by (induction tr) (auto simp: spread_tracing_def)
  have tr2: "find (\<lambda>i. nt_id i = k) ?tr' = find (\<lambda>i. nt_id i = k) tr" if "k \<noteq> nt_id data" for k
    unfolding mergeTracing_eq using that by (induction tr) (auto simp: spread_tracing_def)
  have nodes: "find (\<lambda>n. n_id n = nid) (update_first (\<lambda>n. n_id n = nt_node_id data) (with_data f) (rs_nodes s))
      = find (\<lambda>n. n_id n = nid) (rs_nodes s)" if "nid \<noteq> nt_node_id data" for nid f
    using that by (rule node_store.lookup_other)
  show ?thesis
    unfolding handleWorkflowNodeFinished_ok [OF assms]
    using assms(1) n tr2 nodes tr1
    by (auto simp: node_of_def trace_of_def node_store.lookup_same finishEdge_def mergeTracing_eq
        spread_tracing_def option.map_comp comp_def)
qed

text \<open>The ways a finish event can throw: without running data or without a trace nothing at all is
  written; for a node that is not on the canvas the trace has already been merged when the handler
  throws, and nodes and edges are untouched.\<close>

theorem finish_error_paths:
  "(trace_of s = None \<longrightarrow> handleWorkflowNodeFinished data s = Threw TypeError s) \<and>
   (\<forall>tr. trace_of s = Some tr \<and> \<not> on_canvas s (nt_node_id data) \<longrightarrow>
      (\<exists>t. handleWorkflowNodeFinished data s = Threw TypeError t
         \<and> trace_of t = Some (mergeTracing data tr)
         \<and> rs_nodes t = rs_nodes s \<and> rs_edges t = rs_edges s))"
  by (auto simp: handleWorkflowNodeFinished_def trace_of_def on_canvas_def setRunningData_def onTracing_def
      setNodeData_def split: Option.bind_splits option.splits)


section \<open>Streamed text\<close>

text \<open>
  What a reader of the stream expects, from the chunks alone: consecutive chunks of one selector form a group,
  a chunk without a selector goes on with the group at hand, and so does the first selector after chunks
  without one. Groups are put together with a line break between them, unless there is one already.
\<close>

type_synonym text_group = "string option \<times> string list"

definition chunk_key :: "string \<times> string list option \<Rightarrow> string option" where
  "chunk_key c = (case snd c of None \<Rightarrow> None | Some sel \<Rightarrow> if join ''.'' sel = [] then None else Some (join ''.'' sel))"

definition add_chunk :: "text_group list \<Rightarrow> string \<times> string list option \<Rightarrow> text_group list" where
  "add_chunk gs c =
     (let k = chunk_key c in
      if gs \<noteq> [] \<and> (k = None \<or> fst (last gs) = None \<or> fst (last gs) = k)
      then butlast gs @ [(if k = None then fst (last gs) else k, snd (last gs) @ [fst c])]
      else gs @ [(k, [fst c])])"

definition chunk_groups :: "(string \<times> string list option) list \<Rightarrow> text_group list" where
  "chunk_groups = foldl add_chunk []"

definition has_break :: "string \<Rightarrow> string list \<Rightarrow> bool" where
  "has_break a ts \<longleftrightarrow> endsWith a nl \<or> startsWith (hd ts) nl"

definition glue :: "string \<Rightarrow> string list \<Rightarrow> string" where
  "glue a ts = (if a = [] \<or> has_break a ts then a else a @ nl) @ concat ts"

definition groups_text :: "text_group list \<Rightarrow> string" where
  "groups_text gs = foldl glue [] (map snd gs)"

definition run_text :: "run_store \<Rightarrow> string option" where
  "run_text s = Option.bind (rs_workflowRunningData s) rd_resultText"

definition chunk_event :: "string \<times> string list option \<Rightarrow> run_event" where
  "chunk_event c = TextChunk (fst c) (snd c)"

lemma glue_snoc: "ts \<noteq> [] \<Longrightarrow> glue a (ts @ [t]) = glue a ts @ t"
  by (simp add: glue_def has_break_def)

lemma groups_text_snoc: "groups_text (gs @ [g]) = glue (groups_text gs) (snd g)"
  by (simp add: groups_text_def)

lemma chunk_key_nonempty: "nonempty_opt (map_option (join ''.'') (snd c)) \<longleftrightarrow> chunk_key c \<noteq> None"
  "chunk_key c \<noteq> None \<Longrightarrow> map_option (join ''.'') (snd c) = chunk_key c"
  by (auto simp: chunk_key_def nonempty_opt_def split: option.splits)

text \<open>What the handler knows of the chunks it has seen: the text of the groups and the key of the last one.\<close>

definition text_state :: "text_group list \<Rightarrow> running_data \<Rightarrow> bool" where
  "text_state gs d \<longleftrightarrow> rd_resultText d = Some (groups_text gs)
     \<and> rd_resultTextSelectorKey d = (if gs = [] then None else fst (last gs))
     \<and> (\<forall>g \<in> set gs. snd g \<noteq> [] \<and> (\<forall>k. fst g = Some k \<longrightarrow> k \<noteq> []))"

definition breaks :: "running_data \<Rightarrow> string \<times> string list option \<Rightarrow> bool" where
  "breaks d c = shouldInsertLineBreak (map_option (join ''.'') (snd c)) (d\<lparr>rd_resultTabActive := True\<rparr>) (fst c)"

lemma textChunk_fields:
  assumes "rd_resultText d = Some a"
  shows "rd_resultText (textChunk (fst c) (snd c) d) = Some ((if breaks d c then a @ nl else a) @ fst c)"
    and "rd_resultTextSelectorKey (textChunk (fst c) (snd c) d) =
      (if chunk_key c = None then rd_resultTextSelectorKey d else chunk_key c)"
  using assms chunk_key_nonempty [of c]
  by (simp_all add: textChunk_def breaks_def Let_def plus_text_def)

lemma breaks_iff:
  assumes "text_state gs d"
  shows "breaks d c \<longleftrightarrow> gs \<noteq> [] \<and> chunk_key c \<noteq> None \<and> fst (last gs) \<noteq> None \<and> fst (last gs) \<noteq> chunk_key c
    \<and> groups_text gs \<noteq> [] \<and> \<not> has_break (groups_text gs) [fst c]"
proof -
  have last: "k \<noteq> []" if "gs \<noteq> []" "fst (last gs) = Some k" for k
    using assms that last_in_set [OF that(1)] unfolding text_state_def by blast
  have "nonempty_opt (rd_resultTextSelectorKey d) \<longleftrightarrow> gs \<noteq> [] \<and> fst (last gs) \<noteq> None"
    using assms last by (auto simp: text_state_def nonempty_opt_def split: option.splits)
  moreover have "rd_resultText d = Some (groups_text gs)"
      "gs \<noteq> [] \<Longrightarrow> rd_resultTextSelectorKey d = fst (last gs)"
    using assms by (simp_all add: text_state_def)
  ultimately show ?thesis
    unfolding breaks_def shouldInsertLineBreak_def chunk_key_nonempty(1)
    using chunk_key_nonempty(2) [of c] by (auto simp: nonempty_opt_def has_break_def)
qed

lemma textChunk_groups:
  assumes st: "text_state gs d"
  shows "text_state (add_chunk gs c) (textChunk (fst c) (snd c) d)"
proof -
  have key: "chunk_key c = Some k \<Longrightarrow> k \<noteq> []" for k by (auto simp: chunk_key_def split: option.splits if_splits)
  have old: "rd_resultText d = Some (groups_text gs)"
    and sel: "rd_resultTextSelectorKey d = (if gs = [] then None else fst (last gs))" using st by (simp_all add: text_state_def)
  note new = textChunk_fields [OF old, of c, unfolded breaks_iff [OF st] sel]
  show ?thesis
  proof (cases "gs \<noteq> [] \<and> (chunk_key c = None \<or> fst (last gs) = None \<or> fst (last gs) = chunk_key c)")
    case True
    then obtain hs k ts where gs: "gs = hs @ [(k, ts)]" by (metis append_butlast_last_id prod.exhaust)
    have ts: "ts \<noteq> []" "\<forall>g \<in> set hs. snd g \<noteq> [] \<and> (\<forall>k. fst g = Some k \<longrightarrow> k \<noteq> [])" "\<forall>k'. k = Some k' \<longrightarrow> k' \<noteq> []"
      using st by (auto simp: text_state_def gs)
    have grp: "add_chunk gs c = hs @ [(if chunk_key c = None then k else chunk_key c, ts @ [fst c])]"
      using True by (simp add: add_chunk_def Let_def gs)
    have "rd_resultText (textChunk (fst c) (snd c) d) = Some (groups_text gs @ fst c)"
      using new(1) True by auto
    then show ?thesis
      using new(2) ts key unfolding text_state_def grp by (auto simp: gs groups_text_snoc glue_snoc)
  next
    case False
    have grp: "add_chunk gs c = gs @ [(chunk_key c, [fst c])]" using False by (simp only: add_chunk_def Let_def if_False)
    have "rd_resultText (textChunk (fst c) (snd c) d) = Some (glue (groups_text gs) [fst c])"
      using new(1) False by (cases "gs = []") (auto simp: glue_def groups_text_def)
    moreover have "rd_resultTextSelectorKey (textChunk (fst c) (snd c) d) = chunk_key c"
      using new(2) False by auto
    moreover have "\<forall>g \<in> set gs. snd g \<noteq> [] \<and> (\<forall>k. fst g = Some k \<longrightarrow> k \<noteq> [])" using st by (simp add: text_state_def)
    ultimately show ?thesis
      using key unfolding text_state_def grp by (auto simp: groups_text_snoc)
  qed
qed

lemma run_chunks:
  assumes "rs_workflowRunningData s = Some d" and "text_state gs d"
  shows "\<exists>d'. rs_workflowRunningData (run_events (useWorkflowRunEvent mime cp) s (map chunk_event cs)) = Some d'
           \<and> text_state (foldl add_chunk gs cs) d'"
  using assms
proof (induction cs arbitrary: s d gs)
  case (Cons c cs)
  let ?d = "textChunk (fst c) (snd c) d"
  let ?s = "s\<lparr>rs_workflowRunningData := Some ?d\<rparr>"
  have step: "useWorkflowRunEvent mime cp s (chunk_event c) = Ok ?s"
    using Cons.prems(1) by (simp add: chunk_event_def handleWorkflowTextChunk_def setRunningData_def)
  have "text_state (add_chunk gs c) ?d" by (rule textChunk_groups [OF Cons.prems(2)])
  with Cons.IH [of ?s ?d "add_chunk gs c"] step show ?case by auto
qed auto

text \<open>C2: In a run that starts (rather than resumes) and then streams text chunks, whatever their texts and
  with or without selectors, the result text is made of the texts of the groups in order; a line break is put
  between two groups exactly when the text so far is not empty and does not end with one, and the first chunk
  of the next group does not begin with one. Nothing is put between the chunks of one group.\<close>

theorem streamed_text_groups:
  assumes "rs_workflowRunningData s = Some d" and "rr_status (rd_result d) \<noteq> Paused"
  shows "run_text (run_events (useWorkflowRunEvent mime cp) s (WorkflowStarted task data # map chunk_event cs))
         = Some (groups_text (chunk_groups cs))"
proof -
  let ?s = "stateOf (handleWorkflowStarted task data s)"
  obtain d' where d': "rs_workflowRunningData ?s = Some d'" "text_state [] d'"
    using assms(1,2) by (auto simp: handleWorkflowStarted_def setRunningData_def text_state_def groups_text_def)
  from run_chunks [OF d', of mime cp cs] show ?thesis
    by (auto simp: run_text_def text_state_def chunk_groups_def)
qed

section \<open>Iterations\<close>

lemma iteration_next_step:
  assumes "on_canvas s (nt_node_id data)"
  shows "\<exists>t. handleWorkflowNodeIterationNext data s = Ok t \<and> rs_iterTimes t = rs_iterTimes s + 1
     \<and> on_canvas t (nt_node_id data)
     \<and> map_option (\<lambda>n. d_iterationIndex (n_data n)) (node_of t (nt_node_id data)) = Some (Some (rs_iterTimes s))"
proof -
  obtain n where n: "find (\<lambda>n. n_id n = nt_node_id data) (rs_nodes s) = Some n"
    using assms by (auto simp: on_canvas_node_of node_of_def)
  then show ?thesis
    using assms
    by (auto simp: handleWorkflowNodeIterationNext_def Let_def setNodeData_def on_canvas_node_of node_of_def
        node_store.lookup_same dest: find_SomeD)
qed

text \<open>After the iteration has started, its node shows index $k$ after the $k$-th ``next'' event, and
  the counter of the store is one ahead, so the counting is not disturbed by the exact payloads.\<close>

theorem iteration_counts:
  assumes "rs_iterTimes s = DEFAULT_ITER_TIMES" and "on_canvas s nid"
    and "\<forall>d \<in> set ds. nt_node_id d = nid" and "ds \<noteq> []"
  shows "let t = run_events (useWorkflowRunEvent mime cp) s (map IterationNext ds) in
           rs_iterTimes t = int (length ds) + 1
           \<and> map_option (\<lambda>n. d_iterationIndex (n_data n)) (node_of t nid) = Some (Some (int (length ds)))"
proof -
  have "rs_iterTimes (run_events (useWorkflowRunEvent mime cp) s (map IterationNext ds))
          = rs_iterTimes s + int (length ds)
      \<and> on_canvas (run_events (useWorkflowRunEvent mime cp) s (map IterationNext ds)) nid
      \<and> (ds \<noteq> [] \<longrightarrow> map_option (\<lambda>n. d_iterationIndex (n_data n))
            (node_of (run_events (useWorkflowRunEvent mime cp) s (map IterationNext ds)) nid)
          = Some (Some (rs_iterTimes s + int (length ds) - 1)))"
    using assms(2,3)
  proof (induction ds rule: rev_induct)
    case (snoc d ds)
    let ?r = "run_events (useWorkflowRunEvent mime cp) s (map IterationNext ds)"
    from snoc have d: "nt_node_id d = nid" and IH: "rs_iterTimes ?r = rs_iterTimes s + int (length ds)"
      and can: "on_canvas ?r nid" by auto
    from can d have "on_canvas ?r (nt_node_id d)" by simp
    then obtain t where "handleWorkflowNodeIterationNext d ?r = Ok t" "rs_iterTimes t = rs_iterTimes ?r + 1"
      "on_canvas t (nt_node_id d)"
      "map_option (\<lambda>n. d_iterationIndex (n_data n)) (node_of t (nt_node_id d)) = Some (Some (rs_iterTimes ?r))"
      using iteration_next_step by blast
    with d IH show ?case by (simp add: run_events_append)
  qed simp
  with assms show ?thesis by (simp add: DEFAULT_ITER_TIMES_def Let_def)
qed

section \<open>Human input forms\<close>

definition forms_distinct :: "run_store \<Rightarrow> bool" where
  "forms_distinct s = distinct (map hf_node_id (forms_of s))"

lemma update_first_const_keys:
  "map hf_node_id (update_first (\<lambda>f. hf_node_id f = hf_node_id data) (\<lambda>_. data) fs) = map hf_node_id fs"
  by (induction fs) auto

lemma distinct_requireForm:
  "distinct (map hf_node_id fs) \<Longrightarrow> distinct (map hf_node_id (requireForm data (Some fs)))"
  by (auto simp: requireForm_eq update_first_const_keys)

lemma fillForms_eq:
  "fs \<noteq> [] \<Longrightarrow> fillForms nid (Some fs) =
     Some (if \<exists>f \<in> set fs. hf_node_id f = nid then remove_first (\<lambda>f. hf_node_id f = nid) fs else butlast fs)"
  using splice_findIndex_hit [of fs "\<lambda>f. hf_node_id f = nid"]
    splice_findIndex_miss [of fs "\<lambda>f. hf_node_id f = nid"]
  by (auto simp: fillForms_def)

lemma distinct_fillForms:
  assumes "distinct (map hf_node_id fs)" and "fillForms nid (Some fs) = Some fs'"
  shows "distinct (map hf_node_id fs')"
proof (cases "fs = []")
  case False
  with assms show ?thesis
    by (auto simp: fillForms_eq map_butlast intro: distinct_butlast distinct_map_subseq [OF remove_first_subseq]
        split: if_splits)
qed (use assms in \<open>simp add: fillForms_def\<close>)

lemma forms_of_setRunningData:
  assumes "\<And>d d'. r d = Inr d' \<Longrightarrow> rd_humanInputFormDataList d' = rd_humanInputFormDataList d"
  shows "forms_of (stateOf (setRunningData r s)) = forms_of s"
  using assms by (auto simp: setRunningData_def forms_of_def split: option.splits sum.splits)


lemma forms_frame [simp]:
  "forms_of (stateOf (setNodeData nid f s)) = forms_of s"
  "forms_of (stateOf (setIncomeEdges nid g s)) = forms_of s"
  "forms_of (stateOf (centerViewport cp nid s)) = forms_of s"
  "forms_of (stateOf (startContainerEdges ns nid s)) = forms_of s"
  "forms_of (s\<lparr>rs_iterTimes := i\<rparr>) = forms_of s"
  "forms_of (s\<lparr>rs_iterParallelLogMap := m\<rparr>) = forms_of s"
  "forms_of (s\<lparr>rs_nodes := ns\<rparr>) = forms_of s"
  "forms_of (s\<lparr>rs_edges := es\<rparr>) = forms_of s"
  by (auto simp: forms_of_def setNodeData_def setIncomeEdges_def centerViewport_def startContainerEdges_def
      Let_def split: option.splits)

lemma onTracing_forms:
  "onTracing f d = Inr d' \<Longrightarrow> rd_humanInputFormDataList d' = rd_humanInputFormDataList d"
  by (auto simp: onTracing_def split: option.splits)

lemma startTracing_forms [simp]: "forms_of (stateOf (startTracing data s)) = forms_of s"
  by (auto simp: startTracing_def Let_def intro!: forms_of_setRunningData dest: onTracing_forms split: option.splits)

lemma andThen_forms:
  assumes "forms_of (stateOf m) = forms_of s" and "\<And>t. forms_of (stateOf (f t)) = forms_of t"
  shows "forms_of (stateOf (andThen m f)) = forms_of s"
  using assms by (cases m) auto

text \<open>The events that change the forms, and that the others do not.\<close>

fun form_event :: "run_event \<Rightarrow> bool" where
  "form_event (HumanInputRequired d) = True"
| "form_event (HumanInputFormFilled d) = True"
| "form_event (HumanInputFormTimeout n t) = True"
| "form_event _ = False"

lemma other_events_keep_forms:
  assumes "\<not> form_event ev"
  shows "forms_of (stateOf (useWorkflowRunEvent mime cp s ev)) = forms_of s"
proof (cases ev)
  case (WorkflowStarted t d)
  then show ?thesis
    by (auto simp: handleWorkflowStarted_def setRunningData_def forms_of_def split: option.splits)
next
  case (WorkflowFinished d)
  then show ?thesis
    by (auto simp: handleWorkflowFinished_def Let_def intro!: forms_of_setRunningData
        split: sum.splits option.splits)
next
  case (TextChunk t sel)
  then show ?thesis
    by (auto simp: handleWorkflowTextChunk_def textChunk_def Let_def intro!: forms_of_setRunningData)
qed (use assms in \<open>auto simp: handleWorkflowFailed_def handleWorkflowPaused_def handleWorkflowTextReplace_def
    handleWorkflowReasoning_def reasoningChunk_def handleWorkflowAgentLog_def Let_def
    handleWorkflowNodeStarted_def handleWorkflowNodeFinished_def handleWorkflowNodeRetry_def
    handleWorkflowNodeIterationStarted_def handleWorkflowNodeIterationNext_def
    handleWorkflowNodeIterationFinished_def handleWorkflowNodeLoopStarted_def
    handleWorkflowNodeLoopNext_def handleWorkflowNodeLoopFinished_def
    intro!: andThen_forms forms_of_setRunningData dest: onTracing_forms\<close>)

lemma handleWorkflowNodeHumanInputRequired_forms:
  assumes "trace_of s = Some tr"
  shows "forms_of (stateOf (handleWorkflowNodeHumanInputRequired data s)) =
    requireForm data (Option.bind (rs_workflowRunningData s) rd_humanInputFormDataList)"
  using assms
  by (auto simp: handleWorkflowNodeHumanInputRequired_def setRunningData_def trace_of_def onTracing_def
      forms_of_def setNodeData_def split: option.splits Option.bind_splits)

lemma handleWorkflowNodeHumanInputRequired_no_trace:
  assumes "trace_of s = None"
  shows "handleWorkflowNodeHumanInputRequired data s = Threw TypeError s"
  using assms
  by (auto simp: handleWorkflowNodeHumanInputRequired_def setRunningData_def trace_of_def onTracing_def
      split: option.splits Option.bind_splits)

lemma form_event_distinct:
  assumes "forms_distinct s" and "form_event ev"
  shows "forms_distinct (stateOf (useWorkflowRunEvent mime cp s ev))"
proof (cases ev)
  case (HumanInputRequired data)
  show ?thesis
  proof (cases "trace_of s")
    case None
    with HumanInputRequired assms show ?thesis
      by (simp add: handleWorkflowNodeHumanInputRequired_no_trace)
  next
    case (Some tr)
    with HumanInputRequired assms distinct_requireForm show ?thesis
      by (auto simp: forms_distinct_def handleWorkflowNodeHumanInputRequired_forms forms_of_def [of s]
          requireForm_def [of data None] split: option.splits Option.bind_splits)
  qed
next
  case (HumanInputFormFilled data)
  with assms distinct_fillForms [of _ "hff_node_id data"] show ?thesis
    by (auto simp: handleWorkflowNodeHumanInputFormFilled_def forms_distinct_def forms_of_def setRunningData_def
        fillForms_def split: option.splits Option.bind_splits)
next
  case (HumanInputFormTimeout nid t)
  with assms form_store.keys_kept [of nid t] show ?thesis
    by (auto simp: handleWorkflowNodeHumanInputFormTimeout_def forms_distinct_def forms_of_def setRunningData_def
        split: option.splits Option.bind_splits sum.splits if_splits)
qed (use assms in auto)

interpretation forms: event_machine "useWorkflowRunEvent mime cp" forms_distinct for mime cp
proof
  fix s ev
  assume "forms_distinct s"
  then show "forms_distinct (stateOf (useWorkflowRunEvent mime cp s ev))"
    using form_event_distinct other_events_keep_forms
    by (cases "form_event ev") (auto simp: forms_distinct_def)
qed

text \<open>C1: At every moment of a run that began without open forms, no node has two open human input
  forms, whatever events arrive and whichever handlers throw.\<close>

theorem one_form_per_node:
  "forms_of s = [] \<Longrightarrow> distinct (map hf_node_id (forms_of (run_events (useWorkflowRunEvent mime cp) s evs)))"
  using forms.run_inv [of s mime cp evs] by (simp add: forms_distinct_def)

text \<open>Asking for a form and filling it leaves the open forms as they were, when the node had no open
  form before: the form is appended and taken out again, and the filled form is recorded last.\<close>

theorem require_then_fill:
  assumes "trace_of s = Some tr" and "hf_node_id data \<notin> hf_node_id ` set (forms_of s)"
    and "hff_node_id filled = hf_node_id data"
  shows "let t = run_events (useWorkflowRunEvent mime cp) s [HumanInputRequired data, HumanInputFormFilled filled]
         in forms_of t = forms_of s
            \<and> (\<exists>fs. Option.bind (rs_workflowRunningData t) rd_humanInputFilledFormDataList = Some (fs @ [filled]))"
proof -
  let ?s1 = "stateOf (handleWorkflowNodeHumanInputRequired data s)"
  from assms(1) have "\<exists>d. rs_workflowRunningData ?s1 = Some d
      \<and> rd_humanInputFormDataList d = Some (forms_of s @ [data])"
    using assms(2)
    by (auto simp: handleWorkflowNodeHumanInputRequired_def setRunningData_def trace_of_def onTracing_def
        forms_of_def setNodeData_def requireForm_def Let_def image_iff
        split: option.splits Option.bind_splits)
  moreover have "remove_first (\<lambda>f. hf_node_id f = hf_node_id data) (forms_of s @ [data]) = forms_of s"
    using assms(2) by (auto simp: remove_first_append image_iff)
  ultimately show ?thesis
    using assms(3)
    by (auto simp: handleWorkflowNodeHumanInputFormFilled_def setRunningData_def forms_of_def [of "_ \<lparr>rs_workflowRunningData := _\<rparr>"]
        fillForms_eq Let_def split: option.splits)
qed

text \<open>A ``form filled'' event for a node without an open form removes the last open form, which
  belongs to another node: the index \<open>-1\<close> of the failed search is passed to \<^verbatim>\<open>splice\<close>, which counts it
  from the end.\<close>

theorem fill_without_form_drops_last:
  assumes "rs_workflowRunningData s = Some d" and "rd_humanInputFormDataList d = Some (fs @ [f])"
    and "\<forall>g \<in> set (fs @ [f]). hf_node_id g \<noteq> hff_node_id filled"
  shows "forms_of (stateOf (handleWorkflowNodeHumanInputFormFilled filled s)) = fs"
  using assms
  by (auto simp: handleWorkflowNodeHumanInputFormFilled_def setRunningData_def forms_of_def fillForms_eq)

text \<open>Resuming: a ``workflow started'' event that finds the run paused only sets its status back to
  running; trace, text, forms, nodes and edges are those of the moment of the pause.\<close>

theorem resume_keeps_run:
  assumes "rs_workflowRunningData s = Some d" and "rr_status (rd_result d) = Running"
  shows "run_events (useWorkflowRunEvent mime cp) s [WorkflowPaused, WorkflowStarted task data] = s"
  using assms
  by (simp add: handleWorkflowPaused_def handleWorkflowStarted_def setRunningData_def)


section \<open>Witnesses\<close>

text \<open>A canvas with a start node and an LLM node behind it, and a run that has traced the start node.\<close>

definition sample_tracing :: "string \<Rightarrow> string \<Rightarrow> running_status \<Rightarrow> NodeTracing" where
  "sample_tracing i nid st = \<lparr>nt_id = i, nt_index = 1, nt_node_id = nid, nt_node_type = LLM,
     nt_title = ''LLM'', nt_outputs = None, nt_status = st, nt_error = None,
     nt_execution_metadata = None, nt_iterator_length = 0, nt_loop_length = 0, nt_retry_index = None,
     nt_parallel_id = None, nt_parallel_start_node_id = None, nt_parent_parallel_id = None,
     nt_parent_parallel_start_node_id = None, nt_rest = []\<rparr>"

definition sample_running :: running_data where
  "sample_running = \<lparr>rd_task_id = None,
     rd_result = \<lparr>rr_status = Running, rr_outputs = None, rr_files = None, rr_rest = []\<rparr>,
     rd_tracing = Some [sample_tracing ''t1'' ''start'' Succeeded], rd_humanInputFormDataList = None,
     rd_humanInputFilledFormDataList = None, rd_resultTabActive = False, rd_resultText = Some [],
     rd_resultTextSelectorKey = None, rd_reasoningContent = None, rd_reasoningFinished = False\<rparr>"

definition sample_store :: run_store where
  "sample_store = \<lparr>rs_workflowRunningData = Some sample_running, rs_iterTimes = 1,
     rs_iterParallelLogMap = [], rs_nodes = [sample_node ''start'' Start, sample_node ''llm'' LLM],
     rs_edges = [sample_edge ''start'' ''llm''], rs_zoom = 1, rs_viewport = None\<rparr>"

definition sample_form :: "string \<Rightarrow> HumanInputFormData" where
  "sample_form nid = \<lparr>hf_node_id = nid, hf_expiration_time = 60, hf_rest = []\<rparr>"

lemmas sample_defs = sample_tracing_def sample_node_def sample_edge_def sample_running_def
  sample_store_def sample_form_def node_data_of_def

abbreviation sample_cp :: container_params where
  "sample_cp \<equiv> \<lparr>clientWidth = 1400, clientHeight = 900\<rparr>"

lemma sample_trace: "trace_of sample_store = Some [sample_tracing ''t1'' ''start'' Succeeded]"
  by (simp add: trace_of_def sample_store_def sample_running_def)

lemma sample_forms: "forms_of sample_store = []"
  by (simp add: forms_of_def sample_store_def sample_running_def)

lemma sample_on_canvas: "on_canvas sample_store ''start''" "on_canvas sample_store ''llm''"
  by (simp_all add: on_canvas_def sample_defs)

lemma sample_start_ok:
  "handleWorkflowNodeStarted sample_cp (sample_tracing ''t2'' ''start'' Running) sample_store =
     Ok (stateOf (handleWorkflowNodeStarted sample_cp (sample_tracing ''t2'' ''start'' Running) sample_store))"
proof -
  have "\<exists>t. handleWorkflowNodeStarted sample_cp (sample_tracing ''t2'' ''start'' Running) sample_store = Ok t"
    by (rule handleWorkflowNodeStarted_ok [OF sample_trace])
      (simp_all add: sample_defs on_canvas_def node_of_def)
  then show ?thesis by auto
qed

theorem restart_of_node_witness:
  "trace_of (stateOf (handleWorkflowNodeStarted sample_cp (sample_tracing ''t2'' ''start'' Running) sample_store))
   = Some [sample_tracing ''t1'' ''start'' Succeeded, sample_tracing ''t2'' ''start'' Running]"
  using restart_of_node [OF _ _ _ sample_start_ok, of "[]" "sample_tracing ''t1'' ''start'' Succeeded" "[]"]
  by (simp add: sample_trace) (simp add: sample_tracing_def)

theorem start_centers_node_witness:
  "\<exists>vx vy. rs_viewport (stateOf (handleWorkflowNodeStarted sample_cp
       (sample_tracing ''t2'' ''start'' Running) sample_store))
     = Some \<lparr>vp_x = Finite vx, vp_y = Finite vy, vp_zoom = 1\<rparr>
     \<and> (80 + 240 / 2) + vx = (1400 - 400) / 2 \<and> (282 + 90 / 2) + vy = 900 / 2"
  using start_centers_node [OF _ _ _ _ _ sample_start_ok, of "sample_node ''start'' Start" 80 282 240 90]
  by (simp add: node_of_def truthy_parent_def sample_defs)

theorem finish_reports_status_witness:
  "\<exists>t. handleWorkflowNodeFinished (sample_tracing ''t1'' ''start'' Failed) sample_store = Ok t
     \<and> (\<exists>n. node_of t ''start'' = Some n \<and> d_runningStatus (n_data n) = Some Failed)"
  using finish_reports_status [OF sample_trace, of "sample_tracing ''t1'' ''start'' Failed"] sample_on_canvas(1)
  by (auto simp: sample_tracing_def)

theorem finish_error_paths_witness:
  "trace_of (stateOf (handleWorkflowNodeFinished (sample_tracing ''t1'' ''gone'' Failed) sample_store))
     = Some [sample_tracing ''t1'' ''gone'' Failed]"
proof -
  have "\<not> on_canvas sample_store ''gone''" by (simp add: on_canvas_def sample_defs)
  then show ?thesis
    using finish_error_paths [of sample_store "sample_tracing ''t1'' ''gone'' Failed"] sample_trace
    by (auto simp: sample_tracing_def mergeTracing_eq spread_tracing_def obj_spread_def)
qed

theorem streamed_text_groups_witness:
  "run_text (run_events (useWorkflowRunEvent (\<lambda>_. None) sample_cp) sample_store
     (WorkflowStarted ''task'' [] # map chunk_event
        [(''Hel'', Some [''llm'', ''text'']), (''lo'', None), (''Bye'', Some [''end'', ''text'']),
         (nl @ ''!'', Some [''llm'', ''text''])]))
   = Some (''Hello'' @ nl @ ''Bye'' @ nl @ ''!'')"
proof -
  have "groups_text (chunk_groups [(''Hel'', Some [''llm'', ''text'']), (''lo'', None), (''Bye'', Some [''end'', ''text'']),
      (nl @ ''!'', Some [''llm'', ''text''])]) = ''Hello'' @ nl @ ''Bye'' @ nl @ ''!''"
    by (simp add: groups_text_def chunk_groups_def add_chunk_def chunk_key_def glue_def has_break_def nl_def Let_def
      endsWith_single startsWith_single)
  then show ?thesis
    by (subst streamed_text_groups [of _ sample_running]) (simp_all only: sample_store_def sample_running_def
      run_store.simps running_data.simps run_result.simps running_status.distinct not_False_eq_True)
qed

theorem iteration_counts_witness:
  "let t = run_events (useWorkflowRunEvent (\<lambda>_. None) sample_cp) sample_store
       (map IterationNext [sample_tracing ''a'' ''llm'' Running, sample_tracing ''b'' ''llm'' Running])
   in rs_iterTimes t = 3 \<and> map_option (\<lambda>n. d_iterationIndex (n_data n)) (node_of t ''llm'') = Some (Some 2)"
  using iteration_counts [of sample_store "''llm''"
      "[sample_tracing ''a'' ''llm'' Running, sample_tracing ''b'' ''llm'' Running]" "\<lambda>_. None" sample_cp]
    sample_on_canvas
  by (simp add: DEFAULT_ITER_TIMES_def Let_def) (simp add: sample_store_def sample_tracing_def)

theorem one_form_per_node_witness:
  "distinct (map hf_node_id (forms_of (run_events (useWorkflowRunEvent (\<lambda>_. None) sample_cp) sample_store
     [HumanInputRequired (sample_form ''llm''), HumanInputRequired (sample_form ''llm'')])))"
  by (rule one_form_per_node [OF sample_forms])

theorem require_then_fill_witness:
  "forms_of (run_events (useWorkflowRunEvent (\<lambda>_. None) sample_cp) sample_store
     [HumanInputRequired (sample_form ''llm''), HumanInputFormFilled \<lparr>hff_node_id = ''llm'', hff_rest = []\<rparr>]) = []"
  using require_then_fill [OF sample_trace, of "sample_form ''llm''"
      "\<lparr>hff_node_id = ''llm'', hff_rest = []\<rparr>" "\<lambda>_. None" sample_cp]
  by (simp add: Let_def sample_forms) (simp add: sample_form_def)

theorem fill_without_form_drops_last_witness:
  "forms_of (stateOf (handleWorkflowNodeHumanInputFormFilled \<lparr>hff_node_id = ''other'', hff_rest = []\<rparr>
     (sample_store\<lparr>rs_workflowRunningData := Some (sample_running\<lparr>rd_humanInputFormDataList :=
        Some [sample_form ''a'', sample_form ''b'']\<rparr>)\<rparr>))) = [sample_form ''a'']"
  by (rule fill_without_form_drops_last [where f = "sample_form ''b''"]) (auto simp: sample_form_def)

theorem resume_keeps_run_witness:
  "run_events (useWorkflowRunEvent (\<lambda>_. None) sample_cp) sample_store
     [WorkflowPaused, WorkflowStarted ''task'' []] = sample_store"
  by (rule resume_keeps_run [where d = sample_running]) (simp_all add: sample_store_def sample_running_def)

end
