(* ===== verification/Flow_Graph.thy ===== *)
theory Flow_Graph
  imports Flow_Types
begin

text \<open>
  The questions that the canvas asks of the workflow graph
  (\<^verbatim>\<open>workflow/hooks/use-workflow.ts\<close>, \<^verbatim>\<open>hooks/use-available-blocks.ts\<close>, \<^verbatim>\<open>utils/workflow.ts\<close>,
  \<^verbatim>\<open>utils/workflow-entry.ts\<close>, \<^verbatim>\<open>utils/node.ts\<close>): which nodes come before and after a node, where a
  branch starts, whether an edge may be drawn.

  \<^verbatim>\<open>getOutgoers\<close> and \<^verbatim>\<open>getIncomers\<close> (package reactflow) and \<^verbatim>\<open>uniqBy\<close> (package es-toolkit) are the
  fields of the parameter \<open>flow_lib\<close>; \<open>flow_lib_ok\<close> states their documented behaviour. A recursive
  walk takes a recursion budget: when the budget is used up it answers \<open>RangeError\<close>, the exception of an
  exhausted call stack. The callers grant one level more than there are nodes, and the lemmas show when
  that is enough.
\<close>

section \<open>Library functions and graph\<close>

record flow_lib =
  getOutgoers :: "string \<Rightarrow> node list \<Rightarrow> edge list \<Rightarrow> node list"
  getIncomers :: "string \<Rightarrow> node list \<Rightarrow> edge list \<Rightarrow> node list"
  uniqById :: "node list \<Rightarrow> node list"

record flow =
  fl_nodes :: "node list"
  fl_edges :: "edge list"

record flow_meta =
  fm_isStart :: "BlockEnum \<Rightarrow> bool"
  fm_availableNodesType :: "BlockEnum list"

definition node_ids :: "node list \<Rightarrow> string set" where
  "node_ids ns = n_id ` set ns"

text \<open>
  Documented behaviour of the packages: the outgoers of a node are the nodes at the other end of its
  outgoing edges, the incomers those of its incoming edges; \<^verbatim>\<open>uniqBy(list, 'id')\<close> keeps one of the
  elements with the same id.
\<close>

definition flow_lib_ok :: "flow_lib \<Rightarrow> bool" where
  "flow_lib_ok L \<longleftrightarrow>
     (\<forall>i ns es. set (getOutgoers L i ns es) =
        {n \<in> set ns. \<exists>e \<in> set es. e_source e = i \<and> e_target e = n_id n})
   \<and> (\<forall>i ns es. set (getIncomers L i ns es) =
        {n \<in> set ns. \<exists>e \<in> set es. e_target e = i \<and> e_source e = n_id n})
   \<and> (\<forall>xs. distinct (map n_id (uniqById L xs)) \<and> set (uniqById L xs) \<subseteq> set xs
        \<and> node_ids (uniqById L xs) = node_ids xs)"

section \<open>Kinds of nodes\<close>

definition isWorkflowEntryNode :: "BlockEnum \<Rightarrow> bool" where
  "isWorkflowEntryNode t = (t = Start \<or> isTriggerNode t)"

definition getWorkflowEntryNode :: "node list \<Rightarrow> node option" where
  "getWorkflowEntryNode ns =
     (case find (\<lambda>n. isTriggerNode (d_type (n_data n))) ns of
        Some n \<Rightarrow> Some n
      | None \<Rightarrow> find (\<lambda>n. d_type (n_data n) = Start) ns)"

definition isTriggerWorkflow :: "node list \<Rightarrow> bool" where
  "isTriggerWorkflow ns = (\<exists>n \<in> set ns. isTriggerNode (d_type (n_data n)))"

definition isAgentV2NodeData :: "node_data \<Rightarrow> bool" where
  "isAgentV2NodeData d =
     ((d_type d = Agent \<or> d_type d = AgentV2)
      \<and> p_agent_node_kind (d_payload d) = Some ''dify_agent''
      \<and> p_version (d_payload d) = Some ''2'')"

definition getNodeCatalogType :: "node_data \<Rightarrow> BlockEnum" where
  "getNodeCatalogType d = (if isAgentV2NodeData d then AgentV2 else d_type d)"

definition SUPPORT_OUTPUT_VARS_NODE :: "BlockEnum list" where
  "SUPPORT_OUTPUT_VARS_NODE =
     [Start, TriggerWebhook, TriggerPlugin, LLM, KnowledgeRetrieval, Code, TemplateTransform,
      HttpRequest, Tool, VariableAssigner, VariableAggregator, QuestionClassifier, ParameterExtractor,
      Iteration, Loop, DocExtractor, ListFilter, Agent, AgentV2, DataSource, HumanInput]"

definition supportsOutputVars :: "node \<Rightarrow> bool" where
  "supportsOutputVars n = (d_type (n_data n) \<in> set SUPPORT_OUTPUT_VARS_NODE)"

definition canRunBySingle :: "BlockEnum \<Rightarrow> bool \<Rightarrow> bool" where
  "canRunBySingle t isChildNode =
     (if isChildNode \<and> t = Assigner then False
      else t \<in> {LLM, KnowledgeRetrieval, Code, TemplateTransform, QuestionClassifier, HttpRequest, Tool,
        ParameterExtractor, Iteration, Agent, AgentV2, DocExtractor, Loop, Start, IfElse,
        VariableAggregator, Assigner, HumanInput, DataSource, TriggerSchedule, TriggerWebhook,
        TriggerPlugin})"

definition isSupportCustomRunForm :: "BlockEnum \<Rightarrow> bool" where
  "isSupportCustomRunForm t = (t = DataSource)"

definition hasErrorHandleNode :: "BlockEnum option \<Rightarrow> bool" where
  "hasErrorHandleNode t = (t \<in> Some ` {LLM, Tool, HttpRequest, Code, Agent, AgentV2})"

definition hasRetryNode :: "BlockEnum option \<Rightarrow> bool" where
  "hasRetryNode t = (t \<in> Some ` {LLM, Tool, HttpRequest, Code})"

definition availableBlocksFilter :: "BlockEnum \<Rightarrow> bool \<Rightarrow> bool" where
  "availableBlocksFilter t inContainer =
     (if t = StartPlaceholder then False
      else if inContainer \<and> t \<in> {Iteration, Loop, End, DataSource, KnowledgeBase, HumanInput} then False
      else if \<not> inContainer \<and> t = LoopEnd then False
      else True)"

text \<open>\<^verbatim>\<open>getAvailableBlocks(nodeType, inContainer)\<close>, as the pair of previous and next blocks.\<close>

definition getAvailableBlocks ::
  "flow_meta \<Rightarrow> BlockEnum option \<Rightarrow> bool \<Rightarrow> BlockEnum list \<times> BlockEnum list" where
  "getAvailableBlocks M t inContainer =
     (let prevs = (if t = None \<or> t \<in> Some ` {Start, StartPlaceholder, DataSource} then []
                   else fm_availableNodesType M);
          nexts = (if t = None \<or> t \<in> Some ` {StartPlaceholder, LoopEnd, KnowledgeBase} then []
                   else fm_availableNodesType M)
      in (filter (\<lambda>b. availableBlocksFilter b inContainer) prevs,
          filter (\<lambda>b. availableBlocksFilter b inContainer) nexts))"

section \<open>Finding nodes\<close>

definition getNodeById :: "flow \<Rightarrow> string \<Rightarrow> node option" where
  "getNodeById F nid = find (\<lambda>n. n_id n = nid) (fl_nodes F)"

definition getNode :: "flow \<Rightarrow> string option \<Rightarrow> node option" where
  "getNode F nid =
     (case find (\<lambda>n. Some (n_id n) = nid) (fl_nodes F) of
        Some n \<Rightarrow> Some n | None \<Rightarrow> getWorkflowEntryNode (fl_nodes F))"

definition getBeforeNodeById :: "flow_lib \<Rightarrow> flow \<Rightarrow> string \<Rightarrow> js_error + node list" where
  "getBeforeNodeById L F nid =
     (case getNodeById F nid of
        None \<Rightarrow> Inl TypeError
      | Some n \<Rightarrow> Inr (getIncomers L (n_id n) (fl_nodes F) (fl_edges F)))"

definition getIterationNodeChildren :: "flow \<Rightarrow> string \<Rightarrow> node list" where
  "getIterationNodeChildren F nid = filter (\<lambda>n. n_parentId n = Some nid) (fl_nodes F)"

definition getLoopNodeChildren :: "flow \<Rightarrow> string \<Rightarrow> node list" where
  "getLoopNodeChildren F nid = filter (\<lambda>n. n_parentId n = Some nid) (fl_nodes F)"

definition isNodeInIteration :: "flow \<Rightarrow> string \<Rightarrow> string \<Rightarrow> bool" where
  "isNodeInIteration F iterationId nid =
     (case getNodeById F nid of None \<Rightarrow> False | Some n \<Rightarrow> n_parentId n = Some iterationId)"

definition isNodeInLoop :: "flow \<Rightarrow> string \<Rightarrow> string \<Rightarrow> bool" where
  "isNodeInLoop F loopId nid =
     (case getNodeById F nid of None \<Rightarrow> False | Some n \<Rightarrow> n_parentId n = Some loopId)"

section \<open>The nodes before a node\<close>

text \<open>
  The closure \<^verbatim>\<open>traverse\<close> of \<^verbatim>\<open>getBeforeNodesInSameBranch\<close>: it threads the shared array \<^verbatim>\<open>list\<close> and does
  not enter a node that is already in it.
\<close>

fun beforeTraverse ::
    "flow_lib \<Rightarrow> node list \<Rightarrow> edge list \<Rightarrow> nat \<Rightarrow> node \<Rightarrow> node list \<Rightarrow> js_error + node list"
  and beforeEach ::
    "flow_lib \<Rightarrow> node list \<Rightarrow> edge list \<Rightarrow> nat \<Rightarrow> node list \<Rightarrow> node list \<Rightarrow> js_error + node list" where
  "beforeTraverse L ns es 0 rt acc = Inl RangeError"
| "beforeTraverse L ns es (Suc k) rt acc = beforeEach L ns es k (getIncomers L (n_id rt) ns es) acc"
| "beforeEach L ns es k [] acc = Inr acc"
| "beforeEach L ns es k (n # rest) acc =
     (if \<exists>m \<in> set acc. n_id n = n_id m then beforeEach L ns es k rest acc
      else case beforeTraverse L ns es k n (acc @ [n]) of
             Inl e \<Rightarrow> Inl e
           | Inr acc' \<Rightarrow> beforeEach L ns es k rest acc')"

text \<open>
  \<^verbatim>\<open>getBeforeNodesInSameBranch(nodeId, newNodes, newEdges)\<close>; the recursive call for the container passes
  only the id, so it reads the nodes and edges of the store.
\<close>

fun getBeforeNodesInSameBranch ::
  "nat \<Rightarrow> flow_lib \<Rightarrow> flow \<Rightarrow> string \<Rightarrow> node list option \<Rightarrow> edge list option \<Rightarrow> js_error + node list" where
  "getBeforeNodesInSameBranch 0 L F nid newNodes newEdges = Inl RangeError"
| "getBeforeNodesInSameBranch (Suc k) L F nid newNodes newEdges =
     (let ns = (case newNodes of None \<Rightarrow> fl_nodes F | Some x \<Rightarrow> x);
          es = (case newEdges of None \<Rightarrow> fl_edges F | Some x \<Rightarrow> x)
      in case find (\<lambda>n. n_id n = nid) ns of
           None \<Rightarrow> Inr []
         | Some currentNode \<Rightarrow>
             (let parentList =
                (if truthy_parent (n_parentId currentNode)
                 then (case find (\<lambda>n. Some (n_id n) = n_parentId currentNode) ns of
                         None \<Rightarrow> Inr []
                       | Some parentNode \<Rightarrow>
                           getBeforeNodesInSameBranch k L F (n_id parentNode) None None)
                 else Inr [])
              in case parentList of
                   Inl e \<Rightarrow> Inl e
                 | Inr l0 \<Rightarrow>
                     (case beforeTraverse L ns es (length ns + 1) currentNode l0 of
                        Inl e \<Rightarrow> Inl e
                      | Inr list \<Rightarrow>
                          Inr (if list \<noteq> []
                               then filter supportsOutputVars (rev (uniqById L list)) else []))))"

definition getBeforeNodesInSameBranchIncludeParent ::
  "nat \<Rightarrow> flow_lib \<Rightarrow> flow \<Rightarrow> string \<Rightarrow> node list option \<Rightarrow> edge list option \<Rightarrow> js_error + node list" where
  "getBeforeNodesInSameBranchIncludeParent k L F nid newNodes newEdges =
     (case getBeforeNodesInSameBranch k L F nid newNodes newEdges of
        Inl e \<Rightarrow> Inl e
      | Inr ns \<Rightarrow>
          (let parentNodeId = (case getNodeById F nid of None \<Rightarrow> None | Some n \<Rightarrow> n_parentId n) in
           case find (\<lambda>n. Some (n_id n) = parentNodeId) (fl_nodes F) of
             None \<Rightarrow> Inr ns
           | Some parentNode \<Rightarrow> Inr (ns @ [parentNode])))"

section \<open>The nodes after a node, and the leaves and roots of a branch\<close>

fun afterTraverse :: "flow_lib \<Rightarrow> flow \<Rightarrow> nat \<Rightarrow> node \<Rightarrow> js_error + node list" where
  "afterTraverse L F 0 rt = Inl RangeError"
| "afterTraverse L F (Suc k) rt =
     concat_result
       (\<lambda>n. case afterTraverse L F k n of Inl e \<Rightarrow> Inl e | Inr l \<Rightarrow> Inr (n # l))
       (getOutgoers L (n_id rt) (fl_nodes F) (fl_edges F))"

definition getAfterNodesInSameBranch :: "nat \<Rightarrow> flow_lib \<Rightarrow> flow \<Rightarrow> string \<Rightarrow> js_error + node list" where
  "getAfterNodesInSameBranch k L F nid =
     (case getNodeById F nid of
        None \<Rightarrow> Inr []
      | Some currentNode \<Rightarrow>
          (case afterTraverse L F k currentNode of
             Inl e \<Rightarrow> Inl e
           | Inr l \<Rightarrow> Inr (uniqById L (currentNode # l))))"

fun leafPreOrder :: "flow_lib \<Rightarrow> flow \<Rightarrow> string \<Rightarrow> nat \<Rightarrow> node \<Rightarrow> js_error + node list" where
  "leafPreOrder L F nid 0 rt = Inl RangeError"
| "leafPreOrder L F nid (Suc k) rt =
     (if n_id rt = nid then Inr []
      else (let outgoers = getOutgoers L (n_id rt) (fl_nodes F) (fl_edges F) in
        if outgoers \<noteq> [] then concat_result (leafPreOrder L F nid k) outgoers
        else if n_id rt \<noteq> nid then Inr [rt] else Inr []))"

definition getTreeLeafNodes :: "nat \<Rightarrow> flow_lib \<Rightarrow> flow_meta \<Rightarrow> flow \<Rightarrow> string \<Rightarrow> js_error + node list" where
  "getTreeLeafNodes k L M F nid =
     (let ns = fl_nodes F;
          starts = filter (\<lambda>n. fm_isStart M (d_type (n_data n))) ns;
          startNodes = (case getNodeById F nid of
              None \<Rightarrow> starts
            | Some currentNode \<Rightarrow>
                if truthy_parent (n_parentId currentNode)
                then (case find (\<lambda>n. n_parentId n = n_parentId currentNode
                        \<and> (n_type n = Some CUSTOM_ITERATION_START_NODE
                           \<or> n_type n = Some CUSTOM_LOOP_START_NODE)) ns of
                        None \<Rightarrow> starts | Some s \<Rightarrow> [s])
                else starts)
      in if startNodes = [] then Inr []
         else case concat_result (leafPreOrder L F nid k) startNodes of
                Inl e \<Rightarrow> Inl e
              | Inr list \<Rightarrow>
                  Inr (filter supportsOutputVars
                    (uniqById L (list @ getIncomers L nid ns (fl_edges F)))))"

fun rootTraverse :: "flow_lib \<Rightarrow> flow \<Rightarrow> nat \<Rightarrow> node \<Rightarrow> js_error + node list" where
  "rootTraverse L F 0 rt = Inl RangeError"
| "rootTraverse L F (Suc k) rt =
     (let incomers = getIncomers L (n_id rt) (fl_nodes F) (fl_edges F) in
      if incomers \<noteq> [] then concat_result (rootTraverse L F k) incomers else Inr [rt])"

fun getRootNodesById :: "nat \<Rightarrow> flow_lib \<Rightarrow> flow \<Rightarrow> string \<Rightarrow> js_error + node list" where
  "getRootNodesById 0 L F nid = Inl RangeError"
| "getRootNodesById (Suc k) L F nid =
     (case getNodeById F nid of
        None \<Rightarrow> Inr []
      | Some currentNode \<Rightarrow>
          (let parentList =
             (if truthy_parent (n_parentId currentNode)
              then (case find (\<lambda>n. Some (n_id n) = n_parentId currentNode) (fl_nodes F) of
                      None \<Rightarrow> Inr [] | Some parentNode \<Rightarrow> getRootNodesById k L F (n_id parentNode))
              else Inr [])
           in case parentList of
                Inl e \<Rightarrow> Inl e
              | Inr l0 \<Rightarrow>
                  (case rootTraverse L F (length (fl_nodes F) + 1) currentNode of
                     Inl e \<Rightarrow> Inl e
                   | Inr l \<Rightarrow> Inr (if l0 @ l \<noteq> [] then uniqById L (l0 @ l) else []))))"

definition getStartNodes ::
  "nat \<Rightarrow> flow_lib \<Rightarrow> flow_meta \<Rightarrow> flow \<Rightarrow> node list \<Rightarrow> node option \<Rightarrow> js_error + node list" where
  "getStartNodes k L M F ns currentNode =
     (let parentId = (case currentNode of None \<Rightarrow> None | Some n \<Rightarrow> n_parentId n);
          cid = (case currentNode of None \<Rightarrow> [] | Some n \<Rightarrow> n_id n);
          starts =
            (if truthy_parent parentId
             then (case find (\<lambda>n. Some (n_id n) = parentId) ns of
                     None \<Rightarrow> Inl (JsError ''Parent node not found'')
                   | Some parentNode \<Rightarrow>
                       (case find (\<lambda>n. Some (n_id n) = p_start_node_id (d_payload (n_data parentNode))) ns of
                          None \<Rightarrow> Inr [] | Some s \<Rightarrow> Inr [s]))
             else Inr (filter (\<lambda>n. fm_isStart M (d_type (n_data n))) ns))
      in case starts of
           Inl e \<Rightarrow> Inl e
         | Inr startNodes \<Rightarrow> if startNodes = [] then getRootNodesById k L F cid else Inr startNodes)"

section \<open>Where a node comes from\<close>

fun checkPreviousNodes :: "flow_lib \<Rightarrow> flow \<Rightarrow> nat \<Rightarrow> node \<Rightarrow> js_error + bool" where
  "checkPreviousNodes L F 0 n = Inl RangeError"
| "checkPreviousNodes L F (Suc k) n =
     (case getBeforeNodeById L F (n_id n) of
        Inl e \<Rightarrow> Inl e
      | Inr previousNodes \<Rightarrow>
          any_result
            (\<lambda>p. if isWorkflowEntryNode (d_type (n_data p)) then Inr True else checkPreviousNodes L F k p)
            previousNodes)"

definition isFromStartNode :: "nat \<Rightarrow> flow_lib \<Rightarrow> flow \<Rightarrow> string \<Rightarrow> js_error + bool" where
  "isFromStartNode k L F nid =
     (case getNodeById F nid of
        None \<Rightarrow> Inr False
      | Some currentNode \<Rightarrow>
          if isWorkflowEntryNode (d_type (n_data currentNode)) then Inr True
          else checkPreviousNodes L F k currentNode)"

section \<open>May an edge be drawn\<close>

text \<open>
  The closure \<^verbatim>\<open>hasCycle\<close> of \<^verbatim>\<open>isValidConnection\<close>: a depth-first search from the target that looks for the
  source. It answers with the shared set \<^verbatim>\<open>visited\<close>.
\<close>

fun hasCycle ::
    "flow_lib \<Rightarrow> flow \<Rightarrow> string \<Rightarrow> nat \<Rightarrow> node \<Rightarrow> string list \<Rightarrow> js_error + bool \<times> string list"
  and hasCycleEach ::
    "flow_lib \<Rightarrow> flow \<Rightarrow> string \<Rightarrow> nat \<Rightarrow> node list \<Rightarrow> string list \<Rightarrow> js_error + bool \<times> string list" where
  "hasCycle L F src 0 n visited = Inl RangeError"
| "hasCycle L F src (Suc k) n visited =
     (if n_id n \<in> set visited then Inr (False, visited)
      else hasCycleEach L F src k (getOutgoers L (n_id n) (fl_nodes F) (fl_edges F)) (n_id n # visited))"
| "hasCycleEach L F src k [] visited = Inr (False, visited)"
| "hasCycleEach L F src k (m # rest) visited =
     (if n_id m = src then Inr (True, visited)
      else case hasCycle L F src k m visited of
             Inl e \<Rightarrow> Inl e
           | Inr (True, v) \<Rightarrow> Inr (True, v)
           | Inr (False, v) \<Rightarrow> hasCycleEach L F src k rest v)"

definition blocksAllow :: "flow_meta \<Rightarrow> node \<Rightarrow> node \<Rightarrow> bool" where
  "blocksAllow M s t =
     (let st = getNodeCatalogType (n_data s); tt = getNodeCatalogType (n_data t);
          nexts = snd (getAvailableBlocks M (Some st) (truthy_parent (n_parentId s)));
          prevs = fst (getAvailableBlocks M (Some tt) (truthy_parent (n_parentId t)))
      in tt \<in> set nexts \<and> st \<in> set prevs)"

definition isValidConnection :: "flow_lib \<Rightarrow> flow_meta \<Rightarrow> flow \<Rightarrow> string \<Rightarrow> string \<Rightarrow> js_error + bool" where
  "isValidConnection L M F src tgt =
     (case (getNodeById F src, getNodeById F tgt) of
        (Some s, Some t) \<Rightarrow>
          if n_type s = Some CUSTOM_NOTE_NODE \<or> n_type t = Some CUSTOM_NOTE_NODE then Inr False
          else if n_parentId s \<noteq> n_parentId t then Inr False
          else if \<not> blocksAllow M s t then Inr False
          else (case hasCycle L F src (length (fl_nodes F) + 1) t [] of
                  Inl e \<Rightarrow> Inl e
                | Inr (found, v) \<Rightarrow> Inr (\<not> found))
      | (Some s, None) \<Rightarrow> if n_type s = Some CUSTOM_NOTE_NODE then Inr False else Inl TypeError
      | (None, _) \<Rightarrow> Inl TypeError)"

section \<open>The nodes that a run can reach\<close>

fun validTraverse ::
    "flow_lib \<Rightarrow> flow \<Rightarrow> nat \<Rightarrow> node \<Rightarrow> int \<Rightarrow> node list \<times> int \<Rightarrow> js_error + node list \<times> int"
  and validEach ::
    "flow_lib \<Rightarrow> flow \<Rightarrow> nat \<Rightarrow> node list \<Rightarrow> int \<Rightarrow> node list \<times> int \<Rightarrow> js_error + node list \<times> int" where
  "validTraverse L F 0 rt depth acc = Inl RangeError"
| "validTraverse L F (Suc k) rt depth (list, maxDepth) =
     (let list1 = list @ [rt];
          maxDepth1 = (if depth > maxDepth then depth else maxDepth);
          outgoers = getOutgoers L (n_id rt) (fl_nodes F) (fl_edges F)
      in if outgoers \<noteq> [] then validEach L F k outgoers depth (list1, maxDepth1)
         else Inr (list1 @ (if d_type (n_data rt) \<in> {Iteration, Loop}
                            then getIterationNodeChildren F (n_id rt) else []), maxDepth1))"
| "validEach L F k [] depth acc = Inr acc"
| "validEach L F k (m # rest) depth (list, maxDepth) =
     (if \<exists>n \<in> set list. n_id n = n_id m then validEach L F k rest depth (list, maxDepth)
      else (let list1 = list @ (if d_type (n_data m) \<in> {Iteration, Loop}
                                then getIterationNodeChildren F (n_id m) else [])
            in case validTraverse L F k m (depth + 1) (list1, maxDepth) of
                 Inl e \<Rightarrow> Inl e
               | Inr acc \<Rightarrow> validEach L F k rest depth acc))"

fun validFromStarts :: "flow_lib \<Rightarrow> flow \<Rightarrow> nat \<Rightarrow> node list \<Rightarrow> node list \<times> int \<Rightarrow> js_error + node list \<times> int" where
  "validFromStarts L F k [] acc = Inr acc"
| "validFromStarts L F k (s # rest) (list, maxDepth) =
     (if \<exists>n \<in> set list. n_id n = n_id s then validFromStarts L F k rest (list, maxDepth)
      else case validTraverse L F k s 1 (list, maxDepth) of
             Inl e \<Rightarrow> Inl e
           | Inr acc \<Rightarrow> validFromStarts L F k rest acc)"

definition getValidTreeNodes :: "flow_lib \<Rightarrow> flow \<Rightarrow> js_error + node list \<times> int" where
  "getValidTreeNodes L F =
     (let startNodes = filter (\<lambda>n. isWorkflowEntryNode (d_type (n_data n))) (fl_nodes F) in
      if startNodes = [] then Inr ([], 0)
      else case validFromStarts L F (length (fl_nodes F) + 1) startNodes ([], 0) of
             Inl e \<Rightarrow> Inl e
           | Inr (list, maxDepth) \<Rightarrow> Inr (uniqById L list, maxDepth))"

end
