(* ===== verification/Edge_Editing.thy ===== *)
theory Edge_Editing
  imports Flow_Graph "HOL-Library.Multiset"
begin

text \<open>
  Connecting nodes and editing edges (\<^verbatim>\<open>workflow/hooks/use-edges-interactions.ts\<close>, its helpers,
  \<^verbatim>\<open>getNodesConnectedSourceOrTargetHandleIdsMap\<close> of \<^verbatim>\<open>utils/workflow.ts\<close> and \<^verbatim>\<open>handleNodeConnect\<close> of
  \<^verbatim>\<open>hooks/use-nodes-interactions.ts\<close>). Every node caches the handles its edges use in
  \<^verbatim>\<open>_connectedSourceHandleIds\<close> and \<^verbatim>\<open>_connectedTargetHandleIds\<close>; the operations update edges and caches
  together.

  The state holds the nodes and edges of the canvas, what makes it read-only, the target of the context
  menu, and a log of the calls to the draft synchronisation and the undo history, which are components of
  their own. An absent handle is \<^verbatim>\<open>null\<close>.
\<close>

section \<open>State\<close>

datatype WorkflowContextMenuTarget =
  PanelTarget | SelectionTarget | NodeTarget string | EdgeTarget string

datatype edit_effect = SyncDraft | SaveHistory string "string option"

record edit_store =
  es_nodes :: "node list"
  es_edges :: "edge list"
  es_canvasReadOnly :: bool
  es_canEdit :: bool
  es_runningStatus :: "running_status option"
  es_historyWorkflowData :: bool
  es_isRestoring :: bool
  es_contextMenuTarget :: "WorkflowContextMenuTarget option"
  es_effects :: "edit_effect list"

definition getNodesReadOnly :: "edit_store \<Rightarrow> bool" where
  "getNodesReadOnly s =
     (es_canvasReadOnly s \<or> \<not> es_canEdit s
      \<or> es_runningStatus s = Some Running \<or> es_runningStatus s = Some Paused
      \<or> es_historyWorkflowData s \<or> es_isRestoring s)"

definition getWorkflowReadOnly :: "edit_store \<Rightarrow> bool" where
  "getWorkflowReadOnly s = (es_canvasReadOnly s \<or> es_runningStatus s = Some Running)"

definition emit :: "edit_effect list \<Rightarrow> edit_store \<Rightarrow> edit_store" where
  "emit fx s = s\<lparr>es_effects := es_effects s @ fx\<rparr>"

section \<open>The caches of connected handles\<close>

datatype change_type = AddEdge | RemoveEdge

type_synonym edge_change = "change_type \<times> edge"
type_synonym handle_ids = "string list \<times> string list"

definition opt_list :: "'a list option \<Rightarrow> 'a list" where
  "opt_list x = (case x of None \<Rightarrow> [] | Some l \<Rightarrow> l)"

definition handle_ids_of :: "node \<Rightarrow> handle_ids" where
  "handle_ids_of n =
     (opt_list (d_connectedSourceHandleIds (n_data n)), opt_list (d_connectedTargetHandleIds (n_data n)))"

text \<open>\<^verbatim>\<open>map[id] = map[id] || { copies of the node's lists }\<close>\<close>

definition ensureEntry :: "node option \<Rightarrow> (string \<times> handle_ids) list \<Rightarrow> (string \<times> handle_ids) list" where
  "ensureEntry n hm =
     (case n of None \<Rightarrow> hm
      | Some n \<Rightarrow> (case map_of hm (n_id n) of None \<Rightarrow> obj_set (n_id n) (handle_ids_of n) hm | Some _ \<Rightarrow> hm))"

text \<open>
  \<^verbatim>\<open>handle || fallback\<close> is what an added edge pushes; a removed edge splices the index of its own handle,
  which is \<open>-1\<close> when the handle is not in the list.
\<close>

definition handleOr :: "string option \<Rightarrow> string \<Rightarrow> string" where
  "handleOr h fallback = (case h of None \<Rightarrow> fallback | Some x \<Rightarrow> if x = [] then fallback else x)"

definition changeHandles :: "change_type \<Rightarrow> string option \<Rightarrow> string \<Rightarrow> string list \<Rightarrow> string list" where
  "changeHandles t h fallback hs =
     (case t of
        RemoveEdge \<Rightarrow> splice hs (findIndex (\<lambda>x. Some x = h) hs) 1 []
      | AddEdge \<Rightarrow> hs @ [handleOr h fallback])"

definition changeEntry ::
  "node option \<Rightarrow> (handle_ids \<Rightarrow> handle_ids) \<Rightarrow> (string \<times> handle_ids) list \<Rightarrow> (string \<times> handle_ids) list" where
  "changeEntry n f hm =
     (case n of None \<Rightarrow> hm
      | Some n \<Rightarrow> (case map_of hm (n_id n) of None \<Rightarrow> hm | Some h \<Rightarrow> obj_set (n_id n) (f h) hm))"

definition applyChange :: "node list \<Rightarrow> edge_change \<Rightarrow> (string \<times> handle_ids) list \<Rightarrow> (string \<times> handle_ids) list" where
  "applyChange ns c hm =
     (let t = fst c; e = snd c;
          sourceNode = find (\<lambda>n. n_id n = e_source e) ns;
          targetNode = find (\<lambda>n. n_id n = e_target e) ns;
          hm1 = ensureEntry targetNode (ensureEntry sourceNode hm);
          hm2 = changeEntry sourceNode
            (\<lambda>(s, g). (changeHandles t (e_sourceHandle e) ''source'' s, g)) hm1
      in changeEntry targetNode
            (\<lambda>(s, g). (s, changeHandles t (e_targetHandle e) ''target'' g)) hm2)"

definition getNodesConnectedSourceOrTargetHandleIdsMap ::
  "edge_change list \<Rightarrow> node list \<Rightarrow> (string \<times> handle_ids) list" where
  "getNodesConnectedSourceOrTargetHandleIdsMap changes ns = fold (applyChange ns) changes []"

definition setHandleIds :: "handle_ids \<Rightarrow> node \<Rightarrow> node" where
  "setHandleIds h = with_data (\<lambda>d. d\<lparr>d_connectedSourceHandleIds := Some (fst h),
     d_connectedTargetHandleIds := Some (snd h)\<rparr>)"

definition applyConnectedHandleNodeData :: "node list \<Rightarrow> edge_change list \<Rightarrow> node list" where
  "applyConnectedHandleNodeData ns changes =
     (let hm = getNodesConnectedSourceOrTargetHandleIdsMap changes ns in
      map (\<lambda>n. case map_of hm (n_id n) of None \<Rightarrow> n | Some h \<Rightarrow> setHandleIds h n) ns)"

section \<open>Helpers\<close>

definition clearEdgeMenuIfNeeded :: "WorkflowContextMenuTarget option \<Rightarrow> string list \<Rightarrow> bool" where
  "clearEdgeMenuIfNeeded target edgeIds =
     (case target of Some (EdgeTarget i) \<Rightarrow> i \<in> set edgeIds | _ \<Rightarrow> False)"

definition clearMenu :: "string list \<Rightarrow> edit_store \<Rightarrow> edit_store" where
  "clearMenu edgeIds s =
     (if clearEdgeMenuIfNeeded (es_contextMenuTarget s) edgeIds
      then s\<lparr>es_contextMenuTarget := None\<rparr> else s)"

text \<open>A recipe that assigns to \<^verbatim>\<open>edge.data\<close> throws on an edge without data.\<close>

definition updateEdgeHoverState :: "edge list \<Rightarrow> string \<Rightarrow> bool \<Rightarrow> js_error + edge list" where
  "updateEdgeHoverState es edgeId hovering =
     (case find (\<lambda>e. e_id e = edgeId) es of
        None \<Rightarrow> Inr es
      | Some e \<Rightarrow>
          if e_data e = None then Inl TypeError
          else Inr (update_first (\<lambda>e. e_id e = edgeId) (with_edge_data (\<lambda>d. d\<lparr>ed_hovering := hovering\<rparr>)) es))"

datatype edge_select_change = SelectChange string bool | OtherChange

definition updateEdgeSelectionState :: "edge list \<Rightarrow> edge_select_change list \<Rightarrow> edge list" where
  "updateEdgeSelectionState es changes =
     foldl (\<lambda>es c. case c of
         SelectChange i sel \<Rightarrow> update_first (\<lambda>e. e_id e = i) (\<lambda>e. e\<lparr>e_selected := sel\<rparr>) es
       | OtherChange \<Rightarrow> es) es changes"

definition buildContextMenuEdges :: "edge list \<Rightarrow> string \<Rightarrow> js_error + edge list" where
  "buildContextMenuEdges es edgeId =
     map_result (\<lambda>e. case e_data e of
         None \<Rightarrow> Inl TypeError
       | Some d \<Rightarrow> Inr (e\<lparr>e_selected := (e_id e = edgeId), e_data := Some (d\<lparr>ed_isBundled := False\<rparr>)\<rparr>)) es"

definition clearNodeSelectionState :: "node list \<Rightarrow> node list" where
  "clearNodeSelectionState ns =
     map (\<lambda>n. (with_data (\<lambda>d. d\<lparr>d_selected := False, d_isBundled := False\<rparr>) n)\<lparr>n_selected := False\<rparr>) ns"

section \<open>Operations\<close>

definition deleteEdgeById :: "string \<Rightarrow> edit_store \<Rightarrow> edit_store" where
  "deleteEdgeById edgeId s =
     (let currentEdgeIndex = findIndex (\<lambda>e. e_id e = edgeId) (es_edges s) in
      if currentEdgeIndex < 0 then s
      else (let currentEdge = es_edges s ! nat currentEdgeIndex in
        emit [SyncDraft, SaveHistory ''EdgeDelete'' None]
          (clearMenu [e_id currentEdge]
            (s\<lparr>es_nodes := applyConnectedHandleNodeData (es_nodes s) [(RemoveEdge, currentEdge)],
               es_edges := splice (es_edges s) currentEdgeIndex 1 []\<rparr>))))"

definition handleEdgeHover :: "bool \<Rightarrow> string \<Rightarrow> edit_store \<Rightarrow> edit_store outcome" where
  "handleEdgeHover hovering edgeId s =
     (if getNodesReadOnly s then Ok s
      else case updateEdgeHoverState (es_edges s) edgeId hovering of
             Inl e \<Rightarrow> Threw e s
           | Inr es \<Rightarrow> Ok (s\<lparr>es_edges := es\<rparr>))"

definition handleEdgeEnter :: "string \<Rightarrow> edit_store \<Rightarrow> edit_store outcome" where
  "handleEdgeEnter = handleEdgeHover True"

definition handleEdgeLeave :: "string \<Rightarrow> edit_store \<Rightarrow> edit_store outcome" where
  "handleEdgeLeave = handleEdgeHover False"

definition handleEdgeDeleteByDeleteBranch :: "string \<Rightarrow> string \<Rightarrow> edit_store \<Rightarrow> edit_store" where
  "handleEdgeDeleteByDeleteBranch nodeId branchId s =
     (if getNodesReadOnly s then s
      else (let edgeWillBeDeleted =
              filter (\<lambda>e. e_source e = nodeId \<and> e_sourceHandle e = Some branchId) (es_edges s) in
        if edgeWillBeDeleted = [] then s
        else emit [SyncDraft, SaveHistory ''EdgeDeleteByDeleteBranch'' None]
          (clearMenu (map e_id edgeWillBeDeleted)
            (s\<lparr>es_nodes := applyConnectedHandleNodeData (es_nodes s) (map (Pair RemoveEdge) edgeWillBeDeleted),
               es_edges := filter (\<lambda>e. \<not> (\<exists>d \<in> set edgeWillBeDeleted. e_id d = e_id e)) (es_edges s)\<rparr>))))"

definition handleEdgeDelete :: "edit_store \<Rightarrow> edit_store" where
  "handleEdgeDelete s =
     (if getNodesReadOnly s then s
      else case find e_selected (es_edges s) of
             None \<Rightarrow> s
           | Some currentEdge \<Rightarrow> deleteEdgeById (e_id currentEdge) s)"

definition handleEdgeDeleteById :: "string \<Rightarrow> edit_store \<Rightarrow> edit_store" where
  "handleEdgeDeleteById edgeId s = (if getNodesReadOnly s then s else deleteEdgeById edgeId s)"

definition handleEdgesChange :: "edge_select_change list \<Rightarrow> edit_store \<Rightarrow> edit_store" where
  "handleEdgesChange changes s =
     (if getNodesReadOnly s then s
      else s\<lparr>es_edges := updateEdgeSelectionState (es_edges s) changes\<rparr>)"

definition handle_text :: "string option \<Rightarrow> string" where
  "handle_text h = (case h of None \<Rightarrow> ''null'' | Some x \<Rightarrow> x)"

definition edge_key :: "string \<Rightarrow> string option \<Rightarrow> string \<Rightarrow> string option \<Rightarrow> string" where
  "edge_key src sh tgt th = src @ ''-'' @ handle_text sh @ ''-'' @ tgt @ ''-'' @ handle_text th"

definition handleEdgeSourceHandleChange :: "string \<Rightarrow> string \<Rightarrow> string \<Rightarrow> edit_store \<Rightarrow> edit_store" where
  "handleEdgeSourceHandleChange nodeId oldHandleId newHandleId s =
     (if getNodesReadOnly s then s
      else (let affected = (\<lambda>e. e_source e = nodeId \<and> e_sourceHandle e = Some oldHandleId);
                affectedEdges = filter affected (es_edges s) in
        if affectedEdges = [] then s
        else emit [SyncDraft, SaveHistory ''EdgeSourceHandleChange'' None]
          (clearMenu (map e_id affectedEdges)
            (s\<lparr>es_nodes := applyConnectedHandleNodeData (es_nodes s)
                 (map (Pair RemoveEdge) affectedEdges
                  @ map (\<lambda>e. (AddEdge, e\<lparr>e_sourceHandle := Some newHandleId\<rparr>)) affectedEdges),
               es_edges := map (\<lambda>e. if affected e
                 then e\<lparr>e_sourceHandle := Some newHandleId,
                        e_id := edge_key (e_source e) (Some newHandleId) (e_target e) (e_targetHandle e)\<rparr>
                 else e) (es_edges s)\<rparr>))))"

definition handleEdgeContextMenu :: "string \<Rightarrow> edit_store \<Rightarrow> edit_store outcome" where
  "handleEdgeContextMenu edgeId s =
     (if getNodesReadOnly s then Ok s
      else case buildContextMenuEdges (es_edges s) edgeId of
             Inl e \<Rightarrow> Threw e s
           | Inr es \<Rightarrow>
               Ok (s\<lparr>es_edges := es,
                 es_nodes := (if \<exists>n \<in> set (es_nodes s). d_selected (n_data n) \<or> n_selected n \<or> d_isBundled (n_data n)
                              then clearNodeSelectionState (es_nodes s) else es_nodes s),
                 es_contextMenuTarget := Some (EdgeTarget edgeId)\<rparr>))"

section \<open>Connecting two nodes\<close>

definition newConnection ::
  "node list \<Rightarrow> node \<Rightarrow> node \<Rightarrow> string option \<Rightarrow> string option \<Rightarrow> edge" where
  "newConnection ns sourceNode targetNode sourceHandle targetHandle =
     (let parentNode = (case n_parentId targetNode of None \<Rightarrow> None
                        | Some p \<Rightarrow> find (\<lambda>n. n_id n = p) ns);
          isInIteration = map_option (\<lambda>p. d_type (n_data p) = Iteration) parentNode;
          isInLoop = (case parentNode of None \<Rightarrow> False | Some p \<Rightarrow> d_type (n_data p) = Loop)
      in \<lparr>e_id = edge_key (n_id sourceNode) sourceHandle (n_id targetNode) targetHandle,
          e_type = Some ''custom'',
          e_source = n_id sourceNode, e_sourceHandle = sourceHandle,
          e_target = n_id targetNode, e_targetHandle = targetHandle,
          e_selected = False,
          e_zIndex = Some (if truthy_parent (n_parentId targetNode) then 1002 else 0),
          e_data = Some (no_edge_data\<lparr>
            ed_sourceType := Some (d_type (n_data sourceNode)),
            ed_targetType := Some (d_type (n_data targetNode)),
            ed_isInIteration := isInIteration,
            ed_iteration_id := (if isInIteration = Some True then n_parentId targetNode else None),
            ed_isInLoop := Some isInLoop,
            ed_loop_id := (if isInLoop then n_parentId targetNode else None)\<rparr>)\<rparr>)"

definition handleNodeConnect ::
  "string \<Rightarrow> string option \<Rightarrow> string \<Rightarrow> string option \<Rightarrow> edit_store \<Rightarrow> edit_store outcome" where
  "handleNodeConnect src sourceHandle tgt targetHandle s =
     (if src = tgt then Ok s
      else if getNodesReadOnly s then Ok s
      else (let targetNode = find (\<lambda>n. n_id n = tgt) (es_nodes s);
                sourceNode = find (\<lambda>n. n_id n = src) (es_nodes s) in
        if (case targetNode of None \<Rightarrow> None | Some n \<Rightarrow> n_parentId n)
           \<noteq> (case sourceNode of None \<Rightarrow> None | Some n \<Rightarrow> n_parentId n) then Ok s
        else if (case sourceNode of None \<Rightarrow> False | Some n \<Rightarrow> n_type n = Some CUSTOM_NOTE_NODE)
           \<or> (case targetNode of None \<Rightarrow> False | Some n \<Rightarrow> n_type n = Some CUSTOM_NOTE_NODE) then Ok s
        else if \<exists>e \<in> set (es_edges s). e_source e = src \<and> e_sourceHandle e = sourceHandle
           \<and> e_target e = tgt \<and> e_targetHandle e = targetHandle then Ok s
        else case (sourceNode, targetNode) of
          (Some sn, Some tn) \<Rightarrow>
            (let newEdge = newConnection (es_nodes s) sn tn sourceHandle targetHandle in
             Ok (emit [SyncDraft, SaveHistory ''NodeConnect'' (Some (n_id tn))]
               (s\<lparr>es_nodes := applyConnectedHandleNodeData (es_nodes s) [(AddEdge, newEdge)],
                  es_edges := es_edges s @ [newEdge]\<rparr>)))
        | _ \<Rightarrow> Threw TypeError s))"

section \<open>The hook as a machine\<close>

datatype edit_op =
    Connect string "string option" string "string option"
  | DeleteById string
  | DeleteSelected
  | DeleteBranch string string
  | SourceHandleChange string string string
  | Enter string
  | Leave string
  | EdgesChange "edge_select_change list"
  | ContextMenu string

fun useEdgesInteractions :: "edit_store \<Rightarrow> edit_op \<Rightarrow> edit_store outcome" where
  "useEdgesInteractions s (Connect a sh b th) = handleNodeConnect a sh b th s"
| "useEdgesInteractions s (DeleteById i) = Ok (handleEdgeDeleteById i s)"
| "useEdgesInteractions s DeleteSelected = Ok (handleEdgeDelete s)"
| "useEdgesInteractions s (DeleteBranch n b) = Ok (handleEdgeDeleteByDeleteBranch n b s)"
| "useEdgesInteractions s (SourceHandleChange n a b) = Ok (handleEdgeSourceHandleChange n a b s)"
| "useEdgesInteractions s (Enter i) = handleEdgeEnter i s"
| "useEdgesInteractions s (Leave i) = handleEdgeLeave i s"
| "useEdgesInteractions s (EdgesChange cs) = Ok (handleEdgesChange cs s)"
| "useEdgesInteractions s (ContextMenu i) = handleEdgeContextMenu i s"

end
