(* ===== verification/Graph_Init.thy ===== *)
theory Graph_Init
  imports Edge_Editing
begin

text \<open>
  Loading a stored workflow onto the canvas (\<^verbatim>\<open>workflow/utils/workflow-init.ts\<close>, with
  \<^verbatim>\<open>getIterationStartNode\<close>, \<^verbatim>\<open>getLoopStartNode\<close> and \<^verbatim>\<open>generateNewNode\<close> of \<^verbatim>\<open>utils/node.ts\<close>,
  \<^verbatim>\<open>branchNameCorrect\<close> of \<^verbatim>\<open>nodes/if-else/utils.ts\<close> and \<^verbatim>\<open>correctModelProvider\<close> of \<^verbatim>\<open>web/utils/index.ts\<close>):
  old drafts get the start nodes of their iterations and loops, nodes get their transient data, and edges
  on cycles are dropped.

  \<^verbatim>\<open>getConnectedEdges\<close> (package reactflow) is a parameter. The depth-first search for cycles takes a
  recursion budget like the searches of the graph queries.
\<close>

section \<open>New nodes\<close>

definition ITERATION_CHILDREN_Z_INDEX :: int where "ITERATION_CHILDREN_Z_INDEX = 1002"
definition LOOP_CHILDREN_Z_INDEX :: int where "LOOP_CHILDREN_Z_INDEX = 1002"

definition startNodeOf :: "string \<Rightarrow> BlockEnum \<Rightarrow> string \<Rightarrow> int \<Rightarrow> node" where
  "startNodeOf ty t parent z =
     \<lparr>n_id = parent @ ''start'', n_type = Some ty, n_parentId = Some parent,
      n_position = Some (24, 68), n_width = None, n_height = None, n_zIndex = Some z, n_selected = False,
      n_data = (node_data_of t [] [])\<lparr>
        d_isInIteration := (if t = IterationStart then Some True else None),
        d_isInLoop := (if t = LoopStart then Some True else None)\<rparr>\<rparr>"

definition getIterationStartNode :: "string \<Rightarrow> node" where
  "getIterationStartNode iterationId =
     startNodeOf CUSTOM_ITERATION_START_NODE IterationStart iterationId ITERATION_CHILDREN_Z_INDEX"

definition getLoopStartNode :: "string \<Rightarrow> node" where
  "getLoopStartNode loopId = startNodeOf CUSTOM_LOOP_START_NODE LoopStart loopId LOOP_CHILDREN_Z_INDEX"

text \<open>
  \<^verbatim>\<open>generateNewNode\<close>: the template carries what the caller passes (an empty id stands for none), \<open>now\<close> is
  \<^verbatim>\<open>Date.now()\<close> as text. The answer is the new node and the start node of a new iteration or loop.
\<close>

definition generateNewNode :: "string \<Rightarrow> node \<Rightarrow> node \<times> node option" where
  "generateNewNode now tmpl =
     (let t = d_type (n_data tmpl);
          newNode = tmpl\<lparr>n_id := (if n_id tmpl = [] then now else n_id tmpl),
            n_type := (if nonempty_opt (n_type tmpl) then n_type tmpl else Some CUSTOM_NODE),
            n_zIndex := (if t = Iteration \<or> t = Loop then Some 1 else n_zIndex tmpl)\<rparr>;
          withStart = (\<lambda>s::node. with_data (\<lambda>d. d\<lparr>
              d_payload := (d_payload d)\<lparr>p_start_node_id := Some (n_id s)\<rparr>,
              d_children := Some [(n_id s, d_type (n_data s))]\<rparr>) newNode)
      in if t = Iteration then
           (let s = getIterationStartNode (n_id newNode) in (withStart s, Some s))
         else if t = Loop then
           (let s = getLoopStartNode (n_id newNode) in (withStart s, Some s))
         else (newNode, None))"

section \<open>Start nodes of old iterations and loops\<close>

definition nodesMap :: "node list \<Rightarrow> string \<Rightarrow> node option" where
  "nodesMap ns i = find (\<lambda>n. n_id n = i) (rev ns)"

definition start_id :: "node \<Rightarrow> string option" where
  "start_id n = p_start_node_id (d_payload (n_data n))"

definition containersWithStart :: "node list \<Rightarrow> BlockEnum \<Rightarrow> string \<Rightarrow> node list" where
  "containersWithStart ns t startType =
     filter (\<lambda>n. d_type (n_data n) = t \<and> nonempty_opt (start_id n)
       \<and> Option.bind (nodesMap ns (the (start_id n))) n_type \<noteq> Some startType) ns"

definition containersWithoutStart :: "node list \<Rightarrow> BlockEnum \<Rightarrow> node list" where
  "containersWithoutStart ns t = filter (\<lambda>n. d_type (n_data n) = t \<and> \<not> nonempty_opt (start_id n)) ns"

text \<open>The new start nodes with the ids of their containers, each numbered by its position.\<close>

definition newStartNodes :: "(string \<Rightarrow> node) \<Rightarrow> node list \<Rightarrow> (string \<times> node) list" where
  "newStartNodes mk cs =
     map (\<lambda>(i, c). (n_id c, (mk (n_id c))\<lparr>n_id := n_id (mk (n_id c)) @ string_of_nat i\<rparr>))
       (zip [0..<length cs] cs)"

definition startOf :: "(string \<times> node) list \<Rightarrow> string \<Rightarrow> node option" where
  "startOf starts cid = map_of (rev starts) cid"

definition startEdgeOf ::
  "node list \<Rightarrow> (string \<times> node) list \<Rightarrow> (string \<times> node) list \<Rightarrow> node \<Rightarrow> js_error + edge" where
  "startEdgeOf ns iterStarts loopStarts c =
     (let isIteration = (d_type (n_data c) = Iteration) in
      case (startOf (if isIteration then iterStarts else loopStarts) (n_id c), nodesMap ns (the (start_id c))) of
        (Some newNode, Some startNode) \<Rightarrow>
          (let parentNode = find (\<lambda>n. Some (n_id n) = n_parentId startNode) ns;
               parentIs = (\<lambda>t. case parentNode of None \<Rightarrow> False | Some p \<Rightarrow> d_type (n_data p) = t)
           in Inr \<lparr>e_id = edge_key (n_id newNode) (Some ''source'') (n_id startNode) (Some ''target''),
                e_type = Some ''custom'', e_source = n_id newNode, e_sourceHandle = Some ''source'',
                e_target = n_id startNode, e_targetHandle = Some ''target'', e_selected = False,
                e_zIndex = Some (if isIteration then ITERATION_CHILDREN_Z_INDEX else LOOP_CHILDREN_Z_INDEX),
                e_data = Some (no_edge_data\<lparr>ed_sourceType := Some (d_type (n_data newNode)),
                  ed_targetType := Some (d_type (n_data startNode)),
                  ed_isInIteration := Some (parentIs Iteration),
                  ed_iteration_id := (if parentIs Iteration then n_parentId startNode else None),
                  ed_isInLoop := Some (parentIs Loop),
                  ed_loop_id := (if parentIs Loop then n_parentId startNode else None),
                  ed_connectedNodeIsSelected := True\<rparr>)\<rparr>)
      | _ \<Rightarrow> Inl TypeError)"

definition withStartId :: "(string \<times> node) list \<Rightarrow> (string \<times> node) list \<Rightarrow> node \<Rightarrow> node" where
  "withStartId iterStarts loopStarts n =
     (let set_start = (\<lambda>starts. case startOf starts (n_id n) of
            None \<Rightarrow> n
          | Some s \<Rightarrow> with_data (\<lambda>d. d\<lparr>d_payload := (d_payload d)\<lparr>p_start_node_id := Some (n_id s)\<rparr>\<rparr>) n)
      in if d_type (n_data n) = Iteration then set_start iterStarts
         else if d_type (n_data n) = Loop then set_start loopStarts
         else n)"

definition preprocessNodesAndEdges :: "node list \<Rightarrow> edge list \<Rightarrow> js_error + node list \<times> edge list" where
  "preprocessNodesAndEdges ns es =
     (if (\<forall>n \<in> set ns. d_type (n_data n) \<noteq> Iteration) \<and> (\<forall>n \<in> set ns. d_type (n_data n) \<noteq> Loop)
      then Inr (ns, es)
      else (let iterWith = containersWithStart ns Iteration CUSTOM_ITERATION_START_NODE;
                loopWith = containersWithStart ns Loop CUSTOM_LOOP_START_NODE;
                iterStarts = newStartNodes getIterationStartNode
                  (iterWith @ containersWithoutStart ns Iteration);
                loopStarts = newStartNodes getLoopStartNode
                  (loopWith @ containersWithoutStart ns Loop)
            in case map_result (startEdgeOf ns iterStarts loopStarts) (iterWith @ loopWith) of
                 Inl e \<Rightarrow> Inl e
               | Inr newEdges \<Rightarrow>
                   Inr (map (withStartId iterStarts loopStarts) ns @ map snd iterStarts @ map snd loopStarts,
                        es @ newEdges)))"

section \<open>Edges on cycles\<close>

datatype color = WHITE | GRAY | BLACK

fun isCyclicUtil ::
    "nat \<Rightarrow> (string \<Rightarrow> string list) \<Rightarrow> string \<Rightarrow> (string \<rightharpoonup> color) \<times> string list
      \<Rightarrow> js_error + bool \<times> (string \<rightharpoonup> color) \<times> string list"
  and cyclicChildren ::
    "nat \<Rightarrow> (string \<Rightarrow> string list) \<Rightarrow> string \<Rightarrow> string list \<Rightarrow> (string \<rightharpoonup> color) \<times> string list
      \<Rightarrow> js_error + bool \<times> (string \<rightharpoonup> color) \<times> string list" where
  "isCyclicUtil 0 adj i st = Inl RangeError"
| "isCyclicUtil (Suc k) adj i (col, stack) =
     cyclicChildren k adj i (adj i) (col(i \<mapsto> GRAY), stack @ [i])"
| "cyclicChildren k adj i [] (col, stack) =
     Inr (False, col(i \<mapsto> BLACK), if stack \<noteq> [] \<and> last stack = i then butlast stack else stack)"
| "cyclicChildren k adj i (c # cs) (col, stack) =
     (if col c = Some GRAY then Inr (True, col, stack @ [c])
      else if col c = Some WHITE
      then (case isCyclicUtil k adj c (col, stack) of
              Inl e \<Rightarrow> Inl e
            | Inr (True, st) \<Rightarrow> Inr (True, st)
            | Inr (False, st) \<Rightarrow> cyclicChildren k adj i cs st)
      else cyclicChildren k adj i cs (col, stack))"

fun cyclicRoots ::
  "nat \<Rightarrow> (string \<Rightarrow> string list) \<Rightarrow> string list \<Rightarrow> (string \<rightharpoonup> color) \<times> string list
    \<Rightarrow> js_error + (string \<rightharpoonup> color) \<times> string list" where
  "cyclicRoots k adj [] st = Inr st"
| "cyclicRoots k adj (i # is) (col, stack) =
     (if col i = Some WHITE
      then (case isCyclicUtil k adj i (col, stack) of
              Inl e \<Rightarrow> Inl e | Inr (b, st) \<Rightarrow> cyclicRoots k adj is st)
      else cyclicRoots k adj is (col, stack))"

definition adjList :: "edge list \<Rightarrow> string \<Rightarrow> string list" where
  "adjList es i = map e_target (filter (\<lambda>e. e_source e = i) es)"

definition cycleStack :: "node list \<Rightarrow> edge list \<Rightarrow> js_error + string list" where
  "cycleStack ns es =
     (case cyclicRoots (length ns + 1) (adjList es) (map n_id ns)
        ((\<lambda>i. if i \<in> set (map n_id ns) then Some WHITE else None), []) of
        Inl e \<Rightarrow> Inl e | Inr (col, stack) \<Rightarrow> Inr stack)"

definition getCycleEdges :: "node list \<Rightarrow> edge list \<Rightarrow> js_error + edge list" where
  "getCycleEdges ns es =
     (case cycleStack ns es of
        Inl e \<Rightarrow> Inl e
      | Inr stack \<Rightarrow>
          Inr (if stack \<noteq> [] then filter (\<lambda>e. e_source e \<in> set stack \<and> e_target e \<in> set stack) es else []))"

section \<open>Edges of the canvas\<close>

definition nonemptyOr :: "string option \<Rightarrow> string \<Rightarrow> string option" where
  "nonemptyOr h d = Some (handleOr h d)"

definition initialEdge :: "node list \<Rightarrow> node option \<Rightarrow> edge \<Rightarrow> edge" where
  "initialEdge ns selectedNode e =
     (let e1 = e\<lparr>e_type := Some ''custom'', e_sourceHandle := nonemptyOr (e_sourceHandle e) ''source'',
            e_targetHandle := nonemptyOr (e_targetHandle e) ''target''\<rparr>;
          e2 = (if Option.bind (e_data e1) ed_sourceType = None \<and> e_source e1 \<noteq> []
                then (case nodesMap ns (e_source e1) of
                        None \<Rightarrow> e1
                      | Some n \<Rightarrow> with_edge_data (\<lambda>d. d\<lparr>ed_sourceType := Some (d_type (n_data n))\<rparr>) e1)
                else e1);
          e3 = (if Option.bind (e_data e2) ed_targetType = None \<and> e_target e2 \<noteq> []
                then (case nodesMap ns (e_target e2) of
                        None \<Rightarrow> e2
                      | Some n \<Rightarrow> with_edge_data (\<lambda>d. d\<lparr>ed_targetType := Some (d_type (n_data n))\<rparr>) e2)
                else e2)
      in case selectedNode of
           None \<Rightarrow> e3
         | Some s \<Rightarrow> with_edge_data (\<lambda>d. d\<lparr>ed_connectedNodeIsSelected :=
             (e_source e3 = n_id s \<or> e_target e3 = n_id s)\<rparr>) e3)"

definition initialEdges :: "edge list \<Rightarrow> node list \<Rightarrow> js_error + edge list" where
  "initialEdges originEdges originNodes =
     (case preprocessNodesAndEdges originNodes originEdges of
        Inl e \<Rightarrow> Inl e
      | Inr (ns, es) \<Rightarrow>
          (let selectedNode = find (\<lambda>n. d_selected (n_data n)) (rev ns) in
           case getCycleEdges ns es of
             Inl e \<Rightarrow> Inl e
           | Inr cycleEdges \<Rightarrow>
               Inr (map (initialEdge ns selectedNode)
                 (filter (\<lambda>e. \<not> (\<exists>c \<in> set cycleEdges. e_source c = e_source e \<and> e_target c = e_target e)) es))))"

section \<open>Nodes of the canvas\<close>

definition branchNameCorrect :: "branch list \<Rightarrow> js_error + branch list" where
  "branchNameCorrect branches =
     (if length branches < 2 then Inl (JsError ''if-else node branch number must than 2'')
      else if length branches = 2
      then Inr (map (\<lambda>b. b\<lparr>branch_name := (if branch_id b = ''false'' then ''ELSE'' else ''IF'')\<rparr>) branches)
      else Inr (map (\<lambda>(i, b). b\<lparr>branch_name :=
             (if branch_id b = ''false'' then ''ELSE'' else ''CASE '' @ string_of_nat (i + 1))\<rparr>)
           (zip [0..<length branches] branches)))"

definition correctModelProvider :: "string \<Rightarrow> string" where
  "correctModelProvider provider =
     (if provider = [] then []
      else if CHR ''/'' \<in> set provider then provider
      else if provider = ''google'' then ''langgenius/gemini/google''
      else ''langgenius/'' @ provider @ ''/'' @ provider)"

definition initIfElse :: "node_data \<Rightarrow> js_error + node_data" where
  "initIfElse d =
     (let p = d_payload d;
          legacy = (p_cases p = None \<and> nonempty_opt (p_logical_operator p)
            \<and> (case p_conditions p of None \<Rightarrow> False | Some c \<Rightarrow> js_truthy c));
          p1 = (if legacy
                then p\<lparr>p_cases := Some [\<lparr>case_id = ''true'', case_logical_operator = the (p_logical_operator p),
                       case_conditions = the (p_conditions p)\<rparr>]\<rparr>
                else p)
      in case p_cases p1 of
           None \<Rightarrow> Inl TypeError
         | Some cases \<Rightarrow>
             (case branchNameCorrect (map (\<lambda>c. \<lparr>branch_id = case_id c, branch_name = []\<rparr>) cases
                 @ [\<lparr>branch_id = ''false'', branch_name = []\<rparr>]) of
                Inl e \<Rightarrow> Inl e
              | Inr branches \<Rightarrow>
                  Inr (d\<lparr>d_targetBranches := Some branches, d_payload :=
                    (if cases \<noteq> [] \<and> (case p_conditions p1 of None \<Rightarrow> False | Some c \<Rightarrow> js_truthy c)
                        \<and> nonempty_opt (p_logical_operator p1)
                     then p1\<lparr>p_conditions := None, p_logical_operator := None\<rparr> else p1)\<rparr>)))"

definition initClassifier :: "node_data \<Rightarrow> js_error + node_data" where
  "initClassifier d =
     (case p_classes (d_payload d) of
        None \<Rightarrow> Inl TypeError | Some topics \<Rightarrow> Inr (d\<lparr>d_targetBranches := Some topics\<rparr>))"

definition initIteration :: "(string \<times> BlockEnum) list \<Rightarrow> node_data \<Rightarrow> node_data" where
  "initIteration children d =
     d\<lparr>d_children := Some children,
       d_payload := (d_payload d)\<lparr>
         p_is_parallel := Some (case p_is_parallel (d_payload d) of None \<Rightarrow> False | Some b \<Rightarrow> b),
         p_parallel_nums := Some (case p_parallel_nums (d_payload d) of None \<Rightarrow> 10
           | Some k \<Rightarrow> if k = 0 then 10 else k),
         p_error_handle_mode := Some (handleOr (p_error_handle_mode (d_payload d)) ''terminated'')\<rparr>\<rparr>"

definition initLoop :: "(string \<times> BlockEnum) list \<Rightarrow> node_data \<Rightarrow> node_data" where
  "initLoop children d =
     d\<lparr>d_children := Some children,
       d_payload := (d_payload d)\<lparr>
         p_error_handle_mode := Some (handleOr (p_error_handle_mode (d_payload d)) ''terminated'')\<rparr>\<rparr>"

text \<open>\<^verbatim>\<open>data.model.provider = ...\<close> throws when the node has no model.\<close>

definition initModelProvider :: "node_data \<Rightarrow> js_error + node_data" where
  "initModelProvider d =
     (case p_model_provider (d_payload d) of
        None \<Rightarrow> Inl TypeError
      | Some p \<Rightarrow> Inr (d\<lparr>d_payload := (d_payload d)\<lparr>p_model_provider := Some (correctModelProvider p)\<rparr>\<rparr>))"

definition initTool :: "node_data \<Rightarrow> node_data" where
  "initTool d =
     (if nonempty_opt (p_version (d_payload d)) \<or> nonempty_opt (p_tool_node_version (d_payload d)) then d
      else d\<lparr>d_payload := (d_payload d)\<lparr>
        p_tool_node_version := Some ''2'',
        p_tool_configurations := map_option (map (\<lambda>(k, v).
          if js_typeof v \<noteq> ''object'' \<or> v = JNull
          then (k, JObj [(''type'', JStr ''constant''), (''value'', v)]) else (k, v)))
          (p_tool_configurations (d_payload d))\<rparr>\<rparr>)"

definition initData :: "(string \<times> BlockEnum) list \<Rightarrow> node_data \<Rightarrow> js_error + node_data" where
  "initData children d =
     (case d_type d of
        IfElse \<Rightarrow> initIfElse d
      | QuestionClassifier \<Rightarrow> (case initClassifier d of Inl e \<Rightarrow> Inl e | Inr d' \<Rightarrow> initModelProvider d')
      | Iteration \<Rightarrow> Inr (initIteration children d)
      | Loop \<Rightarrow> Inr (initLoop children d)
      | LLM \<Rightarrow> initModelProvider d
      | ParameterExtractor \<Rightarrow> initModelProvider d
      | KnowledgeRetrieval \<Rightarrow> Inr (d\<lparr>d_payload := (d_payload d)\<lparr>p_reranking_provider :=
          map_option correctModelProvider (p_reranking_provider (d_payload d))\<rparr>\<rparr>)
      | HttpRequest \<Rightarrow> Inr (if p_retry_config (d_payload d) = None
          then d\<lparr>d_payload := (d_payload d)\<lparr>p_retry_config :=
            Some \<lparr>retry_enabled = True, max_retries = 3, retry_interval = 100\<rparr>\<rparr>\<rparr> else d)
      | Tool \<Rightarrow> Inr (initTool d)
      | _ \<Rightarrow> Inr d)"

definition initialNode ::
  "(string \<Rightarrow> edge list \<Rightarrow> edge list) \<Rightarrow> node list \<Rightarrow> edge list \<Rightarrow> node \<Rightarrow> js_error + node" where
  "initialNode connEdges ns es n =
     (let n1 = n\<lparr>n_type := (if nonempty_opt (n_type n) then n_type n else Some CUSTOM_NODE)\<rparr>;
          connectedEdges = connEdges (n_id n) es;
          d1 = (n_data n1)\<lparr>
            d_connectedSourceHandleIds := Some (map (\<lambda>e. handleOr (e_sourceHandle e) ''source'')
              (filter (\<lambda>e. e_source e = n_id n) connectedEdges)),
            d_connectedTargetHandleIds := Some (map (\<lambda>e. handleOr (e_targetHandle e) ''target'')
              (filter (\<lambda>e. e_target e = n_id n) connectedEdges))\<rparr>;
          children = map (\<lambda>m. (n_id m, d_type (n_data m)))
            (filter (\<lambda>m. truthy_parent (n_parentId m) \<and> n_parentId m = Some (n_id n)) ns)
      in case initData children d1 of Inl e \<Rightarrow> Inl e | Inr d \<Rightarrow> Inr (n1\<lparr>n_data := d\<rparr>))"

definition placeNodes :: "node list \<Rightarrow> node list" where
  "placeNodes ns =
     (if (case ns of [] \<Rightarrow> True | n # _ \<Rightarrow> n_position n = None)
      then map (\<lambda>(i, n). n\<lparr>n_position := Some (80 + real i * 300, 282)\<rparr>) (zip [0..<length ns] ns)
      else ns)"

definition initialNodes ::
  "(string \<Rightarrow> edge list \<Rightarrow> edge list) \<Rightarrow> node list \<Rightarrow> edge list \<Rightarrow> js_error + node list" where
  "initialNodes connEdges originNodes originEdges =
     (case preprocessNodesAndEdges originNodes originEdges of
        Inl e \<Rightarrow> Inl e
      | Inr (ns, es) \<Rightarrow>
          (let placed = placeNodes ns in map_result (initialNode connEdges placed es) placed))"

end
