(* ===== verification/Flow_Graph_Laws.thy ===== *)
theory Flow_Graph_Laws
  imports Flow_Graph
begin

text \<open>
  What the graph queries answer, in terms of the relation that the edges span on the ids of the nodes.
  The lemmas up to the first property are about the searches; the properties are about the queries.
\<close>

section \<open>The relation of a graph\<close>

definition flow_rel :: "flow \<Rightarrow> (string \<times> string) set" where
  "flow_rel F = {(e_source e, e_target e) |e. e \<in> set (fl_edges F)
     \<and> e_source e \<in> node_ids (fl_nodes F) \<and> e_target e \<in> node_ids (fl_nodes F)}"

lemma flow_rel_code:
  "flow_rel F = set (map (\<lambda>e. (e_source e, e_target e))
     (filter (\<lambda>e. e_source e \<in> node_ids (fl_nodes F) \<and> e_target e \<in> node_ids (fl_nodes F)) (fl_edges F)))"
  by (auto simp: flow_rel_def)

lemma finite_node_ids [simp]: "finite (node_ids ns)"
  by (simp add: node_ids_def)

lemma card_node_ids: "card (node_ids ns) \<le> length ns"
  by (simp add: node_ids_def) (metis card_image_le card_length finite_set le_trans)

lemma flow_rel_ids: "flow_rel F \<subseteq> node_ids (fl_nodes F) \<times> node_ids (fl_nodes F)"
  by (auto simp: flow_rel_def)

lemma finite_flow_rel [simp]: "finite (flow_rel F)"
  using flow_rel_ids by (rule finite_subset) simp

lemma trancl_flow_ids: "(flow_rel F)\<^sup>+ `` {i} \<subseteq> node_ids (fl_nodes F)"
  using trancl_subset_Sigma [OF flow_rel_ids] by blast

lemma trancl_converse_flow_ids: "((flow_rel F)\<inverse>)\<^sup>+ `` {i} \<subseteq> node_ids (fl_nodes F)"
  using trancl_subset_Sigma [of "(flow_rel F)\<inverse>" "node_ids (fl_nodes F)"] flow_rel_ids by blast

lemma getNodeById_in:
  "getNodeById F i = Some n \<Longrightarrow> n \<in> set (fl_nodes F) \<and> n_id n = i"
  by (auto simp: getNodeById_def dest: find_SomeD)

lemma getNodeById_ex: "i \<in> node_ids (fl_nodes F) \<Longrightarrow> \<exists>n. getNodeById F i = Some n"
  unfolding getNodeById_def node_ids_def by (rule find_Some_of_ex) auto

lemma outgoers_set:
  "flow_lib_ok L \<Longrightarrow> set (getOutgoers L i ns es) =
     {n \<in> set ns. \<exists>e \<in> set es. e_source e = i \<and> e_target e = n_id n}"
  by (simp add: flow_lib_ok_def)

lemma incomers_set:
  "flow_lib_ok L \<Longrightarrow> set (getIncomers L i ns es) =
     {n \<in> set ns. \<exists>e \<in> set es. e_target e = i \<and> e_source e = n_id n}"
  by (simp add: flow_lib_ok_def)

lemma outgoers_nodes:
  "flow_lib_ok L \<Longrightarrow> m \<in> set (getOutgoers L i (fl_nodes F) (fl_edges F)) \<Longrightarrow> m \<in> set (fl_nodes F)"
  by (simp add: flow_lib_ok_def)

lemma outgoers_rel:
  "flow_lib_ok L \<Longrightarrow> i \<in> node_ids (fl_nodes F) \<Longrightarrow>
   n_id ` set (getOutgoers L i (fl_nodes F) (fl_edges F)) = flow_rel F `` {i}"
  by (simp add: outgoers_set flow_rel_def node_ids_def set_eq_iff image_iff Bex_def) metis

lemma incomers_nodes:
  "flow_lib_ok L \<Longrightarrow> m \<in> set (getIncomers L i ns es) \<Longrightarrow> m \<in> set ns"
  by (simp add: flow_lib_ok_def)

lemma incomers_rel:
  "flow_lib_ok L \<Longrightarrow> i \<in> node_ids (fl_nodes F) \<Longrightarrow>
   n_id ` set (getIncomers L i (fl_nodes F) (fl_edges F)) = (flow_rel F)\<inverse> `` {i}"
  by (simp add: incomers_set flow_rel_def node_ids_def set_eq_iff image_iff Bex_def) metis

lemma uniqById_ids: "flow_lib_ok L \<Longrightarrow> n_id ` set (uniqById L xs) = n_id ` set xs"
  by (simp add: flow_lib_ok_def node_ids_def)

lemma uniqById_sub: "flow_lib_ok L \<Longrightarrow> x \<in> set (uniqById L xs) \<Longrightarrow> x \<in> set xs"
  by (auto simp: flow_lib_ok_def)

lemma uniqById_distinct: "flow_lib_ok L \<Longrightarrow> distinct (map n_id (uniqById L xs))"
  by (simp add: flow_lib_ok_def)

lemma node_idsI: "n \<in> set ns \<Longrightarrow> n_id n \<in> node_ids ns"
  by (simp add: node_ids_def)

text \<open>Entering a node that has not been seen uses up one of the unseen ids.\<close>

lemma card_unseen:
  assumes "finite U" and "i \<in> U" and "i \<notin> S" and "card (U - S) < Suc k"
  shows "card (U - insert i S) < k"
proof -
  have "card (U - insert i S) = card ((U - S) - {i})"
    by (rule arg_cong [where f = card]) auto
  also have "\<dots> < card (U - S)"
    using assms by (intro psubset_card_mono) auto
  finally show ?thesis using assms(4) by simp
qed

lemma card_unseen_mono:
  "finite U \<Longrightarrow> S \<subseteq> T \<Longrightarrow> card (U - S) < k \<Longrightarrow> card (U - T) < k"
  by (rule le_less_trans [OF card_mono]) auto

section \<open>The search for a cycle\<close>

lemma hasCycle_returns_aux:
  shows "flow_lib_ok L \<Longrightarrow> n \<in> set (fl_nodes F) \<Longrightarrow>
      card (node_ids (fl_nodes F) - set v) < k \<Longrightarrow>
      \<exists>b v'. hasCycle L F src k n v = Inr (b, v') \<and> set v \<subseteq> set v'"
    and "flow_lib_ok L \<Longrightarrow> set ms \<subseteq> set (fl_nodes F) \<Longrightarrow>
      card (node_ids (fl_nodes F) - set v) < k \<Longrightarrow>
      \<exists>b v'. hasCycleEach L F src k ms v = Inr (b, v') \<and> set v \<subseteq> set v'"
proof (induction L F src k n v and L F src k ms v rule: hasCycle_hasCycleEach.induct)
  case (2 L F src k n v)
  show ?case
  proof (cases "n_id n \<in> set v")
    case False
    let ?ms = "getOutgoers L (n_id n) (fl_nodes F) (fl_edges F)"
    have "card (node_ids (fl_nodes F) - set (n_id n # v)) < k"
      using card_unseen [OF finite_node_ids node_idsI [OF "2.prems"(2)] False "2.prems"(3)] by simp
    moreover have "set ?ms \<subseteq> set (fl_nodes F)" using outgoers_nodes "2.prems"(1) by blast
    ultimately show ?thesis using "2.IH" False "2.prems"(1) by fastforce
  qed auto
next
  case (4 L F src k m rest v)
  show ?case
  proof (cases "n_id m = src")
    case False
    obtain b v1 where 1: "hasCycle L F src k m v = Inr (b, v1)" "set v \<subseteq> set v1"
      using "4.IH"(1) False "4.prems" by auto
    show ?thesis
    proof (cases b)
      case F: False
      have "card (node_ids (fl_nodes F) - set v1) < k"
        using card_unseen_mono [OF finite_node_ids 1(2) "4.prems"(3)] .
      then obtain b' v' where "hasCycleEach L F src k rest v1 = Inr (b', v')" "set v1 \<subseteq> set v'"
        using "4.IH"(2) [OF False 1(1) refl] F "4.prems" by auto
      with 1 F False show ?thesis by auto
    qed (use 1 False in auto)
  qed auto
qed auto

lemma outgoer_step:
  "flow_lib_ok L \<Longrightarrow> n \<in> set (fl_nodes F) \<Longrightarrow>
   m \<in> set (getOutgoers L (n_id n) (fl_nodes F) (fl_edges F)) \<Longrightarrow>
   (n_id n, n_id m) \<in> flow_rel F \<and> m \<in> set (fl_nodes F)"
  using outgoers_rel [of L "n_id n" F] outgoers_nodes [of L m "n_id n" F] node_idsI by blast

lemma incomer_step:
  "flow_lib_ok L \<Longrightarrow> n \<in> set (fl_nodes F) \<Longrightarrow>
   m \<in> set (getIncomers L (n_id n) (fl_nodes F) (fl_edges F)) \<Longrightarrow>
   (n_id n, n_id m) \<in> (flow_rel F)\<inverse> \<and> m \<in> set (fl_nodes F)"
  using incomers_rel [of L "n_id n" F] incomers_nodes [of L m "n_id n"] node_idsI by blast

lemma outgoer_of:
  assumes "flow_lib_ok L" and "n \<in> set (fl_nodes F)" and "(n_id n, y) \<in> flow_rel F"
  shows "\<exists>m \<in> set (getOutgoers L (n_id n) (fl_nodes F) (fl_edges F)). n_id m = y"
proof -
  have "y \<in> n_id ` set (getOutgoers L (n_id n) (fl_nodes F) (fl_edges F))"
    unfolding outgoers_rel [OF assms(1) node_idsI [OF assms(2)]] using assms(3) by simp
  then show ?thesis by auto
qed

lemma incomer_of:
  assumes "flow_lib_ok L" and "n \<in> set (fl_nodes F)" and "(y, n_id n) \<in> flow_rel F"
  shows "\<exists>m \<in> set (getIncomers L (n_id n) (fl_nodes F) (fl_edges F)). n_id m = y"
proof -
  have "y \<in> n_id ` set (getIncomers L (n_id n) (fl_nodes F) (fl_edges F))"
    unfolding incomers_rel [OF assms(1) node_idsI [OF assms(2)]] using assms(3) by simp
  then show ?thesis by auto
qed

lemma hasCycle_sound_aux:
  shows "flow_lib_ok L \<Longrightarrow> n \<in> set (fl_nodes F) \<Longrightarrow> hasCycle L F src k n v = Inr (True, v') \<Longrightarrow>
      (n_id n, src) \<in> (flow_rel F)\<^sup>+"
    and "flow_lib_ok L \<Longrightarrow> set ms \<subseteq> set (fl_nodes F) \<Longrightarrow>
      hasCycleEach L F src k ms v = Inr (True, v') \<Longrightarrow>
      \<exists>m \<in> set ms. n_id m = src \<or> (n_id m, src) \<in> (flow_rel F)\<^sup>+"
proof (induction L F src k n v and L F src k ms v arbitrary: v' and v' rule: hasCycle_hasCycleEach.induct)
  case (2 L F src k n v)
  let ?ms = "getOutgoers L (n_id n) (fl_nodes F) (fl_edges F)"
  have "set ?ms \<subseteq> set (fl_nodes F)" using outgoers_nodes "2.prems"(1) by blast
  then obtain m where "m \<in> set ?ms" and "n_id m = src \<or> (n_id m, src) \<in> (flow_rel F)\<^sup>+"
    using 2 by (auto split: if_splits)
  then show ?case
    using outgoer_step [OF "2.prems"(1,2)] by (auto intro: trancl_into_trancl2)
next
  case (4 L F src k m rest v)
  then show ?case by (auto split: if_splits sum.splits bool.splits prod.splits)
qed simp_all

text \<open>
  After an unsuccessful search the ids that it has added to \<^verbatim>\<open>visited\<close> are closed under edges, and none of
  those edges leads to the source.
\<close>

lemma image_closed_insert:
  "R `` (T - insert a S) \<subseteq> B \<Longrightarrow> R `` {a} \<subseteq> B \<Longrightarrow> R `` (T - S) \<subseteq> B"
  by blast

lemma image_closed_trans:
  "R `` (T - S) \<subseteq> T - {b} \<Longrightarrow> T \<subseteq> U \<Longrightarrow> R `` (U - T) \<subseteq> U - {b} \<Longrightarrow> R `` (U - S) \<subseteq> U - {b}"
  by blast

lemma hasCycle_closed_aux:
  shows "flow_lib_ok L \<Longrightarrow> n \<in> set (fl_nodes F) \<Longrightarrow> hasCycle L F src k n v = Inr (False, v') \<Longrightarrow>
      set v \<subseteq> set v' \<and> n_id n \<in> set v'
      \<and> flow_rel F `` (set v' - set v) \<subseteq> set v' - {src}"
    and "flow_lib_ok L \<Longrightarrow> set ms \<subseteq> set (fl_nodes F) \<Longrightarrow>
      hasCycleEach L F src k ms v = Inr (False, v') \<Longrightarrow>
      set v \<subseteq> set v' \<and> n_id ` set ms \<subseteq> set v' - {src}
      \<and> flow_rel F `` (set v' - set v) \<subseteq> set v' - {src}"
proof (induction L F src k n v and L F src k ms v arbitrary: v' and v' rule: hasCycle_hasCycleEach.induct)
  case (2 L F src k n v)
  let ?ms = "getOutgoers L (n_id n) (fl_nodes F) (fl_edges F)"
  show ?case
  proof (cases "n_id n \<in> set v")
    case False
    have "set ?ms \<subseteq> set (fl_nodes F)" using outgoers_nodes "2.prems"(1) by blast
    then have *: "set (n_id n # v) \<subseteq> set v' \<and> n_id ` set ?ms \<subseteq> set v' - {src}
        \<and> flow_rel F `` (set v' - set (n_id n # v)) \<subseteq> set v' - {src}"
      using "2.IH" [OF False "2.prems"(1)] "2.prems"(3) False by simp
    moreover have "flow_rel F `` {n_id n} \<subseteq> set v' - {src}"
      using * outgoers_rel [OF "2.prems"(1) node_idsI [OF "2.prems"(2)]] by blast
    ultimately show ?thesis using image_closed_insert [of "flow_rel F" "set v'" "n_id n" "set v"] by simp
  qed (use "2.prems" in auto)
next
  case (4 L F src k m rest v)
  then obtain v1 where ne: "n_id m \<noteq> src" and m: "hasCycle L F src k m v = Inr (False, v1)"
    and r: "hasCycleEach L F src k rest v1 = Inr (False, v')"
    by (auto split: if_splits sum.splits bool.splits prod.splits)
  have "set v \<subseteq> set v1 \<and> n_id m \<in> set v1 \<and> flow_rel F `` (set v1 - set v) \<subseteq> set v1 - {src}"
    using "4.IH"(1) ne m "4.prems" by auto
  moreover have "set v1 \<subseteq> set v' \<and> n_id ` set rest \<subseteq> set v' - {src}
      \<and> flow_rel F `` (set v' - set v1) \<subseteq> set v' - {src}"
    using "4.IH"(2) [OF ne m refl _ _ _ r] "4.prems"(1,2) by simp
  ultimately show ?case
    using ne image_closed_trans [of "flow_rel F" "set v1" "set v" src "set v'"] by auto
qed simp_all

lemma closed_trancl: "R `` S \<subseteq> S - {b} \<Longrightarrow> a \<in> S \<Longrightarrow> (a, b) \<notin> R\<^sup>+"
proof
  assume closed: "R `` S \<subseteq> S - {b}" and a: "a \<in> S" and p: "(a, b) \<in> R\<^sup>+"
  from p have "b \<in> S \<and> b \<in> R `` S"
    by (induction rule: trancl_induct) (use closed a in auto)
  with closed show False by auto
qed

lemma hasCycle_correct:
  assumes "flow_lib_ok L" and "n \<in> set (fl_nodes F)"
  shows "\<exists>v. hasCycle L F src (length (fl_nodes F) + 1) n [] = Inr ((n_id n, src) \<in> (flow_rel F)\<^sup>+, v)"
proof -
  have "card (node_ids (fl_nodes F) - set []) < length (fl_nodes F) + 1"
    using card_node_ids [of "fl_nodes F"] by simp
  then obtain b v where r: "hasCycle L F src (length (fl_nodes F) + 1) n [] = Inr (b, v)"
    using hasCycle_returns_aux(1) [OF assms] by blast
  have "b = ((n_id n, src) \<in> (flow_rel F)\<^sup>+)"
  proof (cases b)
    case True
    then show ?thesis using hasCycle_sound_aux(1) [OF assms] r by metis
  next
    case False
    with r have "n_id n \<in> set v" "flow_rel F `` set v \<subseteq> set v - {src}"
      using hasCycle_closed_aux(1) [OF assms, of src "length (fl_nodes F) + 1" "[]" v]
      by (simp_all del: hasCycle.simps)
    then show ?thesis using closed_trancl False by fastforce
  qed
  with r show ?thesis by simp
qed

section \<open>Drawing an edge\<close>

lemma isValidConnection_eq:
  assumes "flow_lib_ok L" and "getNodeById F src = Some s" and "getNodeById F tgt = Some t"
  shows "isValidConnection L M F src tgt =
    Inr (n_type s \<noteq> Some CUSTOM_NOTE_NODE \<and> n_type t \<noteq> Some CUSTOM_NOTE_NODE
      \<and> n_parentId s = n_parentId t \<and> blocksAllow M s t \<and> (tgt, src) \<notin> (flow_rel F)\<^sup>+)"
proof -
  have t: "t \<in> set (fl_nodes F)" "n_id t = tgt" using getNodeById_in [OF assms(3)] by auto
  obtain v where "hasCycle L F src (length (fl_nodes F) + 1) t [] = Inr ((tgt, src) \<in> (flow_rel F)\<^sup>+, v)"
    using hasCycle_correct [OF assms(1) t(1)] t(2) by auto
  then show ?thesis using assms by (simp add: isValidConnection_def del: hasCycle.simps)
qed

text \<open>C3: For two nodes of the canvas the check of a new connection always answers (it neither throws nor
  recurses without end, cyclic graph or not), and it answers true exactly when neither end is a note, both
  ends live in the same container, the kinds may follow each other, and the source cannot already be
  reached from the target over one or more edges.\<close>

theorem isValidConnection_decides:
  assumes "flow_lib_ok L" and "getNodeById F src = Some s" and "getNodeById F tgt = Some t"
  shows "isValidConnection L M F src tgt =
    Inr (n_type s \<noteq> Some CUSTOM_NOTE_NODE \<and> n_type t \<noteq> Some CUSTOM_NOTE_NODE
      \<and> n_parentId s = n_parentId t \<and> blocksAllow M s t \<and> (tgt, src) \<notin> (flow_rel F)\<^sup>+)"
  using assms by (rule isValidConnection_eq)

definition addEdge :: "edge \<Rightarrow> flow \<Rightarrow> flow" where
  "addEdge e F = F\<lparr>fl_edges := fl_edges F @ [e]\<rparr>"

lemma flow_rel_addEdge:
  "flow_rel (addEdge e F) \<subseteq> insert (e_source e, e_target e) (flow_rel F)"
  by (auto simp: flow_rel_def addEdge_def)

lemma isValidConnection_nodes:
  "isValidConnection L M F src tgt = Inr True \<Longrightarrow>
   \<exists>s t. getNodeById F src = Some s \<and> getNodeById F tgt = Some t"
  by (auto simp: isValidConnection_def split: option.splits if_splits)

text \<open>An accepted connection between two different nodes keeps the graph acyclic: adding its edge to an
  acyclic graph gives an acyclic graph.\<close>

theorem valid_connection_keeps_acyclic:
  assumes lib: "flow_lib_ok L" and "acyclic (flow_rel F)"
    and valid: "isValidConnection L M F (e_source e) (e_target e) = Inr True"
    and ne: "e_source e \<noteq> e_target e"
  shows "acyclic (flow_rel (addEdge e F))"
proof -
  obtain s t where "getNodeById F (e_source e) = Some s" "getNodeById F (e_target e) = Some t"
    using isValidConnection_nodes [OF valid] by blast
  then have "(e_target e, e_source e) \<notin> (flow_rel F)\<^sup>+"
    using valid by (simp add: isValidConnection_eq [OF lib])
  then have "acyclic (insert (e_source e, e_target e) (flow_rel F))"
    using assms(2) ne by (simp add: acyclic_insert rtrancl_eq_or_trancl)
  then show ?thesis using flow_rel_addEdge by (rule acyclic_subset)
qed

text \<open>The check alone does not exclude a connection of a node with itself: the search compares only the
  successors of the target with the source, so in an acyclic graph a connection of a node with itself is
  accepted whenever the kinds may follow each other, and its edge closes a cycle.\<close>

theorem self_connection_accepted:
  assumes "flow_lib_ok L" and "acyclic (flow_rel F)" and "getNodeById F i = Some s"
    and "n_type s \<noteq> Some CUSTOM_NOTE_NODE" and "blocksAllow M s s"
    and "e_source e = i" and "e_target e = i"
  shows "isValidConnection L M F i i = Inr True \<and> \<not> acyclic (flow_rel (addEdge e F))"
proof -
  have "(i, i) \<notin> (flow_rel F)\<^sup>+" using assms(2) by (simp add: acyclic_def)
  moreover have "i \<in> node_ids (fl_nodes F)"
    using getNodeById_in [OF assms(3)] by (auto simp: node_ids_def)
  then have "(i, i) \<in> flow_rel (addEdge e F)"
    using assms(6,7) by (auto simp: flow_rel_def addEdge_def)
  ultimately show ?thesis
    using assms by (auto simp: isValidConnection_eq [OF assms(1,3,3)] acyclic_def)
qed

section \<open>The nodes before a node\<close>

lemma closed_trans: "R `` (T - S) \<subseteq> T \<Longrightarrow> T \<subseteq> U \<Longrightarrow> R `` (U - T) \<subseteq> U \<Longrightarrow> R `` (U - S) \<subseteq> U"
  by blast

lemma node_ids_append [simp]: "node_ids (xs @ ys) = node_ids xs \<union> node_ids ys"
  by (auto simp: node_ids_def)

lemma node_ids_mono: "set xs \<subseteq> set ys \<Longrightarrow> node_ids xs \<subseteq> node_ids ys"
  by (auto simp: node_ids_def)

lemma node_ids_simps [simp]: "node_ids [] = {}" "node_ids (x # xs) = insert (n_id x) (node_ids xs)"
  by (auto simp: node_ids_def)

abbreviation back_rel :: "node list \<Rightarrow> edge list \<Rightarrow> (string \<times> string) set" where
  "back_rel ns es \<equiv> (flow_rel \<lparr>fl_nodes = ns, fl_edges = es\<rparr>)\<inverse>"

lemma incomers_back:
  "flow_lib_ok L \<Longrightarrow> n \<in> set ns \<Longrightarrow> node_ids (getIncomers L (n_id n) ns es) = back_rel ns es `` {n_id n}"
  using incomers_rel [of L "n_id n" "\<lparr>fl_nodes = ns, fl_edges = es\<rparr>"] node_idsI [of n ns]
  by (simp add: node_ids_def)

text \<open>
  What one call of \<^verbatim>\<open>traverse\<close> does to the shared list: it returns, it only appends nodes that lead to the
  root, and afterwards every predecessor of the root and of an appended node is in the list.
\<close>

lemma beforeTraverse_spec:
  shows "flow_lib_ok L \<Longrightarrow> rt \<in> set ns \<Longrightarrow> card (node_ids ns - node_ids acc) < k \<Longrightarrow>
      \<exists>acc'. beforeTraverse L ns es k rt acc = Inr acc' \<and> set acc \<subseteq> set acc'
        \<and> set acc' \<subseteq> set acc \<union> {m \<in> set ns. (n_id rt, n_id m) \<in> (back_rel ns es)\<^sup>+}
        \<and> back_rel ns es `` {n_id rt} \<subseteq> node_ids acc'
        \<and> back_rel ns es `` (node_ids acc' - node_ids acc) \<subseteq> node_ids acc'"
    and "flow_lib_ok L \<Longrightarrow> set ms \<subseteq> set ns \<Longrightarrow> card (node_ids ns - node_ids acc) < Suc k \<Longrightarrow>
      \<exists>acc'. beforeEach L ns es k ms acc = Inr acc' \<and> set acc \<subseteq> set acc'
        \<and> set acc' \<subseteq> set acc \<union> {m \<in> set ns. \<exists>r \<in> set ms. (n_id r, n_id m) \<in> (back_rel ns es)\<^sup>*}
        \<and> node_ids ms \<subseteq> node_ids acc'
        \<and> back_rel ns es `` (node_ids acc' - node_ids acc) \<subseteq> node_ids acc'"
proof (induction L ns es k rt acc and L ns es k ms acc rule: beforeTraverse_beforeEach.induct)
  case (2 L ns es k rt acc)
  let ?ms = "getIncomers L (n_id rt) ns es"
  have "set ?ms \<subseteq> set ns" using incomers_nodes "2.prems"(1) by blast
  with 2 obtain acc' where *: "beforeEach L ns es k ?ms acc = Inr acc'" "set acc \<subseteq> set acc'"
    "set acc' \<subseteq> set acc \<union> {m \<in> set ns. \<exists>r \<in> set ?ms. (n_id r, n_id m) \<in> (back_rel ns es)\<^sup>*}"
    "node_ids ?ms \<subseteq> node_ids acc'"
    "back_rel ns es `` (node_ids acc' - node_ids acc) \<subseteq> node_ids acc'"
    by blast
  have ms: "node_ids ?ms = back_rel ns es `` {n_id rt}" using incomers_back "2.prems"(1,2) by blast
  then have "(n_id rt, n_id r) \<in> back_rel ns es" if "r \<in> set ?ms" for r
    using node_idsI [OF that] by blast
  with *(3) have "set acc' \<subseteq> set acc \<union> {m \<in> set ns. (n_id rt, n_id m) \<in> (back_rel ns es)\<^sup>+}"
    by (blast intro: rtrancl_into_trancl2)
  with * ms show ?case by simp
next
  case (4 L ns es k n rest acc)
  show ?case
  proof (cases "\<exists>m \<in> set acc. n_id n = n_id m")
    case True
    then have "n_id n \<in> node_ids acc" by (auto simp: node_ids_def)
    moreover from 4 True obtain acc' where "beforeEach L ns es k rest acc = Inr acc'"
      "set acc \<subseteq> set acc'"
      "set acc' \<subseteq> set acc \<union> {m \<in> set ns. \<exists>r \<in> set rest. (n_id r, n_id m) \<in> (back_rel ns es)\<^sup>*}"
      "node_ids rest \<subseteq> node_ids acc'"
      "back_rel ns es `` (node_ids acc' - node_ids acc) \<subseteq> node_ids acc'" by auto
    ultimately show ?thesis using True node_ids_mono [of acc acc'] by auto
  next
    case False
    then have new: "n_id n \<notin> node_ids acc" by (auto simp: node_ids_def)
    have n: "n \<in> set ns" using "4.prems"(2) by simp
    have "card (node_ids ns - node_ids (acc @ [n])) < k"
      using card_unseen [OF finite_node_ids node_idsI [OF n] new "4.prems"(3)] by simp
    with "4.IH"(2) [OF False "4.prems"(1) n] obtain acc1 where 1:
      "beforeTraverse L ns es k n (acc @ [n]) = Inr acc1" "set (acc @ [n]) \<subseteq> set acc1"
      "set acc1 \<subseteq> set (acc @ [n]) \<union> {m \<in> set ns. (n_id n, n_id m) \<in> (back_rel ns es)\<^sup>+}"
      "back_rel ns es `` {n_id n} \<subseteq> node_ids acc1"
      "back_rel ns es `` (node_ids acc1 - node_ids (acc @ [n])) \<subseteq> node_ids acc1"
      by blast
    have c1: "back_rel ns es `` (node_ids acc1 - node_ids acc) \<subseteq> node_ids acc1"
      using image_closed_insert [OF _ 1(4)] 1(5) by simp
    have "card (node_ids ns - node_ids acc1) < Suc k"
      using card_unseen_mono [OF finite_node_ids node_ids_mono "4.prems"(3)] 1(2) by simp
    with "4.IH"(3) [OF False 1(1) "4.prems"(1)] "4.prems"(2) obtain acc' where 2:
      "beforeEach L ns es k rest acc1 = Inr acc'" "set acc1 \<subseteq> set acc'"
      "set acc' \<subseteq> set acc1 \<union> {m \<in> set ns. \<exists>r \<in> set rest. (n_id r, n_id m) \<in> (back_rel ns es)\<^sup>*}"
      "node_ids rest \<subseteq> node_ids acc'"
      "back_rel ns es `` (node_ids acc' - node_ids acc1) \<subseteq> node_ids acc'"
      by auto
    have "back_rel ns es `` (node_ids acc' - node_ids acc) \<subseteq> node_ids acc'"
      using closed_trans [OF c1 node_ids_mono [OF 2(2)] 2(5)] .
    moreover have "n_id n \<in> node_ids acc'" using 1(2) 2(2) by (auto simp: node_ids_def)
    moreover have "set acc' \<subseteq> set acc \<union>
        {m \<in> set ns. \<exists>r \<in> set (n # rest). (n_id r, n_id m) \<in> (back_rel ns es)\<^sup>*}"
      using 1(3) 2(3) n by (auto dest!: trancl_into_rtrancl)
    ultimately show ?thesis using 1 2 False by auto
  qed
qed auto

lemma nodes_by_ids:
  assumes "distinct (map n_id ns)" and "set l \<subseteq> set ns"
  shows "set l = {m \<in> set ns. n_id m \<in> node_ids l}"
proof -
  have "inj_on n_id (set ns)" using assms(1) by (simp add: distinct_map)
  then show ?thesis using assms(2) by (auto simp: node_ids_def dest: inj_onD)
qed

lemma uniq_nodes:
  assumes "flow_lib_ok L" and "distinct (map n_id ns)" and "set l \<subseteq> set ns"
  shows "set (uniqById L l) = {m \<in> set ns. n_id m \<in> node_ids l}"
proof -
  have "set (uniqById L l) \<subseteq> set ns" using uniqById_sub [OF assms(1)] assms(3) by blast
  moreover have "node_ids (uniqById L l) = node_ids l" using assms(1) by (simp add: flow_lib_ok_def)
  ultimately show ?thesis using nodes_by_ids [OF assms(2)] by metis
qed

text \<open>For a node outside every container the query for the nodes before it returns on every graph,
  also a cyclic one, and answers, each once, exactly the nodes from which it can be reached over one or
  more edges and whose kind has output variables.\<close>

theorem before_nodes_exact:
  assumes lib: "flow_lib_ok L" and dist: "distinct (map n_id (fl_nodes F))"
    and n: "getNodeById F nid = Some n" and top: "\<not> truthy_parent (n_parentId n)"
  shows "\<exists>ns. getBeforeNodesInSameBranch (Suc k) L F nid None None = Inr ns \<and> distinct (map n_id ns)
    \<and> set ns = {m \<in> set (fl_nodes F). supportsOutputVars m \<and> (n_id m, nid) \<in> (flow_rel F)\<^sup>+}"
proof -
  let ?ns = "fl_nodes F" and ?es = "fl_edges F"
  have F: "flow_rel \<lparr>fl_nodes = ?ns, fl_edges = ?es\<rparr> = flow_rel F" by (simp add: flow_rel_def)
  have n': "n \<in> set ?ns" "n_id n = nid" using getNodeById_in [OF n] by auto
  have "card (node_ids ?ns - node_ids []) < length ?ns + 1"
    using card_node_ids [of ?ns] by simp
  from beforeTraverse_spec(1) [OF lib n'(1) this, of ?es] obtain l where
    r: "beforeTraverse L ?ns ?es (length ?ns + 1) n [] = Inr l"
    and sub: "set l \<subseteq> {m \<in> set ?ns. (n_id m, nid) \<in> (flow_rel F)\<^sup>+}"
    and first: "(flow_rel F)\<inverse> `` {nid} \<subseteq> node_ids l"
    and closed: "(flow_rel F)\<inverse> `` node_ids l \<subseteq> node_ids l"
    by (auto simp: F n'(2) trancl_converse)
  have "i \<in> node_ids l" if "(i, nid) \<in> (flow_rel F)\<^sup>+" for i
    using that by (induction rule: converse_trancl_induct) (use first closed in blast)+
  with sub have ids: "node_ids l = {i. (i, nid) \<in> (flow_rel F)\<^sup>+}" by (auto simp: node_ids_def)
  have u: "set (filter supportsOutputVars (rev (uniqById L l))) =
      {m \<in> set ?ns. supportsOutputVars m \<and> (n_id m, nid) \<in> (flow_rel F)\<^sup>+}"
    using uniq_nodes [OF lib dist, of l] sub ids by auto
  have d: "distinct (map n_id (filter supportsOutputVars (rev (uniqById L l))))"
    using uniqById_distinct [OF lib, of l] by (simp add: distinct_map rev_map [symmetric] inj_on_def)
  have "uniqById L [] = []" using uniqById_ids [OF lib, of "[]"] by simp
  then have "getBeforeNodesInSameBranch (Suc k) L F nid None None =
      Inr (filter supportsOutputVars (rev (uniqById L l)))"
    using n top r by (simp add: getNodeById_def del: beforeTraverse.simps)
  with u d show ?thesis by auto
qed

section \<open>Walks without a visited set\<close>

lemma trancl_step_image: "R\<^sup>+ `` {x} = (\<Union>y \<in> R `` {x}. insert y (R\<^sup>+ `` {y}))"
  by (auto dest: tranclD2 tranclD elim: converse_tranclE intro: trancl_into_trancl2)

lemma ends_within_out:
  assumes "flow_lib_ok L" and "acyclic (flow_rel F)" and "n \<in> set (fl_nodes F)"
  shows "ends_within (\<lambda>n. getOutgoers L (n_id n) (fl_nodes F) (fl_edges F)) (length (fl_nodes F) + 1) n"
proof (rule ends_within_card [where R = "flow_rel F" and key = n_id and P = "\<lambda>n. n \<in> set (fl_nodes F)"])
  show "card ((flow_rel F)\<^sup>+ `` {n_id n}) < length (fl_nodes F) + 1"
    using card_mono [OF finite_node_ids trancl_flow_ids] card_node_ids [of "fl_nodes F"]
    by (meson le_imp_less_Suc le_trans Suc_eq_plus1 le_less_trans less_add_one)
qed (use assms outgoer_step in auto)

lemma ends_within_in:
  assumes "flow_lib_ok L" and "acyclic (flow_rel F)" and "n \<in> set (fl_nodes F)"
  shows "ends_within (\<lambda>n. getIncomers L (n_id n) (fl_nodes F) (fl_edges F)) (length (fl_nodes F) + 1) n"
proof (rule ends_within_card [where R = "(flow_rel F)\<inverse>" and key = n_id and P = "\<lambda>n. n \<in> set (fl_nodes F)"])
  show "card (((flow_rel F)\<inverse>)\<^sup>+ `` {n_id n}) < length (fl_nodes F) + 1"
    using card_mono [OF finite_node_ids trancl_converse_flow_ids] card_node_ids [of "fl_nodes F"]
    by (meson le_less_trans less_add_one)
qed (use assms incomer_step in auto)

lemma afterTraverse_ends:
  assumes lib: "flow_lib_ok L"
  shows "n \<in> set (fl_nodes F) \<Longrightarrow>
    ends_within (\<lambda>n. getOutgoers L (n_id n) (fl_nodes F) (fl_edges F)) k n \<Longrightarrow>
    \<exists>l. afterTraverse L F k n = Inr l \<and> set l \<subseteq> set (fl_nodes F) \<and> node_ids l = (flow_rel F)\<^sup>+ `` {n_id n}"
proof (induction k arbitrary: n)
  case (Suc k)
  let ?out = "getOutgoers L (n_id n) (fl_nodes F) (fl_edges F)"
  have "\<forall>m \<in> set ?out. \<exists>l. afterTraverse L F k m = Inr l \<and> set l \<subseteq> set (fl_nodes F)
      \<and> node_ids l = (flow_rel F)\<^sup>+ `` {n_id m}"
    using Suc outgoer_step [OF lib] by auto
  then obtain g where g: "\<And>m. m \<in> set ?out \<Longrightarrow> afterTraverse L F k m = Inr (g m)
      \<and> set (g m) \<subseteq> set (fl_nodes F) \<and> node_ids (g m) = (flow_rel F)\<^sup>+ `` {n_id m}"
    by metis
  then have "afterTraverse L F (Suc k) n = Inr (concat (map (\<lambda>m. m # g m) ?out))"
    by (simp add: concat_result_total)
  moreover have "set (concat (map (\<lambda>m. m # g m) ?out)) \<subseteq> set (fl_nodes F)"
    using g outgoer_step [OF lib Suc.prems(1)] by auto
  moreover have "node_ids (concat (map (\<lambda>m. m # g m) ?out)) =
      (\<Union>m \<in> set ?out. insert (n_id m) (node_ids (g m)))"
    by (auto simp: node_ids_def)
  moreover have "\<dots> = (\<Union>y \<in> n_id ` set ?out. insert y ((flow_rel F)\<^sup>+ `` {y}))"
    using g by auto
  moreover have "n_id ` set ?out = flow_rel F `` {n_id n}"
    using outgoers_rel [OF lib node_idsI [OF Suc.prems(1)]] .
  ultimately show ?case using trancl_step_image [of "flow_rel F" "n_id n"] by auto
qed simp

text \<open>On an acyclic graph the query for the nodes after a node returns, and answers, each once, the
  node itself and exactly the nodes that can be reached from it.\<close>

theorem after_nodes_exact:
  assumes lib: "flow_lib_ok L" and "acyclic (flow_rel F)" and dist: "distinct (map n_id (fl_nodes F))"
    and n: "getNodeById F nid = Some n"
  shows "\<exists>ns. getAfterNodesInSameBranch (length (fl_nodes F) + 1) L F nid = Inr ns
    \<and> distinct (map n_id ns) \<and> set ns = {m \<in> set (fl_nodes F). (nid, n_id m) \<in> (flow_rel F)\<^sup>*}"
proof -
  have n': "n \<in> set (fl_nodes F)" "n_id n = nid" using getNodeById_in [OF n] by auto
  obtain l where l: "afterTraverse L F (length (fl_nodes F) + 1) n = Inr l" "set l \<subseteq> set (fl_nodes F)"
    "node_ids l = (flow_rel F)\<^sup>+ `` {nid}"
    using afterTraverse_ends [OF lib n'(1) ends_within_out [OF lib assms(2) n'(1)]] n'(2) by auto
  have "set (uniqById L (n # l)) = {m \<in> set (fl_nodes F). n_id m \<in> node_ids (n # l)}"
    using n' l by (intro uniq_nodes lib dist) auto
  also have "\<dots> = {m \<in> set (fl_nodes F). (nid, n_id m) \<in> (flow_rel F)\<^sup>*}"
    unfolding rtrancl_eq_or_trancl node_ids_simps l(3) n'(2) by (rule Collect_cong) auto
  finally show ?thesis
    using n l(1) uniqById_distinct [OF lib, of "n # l"]
    by (simp add: getAfterNodesInSameBranch_def del: afterTraverse.simps)
qed

lemma map_result_errors:
  "map_result f xs = Inl e \<Longrightarrow> \<exists>x \<in> set xs. f x = Inl e"
  by (induction xs) (auto split: sum.splits)

lemma map_result_fails: "x \<in> set xs \<Longrightarrow> f x = Inl e \<Longrightarrow> \<exists>e'. map_result f xs = Inl e'"
  by (induction xs) (auto split: sum.splits)

lemma afterTraverse_only_RangeError: "afterTraverse L F k n = Inl e \<Longrightarrow> e = RangeError"
  by (induction k arbitrary: n)
    (auto simp: concat_result_def split: sum.splits dest!: map_result_errors)

lemma afterTraverse_cycle:
  assumes lib: "flow_lib_ok L"
  shows "n \<in> set (fl_nodes F) \<Longrightarrow> (n_id n, c) \<in> (flow_rel F)\<^sup>* \<Longrightarrow> (c, c) \<in> (flow_rel F)\<^sup>+ \<Longrightarrow>
    afterTraverse L F k n = Inl RangeError"
proof (induction k arbitrary: n)
  case (Suc k)
  let ?out = "getOutgoers L (n_id n) (fl_nodes F) (fl_edges F)"
  have "(n_id n, c) \<in> (flow_rel F)\<^sup>+" using Suc.prems(2,3) by (auto simp: rtrancl_eq_or_trancl)
  then obtain y where "(n_id n, y) \<in> flow_rel F" and y: "(y, c) \<in> (flow_rel F)\<^sup>*" by (blast dest: tranclD)
  then obtain m where m: "m \<in> set ?out" "n_id m = y"
    using outgoer_of [OF lib Suc.prems(1)] by blast
  have "afterTraverse L F k m = Inl RangeError"
    using Suc.IH [of m] outgoer_step [OF lib Suc.prems(1) m(1)] m(2) y Suc.prems(3) by auto
  then have "\<exists>e. afterTraverse L F (Suc k) n = Inl e"
    using map_result_fails [OF m(1), of "\<lambda>m. case afterTraverse L F k m of Inl e \<Rightarrow> Inl e | Inr l \<Rightarrow> Inr (m # l)"]
    by (auto simp: concat_result_def)
  then show ?case using afterTraverse_only_RangeError by metis
qed simp

text \<open>When a cycle can be reached from the node the same query never returns: whatever recursion budget
  it is given, it ends with an exhausted stack.\<close>

theorem after_nodes_overflow:
  assumes "flow_lib_ok L" and "getNodeById F nid = Some n"
    and "(nid, c) \<in> (flow_rel F)\<^sup>*" and "(c, c) \<in> (flow_rel F)\<^sup>+"
  shows "getAfterNodesInSameBranch k L F nid = Inl RangeError"
  using assms afterTraverse_cycle [OF assms(1), of n F c k] getNodeById_in [OF assms(2)]
  by (simp add: getAfterNodesInSameBranch_def)

lemma checkPreviousNodes_ends:
  assumes lib: "flow_lib_ok L"
  shows "n \<in> set (fl_nodes F) \<Longrightarrow>
    ends_within (\<lambda>n. getIncomers L (n_id n) (fl_nodes F) (fl_edges F)) k n \<Longrightarrow>
    distinct (map n_id (fl_nodes F)) \<Longrightarrow>
    checkPreviousNodes L F k n =
      Inr (\<exists>m \<in> set (fl_nodes F). isWorkflowEntryNode (d_type (n_data m)) \<and> (n_id m, n_id n) \<in> (flow_rel F)\<^sup>+)"
proof (induction k arbitrary: n)
  case (Suc k)
  let ?in = "getIncomers L (n_id n) (fl_nodes F) (fl_edges F)"
  let ?entry = "\<lambda>m. isWorkflowEntryNode (d_type (n_data m))"
  let ?R = "flow_rel F"
  obtain n' where "getNodeById F (n_id n) = Some n'"
    using getNodeById_ex [OF node_idsI [OF Suc.prems(1)]] by blast
  moreover have "n_id n' = n_id n" using getNodeById_in calculation by blast
  ultimately have before: "getBeforeNodeById L F (n_id n) = Inr ?in" by (simp add: getBeforeNodeById_def)
  have step: "(n_id p, n_id n) \<in> ?R \<and> p \<in> set (fl_nodes F)" if "p \<in> set ?in" for p
    using incomer_step [OF lib Suc.prems(1) that] by simp
  have IH: "checkPreviousNodes L F k p = Inr (\<exists>m \<in> set (fl_nodes F). ?entry m \<and> (n_id m, n_id p) \<in> ?R\<^sup>+)"
    if "p \<in> set ?in" for p
    using Suc.IH step [OF that] Suc.prems(2,3) that by simp
  have "checkPreviousNodes L F (Suc k) n =
      Inr (\<exists>p \<in> set ?in. ?entry p \<or> (\<exists>m \<in> set (fl_nodes F). ?entry m \<and> (n_id m, n_id p) \<in> ?R\<^sup>+))"
    using before IH by (simp add: any_result_total [where g = "\<lambda>p. ?entry p \<or>
      (\<exists>m \<in> set (fl_nodes F). ?entry m \<and> (n_id m, n_id p) \<in> ?R\<^sup>+)"])
  also have "(\<exists>p \<in> set ?in. ?entry p \<or> (\<exists>m \<in> set (fl_nodes F). ?entry m \<and> (n_id m, n_id p) \<in> ?R\<^sup>+)) =
      (\<exists>m \<in> set (fl_nodes F). ?entry m \<and> (n_id m, n_id n) \<in> ?R\<^sup>+)" (is "?l = ?r")
  proof
    assume ?l then show ?r using step by (meson r_into_trancl trancl_into_trancl)
  next
    assume ?r
    then obtain m where m: "m \<in> set (fl_nodes F)" "?entry m" "(n_id m, n_id n) \<in> ?R\<^sup>+" by blast
    then obtain y where y: "(n_id m, y) \<in> ?R\<^sup>*" "(y, n_id n) \<in> ?R" by (blast dest: tranclD2)
    then obtain p where p: "p \<in> set ?in" "n_id p = y"
      using incomer_of [OF lib Suc.prems(1)] by blast
    have "m = p \<or> (n_id m, n_id p) \<in> ?R\<^sup>+"
      using y(1) p m(1) step [OF p(1)] Suc.prems(3) by (auto simp: rtrancl_eq_or_trancl distinct_map dest: inj_onD)
    with p m show ?l by blast
  qed
  finally show ?case .
qed simp

text \<open>On an acyclic graph the query whether a node comes from an entry returns, and answers true exactly
  for the entry nodes (start and triggers) and for the nodes that can be reached from one.\<close>

theorem from_start_exact:
  assumes "flow_lib_ok L" and "acyclic (flow_rel F)" and "distinct (map n_id (fl_nodes F))"
    and "nid \<in> node_ids (fl_nodes F)"
  shows "isFromStartNode (length (fl_nodes F) + 1) L F nid =
    Inr (\<exists>m \<in> set (fl_nodes F). isWorkflowEntryNode (d_type (n_data m)) \<and> (n_id m, nid) \<in> (flow_rel F)\<^sup>*)"
proof -
  obtain n where n: "getNodeById F nid = Some n" using getNodeById_ex [OF assms(4)] by blast
  then have n': "n \<in> set (fl_nodes F)" "n_id n = nid" using getNodeById_in [OF n] by auto
  have same: "m = n" if "m \<in> set (fl_nodes F)" "n_id m = nid" for m
    using that n' assms(3) by (auto simp: distinct_map dest: inj_onD)
  let ?entry = "\<lambda>m. isWorkflowEntryNode (d_type (n_data m))"
  have "isFromStartNode (length (fl_nodes F) + 1) L F nid =
      Inr (?entry n \<or> (\<exists>m \<in> set (fl_nodes F). ?entry m \<and> (n_id m, nid) \<in> (flow_rel F)\<^sup>+))"
    using n n'(2) checkPreviousNodes_ends [OF assms(1) n'(1) ends_within_in [OF assms(1,2) n'(1)] assms(3)]
    by (simp add: isFromStartNode_def del: checkPreviousNodes.simps)
  moreover have "(\<exists>m \<in> set (fl_nodes F). ?entry m \<and> (n_id m, nid) \<in> (flow_rel F)\<^sup>*) =
      (?entry n \<or> (\<exists>m \<in> set (fl_nodes F). ?entry m \<and> (n_id m, nid) \<in> (flow_rel F)\<^sup>+))"
    (is "?l = ?r")
  proof
    assume ?l then show ?r using same by (blast dest: rtranclD)
  next
    assume ?r then show ?l using n' by (blast intro: trancl_into_rtrancl)
  qed
  ultimately show ?thesis by simp
qed

lemma rootTraverse_ends:
  assumes lib: "flow_lib_ok L"
  shows "n \<in> set (fl_nodes F) \<Longrightarrow>
    ends_within (\<lambda>n. getIncomers L (n_id n) (fl_nodes F) (fl_edges F)) k n \<Longrightarrow>
    \<exists>l. rootTraverse L F k n = Inr l \<and> set l \<subseteq> set (fl_nodes F)
      \<and> node_ids l = {i. (i, n_id n) \<in> (flow_rel F)\<^sup>* \<and> i \<notin> Range (flow_rel F)}"
proof (induction k arbitrary: n)
  case (Suc k)
  let ?in = "getIncomers L (n_id n) (fl_nodes F) (fl_edges F)" and ?R = "flow_rel F"
  have ids: "n_id ` set ?in = ?R\<inverse> `` {n_id n}" using incomers_rel [OF lib node_idsI [OF Suc.prems(1)]] .
  show ?case
  proof (cases "?in = []")
    case True
    then have none: "n_id n \<notin> Range ?R" using ids by auto
    then have "{i. (i, n_id n) \<in> ?R\<^sup>* \<and> i \<notin> Range ?R} = {n_id n}"
      by (blast elim: rtranclE)
    then show ?thesis using True Suc.prems(1) by simp
  next
    case False
    have "\<forall>m \<in> set ?in. \<exists>l. rootTraverse L F k m = Inr l \<and> set l \<subseteq> set (fl_nodes F)
        \<and> node_ids l = {i. (i, n_id m) \<in> ?R\<^sup>* \<and> i \<notin> Range ?R}"
      using Suc incomer_step [OF lib] by auto
    then have "\<exists>g. \<forall>m \<in> set ?in. rootTraverse L F k m = Inr (g m)
        \<and> set (g m) \<subseteq> set (fl_nodes F) \<and> node_ids (g m) = {i. (i, n_id m) \<in> ?R\<^sup>* \<and> i \<notin> Range ?R}"
      by (rule bchoice)
    then obtain g where g: "\<And>m. m \<in> set ?in \<Longrightarrow> rootTraverse L F k m = Inr (g m)
        \<and> set (g m) \<subseteq> set (fl_nodes F) \<and> node_ids (g m) = {i. (i, n_id m) \<in> ?R\<^sup>* \<and> i \<notin> Range ?R}"
      by blast
    then have "rootTraverse L F (Suc k) n = Inr (concat (map g ?in))"
      using False by (simp add: concat_result_total)
    moreover have "node_ids (concat (map g ?in)) = {i. \<exists>y \<in> ?R\<inverse> `` {n_id n}. (i, y) \<in> ?R\<^sup>* \<and> i \<notin> Range ?R}"
    proof -
      have "node_ids (concat (map g ?in)) = (\<Union>m \<in> set ?in. node_ids (g m))" by (auto simp: node_ids_def)
      also have "\<dots> = (\<Union>y \<in> n_id ` set ?in. {i. (i, y) \<in> ?R\<^sup>* \<and> i \<notin> Range ?R})" using g by simp
      finally show ?thesis unfolding ids by auto
    qed
    moreover have "set (concat (map g ?in)) \<subseteq> set (fl_nodes F)" using g by fastforce
    moreover have "{i. \<exists>y \<in> ?R\<inverse> `` {n_id n}. (i, y) \<in> ?R\<^sup>* \<and> i \<notin> Range ?R} =
        {i. (i, n_id n) \<in> ?R\<^sup>* \<and> i \<notin> Range ?R}"
    proof -
      from False obtain p where "p \<in> set ?in" by (cases ?in) auto
      then have "n_id n \<in> Range ?R" using incomer_step [OF lib Suc.prems(1)] by blast
      then show ?thesis by (blast intro: rtrancl_into_rtrancl elim: rtranclE)
    qed
    ultimately show ?thesis by simp
  qed
qed simp

text \<open>On an acyclic graph the query for the roots of a node outside every container returns, and answers,
  each once, the nodes without predecessor that lead to it.\<close>

theorem root_nodes_exact:
  assumes lib: "flow_lib_ok L" and "acyclic (flow_rel F)" and dist: "distinct (map n_id (fl_nodes F))"
    and n: "getNodeById F nid = Some n" and top: "\<not> truthy_parent (n_parentId n)"
  shows "\<exists>ns. getRootNodesById (Suc k) L F nid = Inr ns \<and> distinct (map n_id ns)
    \<and> set ns = {m \<in> set (fl_nodes F). (n_id m, nid) \<in> (flow_rel F)\<^sup>* \<and> n_id m \<notin> Range (flow_rel F)}"
proof -
  have n': "n \<in> set (fl_nodes F)" "n_id n = nid" using getNodeById_in [OF n] by auto
  obtain l where l: "rootTraverse L F (length (fl_nodes F) + 1) n = Inr l" "set l \<subseteq> set (fl_nodes F)"
    "node_ids l = {i. (i, nid) \<in> (flow_rel F)\<^sup>* \<and> i \<notin> Range (flow_rel F)}"
    using rootTraverse_ends [OF lib n'(1) ends_within_in [OF lib assms(2) n'(1)]] n'(2) by auto
  have "uniqById L [] = []" using uniqById_ids [OF lib, of "[]"] by simp
  then have "getRootNodesById (Suc k) L F nid = Inr (uniqById L l)"
    using n top l(1) by (simp del: rootTraverse.simps)
  moreover have "set (uniqById L l) = {m \<in> set (fl_nodes F). n_id m \<in> node_ids l}"
    using l(2) by (rule uniq_nodes [OF lib dist])
  ultimately show ?thesis using l(3) uniqById_distinct [OF lib, of l] by simp
qed

section \<open>The nodes that a run can reach\<close>

definition isContainer :: "node \<Rightarrow> bool" where
  "isContainer n = (d_type (n_data n) \<in> {Iteration, Loop})"

text \<open>The nodes that lie on a path from one of the given ids, or inside a container on such a path.\<close>

definition tree_region :: "flow \<Rightarrow> string set \<Rightarrow> node set" where
  "tree_region F S = {m \<in> set (fl_nodes F). \<exists>a \<in> S. (a, n_id m) \<in> (flow_rel F)\<^sup>*
     \<or> (\<exists>p \<in> set (fl_nodes F). (a, n_id p) \<in> (flow_rel F)\<^sup>* \<and> isContainer p \<and> n_parentId m = Some (n_id p))}"

text \<open>No edge leads into or out of a container.\<close>

definition edges_stay_inside :: "flow \<Rightarrow> bool" where
  "edges_stay_inside F = (\<forall>a \<in> set (fl_nodes F). \<forall>b \<in> set (fl_nodes F).
     (n_id a, n_id b) \<in> flow_rel F \<longrightarrow> n_parentId a = n_parentId b)"

lemma tree_region_mono: "S \<subseteq> T \<Longrightarrow> tree_region F S \<subseteq> tree_region F T"
  by (auto simp: tree_region_def)

lemma tree_region_step:
  "flow_lib_ok L \<Longrightarrow> n \<in> set (fl_nodes F) \<Longrightarrow>
   tree_region F (n_id ` set (getOutgoers L (n_id n) (fl_nodes F) (fl_edges F))) \<subseteq> tree_region F {n_id n}"
  unfolding tree_region_def
  by (fastforce dest: outgoer_step intro: converse_rtrancl_into_rtrancl)

lemma tree_region_self: "n \<in> set (fl_nodes F) \<Longrightarrow> n \<in> tree_region F {n_id n}"
  by (auto simp: tree_region_def)

lemma children_region:
  "n \<in> set (fl_nodes F) \<Longrightarrow> isContainer n \<Longrightarrow>
   set (getIterationNodeChildren F (n_id n)) \<subseteq> tree_region F {n_id n}"
  by (auto simp: tree_region_def getIterationNodeChildren_def)

lemma children_closed:
  assumes "edges_stay_inside F"
  shows "flow_rel F `` node_ids (getIterationNodeChildren F i) \<subseteq> node_ids (getIterationNodeChildren F i)"
proof
  fix y assume "y \<in> flow_rel F `` node_ids (getIterationNodeChildren F i)"
  then obtain a where a: "a \<in> set (fl_nodes F)" "n_parentId a = Some i" "(n_id a, y) \<in> flow_rel F"
    by (auto simp: node_ids_def getIterationNodeChildren_def)
  then obtain b where b: "b \<in> set (fl_nodes F)" "n_id b = y"
    using flow_rel_ids [of F] by (auto simp: node_ids_def)
  then have "n_parentId b = Some i" using a assms by (auto simp: edges_stay_inside_def)
  then show "y \<in> node_ids (getIterationNodeChildren F i)"
    using b by (auto simp: node_ids_def getIterationNodeChildren_def)
qed

text \<open>The children that the walk lists along with a node: none unless it is a container.\<close>

definition listedChildren :: "flow \<Rightarrow> node \<Rightarrow> node list" where
  "listedChildren F n = (if d_type (n_data n) \<in> {Iteration, Loop} then getIterationNodeChildren F (n_id n) else [])"

lemma listedChildren_region: "n \<in> set (fl_nodes F) \<Longrightarrow> set (listedChildren F n) \<subseteq> tree_region F {n_id n}"
  using children_region [of n F] by (cases "isContainer n") (auto simp: listedChildren_def isContainer_def)

lemma listedChildren_closed:
  "edges_stay_inside F \<Longrightarrow> flow_rel F `` node_ids (listedChildren F n) \<subseteq> node_ids (listedChildren F n)"
  using children_closed [of F "n_id n"] by (simp add: listedChildren_def)

lemma closed_listed:
  assumes "R `` C \<subseteq> C" and "R `` (T - (S \<union> C)) \<subseteq> T" and "C \<subseteq> T"
  shows "R `` (T - S) \<subseteq> T"
  using assms by blast

lemma validTraverse_unfold:
  "validTraverse L F (Suc k) rt depth (list, maxDepth) =
     (let outgoers = getOutgoers L (n_id rt) (fl_nodes F) (fl_edges F);
          maxDepth1 = (if depth > maxDepth then depth else maxDepth)
      in if outgoers \<noteq> [] then validEach L F k outgoers depth (list @ [rt], maxDepth1)
         else Inr (list @ [rt] @ listedChildren F rt, maxDepth1))"
  by (simp add: listedChildren_def Let_def)

lemma validEach_unfold:
  "validEach L F k (m # rest) depth (list, maxDepth) =
     (if \<exists>n \<in> set list. n_id n = n_id m then validEach L F k rest depth (list, maxDepth)
      else case validTraverse L F k m (depth + 1) (list @ listedChildren F m, maxDepth) of
             Inl e \<Rightarrow> Inl e
           | Inr acc \<Rightarrow> validEach L F k rest depth acc)"
  by (simp add: listedChildren_def Let_def)

text \<open>What the walk has done to the list when it returns from a set of starting ids.\<close>

definition tree_grown :: "flow \<Rightarrow> string set \<Rightarrow> node list \<Rightarrow> node list \<Rightarrow> bool" where
  "tree_grown F S list list' \<longleftrightarrow> set list \<subseteq> set list' \<and> S \<subseteq> node_ids list'
     \<and> set list' \<subseteq> set list \<union> tree_region F S
     \<and> flow_rel F `` (node_ids list' - node_ids list) \<subseteq> node_ids list'"

lemma tree_grownI:
  assumes "set l \<subseteq> set l'" and "S \<subseteq> node_ids l'" and "set l' \<subseteq> set l \<union> tree_region F S"
    and "flow_rel F `` (node_ids l' - node_ids l) \<subseteq> node_ids l'"
  shows "tree_grown F S l l'"
  using assms by (simp add: tree_grown_def)

lemma tree_grownD:
  assumes "tree_grown F S l l'"
  shows "set l \<subseteq> set l'" and "S \<subseteq> node_ids l'" and "set l' \<subseteq> set l \<union> tree_region F S"
    and "flow_rel F `` (node_ids l' - node_ids l) \<subseteq> node_ids l'" and "node_ids l \<subseteq> node_ids l'"
  using assms by (simp_all add: tree_grown_def node_ids_mono)

lemma tree_grown_trans:
  assumes 1: "tree_grown F S l l'" and 2: "tree_grown F T l' l''"
  shows "tree_grown F (S \<union> T) l l''"
proof (rule tree_grownI)
  show "flow_rel F `` (node_ids l'' - node_ids l) \<subseteq> node_ids l''"
    using tree_grownD(4) [OF 1] tree_grownD(5) [OF 2] tree_grownD(4) [OF 2] by (rule closed_trans)
  have "tree_region F S \<subseteq> tree_region F (S \<union> T)" "tree_region F T \<subseteq> tree_region F (S \<union> T)"
    by (simp_all add: tree_region_mono)
  then show "set l'' \<subseteq> set l \<union> tree_region F (S \<union> T)"
    using tree_grownD(3) [OF 1] tree_grownD(3) [OF 2] by blast
qed (use tree_grownD(1,2,5) [OF 1] tree_grownD(1,2,5) [OF 2] in blast)+

lemma tree_grown_seen: "S \<subseteq> node_ids l \<Longrightarrow> tree_grown F S l l"
  by (simp add: tree_grown_def)

lemma tree_grown_children:
  assumes "edges_stay_inside F" and "n \<in> set (fl_nodes F)"
    and g: "tree_grown F {n_id n} (list @ listedChildren F n) list'"
  shows "tree_grown F {n_id n} list list'"
proof (rule tree_grownI)
  show "flow_rel F `` (node_ids list' - node_ids list) \<subseteq> node_ids list'"
  proof (rule closed_listed)
    show "flow_rel F `` node_ids (listedChildren F n) \<subseteq> node_ids (listedChildren F n)"
      using assms(1) by (rule listedChildren_closed)
  qed (use tree_grownD(4,5) [OF g] in simp_all)
  show "set list' \<subseteq> set list \<union> tree_region F {n_id n}"
    using listedChildren_region [OF assms(2)]
    by (intro subset_trans [OF tree_grownD(3) [OF g]]) (simp add: le_supI2)
qed (use tree_grownD(1,2) [OF g] in simp_all)

lemma tree_grown_enter:
  assumes "flow_lib_ok L" and "n \<in> set (fl_nodes F)"
    and g: "tree_grown F (flow_rel F `` {n_id n}) (list @ [n]) list'"
  shows "tree_grown F {n_id n} list list'"
proof (rule tree_grownI)
  show "flow_rel F `` (node_ids list' - node_ids list) \<subseteq> node_ids list'"
    using tree_grownD(2,4) [OF g] image_closed_insert [of "flow_rel F" _ "n_id n"] by simp
  have "tree_region F (flow_rel F `` {n_id n}) \<subseteq> tree_region F {n_id n}"
    using tree_region_step [OF assms(1,2)] outgoers_rel [OF assms(1) node_idsI [OF assms(2)]] by simp
  then show "set list' \<subseteq> set list \<union> tree_region F {n_id n}"
    using tree_region_self [OF assms(2)]
    by (intro subset_trans [OF tree_grownD(3) [OF g]]) (simp add: le_supI2)
qed (use tree_grownD(1,5) [OF g] in simp_all)

lemma tree_grown_leaf:
  assumes "edges_stay_inside F" and "n \<in> set (fl_nodes F)" and "flow_rel F `` {n_id n} = {}"
  shows "tree_grown F {n_id n} list (list @ [n] @ listedChildren F n)"
proof (rule tree_grownI)
  let ?C = "node_ids (listedChildren F n)"
  have "flow_rel F `` (?C \<union> {n_id n}) \<subseteq> ?C"
    using listedChildren_closed [OF assms(1), of n] assms(3) unfolding Image_Un by simp
  then show "flow_rel F `` (node_ids (list @ [n] @ listedChildren F n) - node_ids list)
      \<subseteq> node_ids (list @ [n] @ listedChildren F n)"
    by (simp add: Image_def) blast
  show "set (list @ [n] @ listedChildren F n) \<subseteq> set list \<union> tree_region F {n_id n}"
    using listedChildren_region [OF assms(2)] tree_region_self [OF assms(2)] by simp blast
qed auto

lemma validTraverse_grows:
  shows "flow_lib_ok L \<Longrightarrow> edges_stay_inside F \<Longrightarrow> rt \<in> set (fl_nodes F) \<Longrightarrow>
      card (node_ids (fl_nodes F) - insert (n_id rt) (node_ids (fst acc))) < k \<Longrightarrow>
      \<exists>acc'. validTraverse L F k rt depth acc = Inr acc' \<and> tree_grown F {n_id rt} (fst acc) (fst acc')"
    and "flow_lib_ok L \<Longrightarrow> edges_stay_inside F \<Longrightarrow> set ms \<subseteq> set (fl_nodes F) \<Longrightarrow>
      card (node_ids (fl_nodes F) - node_ids (fst acc)) < Suc k \<Longrightarrow>
      \<exists>acc'. validEach L F k ms depth acc = Inr acc' \<and> tree_grown F (node_ids ms) (fst acc) (fst acc')"
proof (induction L F k rt depth acc and L F k ms depth acc rule: validTraverse_validEach.induct)
  case (2 L F k rt depth list maxDepth)
  let ?out = "getOutgoers L (n_id rt) (fl_nodes F) (fl_edges F)"
  let ?d = "if depth > maxDepth then depth else maxDepth"
  have out: "node_ids ?out = flow_rel F `` {n_id rt}"
    using outgoers_rel [OF "2.prems"(1) node_idsI [OF "2.prems"(3)]] by (simp add: node_ids_def)
  show ?case
  proof (cases "?out = []")
    case True
    then have "flow_rel F `` {n_id rt} = {}" using out by simp
    with True show ?thesis
      using tree_grown_leaf [OF "2.prems"(2,3), of list]
      by (simp add: validTraverse_unfold del: validTraverse.simps)
  next
    case False
    have "set ?out \<subseteq> set (fl_nodes F)" using outgoers_nodes [OF "2.prems"(1)] by blast
    then obtain acc' where "validEach L F k ?out depth (list @ [rt], ?d) = Inr acc'"
      "tree_grown F (node_ids ?out) (list @ [rt]) (fst acc')"
      using "2.IH" [OF refl refl refl False "2.prems"(1,2)] "2.prems"(4) by auto
    then show ?thesis
      using False out tree_grown_enter [OF "2.prems"(1,3)] by (auto simp: Let_def)
  qed
next
  case (4 L F k m rest depth list maxDepth)
  have m: "m \<in> set (fl_nodes F)" and rest: "set rest \<subseteq> set (fl_nodes F)" using "4.prems"(3) by auto
  show ?case
  proof (cases "\<exists>n \<in> set list. n_id n = n_id m")
    case True
    then have seen: "n_id m \<in> node_ids list" by (metis node_idsI)
    from "4.IH"(1) [OF True "4.prems"(1,2) rest] "4.prems"(4) obtain acc' where
      "validEach L F k rest depth (list, maxDepth) = Inr acc'"
      "tree_grown F (node_ids rest) list (fst acc')" by auto
    with True show ?thesis
      using tree_grown_trans [OF tree_grown_seen, of "{n_id m}" list F "node_ids rest"] seen by auto
  next
    case False
    let ?list1 = "list @ listedChildren F m"
    have new: "n_id m \<notin> node_ids list" using False by (auto simp: node_ids_def)
    have "card (node_ids (fl_nodes F) - insert (n_id m) (node_ids list)) < k"
      using card_unseen [OF finite_node_ids node_idsI [OF m] new] "4.prems"(4) by simp
    then have "card (node_ids (fl_nodes F) - insert (n_id m) (node_ids ?list1)) < k"
      by (rule card_unseen_mono [OF finite_node_ids, rotated]) auto
    then obtain acc1 where 1: "validTraverse L F k m (depth + 1) (?list1, maxDepth) = Inr acc1"
      "tree_grown F {n_id m} ?list1 (fst acc1)"
      using "4.IH"(2) [OF False refl "4.prems"(1,2) m] by (auto simp: listedChildren_def)
    have g1: "tree_grown F {n_id m} list (fst acc1)"
      using tree_grown_children [OF "4.prems"(2) m 1(2)] .
    have "card (node_ids (fl_nodes F) - node_ids (fst acc1)) < Suc k"
      using card_unseen_mono [OF finite_node_ids tree_grownD(5) [OF g1]] "4.prems"(4) by simp
    then obtain acc' where 2: "validEach L F k rest depth acc1 = Inr acc'"
      "tree_grown F (node_ids rest) (fst acc1) (fst acc')"
      using "4.IH"(3) [OF False refl _ "4.prems"(1,2) rest] 1(1) by (auto simp: listedChildren_def)
    then show ?thesis
      using False 1(1) tree_grown_trans [OF g1 2(2)]
      by (simp add: validEach_unfold del: validEach.simps)
  qed
qed (auto intro: tree_grown_seen)

lemma validFromStarts_grows:
  assumes "flow_lib_ok L" and "edges_stay_inside F"
  shows "set ss \<subseteq> set (fl_nodes F) \<Longrightarrow>
    \<exists>acc'. validFromStarts L F (length (fl_nodes F) + 1) ss acc = Inr acc'
      \<and> tree_grown F (node_ids ss) (fst acc) (fst acc')"
proof (induction ss arbitrary: acc)
  case Nil
  then show ?case by (simp add: tree_grown_seen)
next
  case (Cons s ss)
  obtain list d where acc: "acc = (list, d)" by (cases acc)
  have s: "s \<in> set (fl_nodes F)" and ss: "set ss \<subseteq> set (fl_nodes F)" using Cons.prems by auto
  show ?case
  proof (cases "\<exists>n \<in> set list. n_id n = n_id s")
    case True
    then have "n_id s \<in> node_ids list" by (metis node_idsI)
    then have "tree_grown F {n_id s} list list" by (simp add: tree_grown_seen)
    moreover obtain acc' where "validFromStarts L F (length (fl_nodes F) + 1) ss (list, d) = Inr acc'"
      "tree_grown F (node_ids ss) list (fst acc')" using Cons.IH [OF ss, of "(list, d)"] by auto
    ultimately show ?thesis using acc True tree_grown_trans [of F "{n_id s}" list list "node_ids ss"]
      by (auto simp del: validTraverse.simps)
  next
    case False
    have "card (node_ids (fl_nodes F) - insert (n_id s) (node_ids list)) \<le> card (node_ids (fl_nodes F))"
      by (rule card_mono) auto
    then have "card (node_ids (fl_nodes F) - insert (n_id s) (node_ids list)) < length (fl_nodes F) + 1"
      using card_node_ids [of "fl_nodes F"] by linarith
    then obtain acc1 where 1: "validTraverse L F (length (fl_nodes F) + 1) s 1 (list, d) = Inr acc1"
      "tree_grown F {n_id s} list (fst acc1)"
      using validTraverse_grows(1) [OF assms s, of "(list, d)" "length (fl_nodes F) + 1" 1]
      by (auto simp del: validTraverse.simps)
    obtain acc' where 2: "validFromStarts L F (length (fl_nodes F) + 1) ss acc1 = Inr acc'"
      "tree_grown F (node_ids ss) (fst acc1) (fst acc')" using Cons.IH [OF ss] by blast
    show ?thesis using acc False 1(1) 2(1) tree_grown_trans [OF 1(2) 2(2)]
      by (simp del: validTraverse.simps)
  qed
qed

lemma closed_rtrancl: "R `` S \<subseteq> S \<Longrightarrow> a \<in> S \<Longrightarrow> (a, b) \<in> R\<^sup>* \<Longrightarrow> b \<in> S"
  by (rule rtrancl_induct [of a b R]) auto

text \<open>When no edge crosses the border of a container, the list of the nodes that a run can reach is
  computed on every graph (cyclic or not), has each node once, contains every node that can be reached from
  an entry node, and contains besides them only the inside of the iterations and loops among them.\<close>

theorem valid_tree_exact:
  assumes lib: "flow_lib_ok L" and "edges_stay_inside F" and dist: "distinct (map n_id (fl_nodes F))"
    and S: "S = n_id ` {n \<in> set (fl_nodes F). isWorkflowEntryNode (d_type (n_data n))}"
  shows "\<exists>ns d. getValidTreeNodes L F = Inr (ns, d) \<and> distinct (map n_id ns)
    \<and> {m \<in> set (fl_nodes F). n_id m \<in> (flow_rel F)\<^sup>* `` S} \<subseteq> set ns \<and> set ns \<subseteq> tree_region F S"
proof -
  let ?starts = "filter (\<lambda>n. isWorkflowEntryNode (d_type (n_data n))) (fl_nodes F)"
  have S': "node_ids ?starts = S" using S by (simp add: node_ids_def)
  obtain list d where r: "validFromStarts L F (length (fl_nodes F) + 1) ?starts ([], 0) = Inr (list, d)"
    and g: "tree_grown F S [] list"
    using validFromStarts_grows [OF assms(1,2), of ?starts "([], 0)"] S' by auto
  have sub: "set list \<subseteq> set (fl_nodes F)"
    using tree_grownD(3) [OF g] by (auto simp: tree_region_def)
  have u: "set (uniqById L list) = {m \<in> set (fl_nodes F). n_id m \<in> node_ids list}"
    by (rule uniq_nodes [OF lib dist sub])
  have closed: "flow_rel F `` node_ids list \<subseteq> node_ids list" using tree_grownD(4) [OF g] by simp
  have "(flow_rel F)\<^sup>* `` S \<subseteq> node_ids list"
    using tree_grownD(2) [OF g] closed_rtrancl [OF closed] by blast
  then have 1: "{m \<in> set (fl_nodes F). n_id m \<in> (flow_rel F)\<^sup>* `` S} \<subseteq> set (uniqById L list)"
    unfolding u by blast
  have 2: "set (uniqById L list) \<subseteq> tree_region F S"
    using uniqById_sub [OF lib, of _ list] tree_grownD(3) [OF g] by auto
  show ?thesis
  proof (cases "?starts = []")
    case True
    then have "getValidTreeNodes L F = Inr ([], 0)" by (simp add: getValidTreeNodes_def)
    moreover have "S = {}" using S' True by simp
    ultimately show ?thesis by simp
  next
    case False
    then have "getValidTreeNodes L F = Inr (uniqById L list, d)"
      using r by (simp add: getValidTreeNodes_def)
    with 1 2 uniqById_distinct [OF lib, of list] show ?thesis by blast
  qed
qed

section \<open>Witnesses\<close>

text \<open>
  The packages' functions written out, and three small graphs over a start node, an LLM and an answer: the
  chain of the three, the chain with an edge back from the answer to the LLM, and a lone LLM.
\<close>

definition sample_lib :: flow_lib where
  "sample_lib = \<lparr>
     getOutgoers = (\<lambda>i ns es. filter (\<lambda>n. \<exists>e \<in> set es. e_source e = i \<and> e_target e = n_id n) ns),
     getIncomers = (\<lambda>i ns es. filter (\<lambda>n. \<exists>e \<in> set es. e_target e = i \<and> e_source e = n_id n) ns),
     uniqById = (\<lambda>xs. foldr (\<lambda>x r. x # filter (\<lambda>y. n_id y \<noteq> n_id x) r) xs [])\<rparr>"

definition sample_meta :: flow_meta where
  "sample_meta = \<lparr>fm_isStart = (\<lambda>t. t = Start), fm_availableNodesType = [Start, LLM, Answer, Loop, End]\<rparr>"

definition sample_chain :: flow where
  "sample_chain = \<lparr>fl_nodes = [sample_node ''start'' Start, sample_node ''llm'' LLM, sample_node ''answer'' Answer],
     fl_edges = [sample_edge ''start'' ''llm'', sample_edge ''llm'' ''answer'']\<rparr>"

definition sample_ring :: flow where
  "sample_ring = addEdge (sample_edge ''answer'' ''llm'') sample_chain"

lemma sample_uniq:
  "distinct (map n_id (uniqById sample_lib xs)) \<and> set (uniqById sample_lib xs) \<subseteq> set xs
   \<and> node_ids (uniqById sample_lib xs) = node_ids xs"
proof (induction xs)
  case (Cons x xs)
  have "uniqById sample_lib (x # xs) = x # filter (\<lambda>y. n_id y \<noteq> n_id x) (uniqById sample_lib xs)"
    by (simp add: sample_lib_def)
  moreover have "node_ids (filter (\<lambda>y. n_id y \<noteq> n_id x) ys) = node_ids ys - {n_id x}" for ys
    by (auto simp: node_ids_def)
  moreover have "distinct (map n_id (filter (\<lambda>y. n_id y \<noteq> n_id x) (uniqById sample_lib xs)))"
    using Cons.IH by (simp add: distinct_map_filter)
  ultimately show ?case using Cons.IH by auto
qed (simp add: sample_lib_def)

lemma sample_lib_ok: "flow_lib_ok sample_lib"
  unfolding flow_lib_ok_def using sample_uniq by (auto simp: sample_lib_def)

lemma sample_chain_rel: "flow_rel sample_chain = {(''start'', ''llm''), (''llm'', ''answer'')}"
  by (simp add: flow_rel_code sample_chain_def sample_node_def sample_edge_def)

lemma sample_ring_rel:
  "flow_rel sample_ring = {(''start'', ''llm''), (''llm'', ''answer''), (''answer'', ''llm'')}"
  by (simp add: flow_rel_code sample_ring_def addEdge_def sample_chain_def sample_node_def sample_edge_def)

lemma sample_chain_acyclic: "acyclic (flow_rel sample_chain)"
proof (rule acyclicI_order [where f = "\<lambda>i. if i = ''start'' then 2 else if i = ''llm'' then 1 else (0::nat)"])
qed (auto simp: sample_chain_rel)

lemma sample_chain_nodes:
  "getNodeById sample_chain ''start'' = Some (sample_node ''start'' Start)"
  "getNodeById sample_chain ''llm'' = Some (sample_node ''llm'' LLM)"
  "getNodeById sample_chain ''answer'' = Some (sample_node ''answer'' Answer)"
  "distinct (map n_id (fl_nodes sample_chain))" "length (fl_nodes sample_chain) = 3"
  by (simp_all add: getNodeById_def sample_chain_def sample_node_def)

lemma sample_no_way_back: "(''answer'', ''llm'') \<notin> (flow_rel sample_chain)\<^sup>+"
proof
  assume "(''answer'', ''llm'') \<in> (flow_rel sample_chain)\<^sup>+"
  then have "(''llm'', ''llm'') \<in> (flow_rel sample_chain)\<^sup>+"
    by (rule trancl_into_trancl2 [rotated]) (simp add: sample_chain_rel)
  then show False using sample_chain_acyclic by (simp add: acyclic_def)
qed

lemma sample_blocks:
  "blocksAllow sample_meta (sample_node ''llm'' LLM) (sample_node ''answer'' Answer)"
  "blocksAllow sample_meta (sample_node ''llm'' LLM) (sample_node ''llm'' LLM)"
  by (simp_all add: blocksAllow_def sample_meta_def sample_node_def node_data_of_def getNodeCatalogType_def
    isAgentV2NodeData_def getAvailableBlocks_def availableBlocksFilter_def truthy_parent_def)

theorem isValidConnection_decides_witness:
  "isValidConnection sample_lib sample_meta sample_chain ''llm'' ''answer'' = Inr True"
  using isValidConnection_decides [OF sample_lib_ok sample_chain_nodes(2,3), of sample_meta]
    sample_no_way_back sample_blocks
  by (simp add: sample_node_def)

theorem valid_connection_keeps_acyclic_witness:
  "acyclic (flow_rel (addEdge (sample_edge ''llm'' ''answer'') sample_chain))"
proof (rule valid_connection_keeps_acyclic [OF sample_lib_ok sample_chain_acyclic])
  show "isValidConnection sample_lib sample_meta sample_chain (e_source (sample_edge ''llm'' ''answer''))
      (e_target (sample_edge ''llm'' ''answer'')) = Inr True"
    using isValidConnection_eq [OF sample_lib_ok sample_chain_nodes(2,3), of sample_meta]
      sample_no_way_back sample_blocks
    by (simp add: sample_node_def sample_edge_def)
qed (simp add: sample_edge_def)

theorem self_connection_accepted_witness:
  "isValidConnection sample_lib sample_meta sample_chain ''llm'' ''llm'' = Inr True
   \<and> \<not> acyclic (flow_rel (addEdge (sample_edge ''llm'' ''llm'') sample_chain))"
  by (rule self_connection_accepted [OF sample_lib_ok sample_chain_acyclic sample_chain_nodes(2) _ sample_blocks(2)])
    (simp_all add: sample_node_def sample_edge_def)

lemma sample_top: "\<not> truthy_parent (n_parentId (sample_node i t))"
  by (simp add: sample_node_def truthy_parent_def)

theorem before_nodes_exact_witness:
  "\<exists>ns. getBeforeNodesInSameBranch (Suc 0) sample_lib sample_chain ''answer'' None None = Inr ns
    \<and> distinct (map n_id ns)
    \<and> set ns = {m \<in> set (fl_nodes sample_chain). supportsOutputVars m
        \<and> (n_id m, ''answer'') \<in> (flow_rel sample_chain)\<^sup>+}"
  by (rule before_nodes_exact [OF sample_lib_ok sample_chain_nodes(4,3) sample_top])

theorem after_nodes_exact_witness:
  "\<exists>ns. getAfterNodesInSameBranch (length (fl_nodes sample_chain) + 1) sample_lib sample_chain ''llm'' = Inr ns
    \<and> distinct (map n_id ns)
    \<and> set ns = {m \<in> set (fl_nodes sample_chain). (''llm'', n_id m) \<in> (flow_rel sample_chain)\<^sup>*}"
  by (rule after_nodes_exact [OF sample_lib_ok sample_chain_acyclic sample_chain_nodes(4,2)])

theorem after_nodes_overflow_witness:
  "getAfterNodesInSameBranch 1000 sample_lib sample_ring ''start'' = Inl RangeError"
proof (rule after_nodes_overflow [OF sample_lib_ok])
  show "getNodeById sample_ring ''start'' = Some (sample_node ''start'' Start)"
    by (simp add: getNodeById_def sample_ring_def addEdge_def sample_chain_def sample_node_def)
  show "(''start'', ''llm'') \<in> (flow_rel sample_ring)\<^sup>*" by (rule r_into_rtrancl) (simp add: sample_ring_rel)
  have "(''llm'', ''answer'') \<in> flow_rel sample_ring" "(''answer'', ''llm'') \<in> flow_rel sample_ring"
    by (simp_all add: sample_ring_rel)
  then show "(''llm'', ''llm'') \<in> (flow_rel sample_ring)\<^sup>+" by (blast intro: trancl_into_trancl)
qed

theorem from_start_exact_witness:
  "isFromStartNode (length (fl_nodes sample_chain) + 1) sample_lib sample_chain ''answer'' =
     Inr (\<exists>m \<in> set (fl_nodes sample_chain). isWorkflowEntryNode (d_type (n_data m))
       \<and> (n_id m, ''answer'') \<in> (flow_rel sample_chain)\<^sup>*)"
  by (rule from_start_exact [OF sample_lib_ok sample_chain_acyclic sample_chain_nodes(4)])
    (simp add: sample_chain_def sample_node_def)

theorem root_nodes_exact_witness:
  "\<exists>ns. getRootNodesById (Suc 0) sample_lib sample_chain ''answer'' = Inr ns \<and> distinct (map n_id ns)
    \<and> set ns = {m \<in> set (fl_nodes sample_chain). (n_id m, ''answer'') \<in> (flow_rel sample_chain)\<^sup>*
        \<and> n_id m \<notin> Range (flow_rel sample_chain)}"
  by (rule root_nodes_exact [OF sample_lib_ok sample_chain_acyclic sample_chain_nodes(4,3) sample_top])

theorem valid_tree_exact_witness:
  "\<exists>ns d. getValidTreeNodes sample_lib sample_ring = Inr (ns, d) \<and> distinct (map n_id ns)
    \<and> {m \<in> set (fl_nodes sample_ring). n_id m \<in> (flow_rel sample_ring)\<^sup>* `` {''start''}} \<subseteq> set ns
    \<and> set ns \<subseteq> tree_region sample_ring {''start''}"
proof (rule valid_tree_exact [OF sample_lib_ok])
  show "edges_stay_inside sample_ring"
    by (simp add: edges_stay_inside_def sample_ring_def addEdge_def sample_chain_def sample_node_def)
  show "distinct (map n_id (fl_nodes sample_ring))"
    by (simp add: sample_ring_def addEdge_def sample_chain_def sample_node_def)
  have "n_id ` set (filter (\<lambda>n. isWorkflowEntryNode (d_type (n_data n))) (fl_nodes sample_ring)) = {''start''}"
    by (simp add: sample_ring_def addEdge_def sample_chain_def sample_node_def node_data_of_def
      isWorkflowEntryNode_def isTriggerNode_def)
  then show "{''start''} = n_id ` {n \<in> set (fl_nodes sample_ring). isWorkflowEntryNode (d_type (n_data n))}"
    by simp
qed

end
