(* ===== verification/Edge_Laws.thy ===== *)
theory Edge_Laws
  imports Edge_Editing
begin

text \<open>
  The caches of connected handles agree with the edges in every state that the editing operations reach,
  a read-only canvas is not edited, and what goes wrong for an edge without handles.
\<close>

section \<open>One change on the caches\<close>

definition stepHandles :: "string \<Rightarrow> edge_change \<Rightarrow> handle_ids \<Rightarrow> handle_ids" where
  "stepHandles i c h =
     (if e_source (snd c) = i then changeHandles (fst c) (e_sourceHandle (snd c)) ''source'' (fst h) else fst h,
      if e_target (snd c) = i then changeHandles (fst c) (e_targetHandle (snd c)) ''target'' (snd h) else snd h)"

definition entry_of :: "(string \<times> handle_ids) list \<Rightarrow> node \<Rightarrow> handle_ids" where
  "entry_of hm n = (case map_of hm (n_id n) of None \<Rightarrow> handle_ids_of n | Some h \<Rightarrow> h)"

lemma find_by_id:
  assumes "distinct (map n_id ns)" and "n \<in> set ns"
  shows "find (\<lambda>m. n_id m = n_id n) ns = Some n"
  using assms by (induction ns) auto

lemma same_id: "distinct (map n_id ns) \<Longrightarrow> m \<in> set ns \<Longrightarrow> n \<in> set ns \<Longrightarrow> n_id m = n_id n \<Longrightarrow> m = n"
  by (metis find_by_id option.inject)

lemma entry_ensureEntry:
  assumes "distinct (map n_id ns)" and "n \<in> set ns" and "\<And>m. o' = Some m \<Longrightarrow> m \<in> set ns"
  shows "entry_of (ensureEntry o' hm) n = entry_of hm n"
  using assms same_id [OF assms(1) _ assms(2)]
  by (auto simp: entry_of_def ensureEntry_def split: option.splits)

lemma ensureEntry_present:
  "map_of hm k \<noteq> None \<Longrightarrow> map_of (ensureEntry o' hm) k \<noteq> None"
  "map_of (ensureEntry (Some m) hm) (n_id m) \<noteq> None"
  by (auto simp: ensureEntry_def split: option.splits)

lemma changeEntry_present: "map_of hm k \<noteq> None \<Longrightarrow> map_of (changeEntry o' f hm) k \<noteq> None"
  by (auto simp: changeEntry_def split: option.splits)

lemma entry_changeEntry:
  assumes "\<And>m. o' = Some m \<Longrightarrow> map_of hm (n_id m) \<noteq> None"
  shows "entry_of (changeEntry o' f hm) n =
    (if \<exists>m. o' = Some m \<and> n_id m = n_id n then f (entry_of hm n) else entry_of hm n)"
  using assms by (auto simp: entry_of_def changeEntry_def split: option.splits)

lemma entry_applyChange:
  assumes d: "distinct (map n_id ns)" and n: "n \<in> set ns"
  shows "entry_of (applyChange ns c hm) n = stepHandles (n_id n) c (entry_of hm n)"
proof -
  let ?f = "\<lambda>i. find (\<lambda>m. n_id m = i) ns" and ?e = "snd c"
  let ?hm = "ensureEntry (?f (e_target ?e)) (ensureEntry (?f (e_source ?e)) hm)"
  have mem: "?f i = Some m \<Longrightarrow> m \<in> set ns \<and> n_id m = i" for i m by (auto dest: find_SomeD)
  have hit: "(\<exists>m. ?f i = Some m \<and> n_id m = n_id n) = (i = n_id n)" for i
  proof (cases "i = n_id n")
    case True
    then show ?thesis using find_by_id [OF d n] by simp
  next
    case False
    then show ?thesis using mem by blast
  qed
  have e: "entry_of ?hm n = entry_of hm n"
  proof -
    have "entry_of ?hm n = entry_of (ensureEntry (?f (e_source ?e)) hm) n"
      by (rule entry_ensureEntry [OF d n]) (blast dest: mem)
    also have "\<dots> = entry_of hm n" by (rule entry_ensureEntry [OF d n]) (blast dest: mem)
    finally show ?thesis .
  qed
  have ps: "?f (e_source ?e) = Some m \<Longrightarrow> map_of ?hm (n_id m) \<noteq> None" for m
    by (rule ensureEntry_present(1)) (simp only: ensureEntry_present(2) not_False_eq_True)
  have pt: "?f (e_target ?e) = Some m \<Longrightarrow> map_of (changeEntry (?f (e_source ?e)) g ?hm) (n_id m) \<noteq> None" for m g
    by (rule changeEntry_present) (simp only: ensureEntry_present(2) not_False_eq_True)
  have 1: "entry_of (changeEntry (?f (e_source ?e)) g ?hm) n =
      (if e_source ?e = n_id n then g (entry_of hm n) else entry_of hm n)" for g
    by (subst entry_changeEntry, erule ps, simp only: hit e)
  have "entry_of (changeEntry (?f (e_target ?e)) f (changeEntry (?f (e_source ?e)) g ?hm)) n =
      (let h = if e_source ?e = n_id n then g (entry_of hm n) else entry_of hm n
       in if e_target ?e = n_id n then f h else h)" for f g
    by (subst entry_changeEntry, erule pt, simp only: hit 1 Let_def)
  then show ?thesis
    by (cases "entry_of hm n") (simp add: applyChange_def Let_def stepHandles_def)
qed

lemma entry_fold:
  assumes "distinct (map n_id ns)" and "n \<in> set ns"
  shows "entry_of (fold (applyChange ns) cs hm) n = fold (stepHandles (n_id n)) cs (entry_of hm n)"
  by (induction cs arbitrary: hm) (simp_all add: entry_applyChange [OF assms])

lemma handle_ids_setHandleIds [simp]: "handle_ids_of (setHandleIds h n) = h"
  by (simp add: handle_ids_of_def setHandleIds_def opt_list_def)

lemma n_id_setHandleIds [simp]: "n_id (setHandleIds h n) = n_id n"
  by (simp add: setHandleIds_def)

definition connectedNode :: "node list \<Rightarrow> edge_change list \<Rightarrow> node \<Rightarrow> node" where
  "connectedNode ns cs n = (case map_of (getNodesConnectedSourceOrTargetHandleIdsMap cs ns) (n_id n) of
     None \<Rightarrow> n | Some h \<Rightarrow> setHandleIds h n)"

lemma applyConnected_map: "applyConnectedHandleNodeData ns cs = map (connectedNode ns cs) ns"
  by (simp add: applyConnectedHandleNodeData_def connectedNode_def [abs_def] Let_def)

lemma n_id_connectedNode [simp]: "n_id (connectedNode ns cs n) = n_id n"
  by (simp add: connectedNode_def split: option.splits)

lemma ids_applyConnected [simp]: "map n_id (applyConnectedHandleNodeData ns cs) = map n_id ns"
  by (simp add: applyConnected_map)

text \<open>What the caches hold after a list of changes: each node's lists with the changes applied in order.\<close>

lemma handle_ids_connectedNode:
  assumes "distinct (map n_id ns)" and "n \<in> set ns"
  shows "handle_ids_of (connectedNode ns cs n) = fold (stepHandles (n_id n)) cs (handle_ids_of n)"
proof -
  have "handle_ids_of (connectedNode ns cs n) = entry_of (getNodesConnectedSourceOrTargetHandleIdsMap cs ns) n"
    by (simp add: connectedNode_def entry_of_def split: option.splits)
  then show ?thesis
    using entry_fold [OF assms, of cs "[]"]
    by (simp add: getNodesConnectedSourceOrTargetHandleIdsMap_def entry_of_def)
qed

section \<open>Caches and edges as multisets\<close>

definition edge_ends :: "edge \<Rightarrow> (string \<times> string) \<times> (string \<times> string)" where
  "edge_ends e = ((e_source e, handleOr (e_sourceHandle e) ''source''),
                  (e_target e, handleOr (e_targetHandle e) ''target''))"

definition src_handles :: "edge list \<Rightarrow> string \<Rightarrow> string multiset" where
  "src_handles es i = image_mset (snd \<circ> fst) (filter_mset (\<lambda>x. fst (fst x) = i) (mset (map edge_ends es)))"

definition tgt_handles :: "edge list \<Rightarrow> string \<Rightarrow> string multiset" where
  "tgt_handles es i = image_mset (snd \<circ> snd) (filter_mset (\<lambda>x. fst (snd x) = i) (mset (map edge_ends es)))"

definition handles_match :: "node list \<Rightarrow> edge list \<Rightarrow> bool" where
  "handles_match ns es \<longleftrightarrow> (\<forall>n \<in> set ns. mset (fst (handle_ids_of n)) = src_handles es (n_id n)
     \<and> mset (snd (handle_ids_of n)) = tgt_handles es (n_id n))"

definition has_handles :: "edge \<Rightarrow> bool" where
  "has_handles e \<longleftrightarrow> e_sourceHandle e = Some (handleOr (e_sourceHandle e) ''source'')
     \<and> e_targetHandle e = Some (handleOr (e_targetHandle e) ''target'')"

lemma src_handles_simps:
  "src_handles [] i = {#}"
  "src_handles (e # es) i =
     (if e_source e = i then {#handleOr (e_sourceHandle e) ''source''#} else {#}) + src_handles es i"
  "src_handles (es @ fs) i = src_handles es i + src_handles fs i"
  by (simp_all add: src_handles_def edge_ends_def)

lemma tgt_handles_simps:
  "tgt_handles [] i = {#}"
  "tgt_handles (e # es) i =
     (if e_target e = i then {#handleOr (e_targetHandle e) ''target''#} else {#}) + tgt_handles es i"
  "tgt_handles (es @ fs) i = tgt_handles es i + tgt_handles fs i"
  by (simp_all add: tgt_handles_def edge_ends_def)

lemmas handles_simps = src_handles_simps tgt_handles_simps

lemma handles_cong:
  assumes "mset (map edge_ends es) = mset (map edge_ends fs)"
  shows "src_handles es i = src_handles fs i" and "tgt_handles es i = tgt_handles fs i"
  using assms by (simp_all only: src_handles_def tgt_handles_def)

lemma mset_remove_first: "find p xs = Some x \<Longrightarrow> mset xs = add_mset x (mset (remove_first p xs))"
  by (induction xs) (auto split: if_splits)

lemma changeHandles_remove:
  assumes "mset hs = add_mset x M"
  shows "mset (changeHandles RemoveEdge (Some x) fb hs) = M"
proof -
  have ex: "\<exists>y \<in> set hs. Some y = Some x" using union_single_eq_member [OF assms [symmetric]] by simp
  have "find (\<lambda>y. Some y = Some x) hs = Some x"
    using find_Some_of_ex [OF ex] by (auto dest: find_SomeD)
  then have "mset hs = add_mset x (mset (remove_first (\<lambda>y. Some y = Some x) hs))"
    by (rule mset_remove_first)
  then show ?thesis using assms splice_findIndex_hit [OF ex] by (simp add: changeHandles_def)
qed

lemma step_remove:
  assumes "has_handles e" and "mset (fst h) = src_handles [e] i + X" and "mset (snd h) = tgt_handles [e] i + Y"
  shows "mset (fst (stepHandles i (RemoveEdge, e) h)) = X \<and> mset (snd (stepHandles i (RemoveEdge, e) h)) = Y"
proof -
  obtain a b where ab: "e_sourceHandle e = Some a" "e_targetHandle e = Some b"
    "handleOr (Some a) ''source'' = a" "handleOr (Some b) ''target'' = b"
    using assms(1) unfolding has_handles_def by (metis option.inject)
  show ?thesis
    using assms(2,3) ab
    by (auto simp: stepHandles_def handles_simps intro: changeHandles_remove)
qed

lemma step_add:
  "mset (fst (stepHandles i (AddEdge, e) h)) = mset (fst h) + src_handles [e] i
   \<and> mset (snd (stepHandles i (AddEdge, e) h)) = mset (snd h) + tgt_handles [e] i"
  by (simp add: stepHandles_def changeHandles_def handles_simps)

lemma fold_remove:
  "\<forall>e \<in> set es. has_handles e \<Longrightarrow> mset (fst h) = src_handles es i + X \<Longrightarrow>
   mset (snd h) = tgt_handles es i + Y \<Longrightarrow>
   mset (fst (fold (stepHandles i) (map (Pair RemoveEdge) es) h)) = X
   \<and> mset (snd (fold (stepHandles i) (map (Pair RemoveEdge) es) h)) = Y"
proof (induction es arbitrary: h)
  case (Cons e es)
  have "mset (fst (stepHandles i (RemoveEdge, e) h)) = src_handles es i + X
      \<and> mset (snd (stepHandles i (RemoveEdge, e) h)) = tgt_handles es i + Y"
    using Cons.prems by (intro step_remove) (simp_all add: handles_simps add.assoc)
  then show ?case using Cons by simp
qed (simp add: handles_simps)

lemma fold_add:
  "mset (fst (fold (stepHandles i) (map (Pair AddEdge) es) h)) = mset (fst h) + src_handles es i
   \<and> mset (snd (fold (stepHandles i) (map (Pair AddEdge) es) h)) = mset (snd h) + tgt_handles es i"
proof (induction es arbitrary: h)
  case (Cons e es)
  then show ?case using step_add [of i e h] by (simp add: handles_simps)
qed (simp add: handles_simps)

text \<open>
  Removing the edges \<open>del\<close> from and adding the edges \<open>new\<close> to a canvas whose caches agree with its edges
  gives caches that agree with the remaining and the new edges.
\<close>

lemma changes_keep_match:
  assumes d: "distinct (map n_id ns)" and match: "handles_match ns es"
    and has: "\<forall>e \<in> set del. has_handles e"
    and old: "mset (map edge_ends es) = mset (map edge_ends (del @ keep))"
    and new: "mset (map edge_ends es') = mset (map edge_ends (keep @ new))"
  shows "handles_match
    (applyConnectedHandleNodeData ns (map (Pair RemoveEdge) del @ map (Pair AddEdge) new)) es'"
  unfolding handles_match_def applyConnected_map
proof (rule ballI)
  fix m assume "m \<in> set (map (connectedNode ns (map (Pair RemoveEdge) del @ map (Pair AddEdge) new)) ns)"
  then obtain n where n: "n \<in> set ns"
    and m: "m = connectedNode ns (map (Pair RemoveEdge) del @ map (Pair AddEdge) new) n" by auto
  let ?i = "n_id n"
  let ?h = "fold (stepHandles ?i) (map (Pair RemoveEdge) del) (handle_ids_of n)"
  have "mset (fst (handle_ids_of n)) = src_handles del ?i + src_handles keep ?i
      \<and> mset (snd (handle_ids_of n)) = tgt_handles del ?i + tgt_handles keep ?i"
    using match n handles_cong [OF old, of ?i] by (simp add: handles_match_def handles_simps)
  then have "mset (fst ?h) = src_handles keep ?i \<and> mset (snd ?h) = tgt_handles keep ?i"
    using fold_remove [OF has] by blast
  then show "mset (fst (handle_ids_of m)) = src_handles es' (n_id m)
      \<and> mset (snd (handle_ids_of m)) = tgt_handles es' (n_id m)"
    using fold_add [of ?i new ?h] handles_cong [OF new, of ?i]
    by (simp add: m handle_ids_connectedNode [OF d n] handles_simps)
qed

section \<open>The invariant of the editor\<close>

definition edge_wires :: "edge \<Rightarrow> string \<times> string option \<times> string \<times> string option" where
  "edge_wires e = (e_source e, e_sourceHandle e, e_target e, e_targetHandle e)"

definition node_cache :: "node \<Rightarrow> string \<times> handle_ids" where
  "node_cache n = (n_id n, handle_ids_of n)"

definition edit_inv :: "edit_store \<Rightarrow> bool" where
  "edit_inv s \<longleftrightarrow> distinct (map n_id (es_nodes s)) \<and> (\<forall>e \<in> set (es_edges s). has_handles e)
     \<and> handles_match (es_nodes s) (es_edges s)"

text \<open>
  What an operation needs from its arguments: handles that are there, and, for the removal of a branch,
  which addresses edges by id, ids that are not shared.
\<close>

fun op_ok :: "edit_store \<Rightarrow> edit_op \<Rightarrow> bool" where
  "op_ok s (Connect a sh b th) = (\<exists>x y. sh = Some x \<and> th = Some y \<and> x \<noteq> [] \<and> y \<noteq> [])"
| "op_ok s (DeleteBranch n b) = distinct (map e_id (es_edges s))"
| "op_ok s (SourceHandleChange n a b) = (b \<noteq> [])"
| "op_ok s _ = True"

inductive edit_reach :: "edit_store \<Rightarrow> edit_store \<Rightarrow> bool" for s0 where
  edit_start: "edit_reach s0 s0"
| edit_step: "edit_reach s0 s \<Longrightarrow> op_ok s x \<Longrightarrow> edit_reach s0 (stateOf (useEdgesInteractions s x))"

lemma ends_of_wires: "edge_ends e = (\<lambda>(a, sh, b, th). ((a, handleOr sh ''source''), (b, handleOr th ''target''))) (edge_wires e)"
  by (simp add: edge_ends_def edge_wires_def)

lemma has_handles_of_wires:
  "has_handles e = (\<lambda>(a, sh, b, th). sh = Some (handleOr sh ''source'') \<and> th = Some (handleOr th ''target'')) (edge_wires e)"
  by (simp add: has_handles_def edge_wires_def)

lemma wires_cong:
  assumes "map edge_wires es = map edge_wires fs"
  shows "map edge_ends es = map edge_ends fs" and "(\<forall>e \<in> set es. has_handles e) = (\<forall>e \<in> set fs. has_handles e)"
proof -
  show "map edge_ends es = map edge_ends fs"
    using arg_cong [OF assms, of "map (\<lambda>(a, sh, b, th). ((a, handleOr sh ''source''), (b, handleOr th ''target'')))"]
    by (simp add: ends_of_wires [abs_def] comp_def)
  show "(\<forall>e \<in> set es. has_handles e) = (\<forall>e \<in> set fs. has_handles e)"
    using arg_cong [OF assms, of "list_all (\<lambda>(a, sh, b, th). sh = Some (handleOr sh ''source'') \<and> th = Some (handleOr th ''target''))"]
    by (simp add: has_handles_of_wires list_all_iff comp_def)
qed

lemma handles_match_of_cache:
  "handles_match ns es = (\<forall>c \<in> set (map node_cache ns).
     mset (fst (snd c)) = src_handles es (fst c) \<and> mset (snd (snd c)) = tgt_handles es (fst c))"
  by (simp add: handles_match_def node_cache_def)

lemma edit_inv_cong:
  assumes "map node_cache (es_nodes s) = map node_cache (es_nodes t)"
    and "map edge_wires (es_edges s) = map edge_wires (es_edges t)"
  shows "edit_inv s = edit_inv t"
proof -
  have "map n_id (es_nodes s) = map n_id (es_nodes t)"
    using arg_cong [OF assms(1), of "map fst"] by (simp add: node_cache_def comp_def)
  moreover have "src_handles (es_edges s) = src_handles (es_edges t)" "tgt_handles (es_edges s) = tgt_handles (es_edges t)"
    using handles_cong [of "es_edges s" "es_edges t"] wires_cong(1) [OF assms(2)] by (auto simp: fun_eq_iff)
  ultimately show ?thesis
    unfolding edit_inv_def handles_match_of_cache assms(1) wires_cong(2) [OF assms(2)] by simp
qed

lemma emit_frame [simp]: "es_nodes (emit fx s) = es_nodes s" "es_edges (emit fx s) = es_edges s"
  by (simp_all add: emit_def)

lemma clearMenu_frame [simp]: "es_nodes (clearMenu i s) = es_nodes s" "es_edges (clearMenu i s) = es_edges s"
  by (simp_all add: clearMenu_def)

text \<open>Every operation that changes edges has this form.\<close>

lemma edit_inv_changes:
  assumes inv: "edit_inv s" and "mset (map edge_ends (es_edges s)) = mset (map edge_ends (del @ keep))"
    and "\<forall>e \<in> set del. has_handles e"
    and "mset (map edge_ends (es_edges t)) = mset (map edge_ends (keep @ new))"
    and "\<forall>e \<in> set (es_edges t). has_handles e"
    and "es_nodes t = applyConnectedHandleNodeData (es_nodes s) (map (Pair RemoveEdge) del @ map (Pair AddEdge) new)"
  shows "edit_inv t"
  using assms changes_keep_match [OF _ _ assms(3,2,4)] unfolding edit_inv_def by simp

lemma deleteEdgeById_eqs:
  assumes e: "find (\<lambda>e. e_id e = i) (es_edges s) = Some e"
  shows "es_nodes (deleteEdgeById i s) = applyConnectedHandleNodeData (es_nodes s) [(RemoveEdge, e)]"
    and "es_edges (deleteEdgeById i s) = remove_first (\<lambda>e. e_id e = i) (es_edges s)"
proof -
  have ex: "\<exists>e \<in> set (es_edges s). e_id e = i" using find_SomeD [OF e] by blast
  obtain k where k: "findIndex (\<lambda>e. e_id e = i) (es_edges s) = int k" "k < length (es_edges s)"
    using ex by (rule findIndex_hit)
  have "es_edges s ! k = e"
    using at_index_findIndex [of "es_edges s" "\<lambda>e. e_id e = i"] e k by (simp add: at_index_def)
  then show "es_nodes (deleteEdgeById i s) = applyConnectedHandleNodeData (es_nodes s) [(RemoveEdge, e)]"
    "es_edges (deleteEdgeById i s) = remove_first (\<lambda>e. e_id e = i) (es_edges s)"
    using k splice_findIndex_hit [OF ex] by (simp_all add: deleteEdgeById_def Let_def)
qed

lemma deleteEdgeById_inv:
  assumes inv: "edit_inv s"
  shows "edit_inv (deleteEdgeById i s)"
proof (cases "\<exists>e \<in> set (es_edges s). e_id e = i")
  case True
  let ?p = "\<lambda>e. e_id e = i"
  obtain e where e: "find ?p (es_edges s) = Some e" using find_Some_of_ex [OF True] by blast
  note eq = deleteEdgeById_eqs [OF e]
  show ?thesis
  proof (rule edit_inv_changes [OF inv, of "[e]" "remove_first ?p (es_edges s)" _ "[]"])
    show "mset (map edge_ends (es_edges s)) = mset (map edge_ends ([e] @ remove_first ?p (es_edges s)))"
      using mset_remove_first [OF e] by simp
    show "\<forall>e \<in> set [e]. has_handles e" "\<forall>e \<in> set (es_edges (deleteEdgeById i s)). has_handles e"
      using inv find_SomeD [OF e] remove_first_subseq [of ?p "es_edges s"]
      by (auto simp: edit_inv_def eq(2) dest: list_emb_set)
  qed (simp_all add: eq)
next
  case False
  then show ?thesis using inv by (simp add: deleteEdgeById_def)
qed

lemma ends_filter_split:
  "mset (map edge_ends es) = mset (map edge_ends (filter p es @ filter (\<lambda>e. \<not> p e) es))"
  by (induction es) auto

lemma handleEdgeDeleteByDeleteBranch_inv:
  assumes inv: "edit_inv s" and d: "distinct (map e_id (es_edges s))"
  shows "edit_inv (handleEdgeDeleteByDeleteBranch n b s)"
proof -
  let ?p = "\<lambda>e. e_source e = n \<and> e_sourceHandle e = Some b"
  let ?del = "filter ?p (es_edges s)" and ?t = "handleEdgeDeleteByDeleteBranch n b s"
  show ?thesis
  proof (cases "getNodesReadOnly s \<or> ?del = []")
    case False
    have "inj_on e_id (set (es_edges s))" using d by (simp add: distinct_map)
    then have "filter (\<lambda>e. \<not> (\<exists>d \<in> set ?del. e_id d = e_id e)) (es_edges s) = filter (\<lambda>e. \<not> ?p e) (es_edges s)"
      by (intro filter_cong) (auto dest: inj_onD)
    then have eq: "es_nodes ?t = applyConnectedHandleNodeData (es_nodes s) (map (Pair RemoveEdge) ?del @ map (Pair AddEdge) [])"
        "es_edges ?t = filter (\<lambda>e. \<not> ?p e) (es_edges s)"
      using False by (simp_all add: handleEdgeDeleteByDeleteBranch_def Let_def)
    show ?thesis
      by (rule edit_inv_changes [OF inv ends_filter_split [of _ ?p] _ _ _ eq(1)])
        (use inv in \<open>auto simp: eq(2) edit_inv_def\<close>)
  qed (use inv in \<open>auto simp: handleEdgeDeleteByDeleteBranch_def Let_def\<close>)
qed

lemma ends_partition:
  "mset (map edge_ends (map (\<lambda>e. if p e then f e else e) es)) =
   mset (map edge_ends (filter (\<lambda>e. \<not> p e) es @ map f (filter p es)))"
  by (induction es) auto

lemma handleEdgeSourceHandleChange_inv:
  assumes inv: "edit_inv s" and b: "b \<noteq> []"
  shows "edit_inv (handleEdgeSourceHandleChange n a b s)"
proof -
  let ?p = "\<lambda>e. e_source e = n \<and> e_sourceHandle e = Some a"
  let ?del = "filter ?p (es_edges s)" and ?t = "handleEdgeSourceHandleChange n a b s"
  let ?new = "\<lambda>e::edge. e\<lparr>e_sourceHandle := Some b\<rparr>"
  let ?re = "\<lambda>e. ?new e\<lparr>e_id := edge_key (e_source e) (Some b) (e_target e) (e_targetHandle e)\<rparr>"
  show ?thesis
  proof (cases "getNodesReadOnly s \<or> ?del = []")
    case False
    then have eq: "es_nodes ?t = applyConnectedHandleNodeData (es_nodes s)
          (map (Pair RemoveEdge) ?del @ map (Pair AddEdge) (map ?new ?del))"
        "es_edges ?t = map (\<lambda>e. if ?p e then ?re e else e) (es_edges s)"
      by (simp_all add: handleEdgeSourceHandleChange_def Let_def comp_def)
    have "map edge_ends (es_edges ?t) = map edge_ends (map (\<lambda>e. if ?p e then ?new e else e) (es_edges s))"
      unfolding eq(2) map_map comp_def by (rule map_cong [OF refl]) (simp add: edge_ends_def)
    then have new: "mset (map edge_ends (es_edges ?t)) =
        mset (map edge_ends (filter (\<lambda>e. \<not> ?p e) (es_edges s) @ map ?new ?del))"
      using ends_partition [of ?p ?new "es_edges s"] by simp
    have has: "\<forall>e \<in> set (es_edges s). has_handles e" using inv by (simp add: edit_inv_def)
    then have "\<forall>e \<in> set (es_edges ?t). has_handles e"
      using b by (auto simp: eq(2) has_handles_def handleOr_def)
    then show ?thesis
      using has by (intro edit_inv_changes [OF inv ends_filter_split [of _ ?p] _ new _ eq(1)]) auto
  qed (use inv in \<open>auto simp: handleEdgeSourceHandleChange_def Let_def\<close>)
qed

lemma handleNodeConnect_inv:
  assumes inv: "edit_inv s" and h: "x \<noteq> []" "y \<noteq> []"
  shows "edit_inv (stateOf (handleNodeConnect a (Some x) b (Some y) s))"
proof -
  have add: "edit_inv (emit fx (s\<lparr>es_nodes := applyConnectedHandleNodeData (es_nodes s) [(AddEdge, e)],
      es_edges := es_edges s @ [e]\<rparr>))" if "has_handles e" for fx e
  proof (rule edit_inv_changes [OF inv, of "[]" "es_edges s" _ "[e]"])
    show "\<forall>e' \<in> set (es_edges (emit fx (s\<lparr>es_nodes := applyConnectedHandleNodeData (es_nodes s) [(AddEdge, e)],
        es_edges := es_edges s @ [e]\<rparr>))). has_handles e'"
      using inv that by (auto simp: edit_inv_def)
  qed simp_all
  have "has_handles (newConnection ns sn tn (Some x) (Some y))" for ns sn tn
    using h by (simp add: newConnection_def has_handles_def handleOr_def Let_def)
  then show ?thesis
    using inv add by (simp add: handleNodeConnect_def Let_def split: option.split)
qed

lemma hover_wires:
  "updateEdgeHoverState es i h = Inr es' \<Longrightarrow> map edge_wires es' = map edge_wires es"
  by (auto simp: updateEdgeHoverState_def edge_wires_def split: option.splits if_splits intro!: map_update_first)

lemma selection_wires: "map edge_wires (updateEdgeSelectionState es cs) = map edge_wires es"
  unfolding updateEdgeSelectionState_def
proof (induction cs arbitrary: es)
  case (Cons c cs)
  have "map edge_wires (update_first p (\<lambda>e. e\<lparr>e_selected := b\<rparr>) es) = map edge_wires es" for p b
    by (rule map_update_first) (simp add: edge_wires_def)
  with Cons show ?case by (cases c) simp_all
qed simp

lemma menu_wires: "buildContextMenuEdges es i = Inr es' \<Longrightarrow> map edge_wires es' = map edge_wires es"
  unfolding buildContextMenuEdges_def
  by (induction es arbitrary: es') (auto simp: edge_wires_def split: option.splits sum.splits)

lemma clearSelection_cache: "map node_cache (clearNodeSelectionState ns) = map node_cache ns"
  by (simp add: clearNodeSelectionState_def node_cache_def handle_ids_of_def comp_def)

lemma hover_inv:
  assumes "edit_inv s"
  shows "edit_inv (stateOf (handleEdgeHover h i s))"
proof (cases "updateEdgeHoverState (es_edges s) i h")
  case (Inr es)
  have "edit_inv (s\<lparr>es_edges := es\<rparr>)"
    using assms by (subst edit_inv_cong [of _ s]) (simp_all add: hover_wires [OF Inr])
  with Inr assms show ?thesis by (simp add: handleEdgeHover_def)
qed (use assms in \<open>simp add: handleEdgeHover_def\<close>)

lemma context_menu_inv:
  assumes "edit_inv s"
  shows "edit_inv (stateOf (handleEdgeContextMenu i s))"
proof (cases "buildContextMenuEdges (es_edges s) i")
  case (Inr es)
  let ?ns = "if \<exists>n \<in> set (es_nodes s). d_selected (n_data n) \<or> n_selected n \<or> d_isBundled (n_data n)
    then clearNodeSelectionState (es_nodes s) else es_nodes s"
  have "edit_inv (s\<lparr>es_edges := es, es_nodes := ?ns, es_contextMenuTarget := Some (EdgeTarget i)\<rparr>)"
    using assms by (subst edit_inv_cong [of _ s]) (simp_all add: menu_wires [OF Inr] clearSelection_cache)
  with Inr assms show ?thesis by (simp add: handleEdgeContextMenu_def)
qed (use assms in \<open>simp add: handleEdgeContextMenu_def\<close>)

lemma useEdgesInteractions_inv:
  assumes inv: "edit_inv s" and ok: "op_ok s x"
  shows "edit_inv (stateOf (useEdgesInteractions s x))"
proof (cases x)
  case (Enter i)
  then show ?thesis using hover_inv [OF inv] by (simp add: handleEdgeEnter_def)
next
  case (Leave i)
  then show ?thesis using hover_inv [OF inv] by (simp add: handleEdgeLeave_def)
next
  case (EdgesChange cs)
  have "edit_inv (s\<lparr>es_edges := updateEdgeSelectionState (es_edges s) cs\<rparr>)"
    using inv by (subst edit_inv_cong [of _ s]) (simp_all add: selection_wires)
  with EdgesChange show ?thesis using inv by (simp add: handleEdgesChange_def)
next
  case (ContextMenu i)
  then show ?thesis using context_menu_inv [OF inv] by simp
qed (use inv ok in \<open>auto simp: handleEdgeDeleteById_def handleEdgeDelete_def split: option.split
  intro: deleteEdgeById_inv handleEdgeDeleteByDeleteBranch_inv handleEdgeSourceHandleChange_inv handleNodeConnect_inv\<close>)

text \<open>In every state that connecting nodes and editing edges can reach from a canvas whose caches agree
  with its edges, the cached source and target handles of every node are, with multiplicity, those of its
  edges.\<close>

theorem handle_caches_agree:
  assumes "edit_inv s" and "edit_reach s t"
  shows "edit_inv t"
  using assms(2,1) by (induction rule: edit_reach.induct) (auto intro: useEdgesInteractions_inv)

text \<open>While the canvas is read-only (no permission, a running or paused run, a shown history entry or a
  restore) no editing operation changes anything or throws.\<close>

theorem read_only_canvas_is_kept:
  assumes "getNodesReadOnly s"
  shows "useEdgesInteractions s x = Ok s"
  using assms
  by (cases x) (simp_all add: handleNodeConnect_def handleEdgeDeleteById_def handleEdgeDelete_def
    handleEdgeDeleteByDeleteBranch_def handleEdgeSourceHandleChange_def handleEdgeEnter_def handleEdgeLeave_def
    handleEdgeHover_def handleEdgesChange_def handleEdgeContextMenu_def)

text \<open>For an edge without a source handle the cache goes wrong: adding such an edge pushes the word
  \<^verbatim>\<open>source\<close>, but its removal searches the absent handle, does not find it, and takes the last cached handle
  out, whichever edge that belongs to.\<close>

theorem removal_without_handle_drops_last:
  assumes d: "distinct (map n_id (es_nodes s))" and n: "n \<in> set (es_nodes s)"
    and e: "find (\<lambda>e. e_id e = i) (es_edges s) = Some e" and "e_source e = n_id n" and "e_sourceHandle e = None"
  shows "\<exists>m \<in> set (es_nodes (deleteEdgeById i s)). n_id m = n_id n
    \<and> fst (handle_ids_of m) = butlast (fst (handle_ids_of n))"
proof
  let ?m = "connectedNode (es_nodes s) [(RemoveEdge, e)] n"
  show "?m \<in> set (es_nodes (deleteEdgeById i s))"
    using n by (simp add: deleteEdgeById_eqs [OF e] applyConnected_map)
  show "n_id ?m = n_id n \<and> fst (handle_ids_of ?m) = butlast (fst (handle_ids_of n))"
    using assms(4,5) splice_findIndex_miss [of "fst (handle_ids_of n)" "\<lambda>x. Some x = None"]
    by (simp add: handle_ids_connectedNode [OF d n] stepHandles_def changeHandles_def)
qed

section \<open>Witnesses\<close>

text \<open>
  An if-else node with one edge on its case branch and one edge without a handle, in the order in which the
  caches were filled, and the same canvas with the second edge on the handle \<^verbatim>\<open>source\<close>.
\<close>

definition branch_edge :: "string \<Rightarrow> string option \<Rightarrow> edge" where
  "branch_edge b h = (sample_edge ''if'' b)\<lparr>e_sourceHandle := h, e_data := Some no_edge_data\<rparr>"

definition cached_node :: "string \<Rightarrow> BlockEnum \<Rightarrow> handle_ids \<Rightarrow> node" where
  "cached_node i t h = setHandleIds h (sample_node i t)"

definition sample_canvas :: "string option \<Rightarrow> edit_store" where
  "sample_canvas h = \<lparr>es_nodes = [cached_node ''if'' IfElse ([''source'', ''case1''], []),
       cached_node ''a'' LLM ([], [''target'']), cached_node ''b'' LLM ([], [''target''])],
     es_edges = [branch_edge ''a'' h, branch_edge ''b'' (Some ''case1'')],
     es_canvasReadOnly = False, es_canEdit = True, es_runningStatus = None, es_historyWorkflowData = False,
     es_isRestoring = False, es_contextMenuTarget = None, es_effects = []\<rparr>"

lemma cached_node_simps [simp]: "n_id (cached_node i t h) = i" "handle_ids_of (cached_node i t h) = h"
  by (simp_all add: cached_node_def sample_node_def)

lemma branch_edge_simps [simp]:
  "e_source (branch_edge b h) = ''if''" "e_target (branch_edge b h) = b" "e_sourceHandle (branch_edge b h) = h"
  "e_targetHandle (branch_edge b h) = Some ''target''" "e_id (branch_edge b h) = ''if-'' @ b"
  by (simp_all add: branch_edge_def sample_edge_def)

lemma sample_canvas_inv: "edit_inv (sample_canvas (Some ''source''))"
  by (simp add: edit_inv_def sample_canvas_def has_handles_def handles_match_def handles_simps handleOr_def)

theorem handle_caches_agree_witness:
  "edit_inv (stateOf (useEdgesInteractions (sample_canvas (Some ''source'')) (DeleteBranch ''if'' ''case1'')))"
proof (rule handle_caches_agree [OF sample_canvas_inv])
  show "edit_reach (sample_canvas (Some ''source''))
      (stateOf (useEdgesInteractions (sample_canvas (Some ''source'')) (DeleteBranch ''if'' ''case1'')))"
    by (rule edit_step [OF edit_start]) (simp add: sample_canvas_def)
qed

theorem read_only_canvas_is_kept_witness:
  "useEdgesInteractions ((sample_canvas None)\<lparr>es_runningStatus := Some Running\<rparr>) (DeleteById ''if-a'') =
     Ok ((sample_canvas None)\<lparr>es_runningStatus := Some Running\<rparr>)"
  by (rule read_only_canvas_is_kept) (simp add: getNodesReadOnly_def)

theorem removal_without_handle_drops_last_witness:
  "\<exists>m \<in> set (es_nodes (deleteEdgeById ''if-a'' (sample_canvas None))). n_id m = ''if''
    \<and> fst (handle_ids_of m) = [''source'']"
  using removal_without_handle_drops_last [of "sample_canvas None" "cached_node ''if'' IfElse ([''source'', ''case1''], [])"
    "''if-a''" "branch_edge ''a'' None"]
  by (simp add: sample_canvas_def)

end
