(* ===== verification/Init_Laws.thy ===== *)
theory Init_Laws
  imports Graph_Init Flow_Graph_Laws Edge_Laws
begin

text \<open>
  What a loaded workflow looks like: its edges have no cycle, nothing is dropped from a workflow without
  cycles, and the caches of connected handles that the editor maintains are right from the start exactly when
  no edge was dropped.
\<close>

section \<open>The search for cycles\<close>

definition adj_rel :: "(string \<Rightarrow> string list) \<Rightarrow> string set \<Rightarrow> (string \<times> string) set" where
  "adj_rel adj U = {(i, c). i \<in> U \<and> c \<in> U \<and> c \<in> set (adj i)}"

definition colored :: "color \<Rightarrow> (string \<rightharpoonup> color) \<Rightarrow> string set" where
  "colored x col = {i. col i = Some x}"

text \<open>
  Finished (black) nodes: no edge leaves them for an unfinished node, and the edges among them form no
  cycle.
\<close>

definition black_ok :: "(string \<times> string) set \<Rightarrow> (string \<rightharpoonup> color) \<Rightarrow> bool" where
  "black_ok R col \<longleftrightarrow> R `` colored BLACK col \<subseteq> colored BLACK col
     \<and> acyclic (R \<inter> colored BLACK col \<times> colored BLACK col)"

lemma colored_upd [simp]:
  "colored x (col(i \<mapsto> y)) = (if x = y then insert i (colored x col) else colored x col - {i})"
  by (auto simp: colored_def)

lemma acyclic_add_source:
  assumes "acyclic (R \<inter> B \<times> B)" and "R `` B \<subseteq> B" and "i \<notin> B" and "R `` {i} \<subseteq> B"
  shows "acyclic (R \<inter> insert i B \<times> insert i B)"
proof (rule acyclicI, rule allI, rule notI)
  let ?R = "R \<inter> insert i B \<times> insert i B"
  fix x assume c: "(x, x) \<in> ?R\<^sup>+"
  have into: "(a, b) \<in> ?R \<Longrightarrow> b \<in> B" for a b using assms(2,4) by blast
  have intos: "(a, b) \<in> ?R\<^sup>+ \<Longrightarrow> b \<in> B" for a b
    using into by (metis tranclD2)
  then have "x \<in> B" using c by blast
  have "(x, y) \<in> ?R\<^sup>+ \<Longrightarrow> (x, y) \<in> (R \<inter> B \<times> B)\<^sup>+" for y
  proof (induction rule: trancl_induct)
    case (base y)
    then show ?case using \<open>x \<in> B\<close> into by blast
  next
    case (step y z)
    moreover have "y \<in> B" using step(1) by (rule intos)
    ultimately show ?case using into by (blast intro: trancl_into_trancl)
  qed
  then show False using c assms(1) by (auto simp: acyclic_def)
qed

lemma black_ok_finish:
  assumes "black_ok R col" and "col i \<noteq> Some BLACK" and "R `` {i} \<subseteq> colored BLACK col"
  shows "black_ok R (col(i \<mapsto> BLACK))"
proof -
  have "i \<notin> colored BLACK col" using assms(2) by (simp add: colored_def)
  moreover have "R `` insert i (colored BLACK col) \<subseteq> insert i (colored BLACK col)"
    using assms(1,3) by (auto simp: black_ok_def)
  ultimately show ?thesis
    using assms(1,3) acyclic_add_source [of R "colored BLACK col" i] by (simp add: black_ok_def)
qed

lemma black_ok_gray: "black_ok R col \<Longrightarrow> col i = Some WHITE \<Longrightarrow> black_ok R (col(i \<mapsto> GRAY))"
proof -
  assume "black_ok R col" and "col i = Some WHITE"
  moreover from this have "colored BLACK col - {i} = colored BLACK col" by (auto simp: colored_def)
  ultimately show ?thesis by (simp add: black_ok_def)
qed

text \<open>What a step of the search guarantees when it started in \<open>(col, stk)\<close> and answers \<open>(b, col', stk')\<close>.\<close>

definition search_ok ::
  "(string \<times> string) set \<Rightarrow> (string \<rightharpoonup> color) \<Rightarrow> (string \<rightharpoonup> color) \<Rightarrow> string list \<Rightarrow> bool" where
  "search_ok R col col' stk' \<longleftrightarrow> black_ok R col' \<and> dom col' = dom col \<and> colored GRAY col' \<subseteq> set stk'
     \<and> colored WHITE col' \<subseteq> colored WHITE col \<and> colored BLACK col \<subseteq> colored BLACK col'"

lemma search_ok_trans:
  "search_ok R a b s \<Longrightarrow> search_ok R b c t \<Longrightarrow> search_ok R a c t"
  by (auto simp: search_ok_def)

lemma colored_dom: "colored x col \<subseteq> dom col"
  by (auto simp: colored_def)

lemma search_ok_start:
  assumes "col i = Some WHITE" and "search_ok R (col(i \<mapsto> GRAY)) col' stk'"
  shows "search_ok R col col' stk' \<and> col' i \<noteq> Some WHITE"
proof -
  have "colored BLACK col - {i} = colored BLACK col" using assms(1) by (auto simp: colored_def)
  then show ?thesis using assms by (auto simp: search_ok_def) (auto simp: colored_def)
qed

text \<open>A pending list of children: every child that is not pending is finished.\<close>

definition children_done :: "(string \<times> string) set \<Rightarrow> string \<Rightarrow> string list \<Rightarrow> (string \<rightharpoonup> color) \<Rightarrow> bool" where
  "children_done R i cs col \<longleftrightarrow> R `` {i} \<subseteq> colored BLACK col \<union> set cs"

lemma children_done_skip:
  assumes "children_done R i (c # cs) col" and "R = adj_rel adj (dom col)"
    and "col c \<noteq> Some GRAY" and "col c \<noteq> Some WHITE"
  shows "children_done R i cs col"
  unfolding children_done_def
proof
  fix y assume y: "y \<in> R `` {i}"
  then have "y \<in> dom col" using assms(2) by (simp add: adj_rel_def)
  then obtain x where x: "col y = Some x" by blast
  show "y \<in> colored BLACK col \<union> set cs"
  proof (cases "y = c")
    case True
    then show ?thesis using x assms(3,4) by (cases x) (simp_all add: colored_def)
  next
    case False
    then show ?thesis using y assms(1) unfolding children_done_def by auto
  qed
qed

lemma isCyclicUtil_ok:
  shows "finite (dom (fst st)) \<Longrightarrow> R = adj_rel adj (dom (fst st)) \<Longrightarrow> fst st i = Some WHITE \<Longrightarrow>
      black_ok R (fst st) \<Longrightarrow> colored GRAY (fst st) \<subseteq> set (snd st) \<Longrightarrow>
      card (colored WHITE (fst st)) \<le> k \<Longrightarrow>
      \<exists>b col' stk'. isCyclicUtil k adj i st = Inr (b, col', stk')
        \<and> search_ok R (fst st) col' stk' \<and> col' i \<noteq> Some WHITE
        \<and> (\<not> b \<longrightarrow> stk' = snd st \<and> colored GRAY col' = colored GRAY (fst st) \<and> col' i = Some BLACK)"
    and "finite (dom (fst st)) \<Longrightarrow> R = adj_rel adj (dom (fst st)) \<Longrightarrow> fst st i = Some GRAY \<Longrightarrow>
      black_ok R (fst st) \<Longrightarrow> colored GRAY (fst st) \<subseteq> set (snd st) \<Longrightarrow>
      card (colored WHITE (fst st)) \<le> k \<Longrightarrow> snd st = stk0 @ [i] \<Longrightarrow> children_done R i cs (fst st) \<Longrightarrow>
      \<exists>b col' stk'. cyclicChildren k adj i cs st = Inr (b, col', stk') \<and> search_ok R (fst st) col' stk'
        \<and> (\<not> b \<longrightarrow> stk' = stk0 \<and> colored GRAY col' = colored GRAY (fst st) - {i} \<and> col' i = Some BLACK)"
proof (induction k adj i st and k adj i cs st arbitrary: and stk0 rule: isCyclicUtil_cyclicChildren.induct)
  case (1 adj i st)
  then have "finite (colored WHITE (fst st))" using colored_dom finite_subset by metis
  with 1 have "colored WHITE (fst st) = {}" by simp
  with 1 show ?case by (auto simp: colored_def)
next
  case (2 k adj i col stack)
  let ?col = "col(i \<mapsto> GRAY)"
  have white: "i \<in> colored WHITE col" "i \<notin> colored GRAY col" using "2.prems"(3) by (auto simp: colored_def)
  have "finite (colored WHITE col)" using "2.prems"(1) colored_dom finite_subset by (metis fst_conv)
  then have card: "card (colored WHITE ?col) \<le> k" using "2.prems"(6) white(1) by simp
  have dom: "dom ?col = dom col" using "2.prems"(3) by auto
  have "\<exists>b col' stk'. cyclicChildren k adj i (adj i) (?col, stack @ [i]) = Inr (b, col', stk')
      \<and> search_ok R ?col col' stk'
      \<and> (\<not> b \<longrightarrow> stk' = stack \<and> colored GRAY col' = colored GRAY ?col - {i} \<and> col' i = Some BLACK)"
  proof (rule "2.IH" [unfolded fst_conv snd_conv dom])
    show "children_done R i (adj i) ?col" using "2.prems"(2) by (auto simp: children_done_def adj_rel_def)
    show "black_ok R ?col" using "2.prems"(3,4) by (intro black_ok_gray) auto
    show "colored GRAY ?col \<subseteq> set (stack @ [i])" using "2.prems"(5) by auto
    show "card (colored WHITE ?col) \<le> k" by (rule card)
  qed (use "2.prems"(1,2) in auto)
  then show ?case using search_ok_start [of col i R] "2.prems"(3) white(2) by auto
next
  case (3 k adj i col stack)
  have "R `` {i} \<subseteq> colored BLACK col" using "3.prems"(8) by (simp add: children_done_def)
  then have "black_ok R (col(i \<mapsto> BLACK))" using "3.prems"(3,4) by (intro black_ok_finish) auto
  then have "search_ok R col (col(i \<mapsto> BLACK)) stk0"
    using "3.prems"(3,5,7) by (auto simp: search_ok_def)
  then show ?case using "3.prems"(7) by auto
next
  case (4 k adj i c cs col stack)
  consider (gray) "col c = Some GRAY" | (white) "col c = Some WHITE" | (other) "col c \<noteq> Some GRAY" "col c \<noteq> Some WHITE"
    by blast
  then show ?case
  proof cases
    case gray
    then show ?thesis using "4.prems" by (auto simp: search_ok_def)
  next
    case white
    then have ng: "col c \<noteq> Some GRAY" by simp
    obtain b col' stk' where c: "isCyclicUtil k adj c (col, stack) = Inr (b, col', stk')"
      "search_ok R col col' stk'"
      "\<not> b \<longrightarrow> stk' = stack \<and> colored GRAY col' = colored GRAY col \<and> col' c = Some BLACK"
      using "4.IH"(1) [OF ng white] "4.prems"(1,2,4,5,6) white by auto
    show ?thesis
    proof (cases b)
      case True
      then show ?thesis using c white by auto
    next
      case False
      with c have c': "stk' = stack" "colored GRAY col' = colored GRAY col" "col' c = Some BLACK" by auto
      have dom: "dom col' = dom col" using c(2) by (simp add: search_ok_def)
      have "i \<in> colored GRAY col'" using c'(2) "4.prems"(3) by (simp add: colored_def)
      then have i: "col' i = Some GRAY" by (simp add: colored_def)
      have "finite (colored WHITE col)" using "4.prems"(1) colored_dom finite_subset by (metis fst_conv)
      moreover have "colored WHITE col' \<subseteq> colored WHITE col" using c(2) by (simp add: search_ok_def)
      ultimately have "card (colored WHITE col') \<le> card (colored WHITE col)" by (rule card_mono)
      then have card: "card (colored WHITE col') \<le> k" using "4.prems"(6) by simp
      have "colored BLACK col \<subseteq> colored BLACK col'" using c(2) by (simp add: search_ok_def)
      moreover have "c \<in> colored BLACK col'" using c'(3) by (simp add: colored_def)
      moreover have "R `` {i} \<subseteq> colored BLACK col \<union> set (c # cs)"
        using "4.prems"(8) by (simp add: children_done_def)
      ultimately have "children_done R i cs col'" unfolding children_done_def by auto
      have bF: "b = False" using False by simp
      note IH = "4.IH"(2) [OF ng white c(1) refl bF, unfolded fst_conv snd_conv]
      have "\<exists>b2 col2 stk2. cyclicChildren k adj i cs (col', stk') = Inr (b2, col2, stk2) \<and> search_ok R col' col2 stk2
          \<and> (\<not> b2 \<longrightarrow> stk2 = stk0 \<and> colored GRAY col2 = colored GRAY col' - {i} \<and> col2 i = Some BLACK)"
        by (rule IH) (use "4.prems"(1,2,7) card dom i c(2) c'(1) \<open>children_done R i cs col'\<close> in \<open>auto simp: search_ok_def\<close>)
      then obtain b2 col2 stk2 where r: "cyclicChildren k adj i cs (col', stk') = Inr (b2, col2, stk2)"
        "search_ok R col' col2 stk2"
        "\<not> b2 \<longrightarrow> stk2 = stk0 \<and> colored GRAY col2 = colored GRAY col' - {i} \<and> col2 i = Some BLACK"
        by blast
      show ?thesis using c(1) False white r c'(2) search_ok_trans [OF c(2) r(2)] by auto
    qed
  next
    case other
    have "children_done R i cs col"
      using children_done_skip [of R i c cs col adj] "4.prems"(2,8) other by simp
    then show ?thesis using "4.IH"(3) [OF other] "4.prems" other by simp
  qed
qed

text \<open>In a graph without cycles a search that follows a single path never meets a gray node.\<close>

lemma isCyclicUtil_acyclic:
  shows "finite (dom (fst st)) \<Longrightarrow> R = adj_rel adj (dom (fst st)) \<Longrightarrow> acyclic R \<Longrightarrow> fst st i = Some WHITE \<Longrightarrow>
      black_ok R (fst st) \<Longrightarrow> colored GRAY (fst st) \<subseteq> set (snd st) \<Longrightarrow>
      card (colored WHITE (fst st)) \<le> k \<Longrightarrow> (\<forall>g \<in> colored GRAY (fst st). (g, i) \<in> R\<^sup>+) \<Longrightarrow>
      \<exists>col'. isCyclicUtil k adj i st = Inr (False, col', snd st)"
    and "finite (dom (fst st)) \<Longrightarrow> R = adj_rel adj (dom (fst st)) \<Longrightarrow> acyclic R \<Longrightarrow> fst st i = Some GRAY \<Longrightarrow>
      black_ok R (fst st) \<Longrightarrow> colored GRAY (fst st) \<subseteq> set (snd st) \<Longrightarrow>
      card (colored WHITE (fst st)) \<le> k \<Longrightarrow> snd st = stk0 @ [i] \<Longrightarrow> children_done R i cs (fst st) \<Longrightarrow>
      set cs \<subseteq> set (adj i) \<Longrightarrow> (\<forall>g \<in> colored GRAY (fst st). (g, i) \<in> R\<^sup>*) \<Longrightarrow>
      \<exists>col'. cyclicChildren k adj i cs st = Inr (False, col', stk0)"
proof (induction k adj i st and k adj i cs st arbitrary: and stk0 rule: isCyclicUtil_cyclicChildren.induct)
  case (1 adj i st)
  then have "finite (colored WHITE (fst st))" using colored_dom finite_subset by metis
  with 1 have "colored WHITE (fst st) = {}" by simp
  with 1 show ?case by (auto simp: colored_def)
next
  case (2 k adj i col stack)
  let ?col = "col(i \<mapsto> GRAY)"
  have white: "i \<in> colored WHITE col" using "2.prems"(4) by (auto simp: colored_def)
  have "finite (colored WHITE col)" using "2.prems"(1) colored_dom finite_subset by (metis fst_conv)
  then have card: "card (colored WHITE ?col) \<le> k" using "2.prems"(7) white by simp
  have dom: "dom ?col = dom col" using "2.prems"(4) by auto
  have "\<exists>col'. cyclicChildren k adj i (adj i) (?col, stack @ [i]) = Inr (False, col', stack)"
  proof (rule "2.IH" [unfolded fst_conv snd_conv dom])
    show "children_done R i (adj i) ?col" using "2.prems"(2) by (auto simp: children_done_def adj_rel_def)
    show "black_ok R ?col" using "2.prems"(4,5) by (intro black_ok_gray) auto
    show "colored GRAY ?col \<subseteq> set (stack @ [i])" using "2.prems"(6) by auto
    show "card (colored WHITE ?col) \<le> k" by (rule card)
    show "\<forall>g \<in> colored GRAY ?col. (g, i) \<in> R\<^sup>*" using "2.prems"(8) by (auto intro: trancl_into_rtrancl)
  qed (use "2.prems"(1,2,3) in auto)
  then show ?case by simp
next
  case (3 k adj i col stack)
  then show ?case by auto
next
  case (4 k adj i c cs col stack)
  have step: "(i, c) \<in> R" if "c \<in> dom col"
    using "4.prems"(2,4,10) that by (auto simp: adj_rel_def)
  have ng: "col c \<noteq> Some GRAY"
  proof
    assume "col c = Some GRAY"
    then have "(c, i) \<in> R\<^sup>*" "(i, c) \<in> R" using "4.prems"(11) step by (auto simp: colored_def)
    then have "(c, c) \<in> R\<^sup>+" by (rule rtrancl_into_trancl1)
    then show False using "4.prems"(3) by (simp add: acyclic_def)
  qed
  show ?case
  proof (cases "col c = Some WHITE")
    case white: True
    then have "(i, c) \<in> R" using step by auto
    then have "\<forall>g \<in> colored GRAY col. (g, c) \<in> R\<^sup>+"
      using "4.prems"(11) by (auto intro: rtrancl_into_trancl1)
    then obtain col' where c: "isCyclicUtil k adj c (col, stack) = Inr (False, col', stack)"
      using "4.IH"(1) [OF ng white] "4.prems"(1-3,5-7) white by auto
    have c': "search_ok R col col' stack" "colored GRAY col' = colored GRAY col" "col' c = Some BLACK"
      using isCyclicUtil_ok(1) [of "(col, stack)" R adj c k] "4.prems"(1,2,5-7) white c by auto
    have "finite (colored WHITE col)" using "4.prems"(1) colored_dom finite_subset by (metis fst_conv)
    moreover have "colored WHITE col' \<subseteq> colored WHITE col" using c'(1) by (simp add: search_ok_def)
    ultimately have "card (colored WHITE col') \<le> card (colored WHITE col)" by (rule card_mono)
    then have card: "card (colored WHITE col') \<le> k" using "4.prems"(7) by simp
    have "colored BLACK col \<subseteq> colored BLACK col'" using c'(1) by (simp add: search_ok_def)
    moreover have "c \<in> colored BLACK col'" using c'(3) by (simp add: colored_def)
    moreover have "R `` {i} \<subseteq> colored BLACK col \<union> set (c # cs)" using "4.prems"(9) by (simp add: children_done_def)
    ultimately have "children_done R i cs col'" unfolding children_done_def by auto
    moreover have "i \<in> colored GRAY col'" using c'(2) "4.prems"(4) by (simp add: colored_def)
    then have "col' i = Some GRAY" by (simp add: colored_def)
    ultimately have "\<exists>col''. cyclicChildren k adj i cs (col', stack) = Inr (False, col'', stk0)"
      by (intro "4.IH"(2) [OF ng white c refl refl, unfolded fst_conv snd_conv])
        (use "4.prems" card c' in \<open>auto simp: search_ok_def\<close>)
    then show ?thesis using c white by simp
  next
    case other: False
    have "children_done R i cs col"
      using children_done_skip [of R i c cs col adj] "4.prems"(2,9) other ng by simp
    then show ?thesis using "4.IH"(3) [OF ng other] "4.prems" other ng by simp
  qed
qed

lemma cyclicRoots_ok:
  assumes "finite (dom (fst st))" and "R = adj_rel adj (dom (fst st))" and "black_ok R (fst st)"
    and "colored GRAY (fst st) \<subseteq> set (snd st)" and "card (colored WHITE (fst st)) \<le> k"
  shows "\<exists>col' stk'. cyclicRoots k adj is st = Inr (col', stk') \<and> search_ok R (fst st) col' stk'
    \<and> (\<forall>i \<in> set is. col' i \<noteq> Some WHITE)
    \<and> (acyclic R \<longrightarrow> snd st = [] \<longrightarrow> stk' = [])"
  using assms
proof (induction "is" arbitrary: st)
  case Nil
  then show ?case by (cases st) (auto simp: search_ok_def)
next
  case (Cons i "is")
  obtain col stk where st: "st = (col, stk)" by (cases st)
  show ?case
  proof (cases "col i = Some WHITE")
    case True
    obtain b col1 stk1 where 1: "isCyclicUtil k adj i st = Inr (b, col1, stk1)"
      "search_ok R col col1 stk1" "col1 i \<noteq> Some WHITE"
      using isCyclicUtil_ok(1) [of st R adj i k] Cons.prems True st by auto
    have "finite (colored WHITE col)"
      using Cons.prems(1) colored_dom [of WHITE col] finite_subset st by auto
    then have "card (colored WHITE col1) \<le> k"
      using 1(2) Cons.prems(5) card_mono [of "colored WHITE col" "colored WHITE col1"] st
      by (auto simp: search_ok_def)
    then obtain col2 stk2 where 2: "cyclicRoots k adj is (col1, stk1) = Inr (col2, stk2)"
      "search_ok R col1 col2 stk2" "\<forall>i \<in> set is. col2 i \<noteq> Some WHITE"
      "acyclic R \<longrightarrow> stk1 = [] \<longrightarrow> stk2 = []"
      using Cons.IH [of "(col1, stk1)"] Cons.prems(1,2) 1(2) st by (auto simp: search_ok_def)
    have "col2 i \<noteq> Some WHITE" using 1(3) 2(2) by (auto simp: search_ok_def colored_def)
    moreover have "stk1 = []" if "acyclic R" "stk = []"
    proof -
      have "colored GRAY col = {}" using Cons.prems(4) st that by simp
      then show ?thesis
        using isCyclicUtil_acyclic(1) [of st R adj i k] Cons.prems that True st 1(1) by auto
    qed
    ultimately show ?thesis
      using 1 2 st True search_ok_trans [OF 1(2) 2(2)] by auto
  next
    case False
    then obtain col2 stk2 where 2: "cyclicRoots k adj is st = Inr (col2, stk2)" "search_ok R col col2 stk2"
      "\<forall>i \<in> set is. col2 i \<noteq> Some WHITE" "acyclic R \<longrightarrow> snd st = [] \<longrightarrow> stk2 = []"
      using Cons.IH [OF Cons.prems] st by auto
    have "col2 i \<noteq> Some WHITE" using False 2(2) by (auto simp: search_ok_def colored_def)
    with 2 False st show ?thesis by auto
  qed
qed

abbreviation graph_rel :: "node list \<Rightarrow> edge list \<Rightarrow> (string \<times> string) set" where
  "graph_rel ns es \<equiv> flow_rel \<lparr>fl_nodes = ns, fl_edges = es\<rparr>"

definition off_stack :: "string list \<Rightarrow> edge list \<Rightarrow> edge list" where
  "off_stack stk es = filter (\<lambda>e. \<not> (e_source e \<in> set stk \<and> e_target e \<in> set stk)) es"

lemma adj_rel_graph: "adj_rel (adjList es) (node_ids ns) = graph_rel ns es"
  by (auto simp: adj_rel_def adjList_def flow_rel_def)

text \<open>
  When every node is black or on the stack, an edge that is not between two nodes of the stack leads to a
  black node, so a cycle of such edges would be a cycle of black nodes.
\<close>

lemma off_stack_acyclic:
  assumes black: "black_ok (graph_rel ns es) col" and stk: "colored GRAY col \<subseteq> set stk"
    and all: "node_ids ns \<subseteq> colored GRAY col \<union> colored BLACK col"
  shows "acyclic (graph_rel ns (off_stack stk es))"
proof (rule acyclicI, rule allI, rule notI)
  let ?R = "graph_rel ns es" and ?K = "graph_rel ns (off_stack stk es)" and ?B = "colored BLACK col"
  fix x assume c: "(x, x) \<in> ?K\<^sup>+"
  have K: "(a, b) \<in> ?K \<Longrightarrow> (a, b) \<in> ?R \<and> \<not> (a \<in> set stk \<and> b \<in> set stk) \<and> a \<in> node_ids ns \<and> b \<in> node_ids ns" for a b
    by (auto simp: flow_rel_def off_stack_def)
  have closed: "?R `` ?B \<subseteq> ?B" using black by (simp add: black_ok_def)
  have into: "b \<in> ?B" if "(a, b) \<in> ?K" for a b
  proof (cases "b \<in> set stk")
    case True
    then have "a \<in> ?B" using K [OF that] all stk by blast
    then show ?thesis using K [OF that] closed by blast
  next
    case False
    then show ?thesis using K [OF that] all stk by blast
  qed
  have "x \<in> ?B" using c into by (metis tranclD2)
  have "(x, y) \<in> (?R \<inter> ?B \<times> ?B)\<^sup>+" if "(x, y) \<in> ?K\<^sup>+" for y
    using that
  proof (induction rule: trancl_induct)
    case (base y)
    then show ?case using K [OF base] into [OF base] \<open>x \<in> ?B\<close> by blast
  next
    case (step y z)
    have "y \<in> ?B" using step(1) into by (metis tranclD2)
    then have "(y, z) \<in> ?R \<inter> ?B \<times> ?B" using K [OF step(2)] into [OF step(2)] by blast
    with step.IH show ?case by (rule trancl_into_trancl)
  qed
  then show False using c black by (auto simp: black_ok_def acyclic_def)
qed

lemma cycleStack_ok:
  "\<exists>stk. cycleStack ns es = Inr stk \<and> acyclic (graph_rel ns (off_stack stk es))
     \<and> (acyclic (graph_rel ns es) \<longrightarrow> stk = [])"
proof -
  let ?col = "\<lambda>i. if i \<in> set (map n_id ns) then Some WHITE else None"
  have dom: "dom ?col = node_ids ns" by (auto simp: node_ids_def split: if_splits)
  have cols: "colored WHITE ?col = node_ids ns" "colored GRAY ?col = {}" "colored BLACK ?col = {}"
    by (auto simp: colored_def node_ids_def)
  have "finite (dom ?col)" "graph_rel ns es = adj_rel (adjList es) (dom ?col)" "black_ok (graph_rel ns es) ?col"
    "card (colored WHITE ?col) \<le> length ns + 1"
    using card_node_ids [of ns] unfolding dom cols black_ok_def by (simp_all add: adj_rel_graph acyclic_def)
  then obtain col stk where r: "cyclicRoots (length ns + 1) (adjList es) (map n_id ns) (?col, []) = Inr (col, stk)"
    and s: "search_ok (graph_rel ns es) ?col col stk" and w: "\<forall>i \<in> set (map n_id ns). col i \<noteq> Some WHITE"
    and a: "acyclic (graph_rel ns es) \<longrightarrow> stk = []"
    using cyclicRoots_ok [of "(?col, [])" "graph_rel ns es" "adjList es" "length ns + 1" "map n_id ns"]
    unfolding fst_conv snd_conv cols by blast
  have "dom col = node_ids ns" using s dom by (simp add: search_ok_def)
  have all: "node_ids ns \<subseteq> colored GRAY col \<union> colored BLACK col"
  proof
    fix i assume i: "i \<in> node_ids ns"
    then obtain x where "col i = Some x" using \<open>dom col = node_ids ns\<close> by blast
    moreover have "col i \<noteq> Some WHITE" using w i by (auto simp: node_ids_def)
    ultimately show "i \<in> colored GRAY col \<union> colored BLACK col" by (cases x) (simp_all add: colored_def)
  qed
  then have "acyclic (graph_rel ns (off_stack stk es))"
    using s by (intro off_stack_acyclic) (simp_all add: search_ok_def)
  then show ?thesis using r a by (simp add: cycleStack_def)
qed

section \<open>The edges of a loaded workflow\<close>

lemma initialEdge_frame [simp]:
  "e_id (initialEdge ns s e) = e_id e" "e_source (initialEdge ns s e) = e_source e"
  "e_target (initialEdge ns s e) = e_target e"
  "e_sourceHandle (initialEdge ns s e) = Some (handleOr (e_sourceHandle e) ''source'')"
  "e_targetHandle (initialEdge ns s e) = Some (handleOr (e_targetHandle e) ''target'')"
  by (simp_all add: initialEdge_def nonemptyOr_def Let_def split: option.split)

lemma getCycleEdges_filter:
  assumes "cycleStack ns es = Inr stk" and "getCycleEdges ns es = Inr cyc"
  shows "filter (\<lambda>e. \<not> (\<exists>c \<in> set cyc. e_source c = e_source e \<and> e_target c = e_target e)) es = off_stack stk es"
  using assms by (auto simp: getCycleEdges_def off_stack_def intro!: filter_cong split: if_splits)

lemma initialEdges_eq:
  assumes "preprocessNodesAndEdges ns es = Inr (ns', es')" and "cycleStack ns' es' = Inr stk"
  shows "initialEdges es ns =
    Inr (map (initialEdge ns' (find (\<lambda>n. d_selected (n_data n)) (rev ns'))) (off_stack stk es'))"
proof -
  obtain cyc where c: "getCycleEdges ns' es' = Inr cyc" using assms(2) by (simp add: getCycleEdges_def)
  show ?thesis using assms c getCycleEdges_filter [OF assms(2) c] by (simp add: initialEdges_def Let_def)
qed

lemma graph_rel_cong:
  "map (\<lambda>e. (e_source e, e_target e)) es = map (\<lambda>e. (e_source e, e_target e)) fs \<Longrightarrow> graph_rel ns es = graph_rel ns fs"
proof -
  have *: "graph_rel ns es = {(a, b). (a, b) \<in> set (map (\<lambda>e. (e_source e, e_target e)) es)
      \<and> a \<in> node_ids ns \<and> b \<in> node_ids ns}" for es
    by (auto simp: flow_rel_def)
  show "map (\<lambda>e. (e_source e, e_target e)) es = map (\<lambda>e. (e_source e, e_target e)) fs \<Longrightarrow> ?thesis"
    unfolding * by simp
qed

text \<open>C4: The edges of a loaded workflow never contain a cycle: whatever is stored, once the start nodes of
  its containers are in place, the loader returns edges whose graph on the loaded nodes is acyclic.\<close>

theorem loaded_edges_acyclic:
  assumes "preprocessNodesAndEdges ns es = Inr (ns', es')"
  shows "\<exists>E. initialEdges es ns = Inr E \<and> acyclic (flow_rel \<lparr>fl_nodes = ns', fl_edges = E\<rparr>)"
proof -
  obtain stk where stk: "cycleStack ns' es' = Inr stk" "acyclic (graph_rel ns' (off_stack stk es'))"
    using cycleStack_ok by blast
  let ?E = "map (initialEdge ns' (find (\<lambda>n. d_selected (n_data n)) (rev ns'))) (off_stack stk es')"
  have "graph_rel ns' ?E = graph_rel ns' (off_stack stk es')"
    by (rule graph_rel_cong) simp
  then show ?thesis using initialEdges_eq [OF assms stk(1)] stk(2) by simp
qed

section \<open>Start nodes of containers\<close>

lemma startOf_new:
  "c \<in> set cs \<Longrightarrow> \<exists>s. startOf (newStartNodes mk cs) (n_id c) = Some s"
proof -
  assume "c \<in> set cs"
  then obtain i where "i < length cs" "cs ! i = c" by (auto simp: in_set_conv_nth)
  then have "(n_id c, (mk (n_id c))\<lparr>n_id := n_id (mk (n_id c)) @ string_of_nat i\<rparr>) \<in> set (newStartNodes mk cs)"
    by (force simp: newStartNodes_def set_zip)
  then have "n_id c \<in> fst ` set (rev (newStartNodes mk cs))" by force
  then show ?thesis unfolding startOf_def by (metis map_of_eq_None_iff not_None_eq)
qed

lemma startOf_some:
  assumes "startOf (newStartNodes mk cs) i = Some s"
  shows "(i, s) \<in> set (newStartNodes mk cs) \<and> (\<exists>k. s = (mk i)\<lparr>n_id := n_id (mk i) @ string_of_nat k\<rparr>)
    \<and> i \<in> n_id ` set cs"
proof -
  have "(i, s) \<in> set (newStartNodes mk cs)" using assms by (auto simp: startOf_def dest: map_of_SomeD)
  moreover from this obtain k c where "(k, c) \<in> set (zip [0..<length cs] cs)" "i = n_id c"
    "s = (mk i)\<lparr>n_id := n_id (mk i) @ string_of_nat k\<rparr>" by (auto simp: newStartNodes_def)
  ultimately show ?thesis by (auto dest: set_zip_rightD)
qed

lemma containersWithStartD:
  "c \<in> set (containersWithStart ns t st) \<Longrightarrow>
   c \<in> set ns \<and> d_type (n_data c) = t \<and> (\<exists>x. start_id c = Some x \<and> x \<noteq> [])"
  by (auto simp: containersWithStart_def nonempty_opt_def split: option.splits)

lemma map_result_forall2: "map_result f xs = Inr ys \<Longrightarrow> list_all2 (\<lambda>x y. f x = Inr y) xs ys"
  by (induction xs arbitrary: ys) (auto split: sum.splits)

text \<open>
  What preparation adds: for every container whose stored start node is an ordinary node, in order, one edge
  from a new start node inside the container to the stored one.
\<close>

definition rerouted :: "node list \<Rightarrow> node list" where
  "rerouted ns = containersWithStart ns Iteration CUSTOM_ITERATION_START_NODE
     @ containersWithStart ns Loop CUSTOM_LOOP_START_NODE"

definition start_edge_for :: "node list \<Rightarrow> node \<Rightarrow> edge \<Rightarrow> bool" where
  "start_edge_for ns' c e \<longleftrightarrow> Some (e_target e) = start_id c
     \<and> (\<exists>m \<in> set ns'. n_id m = e_source e \<and> n_parentId m = Some (n_id c)
         \<and> (n_type m = Some CUSTOM_ITERATION_START_NODE \<or> n_type m = Some CUSTOM_LOOP_START_NODE))"

lemma nodesMap_id: "nodesMap ns i = Some n \<Longrightarrow> n_id n = i"
  unfolding nodesMap_def by (auto dest: find_SomeD)

lemma preprocess_adds:
  assumes "preprocessNodesAndEdges ns es = Inr (ns', es')"
  shows "\<exists>new. es' = es @ new \<and> list_all2 (start_edge_for ns') (rerouted ns) new \<and> prefix (map n_id ns) (map n_id ns')"
proof (cases "(\<forall>n \<in> set ns. d_type (n_data n) \<noteq> Iteration) \<and> (\<forall>n \<in> set ns. d_type (n_data n) \<noteq> Loop)")
  case True
  then have "rerouted ns = []" by (auto simp: rerouted_def containersWithStart_def filter_empty_conv)
  then show ?thesis using assms True by (simp add: preprocessNodesAndEdges_def)
next
  case False
  let ?is = "newStartNodes getIterationStartNode
      (containersWithStart ns Iteration CUSTOM_ITERATION_START_NODE @ containersWithoutStart ns Iteration)"
  let ?ls = "newStartNodes getLoopStartNode
      (containersWithStart ns Loop CUSTOM_LOOP_START_NODE @ containersWithoutStart ns Loop)"
  obtain new where new: "map_result (startEdgeOf ns ?is ?ls) (rerouted ns) = Inr new" "es' = es @ new"
    and ns': "ns' = map (withStartId ?is ?ls) ns @ map snd ?is @ map snd ?ls"
    using assms False by (auto simp: preprocessNodesAndEdges_def Let_def rerouted_def split: sum.splits)
  have edge: "start_edge_for ns' c e" if c: "c \<in> set (rerouted ns)" and e: "startEdgeOf ns ?is ?ls c = Inr e" for c e
  proof -
    let ?starts = "if d_type (n_data c) = Iteration then ?is else ?ls"
    obtain m s where m: "startOf ?starts (n_id c) = Some m" and s: "nodesMap ns (the (start_id c)) = Some s"
      and eq: "e_source e = n_id m" "e_target e = n_id s"
      using e by (auto simp: startEdgeOf_def Let_def split: option.splits)
    have sid: "start_id c = Some (the (start_id c))" using c containersWithStartD by (fastforce simp: rerouted_def)
    then have t: "Some (e_target e) = start_id c" using nodesMap_id [OF s] eq(2) by simp
    have "m \<in> set ns'" using m by (auto simp: ns' startOf_def split: if_splits dest!: map_of_SomeD intro!: image_eqI [of _ snd])
    moreover have "n_parentId m = Some (n_id c) \<and>
        (n_type m = Some CUSTOM_ITERATION_START_NODE \<or> n_type m = Some CUSTOM_LOOP_START_NODE)"
      using m startOf_some by (auto split: if_splits simp: getIterationStartNode_def getLoopStartNode_def startNodeOf_def
        dest!: startOf_some)
    ultimately show ?thesis using t eq(1) unfolding start_edge_for_def by auto
  qed
  have "list_all2 (\<lambda>c e. startEdgeOf ns ?is ?ls c = Inr e) (rerouted ns) new"
    by (rule map_result_forall2 [OF new(1)])
  then have "list_all2 (start_edge_for ns') (rerouted ns) new"
    using edge by (simp add: list_all2_conv_all_nth)
  moreover have "n_id (withStartId ?is ?ls n) = n_id n" for n by (simp add: withStartId_def Let_def split: option.split)
  ultimately show ?thesis using new(2) by (auto simp: ns' comp_def)
qed

text \<open>C5: From a workflow whose prepared graph has no cycle the loader drops nothing: the preparation keeps every
  stored node, in order, and the stored edges are all loaded, in their order, with the same ids and
  ends, absent handles replaced by the default ones; and the only edges besides are, for each container whose stored start node is an ordinary node, one from its new start node to
  the stored one.\<close>

theorem acyclic_workflow_loads_completely:
  assumes "preprocessNodesAndEdges ns es = Inr (ns', es')"
    and "acyclic (flow_rel \<lparr>fl_nodes = ns', fl_edges = es'\<rparr>)"
  shows "\<exists>E new. initialEdges es ns = Inr E \<and> map e_id E = map e_id (es @ new)
    \<and> map edge_ends E = map edge_ends (es @ new) \<and> (\<forall>e \<in> set E. has_handles e)
    \<and> list_all2 (start_edge_for ns') (rerouted ns) new \<and> prefix (map n_id ns) (map n_id ns')"
proof -
  obtain new where new: "es' = es @ new" "list_all2 (start_edge_for ns') (rerouted ns) new"
      "prefix (map n_id ns) (map n_id ns')"
    using preprocess_adds [OF assms(1)] by blast
  have "cycleStack ns' es' = Inr []" using cycleStack_ok [of ns' es'] assms(2) by auto
  then have E: "initialEdges es ns = Inr (map (initialEdge ns' (find (\<lambda>n. d_selected (n_data n)) (rev ns'))) (es @ new))"
    using initialEdges_eq [OF assms(1)] by (simp add: off_stack_def new(1))
  have "edge_ends (initialEdge n s e) = edge_ends e" "has_handles (initialEdge n s e)" for n s e
    by (simp_all add: edge_ends_def has_handles_def handleOr_def split: option.split)
  then show ?thesis using E new(2,3) by (intro exI [of _ new] exI) auto
qed

definition dangling_start :: "node list \<Rightarrow> node \<Rightarrow> bool" where
  "dangling_start ns n \<longleftrightarrow> isContainer n \<and> (\<exists>x. start_id n = Some x \<and> x \<noteq> [] \<and> x \<notin> node_ids ns)"

lemma nodesMap_None: "nodesMap ns x = None \<longleftrightarrow> x \<notin> node_ids ns"
  by (auto simp: nodesMap_def node_ids_def find_None_iff)

lemma nodesMap_Some: "nodesMap ns x = Some n \<Longrightarrow> n \<in> set ns \<and> n_id n = x"
  by (auto simp: nodesMap_def dest: find_SomeD)

lemma startEdgeOf_cases:
  assumes "startOf (if d_type (n_data c) = Iteration then is else ls) (n_id c) = Some s"
  shows "startEdgeOf ns is ls c = Inl e \<longleftrightarrow> e = TypeError \<and> the (start_id c) \<notin> node_ids ns"
  using assms nodesMap_None [of ns "the (start_id c)"]
  by (cases "nodesMap ns (the (start_id c))") (auto simp: startEdgeOf_def Let_def)

lemma map_result_error_iff:
  assumes "\<And>x e. x \<in> set xs \<Longrightarrow> f x = Inl e \<longleftrightarrow> e = err \<and> bad x"
  shows "map_result f xs = Inl e \<longleftrightarrow> e = err \<and> (\<exists>x \<in> set xs. bad x)"
  using assms
proof (induction xs)
  case (Cons x xs)
  have IH: "map_result f xs = Inl e \<longleftrightarrow> e = err \<and> (\<exists>x \<in> set xs. bad x)" using Cons by simp
  show ?case
  proof (cases "f x")
    case (Inl e')
    then have "e' = err" "bad x" using Cons.prems [of x e'] by simp_all
    then show ?thesis using Inl by auto
  next
    case (Inr y)
    then have "\<not> bad x" using Cons.prems [of x err] by simp
    then show ?thesis using Inr IH by (auto split: sum.splits)
  qed
qed simp

lemma dangling_with_start:
  "dangling_start ns n \<Longrightarrow> n \<in> set ns \<Longrightarrow>
   n \<in> set (containersWithStart ns Iteration CUSTOM_ITERATION_START_NODE
     @ containersWithStart ns Loop CUSTOM_LOOP_START_NODE)"
  by (auto simp: dangling_start_def isContainer_def containersWithStart_def nonempty_opt_def nodesMap_None [symmetric])

text \<open>Loading fails exactly when an iteration or loop names a start node that is not among the nodes; it
  then throws a \<open>TypeError\<close>, for nodes and edges alike, and nothing else can make the preparation of the
  start nodes fail.\<close>

theorem dangling_start_breaks_loading:
  "preprocessNodesAndEdges ns es = Inl e \<longleftrightarrow> e = TypeError \<and> (\<exists>n \<in> set ns. dangling_start ns n)"
proof -
  let ?iw = "containersWithStart ns Iteration CUSTOM_ITERATION_START_NODE"
  let ?lw = "containersWithStart ns Loop CUSTOM_LOOP_START_NODE"
  let ?is = "newStartNodes getIterationStartNode (?iw @ containersWithoutStart ns Iteration)"
  let ?ls = "newStartNodes getLoopStartNode (?lw @ containersWithoutStart ns Loop)"
  have "startEdgeOf ns ?is ?ls c = Inl e' \<longleftrightarrow> e' = TypeError \<and> the (start_id c) \<notin> node_ids ns"
    if "c \<in> set (?iw @ ?lw)" for c e'
  proof (rule startEdgeOf_cases [where s = "the (startOf (if d_type (n_data c) = Iteration then ?is else ?ls) (n_id c))"])
    have "d_type (n_data c) = Iteration \<and> c \<in> set ?iw \<or> d_type (n_data c) = Loop \<and> c \<in> set ?lw"
      using that by (auto dest: containersWithStartD)
    then show "startOf (if d_type (n_data c) = Iteration then ?is else ?ls) (n_id c) =
        Some (the (startOf (if d_type (n_data c) = Iteration then ?is else ?ls) (n_id c)))"
      using startOf_new [of c "?iw @ containersWithoutStart ns Iteration" getIterationStartNode]
        startOf_new [of c "?lw @ containersWithoutStart ns Loop" getLoopStartNode] by auto
  qed
  then have r: "map_result (startEdgeOf ns ?is ?ls) (?iw @ ?lw) = Inl e \<longleftrightarrow>
      e = TypeError \<and> (\<exists>c \<in> set (?iw @ ?lw). the (start_id c) \<notin> node_ids ns)"
    by (rule map_result_error_iff)
  have bad: "(\<exists>c \<in> set (?iw @ ?lw). the (start_id c) \<notin> node_ids ns) \<longleftrightarrow> (\<exists>n \<in> set ns. dangling_start ns n)"
  proof
    assume "\<exists>c \<in> set (?iw @ ?lw). the (start_id c) \<notin> node_ids ns"
    then show "\<exists>n \<in> set ns. dangling_start ns n"
      by (auto simp: dangling_start_def isContainer_def dest!: containersWithStartD)
  next
    assume "\<exists>n \<in> set ns. dangling_start ns n"
    then obtain n where n: "n \<in> set ns" "dangling_start ns n" by blast
    then have "the (start_id n) \<notin> node_ids ns" by (auto simp: dangling_start_def)
    then show "\<exists>c \<in> set (?iw @ ?lw). the (start_id c) \<notin> node_ids ns"
      using dangling_with_start [OF n(2,1)] by (rule bexI)
  qed
  show ?thesis
  proof (cases "(\<forall>n \<in> set ns. d_type (n_data n) \<noteq> Iteration) \<and> (\<forall>n \<in> set ns. d_type (n_data n) \<noteq> Loop)")
    case True
    then show ?thesis by (auto simp: preprocessNodesAndEdges_def dangling_start_def isContainer_def)
  next
    case False
    then have "preprocessNodesAndEdges ns es = Inl e \<longleftrightarrow> map_result (startEdgeOf ns ?is ?ls) (?iw @ ?lw) = Inl e"
      unfolding preprocessNodesAndEdges_def if_not_P [OF False] Let_def by (auto split: sum.split)
    then show ?thesis using r bad by blast
  qed
qed

lemma withStartId_frame [simp]:
  "n_id (withStartId is ls n) = n_id n" "n_type (withStartId is ls n) = n_type n"
  "n_parentId (withStartId is ls n) = n_parentId n"
  "d_type (n_data (withStartId is ls n)) = d_type (n_data n)"
  by (simp_all add: withStartId_def Let_def split: option.split)

lemma start_id_with:
  "start_id (withStartId is ls n) =
     (case (if d_type (n_data n) = Iteration then startOf is (n_id n)
            else if d_type (n_data n) = Loop then startOf ls (n_id n) else None) of
        None \<Rightarrow> start_id n | Some s \<Rightarrow> Some (n_id s))"
  by (simp add: withStartId_def start_id_def Let_def split: option.split)

definition start_type :: "BlockEnum \<Rightarrow> string" where
  "start_type t = (if t = Iteration then CUSTOM_ITERATION_START_NODE else CUSTOM_LOOP_START_NODE)"

definition has_start :: "node list \<Rightarrow> node \<Rightarrow> bool" where
  "has_start ns c \<longleftrightarrow> (\<exists>s \<in> set ns. start_id c = Some (n_id s) \<and> n_type s = Some (start_type (d_type (n_data c)))
     \<and> n_id s \<noteq> [])"

lemma preprocess_shape:
  assumes "preprocessNodesAndEdges ns es = Inr (ns', es')"
  shows "(\<forall>n \<in> set ns. \<not> isContainer n) \<and> ns' = ns \<and> es' = es
    \<or> (\<exists>is ls newEdges.
        is = newStartNodes getIterationStartNode (containersWithStart ns Iteration CUSTOM_ITERATION_START_NODE
          @ containersWithoutStart ns Iteration)
      \<and> ls = newStartNodes getLoopStartNode (containersWithStart ns Loop CUSTOM_LOOP_START_NODE
          @ containersWithoutStart ns Loop)
      \<and> ns' = map (withStartId is ls) ns @ map snd is @ map snd ls \<and> es' = es @ newEdges)"
  using assms by (auto simp: preprocessNodesAndEdges_def isContainer_def Let_def split: if_splits sum.splits)

lemma start_node_simps [simp]:
  "n_type (getIterationStartNode i) = Some CUSTOM_ITERATION_START_NODE"
  "n_type (getLoopStartNode i) = Some CUSTOM_LOOP_START_NODE"
  "d_type (n_data (getIterationStartNode i)) = IterationStart"
  "d_type (n_data (getLoopStartNode i)) = LoopStart"
  "n_id (getIterationStartNode i) = i @ ''start''" "n_id (getLoopStartNode i) = i @ ''start''"
  by (simp_all add: getIterationStartNode_def getLoopStartNode_def startNodeOf_def node_data_of_def)

lemma new_start_type:
  "s \<in> snd ` set (newStartNodes getIterationStartNode cs) \<Longrightarrow> d_type (n_data s) = IterationStart"
  "s \<in> snd ` set (newStartNodes getLoopStartNode cs) \<Longrightarrow> d_type (n_data s) = LoopStart"
  by (auto simp: newStartNodes_def)

text \<open>A container either keeps its start node or gets the new one.\<close>

lemma container_start:
  assumes "n \<in> set ns" and "d_type (n_data n) = t"
    and starts: "starts = newStartNodes mk (containersWithStart ns t st @ containersWithoutStart ns t)"
    and mk: "\<And>i. n_type (mk i) = Some st" "\<And>i. n_id (mk i) = i @ ''start''"
  shows "(\<exists>s. startOf starts (n_id n) = Some s \<and> s \<in> snd ` set starts \<and> n_type s = Some st \<and> n_id s \<noteq> [])
    \<or> startOf starts (n_id n) = None
      \<and> (\<exists>s \<in> set ns. start_id n = Some (n_id s) \<and> n_type s = Some st \<and> n_id s \<noteq> [])"
proof (cases "startOf starts (n_id n)")
  case (Some s)
  then obtain k where "(n_id n, s) \<in> set starts" "s = (mk (n_id n))\<lparr>n_id := n_id (mk (n_id n)) @ string_of_nat k\<rparr>"
    using startOf_some unfolding starts by blast
  then show ?thesis using Some mk by (auto intro: image_eqI [where x = "(n_id n, s)"])
next
  case None
  have "n \<notin> set (containersWithStart ns t st @ containersWithoutStart ns t)"
  proof
    assume "n \<in> set (containersWithStart ns t st @ containersWithoutStart ns t)"
    from startOf_new [OF this, of mk] show False using None unfolding starts by simp
  qed
  then have ne: "nonempty_opt (start_id n)" and b: "Option.bind (nodesMap ns (the (start_id n))) n_type = Some st"
    using assms(1,2) by (auto simp: containersWithStart_def containersWithoutStart_def)
  from ne obtain x where x: "start_id n = Some x" "x \<noteq> []" by (auto simp: nonempty_opt_def split: option.splits)
  with b obtain s where s: "nodesMap ns x = Some s" "n_type s = Some st" by (auto simp: bind_eq_Some_conv)
  then show ?thesis using None x nodesMap_Some [OF s(1)] by blast
qed

lemma has_startI:
  assumes c: "start_id c = (case X of None \<Rightarrow> start_id n | Some s \<Rightarrow> Some (n_id s))"
    and st: "start_type (d_type (n_data c)) = st" and "S \<subseteq> set ns'"
    and kept: "\<And>s. s \<in> set ns \<Longrightarrow> \<exists>s' \<in> set ns'. n_id s' = n_id s \<and> n_type s' = n_type s"
    and "(\<exists>s. X = Some s \<and> s \<in> S \<and> n_type s = Some st \<and> n_id s \<noteq> [])
      \<or> X = None \<and> (\<exists>s \<in> set ns. start_id n = Some (n_id s) \<and> n_type s = Some st \<and> n_id s \<noteq> [])"
  shows "has_start ns' c"
  using assms(5)
proof (elim disjE exE conjE bexE)
  fix s assume "X = Some s" "s \<in> S" "n_type s = Some st" "n_id s \<noteq> []"
  then show ?thesis unfolding has_start_def st using c assms(3) by (intro bexI [of _ s]) auto
next
  fix s assume s: "X = None" "s \<in> set ns" "start_id n = Some (n_id s)" "n_type s = Some st" "n_id s \<noteq> []"
  from kept [OF s(2)] obtain s' where "s' \<in> set ns'" "n_id s' = n_id s" "n_type s' = n_type s" by blast
  then show ?thesis unfolding has_start_def st using c s by (intro bexI [of _ s']) simp_all
qed

lemma container_has_start:
  assumes "preprocessNodesAndEdges ns es = Inr (ns', es')" and "c \<in> set ns'" and "isContainer c"
  shows "has_start ns' c"
  using preprocess_shape [OF assms(1)]
proof (elim disjE exE conjE)
  assume "\<forall>n \<in> set ns. \<not> isContainer n" "ns' = ns"
  then show ?thesis using assms(2,3) by blast
next
  fix its ls newEdges
  assume its: "its = newStartNodes getIterationStartNode
      (containersWithStart ns Iteration CUSTOM_ITERATION_START_NODE @ containersWithoutStart ns Iteration)"
    and ls: "ls = newStartNodes getLoopStartNode
      (containersWithStart ns Loop CUSTOM_LOOP_START_NODE @ containersWithoutStart ns Loop)"
    and ns': "ns' = map (withStartId its ls) ns @ map snd its @ map snd ls"
  have "c \<notin> snd ` set its \<union> snd ` set ls"
  proof
    assume "c \<in> snd ` set its \<union> snd ` set ls"
    then have "d_type (n_data c) = IterationStart \<or> d_type (n_data c) = LoopStart"
      using new_start_type [of c] unfolding its ls by blast
    then show False using assms(3) by (auto simp: isContainer_def)
  qed
  then obtain n where n: "n \<in> set ns" "c = withStartId its ls n" using assms(2) ns' by auto
  have t: "d_type (n_data n) = Iteration \<or> d_type (n_data n) = Loop" using assms(3) n(2) by (simp add: isContainer_def)
  have kept: "\<exists>s' \<in> set ns'. n_id s' = n_id s \<and> n_type s' = n_type s" if "s \<in> set ns" for s
    using that unfolding ns' by (intro bexI [of _ "withStartId its ls s"]) auto
  from t show ?thesis
  proof
    assume t: "d_type (n_data n) = Iteration"
    show ?thesis
      by (rule has_startI [OF _ _ _ kept container_start [OF n(1) t its start_node_simps(1,5)]])
        (use t in \<open>auto simp: n(2) start_id_with start_type_def ns'\<close>)
  next
    assume t: "d_type (n_data n) = Loop"
    show ?thesis
      by (rule has_startI [OF _ _ _ kept container_start [OF n(1) t ls start_node_simps(2,6)]])
        (use t in \<open>auto simp: n(2) start_id_with start_type_def ns'\<close>)
  qed
qed

text \<open>After the preparation every iteration and every loop names a start node of its own kind that is
  among the nodes.\<close>

theorem containers_have_start:
  assumes "preprocessNodesAndEdges ns es = Inr (ns', es')" and "c \<in> set ns'" and "isContainer c"
  shows "has_start ns' c"
  using assms by (rule container_has_start)

lemma nodesMap_distinct:
  assumes "distinct (map n_id ns)" and "s \<in> set ns"
  shows "nodesMap ns (n_id s) = Some s"
  unfolding nodesMap_def using assms by (intro find_by_id) (simp_all add: rev_map [symmetric])

text \<open>Loading settles: preparing an already prepared workflow (whose ids are distinct) adds no start node
  and no edge, so a draft that was saved after loading loads unchanged.\<close>

theorem preparation_is_idempotent:
  assumes pre: "preprocessNodesAndEdges ns es = Inr (ns', es')" and d: "distinct (map n_id ns')"
  shows "preprocessNodesAndEdges ns' es' = Inr (ns', es')"
proof -
  have start: "Option.bind (nodesMap ns' (the (start_id c))) n_type = Some (start_type (d_type (n_data c)))
      \<and> nonempty_opt (start_id c)" if c: "c \<in> set ns'" "isContainer c" for c
  proof -
    obtain s where "s \<in> set ns'" "start_id c = Some (n_id s)" "n_id s \<noteq> []"
      "n_type s = Some (start_type (d_type (n_data c)))"
      using container_has_start [OF pre c] by (auto simp: has_start_def)
    then show ?thesis using nodesMap_distinct [OF d] by (simp add: nonempty_opt_def)
  qed
  have "containersWithStart ns' Iteration CUSTOM_ITERATION_START_NODE = []"
    "containersWithStart ns' Loop CUSTOM_LOOP_START_NODE = []"
    "containersWithoutStart ns' Iteration = []" "containersWithoutStart ns' Loop = []"
    using start
    by (auto simp: containersWithStart_def containersWithoutStart_def filter_empty_conv isContainer_def start_type_def)
  moreover have "withStartId [] [] n = n" for n by (simp add: withStartId_def startOf_def)
  ultimately show ?thesis by (simp add: preprocessNodesAndEdges_def newStartNodes_def map_idI)
qed

section \<open>The caches of a loaded workflow\<close>

text \<open>Documented behaviour of \<^verbatim>\<open>getConnectedEdges([node], edges)\<close>: the edges with that node at an end.\<close>

definition connected_ok :: "(string \<Rightarrow> edge list \<Rightarrow> edge list) \<Rightarrow> bool" where
  "connected_ok conn \<longleftrightarrow> (\<forall>i es. mset (conn i es) = filter_mset (\<lambda>e. e_source e = i \<or> e_target e = i) (mset es))"

lemma initData_frame:
  assumes "initData ch d = Inr d'"
  shows "d_connectedSourceHandleIds d' = d_connectedSourceHandleIds d
    \<and> d_connectedTargetHandleIds d' = d_connectedTargetHandleIds d \<and> d_type d' = d_type d"
  using assms
  by (cases "d_type d")
    (auto simp: initData_def initIfElse_def initClassifier_def initModelProvider_def initIteration_def
      initLoop_def initTool_def Let_def split: option.splits sum.splits if_splits)

lemma initialNode_frame:
  assumes "initialNode conn ns es n = Inr n'"
  shows "n_id n' = n_id n" and "d_type (n_data n') = d_type (n_data n)"
    and "handle_ids_of n' =
      (map (\<lambda>e. handleOr (e_sourceHandle e) ''source'') (filter (\<lambda>e. e_source e = n_id n) (conn (n_id n) es)),
       map (\<lambda>e. handleOr (e_targetHandle e) ''target'') (filter (\<lambda>e. e_target e = n_id n) (conn (n_id n) es)))"
  using assms
  by (auto simp: initialNode_def Let_def handle_ids_of_def opt_list_def split: sum.splits dest!: initData_frame)

lemma map_result_ids:
  assumes "map_result f xs = Inr ys" and "\<And>x y. f x = Inr y \<Longrightarrow> g y = h x"
  shows "map g ys = map h xs"
  using map_result_forall2 [OF assms(1)] assms(2) by (induction rule: list_all2_induct) auto

lemma map_zip_snd:
  "length xs = length ys \<Longrightarrow> (\<And>i y. g (f i y) = g y) \<Longrightarrow> map g (map (\<lambda>(i, y). f i y) (zip xs ys)) = map g ys"
  by (induction xs ys rule: list_induct2) auto

lemma ids_placeNodes: "map n_id (placeNodes ns) = map n_id ns"
  unfolding placeNodes_def by (auto intro!: map_zip_snd simp del: map_map)

lemma handles_of_edges:
  "src_handles es i = image_mset (\<lambda>e. handleOr (e_sourceHandle e) ''source'') (filter_mset (\<lambda>e. e_source e = i) (mset es))"
  "tgt_handles es i = image_mset (\<lambda>e. handleOr (e_targetHandle e) ''target'') (filter_mset (\<lambda>e. e_target e = i) (mset es))"
  by (induction es) (simp_all add: handles_simps)

lemma handles_of_connected:
  assumes "connected_ok conn"
  shows "mset (map (\<lambda>e. handleOr (e_sourceHandle e) ''source'') (filter (\<lambda>e. e_source e = i) (conn i es))) = src_handles es i"
    and "mset (map (\<lambda>e. handleOr (e_targetHandle e) ''target'') (filter (\<lambda>e. e_target e = i) (conn i es))) = tgt_handles es i"
proof -
  have c: "mset (conn i es) = filter_mset (\<lambda>e. e_source e = i \<or> e_target e = i) (mset es)"
    using assms by (simp add: connected_ok_def)
  have f: "filter_mset (\<lambda>e. e_source e = i) (filter_mset (\<lambda>e. e_source e = i \<or> e_target e = i) M) =
      filter_mset (\<lambda>e. e_source e = i) M"
    "filter_mset (\<lambda>e. e_target e = i) (filter_mset (\<lambda>e. e_source e = i \<or> e_target e = i) M) =
      filter_mset (\<lambda>e. e_target e = i) M" for M :: "edge multiset"
    by (simp_all add: filter_filter_mset conj_commute conj_disj_distribL cong: filter_mset_cong)
       (auto intro: filter_mset_cong)
  show "mset (map (\<lambda>e. handleOr (e_sourceHandle e) ''source'') (filter (\<lambda>e. e_source e = i) (conn i es))) = src_handles es i"
    "mset (map (\<lambda>e. handleOr (e_targetHandle e) ''target'') (filter (\<lambda>e. e_target e = i) (conn i es))) = tgt_handles es i"
    by (simp_all only: mset_map mset_filter c f handles_of_edges)
qed

lemma loaded_caches:
  assumes pre: "preprocessNodesAndEdges ns es = Inr (ns', es')" and "connected_ok conn"
    and N: "initialNodes conn ns es = Inr N"
  shows "map n_id N = map n_id ns'" and "handles_match N es'"
proof -
  have r: "map_result (initialNode conn (placeNodes ns') es') (placeNodes ns') = Inr N"
    using pre N by (simp add: initialNodes_def Let_def)
  show "map n_id N = map n_id ns'"
    using map_result_ids [OF r, of n_id n_id] initialNode_frame(1) ids_placeNodes by metis
  have "\<exists>n. initialNode conn (placeNodes ns') es' n = Inr n'" if "n' \<in> set N" for n'
    using map_result_forall2 [OF r] that by (auto simp: list_all2_conv_all_nth in_set_conv_nth)
  then show "handles_match N es'"
    unfolding handles_match_def
    using initialNode_frame(1,3) handles_of_connected [OF assms(2)] by fastforce
qed

text \<open>The ids that the search for cycles leaves on its stack are ids of the canvas.\<close>

lemma search_stays:
  "isCyclicUtil k adj i (col, stk) = Inr (b, col', stk') \<Longrightarrow> i \<in> D \<Longrightarrow> dom col \<subseteq> D \<Longrightarrow> set stk \<subseteq> D \<Longrightarrow>
     dom col' \<subseteq> D \<and> set stk' \<subseteq> D"
  "cyclicChildren k adj i cs (col, stk) = Inr (b, col', stk') \<Longrightarrow> i \<in> D \<Longrightarrow> dom col \<subseteq> D \<Longrightarrow> set stk \<subseteq> D \<Longrightarrow>
     dom col' \<subseteq> D \<and> set stk' \<subseteq> D"
proof (induction k adj i "(col, stk)" and k adj i cs "(col, stk)" arbitrary: col stk b col' stk' and col stk b col' stk'
    rule: isCyclicUtil_cyclicChildren.induct)
  case (3 k adj i col stack)
  have "dom (col(i \<mapsto> BLACK)) \<subseteq> D" using "3.prems"(2,3) unfolding dom_fun_upd by simp
  moreover have "set (butlast stack) \<subseteq> D" using 3 in_set_butlastD [of _ stack] by blast
  ultimately show ?case using "3.prems"(1,4) by (auto simp del: dom_fun_upd fun_upd_apply split: if_splits)
next
  case (4 k adj i c cs col stack)
  show ?case
  proof (cases "col c = Some WHITE")
    case True
    then have c: "c \<in> D" using "4.prems"(3) by blast
    obtain b1 col1 stk1 where one: "isCyclicUtil k adj c (col, stack) = Inr (b1, col1, stk1)"
      using "4.prems"(1) True by (auto split: sum.splits)
    have in1: "dom col1 \<subseteq> D \<and> set stk1 \<subseteq> D" using "4.hyps"(1) [OF _ True one c] "4.prems" True by auto
    then show ?thesis using "4.hyps"(2) [OF _ True one] "4.prems" True one by (cases b1) auto
  next
    case False
    show ?thesis
    proof (cases "col c = Some GRAY")
      case True
      then have "c \<in> D" using "4.prems"(3) by blast
      then show ?thesis using "4.prems" True by auto
    next
      case gray: False
      show ?thesis by (rule "4.hyps"(3) [OF gray False]) (use "4.prems" False gray in simp_all)
    qed
  qed
qed auto

lemma roots_stay:
  "cyclicRoots k adj is (col, stk) = Inr (col', stk') \<Longrightarrow> set is \<subseteq> D \<Longrightarrow> dom col \<subseteq> D \<Longrightarrow> set stk \<subseteq> D \<Longrightarrow> set stk' \<subseteq> D"
proof (induction "is" arbitrary: col stk)
  case (Cons i "is")
  show ?case
  proof (cases "col i = Some WHITE")
    case True
    then obtain b1 col1 stk1 where one: "isCyclicUtil k adj i (col, stk) = Inr (b1, col1, stk1)"
      "cyclicRoots k adj is (col1, stk1) = Inr (col', stk')"
      using Cons.prems(1) by (auto split: sum.splits)
    then show ?thesis using search_stays(1) [OF one(1)] Cons.prems Cons.IH [OF one(2)] by simp
  qed (use Cons in simp)
qed simp

lemma cycleStack_nodes: "cycleStack ns es = Inr stk \<Longrightarrow> set stk \<subseteq> node_ids ns"
proof -
  let ?col = "\<lambda>i. if i \<in> set (map n_id ns) then Some WHITE else None"
  assume "cycleStack ns es = Inr stk"
  then obtain col where "cyclicRoots (length ns + 1) (adjList es) (map n_id ns) (?col, []) = Inr (col, stk)"
    by (auto simp: cycleStack_def split: sum.splits)
  then show ?thesis by (rule roots_stay) (auto simp: node_ids_def split: if_splits)
qed

lemma size_src_handles: "size (src_handles es i) = length (filter (\<lambda>e. e_source e = i) es)"
  by (induction es) (simp_all add: src_handles_def edge_ends_def)

lemma dropped_edge_shows:
  assumes "e \<in> set es" "\<not> P e"
  shows "length (filter (\<lambda>x. e_source x = e_source e) (filter P es)) < length (filter (\<lambda>x. e_source x = e_source e) es)"
proof -
  have "filter (\<lambda>x. e_source x = e_source e) (filter P es) = filter P (filter (\<lambda>x. e_source x = e_source e) es)"
    by (simp add: conj_commute)
  also have "length \<dots> < length (filter (\<lambda>x. e_source x = e_source e) es)"
    using assms by (intro length_filter_less [of e]) simp_all
  finally show ?thesis .
qed

text \<open>C6: The canvas of a stored workflow with distinct node ids. The cached handles of every node are those of the
  prepared edges, stored and start edges alike, also of those that are then dropped because the search for cycles
  still has both ends on its stack. So the canvas meets the invariant of the editor (node ids are
  distinct, every edge has handles, and the cached handles of every node are those of its edges) exactly when no
  edge is dropped; this is so for every workflow without cycles, and everything proved of the editor holds for it.\<close>

theorem loaded_canvas_meets_editor_invariant:
  assumes pre: "preprocessNodesAndEdges ns es = Inr (ns', es')" and conn: "connected_ok conn"
    and d: "distinct (map n_id ns')" and N: "initialNodes conn ns es = Inr N" and E: "initialEdges es ns = Inr E"
    and s: "es_nodes s = N" "es_edges s = E"
  shows "handles_match N es' \<and> (edit_inv s \<longleftrightarrow> length E = length es')
    \<and> (acyclic (flow_rel \<lparr>fl_nodes = ns', fl_edges = es'\<rparr>) \<longrightarrow> edit_inv s)"
proof -
  obtain stk where stk: "cycleStack ns' es' = Inr stk"
    "acyclic (flow_rel \<lparr>fl_nodes = ns', fl_edges = es'\<rparr>) \<longrightarrow> stk = []"
    using cycleStack_ok [of ns' es'] by auto
  have E': "E = map (initialEdge ns' (find (\<lambda>n. d_selected (n_data n)) (rev ns'))) (off_stack stk es')"
    using initialEdges_eq [OF pre stk(1)] E by simp
  note caches = loaded_caches [OF pre conn N]
  have h: "edge_ends (initialEdge n x e) = edge_ends e" "has_handles (initialEdge n x e)" for n x e
    by (simp_all add: edge_ends_def has_handles_def handleOr_def split: option.split)
  have ends: "map edge_ends E = map edge_ends (off_stack stk es')" by (simp add: E' h(1))
  then have same: "src_handles E = src_handles (off_stack stk es')" "tgt_handles E = tgt_handles (off_stack stk es')"
    using handles_cong [of E "off_stack stk es'"] by (auto simp: fun_eq_iff)
  have inv: "edit_inv s \<longleftrightarrow> handles_match N E"
    using d caches(1) h(2) s by (auto simp: edit_inv_def E')
  have full: "edit_inv s" if "length E = length es'"
  proof -
    have "length (off_stack stk es') = length es'" using that by (simp add: E')
    then have "off_stack stk es' = es'" unfolding off_stack_def by (metis length_filter_less nat_less_le filter_True)
    then show ?thesis using inv caches(2) same by (simp add: handles_match_def)
  qed
  have "length E = length es'" if "edit_inv s"
  proof (rule ccontr)
    assume "length E \<noteq> length es'"
    then have "off_stack stk es' \<noteq> es'" by (auto simp: E')
    then obtain e where e: "e \<in> set es'" "e_source e \<in> set stk" "e_target e \<in> set stk"
      unfolding off_stack_def by (metis (mono_tags, lifting) filter_True)
    have "e_source e \<in> node_ids ns'" using cycleStack_nodes [OF stk(1)] e(2) by blast
    then have "e_source e \<in> set (map n_id N)" unfolding caches(1) by (auto simp: node_ids_def)
    then obtain n where "n \<in> set N" "n_id n = e_source e" by auto
    then have "src_handles E (e_source e) = src_handles es' (e_source e)"
      using that inv caches(2) by (metis handles_match_def)
    then have "size (src_handles (off_stack stk es') (e_source e)) = size (src_handles es' (e_source e))"
      by (simp add: same)
    then show False using dropped_edge_shows [OF e(1)] e(2,3) unfolding size_src_handles off_stack_def
      by (metis (mono_tags, lifting) less_irrefl)
  qed
  moreover have "length E = length es'" if "stk = []" using that by (simp add: E' off_stack_def)
  ultimately show ?thesis using caches(2) full stk(2) by blast
qed

section \<open>Witnesses\<close>

text \<open>A start and an answer joined by an edge without handles, and a loop without a start node.\<close>

definition plain_edge :: edge where
  "plain_edge = (sample_edge ''start'' ''answer'')\<lparr>e_sourceHandle := None, e_targetHandle := None\<rparr>"

definition plain_nodes :: "node list" where
  "plain_nodes = [sample_node ''start'' Start, sample_node ''answer'' Answer]"

definition sample_connected :: "string \<Rightarrow> edge list \<Rightarrow> edge list" where
  "sample_connected i es = filter (\<lambda>e. e_source e = i \<or> e_target e = i) es"

definition loop_nodes :: "node list" where
  "loop_nodes = [sample_node ''loop'' Loop]"

lemma plain_preprocess: "preprocessNodesAndEdges plain_nodes [plain_edge] = Inr (plain_nodes, [plain_edge])"
  by (simp add: preprocessNodesAndEdges_def plain_nodes_def sample_node_def node_data_of_def)

lemma plain_acyclic: "acyclic (graph_rel plain_nodes [plain_edge])"
proof -
  have "graph_rel plain_nodes [plain_edge] = {(''start'', ''answer'')}"
    by (simp add: flow_rel_code plain_nodes_def plain_edge_def sample_node_def sample_edge_def)
  moreover have "acyclic ({} :: (string \<times> string) set)" by (simp add: acyclic_def)
  ultimately show ?thesis by (simp add: acyclic_insert)
qed

lemma ring_preprocess:
  "preprocessNodesAndEdges (fl_nodes sample_ring) (fl_edges sample_ring) = Inr (fl_nodes sample_ring, fl_edges sample_ring)"
  by (simp add: preprocessNodesAndEdges_def sample_ring_def addEdge_def sample_chain_def sample_node_def node_data_of_def)

theorem loaded_edges_acyclic_witness:
  "\<exists>E. initialEdges (fl_edges sample_ring) (fl_nodes sample_ring) = Inr E
    \<and> acyclic (flow_rel \<lparr>fl_nodes = fl_nodes sample_ring, fl_edges = E\<rparr>)"
  by (rule loaded_edges_acyclic [OF ring_preprocess])

theorem acyclic_workflow_loads_completely_witness:
  "\<exists>E new. initialEdges [plain_edge] plain_nodes = Inr E \<and> map e_id E = map e_id (plain_edge # new)
    \<and> map edge_ends E = map edge_ends (plain_edge # new) \<and> list_all2 (start_edge_for plain_nodes) (rerouted plain_nodes) new"
  using acyclic_workflow_loads_completely [OF plain_preprocess plain_acyclic] by auto

lemma loop_preprocess:
  "preprocessNodesAndEdges loop_nodes [] =
     Inr ([with_data (\<lambda>d. d\<lparr>d_payload := (d_payload d)\<lparr>p_start_node_id := Some ''loopstart0''\<rparr>\<rparr>) (sample_node ''loop'' Loop),
       (getLoopStartNode ''loop'')\<lparr>n_id := ''loopstart0''\<rparr>], [])"
  by (simp add: preprocessNodesAndEdges_def loop_nodes_def sample_node_def node_data_of_def no_payload_def
    containersWithStart_def containersWithoutStart_def newStartNodes_def nonempty_opt_def start_id_def
    withStartId_def startOf_def getLoopStartNode_def startNodeOf_def with_data_def string_of_nat.simps
    char_of_def bit_0 upt_rec)

theorem containers_have_start_witness:
  "has_start [with_data (\<lambda>d. d\<lparr>d_payload := (d_payload d)\<lparr>p_start_node_id := Some ''loopstart0''\<rparr>\<rparr>) (sample_node ''loop'' Loop),
       (getLoopStartNode ''loop'')\<lparr>n_id := ''loopstart0''\<rparr>]
     (with_data (\<lambda>d. d\<lparr>d_payload := (d_payload d)\<lparr>p_start_node_id := Some ''loopstart0''\<rparr>\<rparr>) (sample_node ''loop'' Loop))"
  by (rule containers_have_start [OF loop_preprocess])
    (simp_all add: isContainer_def sample_node_def node_data_of_def)

theorem preparation_is_idempotent_witness:
  "preprocessNodesAndEdges plain_nodes [plain_edge] = Inr (plain_nodes, [plain_edge])"
  by (rule preparation_is_idempotent [OF plain_preprocess]) (simp add: plain_nodes_def sample_node_def)

definition plain_canvas :: edit_store where
  "plain_canvas = \<lparr>es_nodes = (case initialNodes sample_connected plain_nodes [plain_edge] of Inl _ \<Rightarrow> [] | Inr N \<Rightarrow> N),
     es_edges = (case initialEdges [plain_edge] plain_nodes of Inl _ \<Rightarrow> [] | Inr E \<Rightarrow> E),
     es_canvasReadOnly = False, es_canEdit = True, es_runningStatus = None, es_historyWorkflowData = False,
     es_isRestoring = False, es_contextMenuTarget = None, es_effects = []\<rparr>"

theorem loaded_canvas_meets_editor_invariant_witness: "edit_inv plain_canvas"
proof -
  have "\<exists>N. initialNodes sample_connected plain_nodes [plain_edge] = Inr N"
    using plain_preprocess
    by (simp add: initialNodes_def Let_def plain_nodes_def placeNodes_def initialNode_def sample_node_def
      node_data_of_def initData_def)
  then obtain N where N: "initialNodes sample_connected plain_nodes [plain_edge] = Inr N" by blast
  obtain E where E: "initialEdges [plain_edge] plain_nodes = Inr E"
    using cycleStack_ok initialEdges_eq [OF plain_preprocess] by metis
  have "connected_ok sample_connected" by (simp add: connected_ok_def sample_connected_def)
  moreover have "distinct (map n_id plain_nodes)" by (simp add: plain_nodes_def sample_node_def)
  moreover have "es_nodes plain_canvas = N" "es_edges plain_canvas = E" by (simp_all add: plain_canvas_def N E)
  ultimately show ?thesis
    using loaded_canvas_meets_editor_invariant [OF plain_preprocess _ _ N E] plain_acyclic by blast
qed

end
