(* ===== verification/Trace_Log.thy ===== *)
theory Trace_Log
  imports Run_Events
begin

text \<open>
  Formatting the log of a finished run for the tracing panel,
  \<^verbatim>\<open>workflow/run/utils/format-log/*\<close>: the tree of agent messages, one entry per human input node,
  retries folded into their node, and the rounds of iterations and loops. An entry is the traced
  node with the parts that formatting adds to it. Arrays with holes are lists of options.
\<close>

section \<open>Agent messages\<close>

text \<open>\<^verbatim>\<open>item.message_id || item.id\<close>; the empty string stands for no id at all.\<close>

definition log_id :: "AgentLogItem \<Rightarrow> string" where
  "log_id it =
     (if al_message_id it \<noteq> [] then al_message_id it
      else case al_id it of None \<Rightarrow> [] | Some s \<Rightarrow> s)"

datatype log_tree = LogNode (log_item: AgentLogItem) (hasCircle: bool) (log_children: "log_tree list")

definition tree_id :: "log_tree \<Rightarrow> string" where
  "tree_id t = log_id (log_item t)"

text \<open>
  Items are told apart by their position. The first item of an id owns the children of the id
  (\<^verbatim>\<open>itemsById\<close>, \<^verbatim>\<open>childrenById\<close>); later items of the same id stay leaves. The depth is bounded by
  the number of items.
\<close>

definition firstLog :: "AgentLogItem list \<Rightarrow> nat \<Rightarrow> bool" where
  "firstLog logs i =
     (log_id (logs ! i) \<noteq> [] \<and> list_all (\<lambda>j. log_id (logs ! j) \<noteq> log_id (logs ! i)) [0..<i])"

definition childLogs :: "AgentLogItem list \<Rightarrow> nat \<Rightarrow> nat list" where
  "childLogs logs i =
     (if firstLog logs i
      then filter (\<lambda>j. al_parent_id (logs ! j) = Some (log_id (logs ! i))) [0..<length logs]
      else [])"

fun buildLog :: "AgentLogItem list \<Rightarrow> nat \<Rightarrow> nat \<Rightarrow> log_tree" where
  "buildLog logs 0 i = LogNode (logs ! i) False []"
| "buildLog logs (Suc n) i = LogNode (logs ! i) False (map (buildLog logs n) (childLogs logs i))"

definition rootLogs :: "AgentLogItem list \<Rightarrow> nat list" where
  "rootLogs logs =
     filter (\<lambda>i. firstLog logs i \<and> \<not> nonempty_opt (al_parent_id (logs ! i))) [0..<length logs]"

definition listToTree :: "AgentLogItem list \<Rightarrow> log_tree list" where
  "listToTree logs = map (buildLog logs (length logs + 1)) (rootLogs logs)"

fun remove_id :: "string \<Rightarrow> log_tree \<Rightarrow> log_tree" where
  "remove_id removeId (LogNode it circle cs) =
     (let found = (\<exists>c \<in> set cs. tree_id c = removeId)
      in LogNode it (circle \<or> found)
           (map (remove_id removeId) (filter (\<lambda>c. tree_id c \<noteq> removeId) cs)))"

fun keepFirst :: "string list \<Rightarrow> log_tree list \<Rightarrow> log_tree list" where
  "keepFirst added [] = []"
| "keepFirst added (c # cs) =
     (if tree_id c \<noteq> [] \<and> tree_id c \<notin> set added then c # keepFirst (added @ [tree_id c]) cs
      else keepFirst added cs)"

definition removeRepeatedSiblings :: "log_tree list \<Rightarrow> log_tree list" where
  "removeRepeatedSiblings cs = keepFirst [] cs"

lemma size_map_filter:
  "(\<And>c. c \<in> set cs \<Longrightarrow> P c \<Longrightarrow> size (f c) \<le> size c) \<Longrightarrow>
   size_list size (map f (filter P cs)) \<le> size_list size cs"
proof (induction cs)
  case (Cons c cs)
  then show ?case by (cases "P c") (auto intro: add_mono le_SucI trans_le_add2)
qed simp

lemma size_remove_id: "size (remove_id r t) \<le> size t"
proof (induction r t rule: remove_id.induct)
  case (1 r it circle cs)
  then show ?case
    using size_map_filter [of cs "\<lambda>c. tree_id c \<noteq> r" "remove_id r"] by (simp add: Let_def)
qed

lemma set_keepFirst: "set (keepFirst added cs) \<subseteq> set cs"
  by (induction added cs rule: keepFirst.induct) auto

function removeCircleLogItem :: "log_tree \<Rightarrow> log_tree" where
  "removeCircleLogItem (LogNode it circle cs) =
     (if cs = [] then LogNode it circle cs
      else let siblings = removeRepeatedSiblings cs;
               found = (\<exists>c \<in> set siblings. tree_id c = log_id it)
           in LogNode it (circle \<or> found)
                (map (\<lambda>c. removeCircleLogItem (remove_id (log_id it) c))
                   (filter (\<lambda>c. tree_id c \<noteq> log_id it) siblings)))"
  by pat_completeness auto

lemma size_child:
  assumes "c \<in> set (removeRepeatedSiblings cs)"
  shows "size (remove_id r c) < size (LogNode it circle cs)"
proof -
  have "c \<in> set cs" using assms set_keepFirst [of "[]" cs] by (auto simp: removeRepeatedSiblings_def)
  then have "size c < size (LogNode it circle cs)" by (simp add: size_list_estimation less_Suc_eq_le size_list_estimation')
  then show ?thesis using size_remove_id [of r c] by linarith
qed

termination removeCircleLogItem
  by (relation "measure size") (auto intro: size_child simp del: log_tree.size)

declare removeCircleLogItem.simps [simp del]

section \<open>Entries of the log\<close>

datatype trace =
  Trace (tr_node: NodeTracing) (agentLog: "log_tree list") (retryDetail: "trace list option")
    (details: "trace list option list option")

abbreviation trace_id :: "trace \<Rightarrow> string" where
  "trace_id e \<equiv> nt_node_id (tr_node e)"

definition metaOf :: "(exec_metadata \<Rightarrow> 'a option) \<Rightarrow> trace \<Rightarrow> 'a option" where
  "metaOf get e = Option.bind (nt_execution_metadata (tr_node e)) get"

definition supportedAgentLogNodes :: "BlockEnum list" where
  "supportedAgentLogNodes = [Agent, Tool]"

definition formatAgentEntry :: "NodeTracing \<Rightarrow> trace" where
  "formatAgentEntry item =
     (let logs = (case nt_execution_metadata item of
                    None \<Rightarrow> []
                  | Some mt \<Rightarrow> (case em_agent_log mt of None \<Rightarrow> [] | Some l \<Rightarrow> l));
          treeList = (if nt_node_type item \<in> set supportedAgentLogNodes \<and> logs \<noteq> [] then listToTree logs else [])
      in Trace item (map removeCircleLogItem treeList) None None)"

definition formatAgentNode :: "NodeTracing list \<Rightarrow> trace list" where
  "formatAgentNode list = map formatAgentEntry list"

section \<open>Human input\<close>

definition isHuman :: "trace \<Rightarrow> bool" where
  "isHuman e = (nt_node_type (tr_node e) = HumanInput)"

definition noteLatest :: "trace \<Rightarrow> (string \<rightharpoonup> trace) \<Rightarrow> (string \<rightharpoonup> trace)" where
  "noteLatest item mp =
     (if isHuman item then
        (case mp (trace_id item) of
           None \<Rightarrow> mp(trace_id item \<mapsto> item)
         | Some existing \<Rightarrow>
             if nt_index (tr_node item) > nt_index (tr_node existing) then mp(trace_id item \<mapsto> item) else mp)
      else mp)"

fun pushLatest :: "(string \<rightharpoonup> trace) \<Rightarrow> string list \<Rightarrow> trace list \<Rightarrow> trace list" where
  "pushLatest mp added [] = []"
| "pushLatest mp added (item # rest) =
     (if isHuman item then
        (if trace_id item \<in> set added then pushLatest mp added rest
         else case mp (trace_id item) of
           None \<Rightarrow> pushLatest mp added rest
         | Some latest \<Rightarrow> latest # pushLatest mp (trace_id item # added) rest)
      else item # pushLatest mp added rest)"

definition formatHumanInputNode :: "trace list \<Rightarrow> trace list" where
  "formatHumanInputNode list =
     (if \<not> list_ex isHuman list then list
      else pushLatest (fold noteLatest list Map.empty) [] list)"

section \<open>Retries\<close>

definition isRetry :: "trace \<Rightarrow> bool" where
  "isRetry e = (nt_status (tr_node e) = Retry)"

fun withRetries :: "trace \<Rightarrow> trace list \<Rightarrow> trace" where
  "withRetries (Trace n al _ ds) rs = Trace n al (Some rs) ds"

definition retryBelongs :: "trace \<Rightarrow> trace \<Rightarrow> bool" where
  "retryBelongs item node =
     (let inIteration = nonempty_opt (metaOf em_iteration_id item);
          inLoop = nonempty_opt (metaOf em_loop_id item)
      in if \<not> inIteration \<and> \<not> inLoop then trace_id node = trace_id item
         else if inIteration then
           trace_id node = trace_id item \<and> metaOf em_iteration_index node = metaOf em_iteration_index item
         else trace_id node = trace_id item \<and> metaOf em_loop_index node = metaOf em_loop_index item)"

definition formatRetryNode :: "trace list \<Rightarrow> trace list" where
  "formatRetryNode list =
     (let retryNodes = filter isRetry list
      in map (\<lambda>item. if trace_id item \<in> set (map trace_id retryNodes)
                      then withRetries item (filter (retryBelongs item) retryNodes) else item)
           (filter (\<lambda>item. \<not> isRetry item) list))"

section \<open>Rounds of iterations and loops\<close>

fun withDetails :: "trace \<Rightarrow> trace list option list \<Rightarrow> trace" where
  "withDetails (Trace n al rs _) ds = Trace n al rs (Some ds)"

text \<open>\<^verbatim>\<open>details[i] ||= []; details[i].push(item)\<close>: a write past the end leaves holes, a negative
  index is no element of the array.\<close>

definition pushRow :: "int \<Rightarrow> trace \<Rightarrow> trace list option list \<Rightarrow> trace list option list" where
  "pushRow i item rows =
     (if i < 0 then rows
      else let k = nat i;
               wide = rows @ replicate (Suc k - length rows) None;
               row = (case wide ! k of None \<Rightarrow> [] | Some r \<Rightarrow> r)
           in wide[k := Some (row @ [item])])"

definition rowAt :: "trace list option list \<Rightarrow> int \<Rightarrow> trace list" where
  "rowAt rows i = (if 0 \<le> i \<and> nat i < length rows then (case rows ! nat i of None \<Rightarrow> [] | Some r \<Rightarrow> r) else [])"

definition addIterationChild ::
  "trace \<Rightarrow> trace list option list \<times> int \<Rightarrow> trace list option list \<times> int" where
  "addIterationChild item st =
     (let (rows, lastResolvedIndex) = st
      in case nt_execution_metadata (tr_node item) of
           None \<Rightarrow> st
         | Some mt \<Rightarrow>
             (let runIndex =
                (case em_iteration_index mt of
                   Some i \<Rightarrow> i
                 | None \<Rightarrow>
                     if lastResolvedIndex \<ge> 0 then
                       (if list_ex (\<lambda>node. trace_id node = trace_id item) (rowAt rows lastResolvedIndex)
                        then lastResolvedIndex + 1 else lastResolvedIndex)
                     else 0)
              in (pushRow runIndex item rows, runIndex)))"

definition addChildrenToIterationNode :: "trace \<Rightarrow> trace list \<Rightarrow> trace" where
  "addChildrenToIterationNode iterationNode childrenNodes =
     withDetails iterationNode (fst (fold addIterationChild childrenNodes ([], -1)))"

fun pushGroup :: "string \<Rightarrow> trace \<Rightarrow> (string \<times> trace list) list \<Rightarrow> (string \<times> trace list) list" where
  "pushGroup key item [] = [(key, [item])]"
| "pushGroup key item ((k, g) # gs) = (if k = key then (k, g @ [item]) # gs else (k, g) # pushGroup key item gs)"

definition addLoopChild ::
  "trace \<Rightarrow> (string \<times> trace list) list \<times> int \<Rightarrow> (string \<times> trace list) list \<times> int" where
  "addLoopChild item st =
     (let (groups, lastResolvedIndex) = st
      in case nt_execution_metadata (tr_node item) of
           None \<Rightarrow> st
         | Some mt \<Rightarrow>
             (case em_parallel_mode_run_id mt of
                Some run \<Rightarrow> (pushGroup run item groups, lastResolvedIndex)
              | None \<Rightarrow>
                  (let runIndex =
                     (case em_loop_index mt of
                        Some i \<Rightarrow> i
                      | None \<Rightarrow>
                          if lastResolvedIndex \<ge> 0 then
                            (if list_ex (\<lambda>node. trace_id node = trace_id item)
                                  (case map_of groups (string_of_int lastResolvedIndex) of None \<Rightarrow> [] | Some g \<Rightarrow> g)
                             then lastResolvedIndex + 1 else lastResolvedIndex)
                          else 0)
                   in (pushGroup (string_of_int runIndex) item groups, runIndex))))"

definition addChildrenToLoopNode :: "trace \<Rightarrow> trace list \<Rightarrow> trace" where
  "addChildrenToLoopNode loopNode childrenNodes =
     withDetails loopNode (map (Some \<circ> snd) (fst (fold addLoopChild childrenNodes ([], -1))))"

end
