(* ===== verification/Parallel_Log.thy ===== *)
theory Parallel_Log
  imports Trace_Log
begin

text \<open>
  Parallel branches in the run log, \<^verbatim>\<open>run/utils/format-log/parallel/index.ts\<close>, and the composition of the
  formatters, \<^verbatim>\<open>run/utils/format-log/index.ts\<close>. The entries are mutable objects that refer to each other, so they are
  modelled as cells of a heap. The function is polymorphic in what a cell carries besides its trace, as it is applied
  to plain entries inside the rounds of an iteration and to entries with rounds outside.
\<close>

section \<open>Cells\<close>

record par_detail =
  pd_isParallelStartNode :: bool
  pd_parallelTitle :: "string option"
  pd_branchTitle :: "string option"
  pd_children :: "nat list option"

record 'a par_cell =
  pc_item :: 'a
  pc_detail :: "par_detail option"

definition first_of :: "'b option \<Rightarrow> 'b option \<Rightarrow> 'b option" where
  "first_of a b = (case a of Some x \<Rightarrow> Some x | None \<Rightarrow> b)"

definition metaField :: "(exec_metadata \<Rightarrow> 'b option) \<Rightarrow> NodeTracing \<Rightarrow> 'b option" where
  "metaField get n = Option.bind (nt_execution_metadata n) get"

definition parallelId :: "NodeTracing \<Rightarrow> string option" where
  "parallelId n = first_of (nt_parallel_id n) (metaField em_parallel_id n)"

definition parallelStart :: "NodeTracing \<Rightarrow> string option" where
  "parallelStart n = first_of (nt_parallel_start_node_id n) (metaField em_parallel_start_node_id n)"

definition parentParallelId :: "NodeTracing \<Rightarrow> string option" where
  "parentParallelId n = first_of (nt_parent_parallel_id n) (metaField em_parent_parallel_id n)"

definition parentParallelStart :: "NodeTracing \<Rightarrow> string option" where
  "parentParallelStart n = first_of (nt_parent_parallel_start_node_id n) (metaField em_parent_parallel_start_node_id n)"

definition inParallel :: "NodeTracing \<Rightarrow> bool" where
  "inParallel n = (nonempty_opt (parallelId n) \<and> nt_node_type n \<noteq> End)"

definition startsBranch :: "NodeTracing \<Rightarrow> bool" where
  "startsBranch n = (parallelStart n = Some (nt_node_id n))"

definition isNested :: "NodeTracing \<Rightarrow> bool" where
  "isNested n = nonempty_opt (parentParallelId n)"

section \<open>The list becomes a tree\<close>

text \<open>\<^verbatim>\<open>result.find(item => item.node_id === id)\<close> over the first \<open>n\<close> cells, which are the list.\<close>

definition findNode :: "('a \<Rightarrow> NodeTracing) \<Rightarrow> nat \<Rightarrow> 'a par_cell list \<Rightarrow> string option \<Rightarrow> nat option" where
  "findNode nt n h target = find (\<lambda>k. target = Some (nt_node_id (nt (pc_item (h ! k))))) [0..<n]"

fun findLastIndex :: "('b \<Rightarrow> bool) \<Rightarrow> 'b list \<Rightarrow> nat option" where
  "findLastIndex P [] = None"
| "findLastIndex P (x # xs) =
     (case findLastIndex P xs of Some i \<Rightarrow> Some (Suc i) | None \<Rightarrow> if P x then Some 0 else None)"

definition insertInBranch :: "('a \<Rightarrow> NodeTracing) \<Rightarrow> 'a par_cell list \<Rightarrow> string option \<Rightarrow> nat \<Rightarrow> nat list \<Rightarrow> nat list" where
  "insertInBranch nt h branch node kids =
     (case findLastIndex (\<lambda>k. parallelStart (nt (pc_item (h ! k))) = branch) kids of
        Some i \<Rightarrow> take (Suc i) kids @ [node] @ drop (Suc i) kids
      | None \<Rightarrow> kids @ [node])"

definition set_detail :: "nat \<Rightarrow> par_detail \<Rightarrow> 'a par_cell list \<Rightarrow> 'a par_cell list" where
  "set_detail k d h = h[k := (h ! k)\<lparr>pc_detail := Some d\<rparr>]"

definition openParallel :: "nat \<Rightarrow> 'a par_cell list \<Rightarrow> 'a par_cell list" where
  "openParallel node h =
     (let selfNode = (h ! node)\<lparr>pc_detail := None\<rparr>
      in set_detail node \<lparr>pd_isParallelStartNode = True, pd_parallelTitle = None, pd_branchTitle = None,
                           pd_children = Some [length h]\<rparr> h @ [selfNode])"

text \<open>The parent gets an empty list of children when it has no detail yet.\<close>

definition appendToParent :: "('a \<Rightarrow> NodeTracing) \<Rightarrow> string option \<Rightarrow> nat \<Rightarrow> nat \<Rightarrow> 'a par_cell list \<Rightarrow> 'a par_cell list" where
  "appendToParent nt branch node parent h =
     (let d = (case pc_detail (h ! parent) of
                 Some d \<Rightarrow> d
               | None \<Rightarrow> \<lparr>pd_isParallelStartNode = False, pd_parallelTitle = None, pd_branchTitle = None,
                           pd_children = Some []\<rparr>)
      in set_detail parent
           (case pd_children d of
              None \<Rightarrow> d
            | Some kids \<Rightarrow> d\<lparr>pd_children := Some (insertInBranch nt h branch node kids)\<rparr>) h)"

definition appendToStart :: "('a \<Rightarrow> NodeTracing) \<Rightarrow> string option \<Rightarrow> nat \<Rightarrow> nat \<Rightarrow> 'a par_cell list \<Rightarrow> 'a par_cell list" where
  "appendToStart nt branch node start h =
     (case pc_detail (h ! start) of
        None \<Rightarrow> h
      | Some d \<Rightarrow>
          (case pd_children d of
             None \<Rightarrow> h
           | Some kids \<Rightarrow> set_detail start (d\<lparr>pd_children := Some (insertInBranch nt h branch node kids)\<rparr>) h))"

definition placeNode :: "('a \<Rightarrow> NodeTracing) \<Rightarrow> nat \<Rightarrow> nat \<Rightarrow> 'a par_cell list \<Rightarrow> 'a par_cell list" where
  "placeNode nt n node h =
     (let e = nt (pc_item (h ! node))
      in if \<not> inParallel e then h
         else if startsBranch e then
           (let h1 = openParallel node h
            in if \<not> isNested e then h1
               else (case findNode nt n h1 (parentParallelStart e) of
                       None \<Rightarrow> h1
                     | Some parent \<Rightarrow> appendToParent nt (parentParallelStart e) node parent h1))
         else (case findNode nt n h (parallelStart e) of
                 None \<Rightarrow> h
               | Some start \<Rightarrow> appendToStart nt (parallelStart e) node start h))"

definition initCells :: "'a list \<Rightarrow> 'a par_cell list" where
  "initCells list = map (\<lambda>x. \<lparr>pc_item = x, pc_detail = None\<rparr>) list"

definition placeAll :: "('a \<Rightarrow> NodeTracing) \<Rightarrow> 'a list \<Rightarrow> 'a par_cell list" where
  "placeAll nt list = fold (placeNode nt (length list)) [0..<length list] (initCells list)"

definition detailStarts :: "'a par_cell list \<Rightarrow> nat \<Rightarrow> bool" where
  "detailStarts h k = (case pc_detail (h ! k) of None \<Rightarrow> False | Some d \<Rightarrow> pd_isParallelStartNode d)"

definition topLevel :: "('a \<Rightarrow> NodeTracing) \<Rightarrow> 'a par_cell list \<Rightarrow> nat \<Rightarrow> bool" where
  "topLevel nt h k =
     (let e = nt (pc_item (h ! k))
      in if \<not> inParallel e then True else if isNested e then False else detailStarts h k)"

section \<open>Titles\<close>

definition letter :: "nat \<Rightarrow> string" where
  "letter i = [char_of (64 + i)]"

definition kidsOf :: "'a par_cell list \<Rightarrow> nat \<Rightarrow> nat list" where
  "kidsOf h k = (case pc_detail (h ! k) of None \<Rightarrow> [] | Some d \<Rightarrow> (case pd_children d of None \<Rightarrow> [] | Some ks \<Rightarrow> ks))"

definition parallelInfo :: "('a \<Rightarrow> NodeTracing) \<Rightarrow> 'a par_cell list \<Rightarrow> nat list \<Rightarrow> nat \<Rightarrow> nat \<Rightarrow> string" where
  "parallelInfo nt h list depth k =
     (let starts = filter (detailStarts h) list
      in string_of_nat depth @
         (if \<not> detailStarts h k \<or> length starts \<le> 1 then []
          else letter (1 + length (takeWhile (\<lambda>j. nt_node_id (nt (pc_item (h ! j))) \<noteq> nt_node_id (nt (pc_item (h ! k)))) starts))))"

text \<open>The titles of one node. \<open>belong\<close> is the text that the template makes of \<^verbatim>\<open>belongParallelIndexInfo\<close>, which is
  \<^verbatim>\<open>undefined\<close> at the top.\<close>

definition titleParallel :: "(string \<Rightarrow> string) \<Rightarrow> string \<Rightarrow> nat \<Rightarrow> 'a par_cell list \<Rightarrow> 'a par_cell list" where
  "titleParallel t info k h =
     (case pc_detail (h ! k) of
        Some d \<Rightarrow> if pd_isParallelStartNode d
                   then set_detail k (d\<lparr>pd_parallelTitle := Some (t ''common.parallel'' @ ''-'' @ info)\<rparr>) h else h
      | None \<Rightarrow> h)"

definition titleBranch :: "(string \<Rightarrow> string) \<Rightarrow> string \<Rightarrow> nat \<Rightarrow> nat \<Rightarrow> 'a par_cell list \<Rightarrow> 'a par_cell list" where
  "titleBranch t belong branchIndex k h =
     (let d = (case pc_detail (h ! k) of
                 Some d \<Rightarrow> d
               | None \<Rightarrow> \<lparr>pd_isParallelStartNode = False, pd_parallelTitle = None, pd_branchTitle = Some [],
                           pd_children = None\<rparr>)
      in set_detail k (d\<lparr>pd_branchTitle := Some (t ''common.branch'' @ ''-'' @ belong @ ''-'' @ letter branchIndex)\<rparr>) h)"

definition titleNode ::
  "(string \<Rightarrow> string) \<Rightarrow> ('a \<Rightarrow> NodeTracing) \<Rightarrow> string \<Rightarrow> string \<Rightarrow> nat \<Rightarrow> nat \<Rightarrow> 'a par_cell list \<Rightarrow> nat \<times> 'a par_cell list" where
  "titleNode t nt belong info branchIndex k h =
     (let h1 = titleParallel t info k h
      in if \<not> startsBranch (nt (pc_item (h ! k))) then (branchIndex, h1)
         else (branchIndex + 1, titleBranch t belong (branchIndex + 1) k h1))"

text \<open>The recursion into the children; \<open>None\<close> when the fuel, the depth of the tree, is used up.\<close>

fun addTitle ::
  "(string \<Rightarrow> string) \<Rightarrow> ('a \<Rightarrow> NodeTracing) \<Rightarrow> nat \<Rightarrow> nat list \<Rightarrow> nat \<Rightarrow> string \<Rightarrow> nat list \<Rightarrow> nat \<Rightarrow> 'a par_cell list \<Rightarrow>
   'a par_cell list option" where
  "addTitle t nt fuel list depth belong [] branchIndex h = Some h"
| "addTitle t nt fuel list depth belong (k # ks) branchIndex h =
     (if \<not> inParallel (nt (pc_item (h ! k))) then addTitle t nt fuel list depth belong ks branchIndex h
      else (let info = parallelInfo nt h list depth k;
                (branchIndex', h') = titleNode t nt belong info branchIndex k h
            in if kidsOf h' k = [] then addTitle t nt fuel list depth belong ks branchIndex' h'
               else (case fuel of
                       0 \<Rightarrow> None
                     | Suc f \<Rightarrow>
                         (case addTitle t nt f (kidsOf h' k) (depth + 1) info (kidsOf h' k) 0 h' of
                            None \<Rightarrow> None
                          | Some h'' \<Rightarrow> addTitle t nt fuel list depth belong ks branchIndex' h''))))"

section \<open>The formatted list\<close>

datatype 'a par_tree =
  ParNode (par_item: 'a) (par_starts: bool) (par_titles: "string option \<times> string option") (par_kids: "'a par_tree list")

text \<open>The objects the list refers to, read as values; \<open>None\<close> for an object that is a part of itself.\<close>

fun parTree :: "nat \<Rightarrow> 'a par_cell list \<Rightarrow> nat \<Rightarrow> 'a par_tree option" where
  "parTree 0 h k = None"
| "parTree (Suc f) h k =
     map_option
       (ParNode (pc_item (h ! k)) (detailStarts h k)
          (case pc_detail (h ! k) of None \<Rightarrow> (None, None) | Some d \<Rightarrow> (pd_parallelTitle d, pd_branchTitle d)))
       (those (map (parTree f h) (kidsOf h k)))"

definition formatParallelNode :: "(string \<Rightarrow> string) \<Rightarrow> ('a \<Rightarrow> NodeTracing) \<Rightarrow> 'a list \<Rightarrow> 'a par_tree list option" where
  "formatParallelNode t nt list =
     (let h = placeAll nt list;
          roots = filter (topLevel nt h) [0..<length list]
      in case addTitle t nt (length h) roots 1 ''undefined'' roots 0 h of
           None \<Rightarrow> None
         | Some h' \<Rightarrow> those (map (parTree (length h') h') roots))"

end
