(* ===== verification/Ref_Forest.thy ===== *)
theory Ref_Forest
  imports "HOL-Library.Multiset"
begin

text \<open>
  Forests given by references: numbers below \<open>n\<close> with lists of children, in which every number occurs once as a root
  or as a child. What is summed up over the trees is summed up over the numbers.
\<close>

lemma sum_list_concat: "sum_list (map f (concat xss)) = sum_list (map (\<lambda>xs. sum_list (map f xs)) xss)"
  by (induction xss) auto

lemma sum_list_mset:
  fixes f :: "'a \<Rightarrow> 'b::comm_monoid_add"
  assumes "mset xs = mset ys"
  shows "sum_list (map f xs) = sum_list (map f ys)"
  by (metis assms mset_map sum_mset_sum_list)

lemma mset_concat_map: "mset (concat (map f xs)) = sum_list (map (\<lambda>x. mset (f x)) xs)"
  by (induction xs) auto

lemma sum_singles: "sum_list (map (\<lambda>x. {#f x#}) xs) = mset (map f xs)"
  by (induction xs) auto

lemma map_upt: "map (\<lambda>i. f (h ! i)) [0..<length h] = map f h"
  by (rule nth_equalityI) auto

lemma forest_sum:
  fixes F own :: "nat \<Rightarrow> 'b::cancel_comm_monoid_add"
  assumes eq: "\<And>k. k < n \<Longrightarrow> F k = own k + sum_list (map F (kids k))"
    and all: "mset roots + mset (concat (map kids [0..<n])) = mset [0..<n]"
  shows "sum_list (map F roots) = sum_list (map own [0..<n])"
proof -
  have "sum_list (map F [0..<n]) = sum_list (map (\<lambda>k. own k + sum_list (map F (kids k))) [0..<n])"
    by (rule arg_cong [where f = sum_list], rule map_cong [OF refl]) (simp add: eq)
  also have "\<dots> = sum_list (map own [0..<n]) + sum_list (map (\<lambda>k. sum_list (map F (kids k))) [0..<n])"
    by (rule sum_list_addf)
  also have "sum_list (map (\<lambda>k. sum_list (map F (kids k))) [0..<n]) = sum_list (map F (concat (map kids [0..<n])))"
    by (simp add: sum_list_concat comp_def)
  finally have one: "sum_list (map F [0..<n]) = sum_list (map own [0..<n]) + sum_list (map F (concat (map kids [0..<n])))" .
  have "mset (roots @ concat (map kids [0..<n])) = mset [0..<n]" using all by simp
  from sum_list_mset [OF this, of F]
  have "sum_list (map F roots) + sum_list (map F (concat (map kids [0..<n]))) = sum_list (map F [0..<n])" by simp
  then show ?thesis using one by simp
qed

end
