(* ===== verification/Parallel_Laws.thy ===== *)
theory Parallel_Laws
  imports Parallel_Log Ref_Forest
begin

text \<open>
  Laws of the parallel tree: on a list in which every branch is opened before it is continued, the formatted tree
  shows each entry exactly once, and giving out the titles ends and changes nothing else.
\<close>

section \<open>Lists in order\<close>

definition starter :: "('a \<Rightarrow> NodeTracing) \<Rightarrow> 'a list \<Rightarrow> nat \<Rightarrow> bool" where
  "starter nt xs k = (inParallel (nt (xs ! k)) \<and> startsBranch (nt (xs ! k)))"

definition opened_before :: "('a \<Rightarrow> NodeTracing) \<Rightarrow> 'a list \<Rightarrow> nat \<Rightarrow> string option \<Rightarrow> bool" where
  "opened_before nt xs i target =
     (\<exists>j<i. starter nt xs j \<and> target = Some (nt_node_id (nt (xs ! j))))"

text \<open>Node ids are distinct, a nested branch follows the start of its parent branch, and an entry inside a
  branch follows the start of the branch.\<close>

definition par_log_ok :: "('a \<Rightarrow> NodeTracing) \<Rightarrow> 'a list \<Rightarrow> bool" where
  "par_log_ok nt xs =
     (distinct (map (\<lambda>x. nt_node_id (nt x)) xs) \<and>
      (\<forall>i<length xs. inParallel (nt (xs ! i)) \<longrightarrow>
         (if startsBranch (nt (xs ! i))
          then isNested (nt (xs ! i)) \<longrightarrow> opened_before nt xs i (parentParallelStart (nt (xs ! i)))
          else opened_before nt xs i (parallelStart (nt (xs ! i))))))"

definition attached :: "('a \<Rightarrow> NodeTracing) \<Rightarrow> 'a list \<Rightarrow> nat \<Rightarrow> bool" where
  "attached nt xs k = (inParallel (nt (xs ! k)) \<and> (startsBranch (nt (xs ! k)) \<longrightarrow> isNested (nt (xs ! k))))"

definition is_open :: "'a par_cell list \<Rightarrow> nat \<Rightarrow> bool" where
  "is_open h k = (\<exists>d ks. pc_detail (h ! k) = Some d \<and> pd_isParallelStartNode d \<and> pd_children d = Some ks)"

definition opened_upto :: "('a \<Rightarrow> NodeTracing) \<Rightarrow> 'a list \<Rightarrow> nat \<Rightarrow> 'a par_cell list \<Rightarrow> bool" where
  "opened_upto nt xs i h =
     (\<forall>k<length h. if k < i \<and> starter nt xs k then is_open h k else pc_detail (h ! k) = None)"

definition par_inv :: "('a \<Rightarrow> NodeTracing) \<Rightarrow> 'a list \<Rightarrow> nat \<Rightarrow> 'a par_cell list \<Rightarrow> bool" where
  "par_inv nt xs i h =
     (length xs \<le> length h \<and>
      (\<forall>k<length xs. pc_item (h ! k) = xs ! k) \<and>
      opened_upto nt xs i h \<and>
      (\<forall>k<length h. \<forall>c\<in>set (kidsOf h k). k < c \<and> c < length h) \<and>
      mset (concat (map (kidsOf h) [0..<length h])) =
        mset [length xs..<length h] + mset (filter (attached nt xs) [0..<i]) \<and>
      mset (map pc_item (drop (length xs) h)) = mset (map ((!) xs) (filter (starter nt xs) [0..<i])))"

lemma par_invD:
  assumes "par_inv nt xs i h"
  shows "length xs \<le> length h" and "\<forall>k<length xs. pc_item (h ! k) = xs ! k"
    and "opened_upto nt xs i h"
    and "\<forall>k<length h. \<forall>c\<in>set (kidsOf h k). k < c \<and> c < length h"
    and "mset (concat (map (kidsOf h) [0..<length h])) =
        mset [length xs..<length h] + mset (filter (attached nt xs) [0..<i])"
    and "mset (map pc_item (drop (length xs) h)) = mset (map ((!) xs) (filter (starter nt xs) [0..<i]))"
  using assms unfolding par_inv_def by - (elim conjE, assumption)+

lemma par_invI:
  assumes "length xs \<le> length h" and "\<forall>k<length xs. pc_item (h ! k) = xs ! k" and "opened_upto nt xs i h"
    and "\<forall>k<length h. \<forall>c\<in>set (kidsOf h k). k < c \<and> c < length h"
    and "mset (concat (map (kidsOf h) [0..<length h])) =
        mset [length xs..<length h] + mset (filter (attached nt xs) [0..<i])"
    and "mset (map pc_item (drop (length xs) h)) = mset (map ((!) xs) (filter (starter nt xs) [0..<i]))"
  shows "par_inv nt xs i h"
  using assms unfolding par_inv_def by (intro conjI)

lemma init_inv: "par_inv nt xs 0 (initCells xs)"
  by (auto simp: par_inv_def initCells_def kidsOf_def opened_upto_def)

section \<open>The parts of a round\<close>

lemma set_detail_simps [simp]:
  "length (set_detail k d h) = length h"
  "pc_item (set_detail k d h ! j) = pc_item (h ! j)"
  "k < length h \<Longrightarrow> pc_detail (set_detail k d h ! j) = (if j = k then Some d else pc_detail (h ! j))"
  "map pc_item (set_detail k d h) = map pc_item h"
proof -
  show "pc_item (set_detail k d h ! j) = pc_item (h ! j)"
    by (cases "k < length h"; cases "j = k") (simp_all add: set_detail_def list_update_beyond)
  show "map pc_item (set_detail k d h) = map pc_item h"
  proof -
    have "map pc_item (set_detail k d h) = (map pc_item h)[k := pc_item (h ! k)]" by (simp add: set_detail_def map_update)
    then show ?thesis by (simp flip: map_update)
  qed
qed (simp_all add: set_detail_def)

lemma kidsOf_set_detail:
  "k < length h \<Longrightarrow> kidsOf (set_detail k d h) j =
     (if j = k then (case pd_children d of None \<Rightarrow> [] | Some ks \<Rightarrow> ks) else kidsOf h j)"
  by (simp add: kidsOf_def)

lemma insertInBranch_mset: "mset (insertInBranch nt h b node kids) = add_mset node (mset kids)"
proof (cases "findLastIndex (\<lambda>k. parallelStart (nt (pc_item (h ! k))) = b) kids")
  case (Some i)
  have "mset (take (Suc i) kids) + mset (drop (Suc i) kids) = mset kids"
    by (simp flip: mset_append)
  then show ?thesis using Some by (simp add: insertInBranch_def)
qed (simp add: insertInBranch_def)

lemma concat_update:
  assumes "k < n" "\<And>j. j < n \<Longrightarrow> j \<noteq> k \<Longrightarrow> g j = f j" "mset (g k) = mset (f k) + M"
  shows "mset (concat (map g [0..<n])) = mset (concat (map f [0..<n])) + M"
proof -
  have split: "[0..<n] = [0..<k] @ k # [Suc k..<n]"
    using assms(1) by (metis less_imp_add_positive upt_add_eq_append upt_conv_Cons zero_le less_imp_le_nat le_add1 bot_nat_0.extremum)
  have "map g [0..<k] = map f [0..<k]" "map g [Suc k..<n] = map f [Suc k..<n]" using assms(1,2) by auto
  from this [THEN arg_cong, of concat] show ?thesis unfolding split using assms(3) by (simp add: add.commute add.left_commute)
qed

text \<open>Inserting a node into the children of an opened start.\<close>

lemma insert_kid:
  assumes "j < length h" "pc_detail (h ! j) = Some d" "pd_children d = Some ks" "j < node" "node < length h"
    and "\<forall>k<length h. \<forall>c\<in>set (kidsOf h k). k < c \<and> c < length h"
    and h'_def: "h' = set_detail j (d\<lparr>pd_children := Some (insertInBranch nt h b node ks)\<rparr>) h"
  shows "\<forall>k<length h'. \<forall>c\<in>set (kidsOf h' k). k < c \<and> c < length h'"
    and "mset (concat (map (kidsOf h') [0..<length h'])) = add_mset node (mset (concat (map (kidsOf h) [0..<length h])))"
proof -
  have kids: "kidsOf h j = ks" using assms(2,3) by (simp add: kidsOf_def)
  have len: "length h' = length h" by (simp add: h'_def)
  have new: "kidsOf h' k = (if k = j then insertInBranch nt h b node ks else kidsOf h k)" for k
    using assms(1) by (simp add: h'_def kidsOf_set_detail)
  have "set (insertInBranch nt h b node ks) = insert node (set ks)"
    using arg_cong [OF insertInBranch_mset, of set_mset] by simp
  then have inserted: "set (kidsOf h' j) = insert node (set (kidsOf h j))" by (simp add: new kids)
  show "\<forall>k<length h'. \<forall>c\<in>set (kidsOf h' k). k < c \<and> c < length h'"
  proof (intro allI impI ballI)
    fix k c
    assume "k < length h'" "c \<in> set (kidsOf h' k)"
    then have "k < length h" "c \<in> set (kidsOf h k) \<or> k = j \<and> c = node"
      using inserted new [of k] len by (auto split: if_splits)
    then have "k < c \<and> c < length h" using assms(4-6) by blast
    then show "k < c \<and> c < length h'" by (simp add: len)
  qed
  have "mset (concat (map (kidsOf h') [0..<length h])) = mset (concat (map (kidsOf h) [0..<length h])) + {#node#}"
    by (rule concat_update [OF assms(1)]) (simp_all add: new kids insertInBranch_mset)
  then show "mset (concat (map (kidsOf h') [0..<length h'])) = add_mset node (mset (concat (map (kidsOf h) [0..<length h])))"
    by (simp add: len)
qed

lemma starter_unique:
  assumes "par_log_ok nt xs" "j < length xs" "k < length xs" "nt_node_id (nt (xs ! j)) = nt_node_id (nt (xs ! k))"
  shows "j = k"
  using assms nth_eq_iff_index_eq [of "map (\<lambda>x. nt_node_id (nt x)) xs" j k] by (simp add: par_log_ok_def)

lemma findNode_opened:
  assumes ok: "par_log_ok nt xs" and items: "\<forall>k<length xs. pc_item (h ! k) = xs ! k"
    and opened: "opened_before nt xs i target" and i: "i < length xs"
  obtains j where "findNode nt (length xs) h target = Some j" "j < i" "starter nt xs j"
proof -
  obtain j where j: "j < i" "starter nt xs j" "target = Some (nt_node_id (nt (xs ! j)))"
    using opened by (auto simp: opened_before_def)
  let ?P = "\<lambda>k. target = Some (nt_node_id (nt (pc_item (h ! k))))"
  have hit: "?P k \<longleftrightarrow> k = j" if "k < length xs" for k
    using starter_unique [OF ok, of j k] j i that items by auto
  have "find ?P [0..<length xs] = Some j"
  proof (cases "find ?P [0..<length xs]")
    case None
    then show ?thesis using hit [of j] j i by (auto simp: find_None_iff)
  next
    case (Some k)
    then show ?thesis using hit [of k] by (auto simp: find_Some_iff)
  qed
  then show ?thesis using that j by (simp add: findNode_def)
qed

lemma openParallel_effect:
  assumes "node < length h" "pc_detail (h ! node) = None"
    and "\<forall>k<length h. \<forall>c\<in>set (kidsOf h k). k < c \<and> c < length h"
    and "h' = openParallel node h"
  shows "length h' = Suc (length h)" and "\<And>k. k < length h \<Longrightarrow> pc_item (h' ! k) = pc_item (h ! k)"
    and "pc_item (h' ! length h) = pc_item (h ! node)" and "pc_detail (h' ! length h) = None"
    and "\<And>k. k < length h \<Longrightarrow> k \<noteq> node \<Longrightarrow> pc_detail (h' ! k) = pc_detail (h ! k)"
    and "pc_detail (h' ! node) = Some \<lparr>pd_isParallelStartNode = True, pd_parallelTitle = None, pd_branchTitle = None,
           pd_children = Some [length h]\<rparr>"
    and "\<forall>k<length h'. \<forall>c\<in>set (kidsOf h' k). k < c \<and> c < length h'"
    and "mset (concat (map (kidsOf h') [0..<length h'])) = add_mset (length h) (mset (concat (map (kidsOf h) [0..<length h])))"
proof -
  show len: "length h' = Suc (length h)" and "\<And>k. k < length h \<Longrightarrow> pc_item (h' ! k) = pc_item (h ! k)"
    and "pc_item (h' ! length h) = pc_item (h ! node)" and last: "pc_detail (h' ! length h) = None"
    and other: "\<And>k. k < length h \<Longrightarrow> k \<noteq> node \<Longrightarrow> pc_detail (h' ! k) = pc_detail (h ! k)"
    and new: "pc_detail (h' ! node) = Some \<lparr>pd_isParallelStartNode = True, pd_parallelTitle = None, pd_branchTitle = None,
           pd_children = Some [length h]\<rparr>"
    using assms(1,4) by (simp_all add: openParallel_def Let_def nth_append)
  have kids: "kidsOf h' k = (if k = node then [length h] else kidsOf h k)" if "k < length h" for k
    using that other [of k] new by (simp add: kidsOf_def)
  have none: "kidsOf h' (length h) = []" by (simp add: kidsOf_def last)
  show "\<forall>k<length h'. \<forall>c\<in>set (kidsOf h' k). k < c \<and> c < length h'"
  proof (intro allI impI ballI)
    fix k c assume k: "k < length h'" "c \<in> set (kidsOf h' k)"
    then have lt: "k < length h" using none len by (metis less_SucE list.set(1) empty_iff)
    have "k = node \<and> c = length h \<or> c \<in> set (kidsOf h k)" using k(2) kids [OF lt] by (auto split: if_splits)
    moreover have "c \<in> set (kidsOf h k) \<Longrightarrow> k < c \<and> c < length h" using assms(3) lt by blast
    ultimately show "k < c \<and> c < length h'" using lt len by (elim disjE) simp_all
  qed
  have "kidsOf h node = []" using assms(2) by (simp add: kidsOf_def)
  then have "mset (concat (map (kidsOf h') [0..<length h])) = mset (concat (map (kidsOf h) [0..<length h])) + {#length h#}"
    by (intro concat_update [OF assms(1)]) (simp_all add: kids assms(1))
  then show "mset (concat (map (kidsOf h') [0..<length h'])) = add_mset (length h) (mset (concat (map (kidsOf h) [0..<length h])))"
    by (simp add: len none)
qed

section \<open>The loop\<close>

lemma drop_items: "length xs \<le> length h \<Longrightarrow> map pc_item (drop (length xs) h) = map (\<lambda>k. pc_item (h ! k)) [length xs..<length h]"
  by (rule nth_equalityI) simp_all

lemma opened_step:
  assumes "opened_upto nt xs i h" "length h \<le> length h'"
    and "\<And>k. k < length h \<Longrightarrow> k \<noteq> i \<Longrightarrow> is_open h' k = is_open h k \<and> (pc_detail (h' ! k) = None) = (pc_detail (h ! k) = None)"
    and "\<And>k. length h \<le> k \<Longrightarrow> k < length h' \<Longrightarrow> pc_detail (h' ! k) = None"
    and "if starter nt xs i then is_open h' i else pc_detail (h' ! i) = None" and "length xs \<le> length h" "i < length xs"
  shows "opened_upto nt xs (Suc i) h'"
  unfolding opened_upto_def
proof (intro allI impI)
  fix k assume k: "k < length h'"
  consider "k = i" | "k < length h" "k \<noteq> i" | "length h \<le> k" using assms(6,7) by linarith
  then show "if k < Suc i \<and> starter nt xs k then is_open h' k else pc_detail (h' ! k) = None"
  proof cases
    case 2
    then have "if k < i \<and> starter nt xs k then is_open h k else pc_detail (h ! k) = None"
      using assms(1) unfolding opened_upto_def by blast
    then show ?thesis using assms(3) [OF 2] 2(2) by (auto simp: less_Suc_eq split: if_splits)
  qed (use assms(4) [OF _ k] assms(5-7) in auto)
qed

lemma kids_none: "pc_detail (h ! k) = None \<Longrightarrow> kidsOf h k = []"
  by (simp add: kidsOf_def)

text \<open>Inserting the current node below an earlier start.\<close>

lemma insert_inv:
  assumes "opened_upto nt xs m h" "j < m \<and> j < i" "starter nt xs j" "i < length xs" "length xs \<le> length h"
    and "\<forall>k<length h. \<forall>c\<in>set (kidsOf h k). k < c \<and> c < length h"
    and "h' = (case pc_detail (h ! j) of
        None \<Rightarrow> h
      | Some d \<Rightarrow> (case pd_children d of
                     None \<Rightarrow> h
                   | Some kids \<Rightarrow> set_detail j (d\<lparr>pd_children := Some (insertInBranch nt h b i kids)\<rparr>) h))"
  shows "length h' = length h" and "\<And>k. pc_item (h' ! k) = pc_item (h ! k)" and "map pc_item h' = map pc_item h"
    and "\<And>k. is_open h' k = is_open h k" and "\<And>k. (pc_detail (h' ! k) = None) = (pc_detail (h ! k) = None)"
    and "\<forall>k<length h'. \<forall>c\<in>set (kidsOf h' k). k < c \<and> c < length h'"
    and "mset (concat (map (kidsOf h') [0..<length h'])) = add_mset i (mset (concat (map (kidsOf h) [0..<length h])))"
proof -
  have j: "j < length h" using assms(2,4,5) by simp
  then have "is_open h j" using assms(1-3) unfolding opened_upto_def by (metis (full_types))
  then obtain d ks where d: "pc_detail (h ! j) = Some d" "pd_isParallelStartNode d" "pd_children d = Some ks"
    by (auto simp: is_open_def)
  then have h': "h' = set_detail j (d\<lparr>pd_children := Some (insertInBranch nt h b i ks)\<rparr>) h" using assms(7) by simp
  show "length h' = length h" "\<And>k. pc_item (h' ! k) = pc_item (h ! k)" "map pc_item h' = map pc_item h"
    by (simp_all add: h')
  show "\<And>k. is_open h' k = is_open h k" "\<And>k. (pc_detail (h' ! k) = None) = (pc_detail (h ! k) = None)"
    using d j by (auto simp: is_open_def h')
  have "i < length h" using assms(4,5) by simp
  note kid = insert_kid [OF j d(1,3) conjunct2 [OF assms(2)] this assms(6) h']
  show "\<forall>k<length h'. \<forall>c\<in>set (kidsOf h' k). k < c \<and> c < length h'"
    and "mset (concat (map (kidsOf h') [0..<length h'])) = add_mset i (mset (concat (map (kidsOf h) [0..<length h])))"
    by (rule kid)+
qed

lemma filter_Suc: "filter P [0..<Suc i] = filter P [0..<i] @ (if P i then [i] else [])"
  by simp

lemma opened_same:
  assumes "opened_upto nt xs m h" "length h' = length h" "\<And>k. is_open h' k = is_open h k"
    "\<And>k. (pc_detail (h' ! k) = None) = (pc_detail (h ! k) = None)"
  shows "opened_upto nt xs m h'"
  using assms unfolding opened_upto_def by simp

lemma open_inv:
  assumes inv: "par_inv nt xs i h" and i: "i < length xs" and start: "starter nt xs i" and h1: "h1 = openParallel i h"
  shows "length xs \<le> length h1" and "\<forall>k<length xs. pc_item (h1 ! k) = xs ! k" and "opened_upto nt xs (Suc i) h1"
    and "\<forall>k<length h1. \<forall>c\<in>set (kidsOf h1 k). k < c \<and> c < length h1"
    and "mset (concat (map (kidsOf h1) [0..<length h1])) = mset [length xs..<length h1] + mset (filter (attached nt xs) [0..<i])"
    and "mset (map pc_item (drop (length xs) h1)) = mset (map ((!) xs) (filter (starter nt xs) [0..<Suc i]))"
proof -
  note inv' = par_invD [OF inv]
  have lt: "i < length h" using i inv'(1) by simp
  have closed: "pc_detail (h ! i) = None" using inv'(3) lt unfolding opened_upto_def by (metis less_irrefl)
  note open' = openParallel_effect [OF lt closed inv'(4) h1]
  show n: "length xs \<le> length h1" using inv'(1) open'(1) by simp
  show items: "\<forall>k<length xs. pc_item (h1 ! k) = xs ! k"
  proof (intro allI impI)
    fix k assume k: "k < length xs"
    then have "pc_item (h1 ! k) = pc_item (h ! k)" using open'(2) inv'(1) by simp
    then show "pc_item (h1 ! k) = xs ! k" using inv'(2) k by simp
  qed
  have same: "k < length h \<Longrightarrow> k \<noteq> i \<Longrightarrow> is_open h1 k = is_open h k \<and> (pc_detail (h1 ! k) = None) = (pc_detail (h ! k) = None)" for k
    using open'(5) by (simp add: is_open_def)
  have new: "length h \<le> k \<Longrightarrow> k < length h1 \<Longrightarrow> pc_detail (h1 ! k) = None" for k
    using open'(1,4) by (metis le_antisym less_Suc_eq_le)
  have "is_open h1 i" using open'(6) by (simp add: is_open_def)
  then show "opened_upto nt xs (Suc i) h1"
    using start by (intro opened_step [OF inv'(3) _ same new _ inv'(1) i]) (simp_all add: open'(1))
  show "\<forall>k<length h1. \<forall>c\<in>set (kidsOf h1 k). k < c \<and> c < length h1" by (rule open'(7))
  show "mset (concat (map (kidsOf h1) [0..<length h1])) = mset [length xs..<length h1] + mset (filter (attached nt xs) [0..<i])"
    unfolding open'(8) inv'(5) using inv'(1) by (simp add: open'(1))
  have "map (\<lambda>k. pc_item (h1 ! k)) [length xs..<length h] = map (\<lambda>k. pc_item (h ! k)) [length xs..<length h]"
    using open'(2) by simp
  moreover have "[length xs..<length h1] = [length xs..<length h] @ [length h]" using inv'(1) open'(1) by simp
  moreover have "pc_item (h1 ! length h) = xs ! i" using open'(3) inv'(2) i by simp
  ultimately have "map pc_item (drop (length xs) h1) = map pc_item (drop (length xs) h) @ [xs ! i]"
    unfolding drop_items [OF n] drop_items [OF inv'(1)] by (simp del: map_eq_conv)
  then have "mset (map pc_item (drop (length xs) h1)) = add_mset (xs ! i) (mset (map pc_item (drop (length xs) h)))"
    by simp
  then show "mset (map pc_item (drop (length xs) h1)) = mset (map ((!) xs) (filter (starter nt xs) [0..<Suc i]))"
    unfolding inv'(6) filter_Suc using start by simp
qed

lemma placeNode_inv:
  assumes ok: "par_log_ok nt xs" and inv: "par_inv nt xs i h" and i: "i < length xs"
  shows "par_inv nt xs (Suc i) (placeNode nt (length xs) i h)"
proof -
  note inv' = par_invD [OF inv]
  let ?e = "nt (xs ! i)"
  have lt: "i < length h" using i inv'(1) by simp
  have item: "pc_item (h ! i) = xs ! i" using inv'(2) i by blast
  have closed: "pc_detail (h ! i) = None" using inv'(3) lt unfolding opened_upto_def by (metis less_irrefl)
  have plain: "opened_upto nt xs (Suc i) h" if "\<not> starter nt xs i"
    by (rule opened_step [OF inv'(3)]) (use closed that inv'(1) i in simp_all)
  consider (out) "\<not> inParallel ?e"
    | (root) "inParallel ?e" "startsBranch ?e" "\<not> isNested ?e"
    | (nested) "inParallel ?e" "startsBranch ?e" "isNested ?e"
    | (inside) "inParallel ?e" "\<not> startsBranch ?e" by blast
  then show ?thesis
  proof cases
    case out
    then have no: "\<not> starter nt xs i" "\<not> attached nt xs i" by (simp_all add: starter_def attached_def)
    have "par_inv nt xs (Suc i) h"
      by (rule par_invI; (rule inv'(1,2,4) plain [OF no(1)])?) (simp_all only: filter_Suc no if_False append_Nil2 inv'(5,6))
    then show ?thesis using out by (simp add: placeNode_def item Let_def)
  next
    case root
    then have start: "starter nt xs i" "\<not> attached nt xs i" by (simp_all add: starter_def attached_def)
    note opened = open_inv [OF inv i start(1) refl]
    have "par_inv nt xs (Suc i) (openParallel i h)"
      by (rule par_invI; (rule opened(1,2,3,4,6))?) (simp only: filter_Suc start(2) if_False append_Nil2 opened(5))
    then show ?thesis using root by (simp add: placeNode_def item Let_def)
  next
    case nested
    then have start: "starter nt xs i" "attached nt xs i" by (simp_all add: starter_def attached_def)
    let ?h1 = "openParallel i h"
    note opened = open_inv [OF inv i start(1) refl]
    have "opened_before nt xs i (parentParallelStart ?e)" using ok i nested unfolding par_log_ok_def by metis
    then obtain j where j: "findNode nt (length xs) ?h1 (parentParallelStart ?e) = Some j" "j < i" "starter nt xs j"
      using findNode_opened [OF ok opened(2) _ i] by blast
    have "is_open ?h1 j"
      using opened(1,3) j i unfolding opened_upto_def by (metis less_SucI less_le_trans less_trans)
    then have eq: "placeNode nt (length xs) i h = appendToStart nt (parentParallelStart ?e) i j ?h1"
      using nested j(1) by (auto simp: placeNode_def item Let_def appendToParent_def appendToStart_def is_open_def)
    have "j < Suc i \<and> j < i" using j(2) by simp
    note ins = insert_inv [OF opened(3) this j(3) i opened(1) opened(4) eq [unfolded appendToStart_def]]
    show ?thesis
    proof (rule par_invI)
      show "opened_upto nt xs (Suc i) (placeNode nt (length xs) i h)" by (rule opened_same [OF opened(3) ins(1,4,5)])
      show "\<forall>k<length xs. pc_item (placeNode nt (length xs) i h ! k) = xs ! k" unfolding ins(2) by (rule opened(2))
      show "mset (map pc_item (drop (length xs) (placeNode nt (length xs) i h))) = mset (map ((!) xs) (filter (starter nt xs) [0..<Suc i]))"
        using opened(6) ins(3) by (simp add: drop_map [symmetric] del: upt_Suc)
      show "mset (concat (map (kidsOf (placeNode nt (length xs) i h)) [0..<length (placeNode nt (length xs) i h)])) =
          mset [length xs..<length (placeNode nt (length xs) i h)] + mset (filter (attached nt xs) [0..<Suc i])"
        using ins(7) start(2) unfolding opened(5) filter_Suc by (simp add: ins(1))
      show "length xs \<le> length (placeNode nt (length xs) i h)" using ins(1) opened(1) by simp
    qed (rule ins(6))
  next
    case inside
    then have no: "\<not> starter nt xs i" "attached nt xs i" by (simp_all add: starter_def attached_def)
    have "opened_before nt xs i (parallelStart ?e)" using ok i inside unfolding par_log_ok_def by metis
    then obtain j where j: "findNode nt (length xs) h (parallelStart ?e) = Some j" "j < i" "starter nt xs j"
      using findNode_opened [OF ok inv'(2) _ i] by blast
    have eq: "placeNode nt (length xs) i h = appendToStart nt (parallelStart ?e) i j h"
      using inside j(1) by (simp add: placeNode_def item Let_def)
    have "j < Suc i \<and> j < i" using j(2) by simp
    note ins = insert_inv [OF plain [OF no(1)] this j(3) i inv'(1) inv'(4) eq [unfolded appendToStart_def]]
    show ?thesis
    proof (rule par_invI)
      show "opened_upto nt xs (Suc i) (placeNode nt (length xs) i h)" by (rule opened_same [OF plain [OF no(1)] ins(1,4,5)])
      show "\<forall>k<length xs. pc_item (placeNode nt (length xs) i h ! k) = xs ! k" unfolding ins(2) by (rule inv'(2))
      show "mset (map pc_item (drop (length xs) (placeNode nt (length xs) i h))) = mset (map ((!) xs) (filter (starter nt xs) [0..<Suc i]))"
        using inv'(6) ins(3) no(1) by (simp add: drop_map [symmetric])
      show "mset (concat (map (kidsOf (placeNode nt (length xs) i h)) [0..<length (placeNode nt (length xs) i h)])) =
          mset [length xs..<length (placeNode nt (length xs) i h)] + mset (filter (attached nt xs) [0..<Suc i])"
        using ins(7) no(2) unfolding inv'(5) filter_Suc by (simp add: ins(1))
      show "length xs \<le> length (placeNode nt (length xs) i h)" using ins(1) inv'(1) by simp
    qed (rule ins(6))
  qed
qed

lemma placeAll_inv:
  assumes "par_log_ok nt xs"
  shows "par_inv nt xs (length xs) (placeAll nt xs)"
proof -
  have "m \<le> length xs \<Longrightarrow> par_inv nt xs m (fold (placeNode nt (length xs)) [0..<m] (initCells xs))" for m
  proof (induction m)
    case (Suc m)
    then show ?case using placeNode_inv [OF assms, of m] by simp
  qed (simp add: init_inv)
  then show ?thesis by (simp add: placeAll_def)
qed

section \<open>Titles change no more than titles\<close>

definition same_shape :: "'a par_cell list \<Rightarrow> 'a par_cell list \<Rightarrow> bool" where
  "same_shape h h' =
     (length h' = length h \<and>
      (\<forall>k. pc_item (h' ! k) = pc_item (h ! k) \<and> kidsOf h' k = kidsOf h k \<and> detailStarts h' k = detailStarts h k))"

lemma same_shape_refl: "same_shape h h"
  by (simp add: same_shape_def)

lemma same_shape_trans: "same_shape a b \<Longrightarrow> same_shape b c \<Longrightarrow> same_shape a c"
  by (simp add: same_shape_def)

lemma set_detail_shape:
  assumes "k < length h" "case pd_children d of None \<Rightarrow> kidsOf h k = [] | Some ks \<Rightarrow> kidsOf h k = ks"
    "pd_isParallelStartNode d = detailStarts h k"
  shows "same_shape h (set_detail k d h)"
  using assms by (auto simp: same_shape_def kidsOf_set_detail detailStarts_def split: option.splits)

lemma titleParallel_shape: "k < length h \<Longrightarrow> same_shape h (titleParallel t info k h)"
  by (auto intro!: set_detail_shape same_shape_refl simp: titleParallel_def kidsOf_def detailStarts_def split: option.split)

lemma titleBranch_shape: "k < length h \<Longrightarrow> same_shape h (titleBranch t belong b k h)"
  unfolding titleBranch_def Let_def
  by (rule set_detail_shape) (auto simp: kidsOf_def detailStarts_def split: option.splits)

lemma titleNode_shape:
  assumes "k < length h" "titleNode t nt belong info b k h = (b', h')"
  shows "same_shape h h'"
proof -
  note one = titleParallel_shape [OF assms(1), of t info]
  have "k < length (titleParallel t info k h)" using one assms(1) by (simp add: same_shape_def)
  then have "same_shape (titleParallel t info k h) h'"
    using assms(2) by (auto simp: titleNode_def Let_def same_shape_refl intro: titleBranch_shape split: if_splits)
  with one show ?thesis by (rule same_shape_trans)
qed

definition forward :: "'a par_cell list \<Rightarrow> bool" where
  "forward h = (\<forall>k<length h. \<forall>c\<in>set (kidsOf h k). k < c \<and> c < length h)"

lemma forward_shape: "same_shape h h' \<Longrightarrow> forward h' = forward h"
  by (simp add: same_shape_def forward_def)

lemma addTitle_ends:
  "forward h \<Longrightarrow> \<forall>r\<in>set ks. r < length h \<and> length h - r \<le> fuel \<Longrightarrow>
   \<exists>h'. addTitle t nt fuel list depth belong ks b h = Some h' \<and> same_shape h h'"
proof (induction t nt fuel list depth belong ks b h rule: addTitle.induct)
  case (1 t nt fuel list depth belong b h)
  then show ?case by (simp add: same_shape_refl)
next
  case (2 t nt fuel list depth belong k ks b h)
  have k: "k < length h" "length h - k \<le> fuel" and rest: "\<forall>r\<in>set ks. r < length h \<and> length h - r \<le> fuel"
    using 2(6) by simp_all
  show ?case
  proof (cases "inParallel (nt (pc_item (h ! k)))")
    case False
    then show ?thesis using 2(1) [OF False 2(5) rest] by simp
  next
    case True
    let ?info = "parallelInfo nt h list depth k"
    obtain b' h' where title: "titleNode t nt belong ?info b k h = (b', h')" by fastforce
    note shape = titleNode_shape [OF k(1) title]
    have len: "length h' = length h" and fwd: "forward h'"
      using shape 2(5) forward_shape [OF shape] by (simp_all add: same_shape_def)
    have rest': "\<forall>r\<in>set ks. r < length h' \<and> length h' - r \<le> fuel" using rest len by simp
    show ?thesis
    proof (cases "kidsOf h' k = []")
      case empty: True
      obtain h3 where "addTitle t nt fuel list depth belong ks b' h' = Some h3" "same_shape h' h3"
        using 2(2) [OF _ refl title [symmetric] refl empty fwd rest'] True by auto
      then show ?thesis using True empty title same_shape_trans [OF shape] by simp
    next
      case kids: False
      obtain f where f: "fuel = Suc f" using k by (cases fuel) auto
      have below: "\<forall>r\<in>set (kidsOf h' k). r < length h' \<and> length h' - r \<le> f"
      proof
        fix r assume "r \<in> set (kidsOf h' k)"
        then have "k < r \<and> r < length h'" using fwd k(1) len unfolding forward_def by metis
        then show "r < length h' \<and> length h' - r \<le> f" using k(2) f len by linarith
      qed
      obtain h2 where h2: "addTitle t nt f (kidsOf h' k) (depth + 1) ?info (kidsOf h' k) 0 h' = Some h2" "same_shape h' h2"
        using 2(3) [OF _ refl title [symmetric] refl kids f fwd below] True by auto
      have rest2: "\<forall>r\<in>set ks. r < length h2 \<and> length h2 - r \<le> fuel" and fwd2: "forward h2"
        using rest' h2(2) forward_shape [OF h2(2)] fwd by (simp_all add: same_shape_def)
      obtain h3 where "addTitle t nt fuel list depth belong ks b' h2 = Some h3" "same_shape h2 h3"
        using 2(4) [OF _ refl title [symmetric] refl kids f h2(1) fwd2 rest2] True by auto
      then show ?thesis
        using True kids f title h2(1) same_shape_trans [OF shape same_shape_trans [OF h2(2)]] by simp
    qed
  qed
qed

section \<open>The trees\<close>

lemma upt_split: "b \<le> c \<Longrightarrow> [0..<b] @ [b..<c] = [0..<c]"
  by (metis le0 le_add_diff_inverse upt_add_eq_append)

lemma those_map: "(\<And>x. x \<in> set xs \<Longrightarrow> f x = Some (g x)) \<Longrightarrow> those (map f xs) = Some (map g xs)"
  by (induction xs) auto

definition tree_at :: "'a par_cell list \<Rightarrow> nat \<Rightarrow> 'a par_tree" where
  "tree_at h k = the (parTree (length h) h k)"

lemma parTree_total:
  "forward h \<Longrightarrow> k < length h \<Longrightarrow> \<exists>T. \<forall>f\<ge>length h - k. parTree f h k = Some T"
proof (induction "length h - k" arbitrary: k rule: less_induct)
  case less
  have below: "k < c \<and> c < length h" if "c \<in> set (kidsOf h k)" for c
    using less.prems that unfolding forward_def by blast
  have "\<forall>c. c \<in> set (kidsOf h k) \<longrightarrow> (\<exists>T. \<forall>f\<ge>length h - c. parTree f h c = Some T)"
  proof (intro allI impI)
    fix c assume c: "c \<in> set (kidsOf h k)"
    show "\<exists>T. \<forall>f\<ge>length h - c. parTree f h c = Some T"
    proof (rule less.hyps [OF _ less.prems(1)])
      show "length h - c < length h - k" using below [OF c] by linarith
    qed (use below [OF c] in simp)
  qed
  then obtain T where T: "c \<in> set (kidsOf h k) \<Longrightarrow> f \<ge> length h - c \<Longrightarrow> parTree f h c = Some (T c)" for c f by metis
  show ?case
  proof (intro exI allI impI)
    fix f assume f: "length h - k \<le> f"
    then obtain f' where f': "f = Suc f'" using less.prems(2) by (cases f) auto
    have "those (map (parTree f' h) (kidsOf h k)) = Some (map T (kidsOf h k))"
    proof (rule those_map)
      fix c assume c: "c \<in> set (kidsOf h k)"
      have "length h - c \<le> f'" using below [OF c] f f' by linarith
      then show "parTree f' h c = Some (T c)" by (rule T [OF c])
    qed
    then show "parTree f h k = Some (ParNode (pc_item (h ! k)) (detailStarts h k)
        (case pc_detail (h ! k) of None \<Rightarrow> (None, None) | Some d \<Rightarrow> (pd_parallelTitle d, pd_branchTitle d)) (map T (kidsOf h k)))"
      unfolding f' by simp
  qed
qed

lemma parTree_at: "forward h \<Longrightarrow> k < length h \<Longrightarrow> length h - k \<le> f \<Longrightarrow> parTree f h k = Some (tree_at h k)"
  using parTree_total [of h k] unfolding tree_at_def by (metis diff_le_self option.sel)

lemma tree_at_kids:
  assumes "forward h" "k < length h"
  shows "tree_at h k = ParNode (pc_item (h ! k)) (detailStarts h k)
    (case pc_detail (h ! k) of None \<Rightarrow> (None, None) | Some d \<Rightarrow> (pd_parallelTitle d, pd_branchTitle d))
    (map (tree_at h) (kidsOf h k))"
proof -
  obtain f where f: "length h = Suc f" using assms(2) by (cases "length h") auto
  have "those (map (parTree f h) (kidsOf h k)) = Some (map (tree_at h) (kidsOf h k))"
  proof (rule those_map)
    fix c assume "c \<in> set (kidsOf h k)"
    then have c: "k < c \<and> c < length h" using assms unfolding forward_def by blast
    then have "length h - c \<le> f" using f by linarith
    then show "parTree f h c = Some (tree_at h c)" using parTree_at [OF assms(1)] c by blast
  qed
  then show ?thesis unfolding tree_at_def [of h k] f by simp
qed

text \<open>The entries a tree shows: the start of a parallel is a heading, it is shown by the copy among its children.\<close>

fun par_entries :: "'a par_tree \<Rightarrow> 'a list" where
  "par_entries (ParNode x starts titles ks) = (if starts then [] else [x]) @ concat (map par_entries ks)"

lemma par_entries_at:
  "forward h \<Longrightarrow> k < length h \<Longrightarrow> mset (par_entries (tree_at h k)) =
     (if detailStarts h k then {#} else {#pc_item (h ! k)#}) + sum_list (map (\<lambda>c. mset (par_entries (tree_at h c))) (kidsOf h k))"
  by (subst tree_at_kids) (auto simp: mset_concat_map comp_def)

lemma placed_shape:
  assumes "par_log_ok nt xs"
  defines "h \<equiv> placeAll nt xs"
  shows "forward h" and "length xs \<le> length h"
    and "\<And>k. k < length xs \<Longrightarrow> pc_item (h ! k) = xs ! k"
    and "\<And>k. k < length xs \<Longrightarrow> detailStarts h k = starter nt xs k"
    and "\<And>k. length xs \<le> k \<Longrightarrow> k < length h \<Longrightarrow> \<not> detailStarts h k"
    and "\<And>k. k < length xs \<Longrightarrow> topLevel nt h k = (\<not> attached nt xs k)"
proof -
  note inv = par_invD [OF placeAll_inv [OF assms(1)], folded h_def]
  show "forward h" unfolding forward_def by (rule inv(4))
  show len: "length xs \<le> length h" by (rule inv(1))
  show item: "pc_item (h ! k) = xs ! k" if "k < length xs" for k using inv(2) that by blast
  have open': "if k < length xs \<and> starter nt xs k then is_open h k else pc_detail (h ! k) = None" if "k < length h" for k
    using inv(3) that unfolding opened_upto_def by blast
  show starts: "detailStarts h k = starter nt xs k" if "k < length xs" for k
    using open' [of k] that len by (cases "starter nt xs k") (auto simp: detailStarts_def is_open_def)
  show "\<not> detailStarts h k" if "length xs \<le> k" "k < length h" for k
    using open' [OF that(2)] that(1) by (simp add: detailStarts_def)
  show "topLevel nt h k = (\<not> attached nt xs k)" if "k < length xs" for k
    using item [OF that] starts [OF that] by (auto simp: topLevel_def attached_def starter_def Let_def)
qed

lemma formatted_entries:
  assumes "par_log_ok nt xs"
  shows "\<exists>trees. formatParallelNode t nt xs = Some trees \<and> mset (concat (map par_entries trees)) = mset xs"
proof -
  let ?h = "placeAll nt xs" and ?n = "length xs"
  let ?roots = "filter (topLevel nt ?h) [0..<?n]"
  note placed = placed_shape [OF assms]
  note inv = par_invD [OF placeAll_inv [OF assms]]
  have "\<forall>r\<in>set ?roots. r < length ?h \<and> length ?h - r \<le> length ?h" using placed(2) by auto
  then obtain h' where h': "addTitle t nt (length ?h) ?roots 1 ''undefined'' ?roots 0 ?h = Some h'" "same_shape ?h h'"
    using addTitle_ends [OF placed(1)] by blast
  have fwd: "forward h'" using forward_shape [OF h'(2)] placed(1) by simp
  have len: "length h' = length ?h" using h'(2) by (simp add: same_shape_def)
  have "those (map (parTree (length h') h') ?roots) = Some (map (tree_at h') ?roots)"
    by (rule those_map) (use parTree_at [OF fwd] placed(2) len in auto)
  then have result: "formatParallelNode t nt xs = Some (map (tree_at h') ?roots)"
    using h'(1) by (simp add: formatParallelNode_def Let_def)
  let ?F = "\<lambda>k. mset (par_entries (tree_at h' k))"
  let ?own = "\<lambda>k. if detailStarts ?h k then {#} else {#pc_item (?h ! k)#}"
  have roots: "?roots = filter (\<lambda>k. \<not> attached nt xs k) [0..<?n]"
    by (rule filter_cong [OF refl]) (use placed(6) in simp)
  have "sum_list (map ?F ?roots) = sum_list (map ?own [0..<length ?h])"
  proof (rule forest_sum [where kids = "kidsOf ?h"])
    fix k assume k: "k < length ?h"
    have "kidsOf h' k = kidsOf ?h k" "detailStarts h' k = detailStarts ?h k" "pc_item (h' ! k) = pc_item (?h ! k)"
      using h'(2) by (simp_all add: same_shape_def)
    then show "?F k = ?own k + sum_list (map ?F (kidsOf ?h k))"
      using par_entries_at [OF fwd, of k] k len by simp
  next
    have "mset [0..<length ?h] = mset [0..<?n] + mset [?n..<length ?h]"
      using placed(2) by (simp only: upt_split flip: mset_append)
    also have "mset [0..<?n] = mset (filter (attached nt xs) [0..<?n]) + mset ?roots"
      unfolding roots mset_filter by (rule multiset_partition)
    finally show "mset ?roots + mset (concat (map (kidsOf ?h) [0..<length ?h])) = mset [0..<length ?h]"
      unfolding inv(5) by (simp only: ac_simps)
  qed
  also have "\<dots> = sum_list (map ?own [0..<?n]) + sum_list (map ?own [?n..<length ?h])"
    using placed(2) by (simp only: upt_split flip: map_append sum_list_append)
  also have "sum_list (map ?own [?n..<length ?h]) = mset (map pc_item (drop ?n ?h))"
  proof -
    have "map ?own [?n..<length ?h] = map (\<lambda>k. {#pc_item (?h ! k)#}) [?n..<length ?h]" using placed(5) by simp
    then show ?thesis unfolding drop_items [OF placed(2)] by (simp only: sum_singles)
  qed
  also have "sum_list (map ?own [0..<?n]) = mset (map ((!) xs) (filter (\<lambda>k. \<not> starter nt xs k) [0..<?n]))"
  proof -
    have "map ?own [0..<?n] = map (\<lambda>k. if starter nt xs k then {#} else {#xs ! k#}) [0..<?n]"
      using placed(3,4) by simp
    moreover have "sum_list (map (\<lambda>k. if starter nt xs k then {#} else {#xs ! k#}) ks) =
        mset (map ((!) xs) (filter (\<lambda>k. \<not> starter nt xs k) ks))" for ks
      by (induction ks) auto
    ultimately show ?thesis by (simp only:)
  qed
  finally have "sum_list (map ?F ?roots) = mset (map ((!) xs) [0..<?n])"
    unfolding inv(6) by (simp only: mset_map mset_filter flip: image_mset_union) (simp only: union_commute flip: multiset_partition)
  then have "sum_list (map ?F ?roots) = mset xs" by (simp only: map_nth)
  then show ?thesis using result by (simp add: mset_concat_map comp_def)
qed

end
