(* ===== verification/Trace_Laws.thy ===== *)
theory Trace_Laws
  imports Trace_Log
begin

text \<open>
  Laws of log formatting: agent trees are finite and free of circles, each human input node keeps
  its latest entry, and the rounds of a container partition its children.
\<close>

section \<open>Agent trees are complete\<close>

definition childRel :: "AgentLogItem list \<Rightarrow> (nat \<times> nat) set" where
  "childRel logs = {(i, j). i < length logs \<and> j \<in> set (childLogs logs i)}"

lemma childRel_range: "(i, j) \<in> childRel logs \<Longrightarrow> i < length logs \<and> j < length logs"
  by (auto simp: childRel_def childLogs_def split: if_splits)

text \<open>An item has one parent at most, and a root has none.\<close>

lemma first_unique:
  assumes "firstLog logs i" "firstLog logs k" "log_id (logs ! i) = log_id (logs ! k)"
  shows "i = k"
  using assms by (cases i k rule: linorder_cases) (auto simp: firstLog_def list_all_iff)

lemma parent_unique:
  assumes "(i, j) \<in> childRel logs" "(k, j) \<in> childRel logs"
  shows "i = k"
  by (rule first_unique [of logs]) (use assms in \<open>auto simp: childRel_def childLogs_def split: if_splits\<close>)

lemma root_no_parent: "r \<in> set (rootLogs logs) \<Longrightarrow> (i, r) \<notin> childRel logs"
  by (auto simp: childRel_def childLogs_def rootLogs_def firstLog_def nonempty_opt_def split: if_splits)

lemma no_cycle_below_root:
  assumes "r \<in> set (rootLogs logs)"
  shows "(r, x) \<in> (childRel logs)\<^sup>* \<Longrightarrow> (x, x) \<notin> (childRel logs)\<^sup>+"
proof (induction rule: rtrancl_induct)
  case base
  show ?case using root_no_parent [OF assms] by (meson tranclE)
next
  case (step y x)
  show ?case
  proof
    assume "(x, x) \<in> (childRel logs)\<^sup>+"
    then obtain z where z: "(x, z) \<in> (childRel logs)\<^sup>*" "(z, x) \<in> childRel logs" by (meson tranclD2)
    then have "z = y" using parent_unique step.hyps(2) by blast
    then have "(y, y) \<in> (childRel logs)\<^sup>+" using z(1) step.hyps(2) by (meson rtrancl_into_trancl2)
    then show False using step.IH by blast
  qed
qed

lemma root_ends:
  assumes "r \<in> set (rootLogs logs)"
  shows "ends_within (childLogs logs) (length logs + 1) r"
proof -
  let ?R = "{(i, j) \<in> childRel logs. (r, i) \<in> (childRel logs)\<^sup>*}"
  have sub: "?R \<subseteq> {..<length logs} \<times> {..<length logs}" using childRel_range by fastforce
  then have fin: "finite ?R" by (rule finite_subset) simp
  have acyc: "acyclic ?R"
  proof (rule acyclicI, rule allI, rule notI)
    fix x assume x: "(x, x) \<in> ?R\<^sup>+"
    then have "(r, x) \<in> (childRel logs)\<^sup>*" by (auto dest: tranclD)
    moreover have "(x, x) \<in> (childRel logs)\<^sup>+" using x by (rule trancl_mono) blast
    ultimately show False using no_cycle_below_root [OF assms] by blast
  qed
  have "?R\<^sup>+ `` {id r} \<subseteq> {..<length logs}"
  proof
    fix x assume "x \<in> ?R\<^sup>+ `` {id r}"
    then obtain y where "(y, x) \<in> ?R" by (auto dest: tranclD2)
    then show "x \<in> {..<length logs}" using sub by blast
  qed
  then have "card (?R\<^sup>+ `` {id r}) \<le> length logs"
    using card_mono [of "{..<length logs}"] by simp
  then have few: "card (?R\<^sup>+ `` {id r}) < length logs + 1" by simp
  show ?thesis
  proof (rule ends_within_card [where R = ?R and key = id
        and P = "\<lambda>i. (r, i) \<in> (childRel logs)\<^sup>* \<and> i < length logs"])
    show "finite ?R" by (rule fin)
    show "acyclic ?R" by (rule acyc)
    show "card (?R\<^sup>+ `` {id r}) < length logs + 1" by (rule few)
  next
    fix i j
    assume i: "(r, i) \<in> (childRel logs)\<^sup>* \<and> i < length logs" and j: "j \<in> set (childLogs logs i)"
    then have e: "(i, j) \<in> childRel logs" by (simp add: childRel_def)
    then have "(r, j) \<in> (childRel logs)\<^sup>*" using i by (meson rtrancl_into_rtrancl)
    then show "(id i, id j) \<in> ?R \<and> (r, j) \<in> (childRel logs)\<^sup>* \<and> j < length logs"
      using i e childRel_range [OF e] by simp
  next
    show "(r, r) \<in> (childRel logs)\<^sup>* \<and> r < length logs" using assms by (simp add: rootLogs_def)
  qed
qed

lemma buildLog_fuel:
  "ends_within (childLogs logs) n i \<Longrightarrow> n \<le> m \<Longrightarrow> buildLog logs m i = buildLog logs n i"
proof (induction n arbitrary: i m)
  case (Suc n)
  then obtain k where "m = Suc k" "n \<le> k" by (cases m) auto
  moreover have "buildLog logs k j = buildLog logs n j" if "j \<in> set (childLogs logs i)" for j
    by (rule Suc.IH) (use Suc.prems(1) that \<open>n \<le> k\<close> in simp_all)
  ultimately show ?case by simp
qed simp

section \<open>Circles\<close>

fun ids_below :: "log_tree \<Rightarrow> string set" where
  "ids_below (LogNode it circle cs) = (\<Union>c \<in> set cs. insert (tree_id c) (ids_below c))"

text \<open>Along every path the ids differ, and siblings have ids of their own.\<close>

fun circle_free :: "log_tree \<Rightarrow> bool" where
  "circle_free (LogNode it circle cs) =
     (log_id it \<notin> ids_below (LogNode it circle cs) \<and> distinct (map tree_id cs) \<and>
      (\<forall>c \<in> set cs. tree_id c \<noteq> [] \<and> circle_free c))"

lemma tree_id_simps [simp]: "tree_id (LogNode it circle cs) = log_id it"
  by (simp add: tree_id_def)

lemma tree_id_remove [simp]: "tree_id (remove_id r t) = tree_id t"
  by (cases t) (simp add: Let_def)

lemma ids_below_remove: "ids_below (remove_id r t) \<subseteq> ids_below t - {r}"
proof (induction r t rule: remove_id.induct)
  case (1 r it circle cs)
  show ?case
  proof
    fix x assume "x \<in> ids_below (remove_id r (LogNode it circle cs))"
    then obtain c where c: "c \<in> set cs" "tree_id c \<noteq> r" "x = tree_id c \<or> x \<in> ids_below (remove_id r c)"
      by (auto simp: Let_def)
    then have "x = tree_id c \<or> x \<in> ids_below c - {r}" using 1 by (auto simp: Let_def)
    then show "x \<in> ids_below (LogNode it circle cs) - {r}" using c by auto
  qed
qed

lemma keepFirst_distinct:
  "distinct (map tree_id (keepFirst added cs)) \<and>
   (\<forall>c \<in> set (keepFirst added cs). tree_id c \<noteq> [] \<and> tree_id c \<notin> set added)"
proof (induction added cs rule: keepFirst.induct)
  case (2 added c cs)
  show ?case
  proof (cases "tree_id c \<noteq> [] \<and> tree_id c \<notin> set added")
    case True
    have "tree_id c \<notin> set (map tree_id (keepFirst (added @ [tree_id c]) cs))"
    proof
      assume "tree_id c \<in> set (map tree_id (keepFirst (added @ [tree_id c]) cs))"
      then obtain d where d: "d \<in> set (keepFirst (added @ [tree_id c]) cs)" "tree_id c = tree_id d"
        unfolding list.set_map by (rule imageE)
      then have "tree_id d \<notin> set (added @ [tree_id c])" using 2(1) [OF True] by blast
      then show False using d(2) by simp
    qed
    moreover have "keepFirst added (c # cs) = c # keepFirst (added @ [tree_id c]) cs"
      using True by (simp only: keepFirst.simps simp_thms if_True)
    moreover have "\<forall>d \<in> set (keepFirst (added @ [tree_id c]) cs). tree_id d \<noteq> [] \<and> tree_id d \<notin> set added"
      using 2(1) [OF True] by (metis UnCI set_append)
    ultimately show ?thesis
      using 2(1) [OF True] True by (metis distinct.simps(2) list.simps(9) set_ConsD)
  next
    case False
    then have "keepFirst added (c # cs) = keepFirst added cs" by (simp only: keepFirst.simps simp_thms if_False)
    then show ?thesis using 2(2) [OF False] by metis
  qed
qed simp

lemma tree_id_removeCircle [simp]: "tree_id (removeCircleLogItem t) = tree_id t"
  by (cases t) (simp add: removeCircleLogItem.simps Let_def)

lemma removeCircle_ok:
  "ids_below (removeCircleLogItem t) \<subseteq> ids_below t \<and> circle_free (removeCircleLogItem t)"
proof (induction t rule: removeCircleLogItem.induct)
  case (1 it circle cs)
  let ?id = "log_id it"
  define kept where "kept = filter (\<lambda>c. tree_id c \<noteq> ?id) (removeRepeatedSiblings cs)"
  let ?f = "\<lambda>c. removeCircleLogItem (remove_id ?id c)"
  show ?case
  proof (cases "cs = []")
    case False
    then have eq: "removeCircleLogItem (LogNode it circle cs) =
        LogNode it (circle \<or> (\<exists>c \<in> set (removeRepeatedSiblings cs). tree_id c = ?id)) (map ?f kept)"
      by (simp add: removeCircleLogItem.simps Let_def kept_def)
    have kept: "c \<in> set cs \<and> tree_id c \<noteq> ?id \<and> tree_id c \<noteq> []" if "c \<in> set kept" for c
      using that set_keepFirst [of "[]" cs] keepFirst_distinct [of "[]" cs]
      by (auto simp: kept_def removeRepeatedSiblings_def)
    have IH: "ids_below (?f c) \<subseteq> ids_below c - {?id} \<and> circle_free (?f c)" if "c \<in> set kept" for c
      using 1 [OF False refl refl, of c] that ids_below_remove [of ?id c] by (fastforce simp: kept_def)
    have "distinct (map tree_id kept)"
      using keepFirst_distinct [of "[]" cs] by (auto simp: kept_def removeRepeatedSiblings_def distinct_map_filter)
    then have "distinct (map tree_id (map ?f kept))" by (simp add: o_def)
    moreover have "ids_below (LogNode it b (map ?f kept)) \<subseteq> ids_below (LogNode it circle cs) - {?id}" for b
    proof
      fix x assume "x \<in> ids_below (LogNode it b (map ?f kept))"
      then obtain c where c: "c \<in> set kept" "x = tree_id c \<or> x \<in> ids_below (?f c)" by auto
      then have "x \<noteq> ?id \<and> (x = tree_id c \<or> x \<in> ids_below c)"
        using kept [OF c(1)] IH [OF c(1)] by (elim disjE conjE) (simp, blast)
      then show "x \<in> ids_below (LogNode it circle cs) - {?id}" using kept [OF c(1)] by auto
    qed
    ultimately show ?thesis using eq kept IH by (auto simp del: ids_below.simps)
  qed (simp add: removeCircleLogItem.simps)
qed

section \<open>The latest entry of a human input node\<close>

definition latest_in :: "trace list \<Rightarrow> (string \<rightharpoonup> trace) \<Rightarrow> bool" where
  "latest_in xs mp =
     (\<forall>k. (mp k = None \<longrightarrow> (\<forall>x \<in> set xs. isHuman x \<longrightarrow> trace_id x \<noteq> k)) \<and>
          (\<forall>e. mp k = Some e \<longrightarrow> e \<in> set xs \<and> isHuman e \<and> trace_id e = k \<and>
             (\<forall>x \<in> set xs. isHuman x \<longrightarrow> trace_id x = k \<longrightarrow> nt_index (tr_node x) \<le> nt_index (tr_node e))))"

lemma latest_in_step:
  assumes "latest_in xs mp"
  shows "latest_in (xs @ [x]) (noteLatest x mp)"
proof (cases "isHuman x")
  case False
  then show ?thesis using assms by (simp add: latest_in_def noteLatest_def)
next
  case True
  have old: "mp k = None \<Longrightarrow> \<forall>x \<in> set xs. isHuman x \<longrightarrow> trace_id x \<noteq> k"
    "mp k = Some e \<Longrightarrow> e \<in> set xs \<and> isHuman e \<and> trace_id e = k \<and>
      (\<forall>x \<in> set xs. isHuman x \<longrightarrow> trace_id x = k \<longrightarrow> nt_index (tr_node x) \<le> nt_index (tr_node e))" for k e
    using assms by (simp_all add: latest_in_def)
  show ?thesis
    unfolding latest_in_def
  proof (intro allI conjI impI)
    fix k
    assume "noteLatest x mp k = None"
    then show "\<forall>y \<in> set (xs @ [x]). isHuman y \<longrightarrow> trace_id y \<noteq> k"
      using old(1) [of k] True by (auto simp: noteLatest_def split: option.splits if_splits)
  next
    fix k e
    assume e: "noteLatest x mp k = Some e"
    show "e \<in> set (xs @ [x])" and "isHuman e" and "trace_id e = k"
      using e True old(2) [of k e] by (auto simp: noteLatest_def split: option.splits if_splits)
    show "\<forall>y \<in> set (xs @ [x]). isHuman y \<longrightarrow> trace_id y = k \<longrightarrow> nt_index (tr_node y) \<le> nt_index (tr_node e)"
    proof (cases "mp (trace_id x)")
      case None
      then show ?thesis
        using e True old(1) [of "trace_id x"] old(2) [of k e]
        by (cases "k = trace_id x") (auto simp: noteLatest_def)
    next
      case (Some f)
      then show ?thesis
        using e True old(2) [of "trace_id x" f] old(2) [of k e]
        by (cases "k = trace_id x") (auto simp: noteLatest_def split: if_splits)
    qed
  qed
qed

lemma latest_in_fold: "latest_in xs (fold noteLatest xs Map.empty)"
proof (induction xs rule: rev_induct)
  case (snoc x xs)
  then show ?case using latest_in_step by simp
qed (simp add: latest_in_def)

lemma pushLatest_spec:
  "latest_in list mp \<Longrightarrow> set rest \<subseteq> set list \<Longrightarrow>
    filter (\<lambda>e. \<not> isHuman e) (pushLatest mp added rest) = filter (\<lambda>e. \<not> isHuman e) rest \<and>
    distinct (map trace_id (filter isHuman (pushLatest mp added rest))) \<and>
    trace_id ` set (filter isHuman (pushLatest mp added rest)) = trace_id ` set (filter isHuman rest) - set added \<and>
    (\<forall>e \<in> set (pushLatest mp added rest). isHuman e \<longrightarrow> mp (trace_id e) = Some e)"
proof (induction mp added rest rule: pushLatest.induct)
  case (2 mp added item rest)
  note mp = 2(5)
  have sub: "set rest \<subseteq> set list" and item: "item \<in> set list" using 2(6) by simp_all
  consider (plain) "\<not> isHuman item" | (skip) "isHuman item" "trace_id item \<in> set added"
    | (push) "isHuman item" "trace_id item \<notin> set added" by blast
  then show ?case
  proof cases
    case plain
    then show ?thesis using 2(4) [OF _ mp sub] by simp
  next
    case skip
    then show ?thesis using 2(1) [OF skip mp sub] by auto
  next
    case push
    have "mp (trace_id item) \<noteq> None" using mp push(1) item unfolding latest_in_def by blast
    then obtain latest where l: "mp (trace_id item) = Some latest" by blast
    then have lat: "isHuman latest" "trace_id latest = trace_id item" using mp by (auto simp: latest_in_def)
    from 2(3) [OF push l mp sub] show ?thesis using push l lat by auto
  qed
qed simp

section \<open>Rounds\<close>

lemma details_withDetails [simp]: "details (withDetails t ds) = Some ds"
  by (cases t) simp

lemma rowAt_pushRow:
  assumes "0 \<le> i"
  shows "rowAt (pushRow i x rows) k = rowAt rows k @ (if k = i then [x] else [])"
proof -
  let ?w = "rows @ replicate (Suc (nat i) - length rows) None"
  have len: "nat i < length ?w" by simp
  have old: "(case ?w ! j of None \<Rightarrow> [] | Some r \<Rightarrow> r) = rowAt rows (int j)" if "j < length ?w" for j
    using that by (auto simp: rowAt_def nth_append)
  have past: "rowAt rows (int j) = []" if "length ?w \<le> j" for j
    using that by (simp add: rowAt_def)
  show ?thesis
  proof (cases "0 \<le> k")
    case True
    then show ?thesis
      using assms len old [of "nat k"] old [of "nat i"] past [of "nat k"]
      by (cases "nat k < length ?w")
         (auto simp: pushRow_def Let_def rowAt_def [of "_[_ := _]"] nth_list_update)
  next
    case False
    then show ?thesis using assms by (simp add: rowAt_def)
  qed
qed

definition roundless :: "trace \<Rightarrow> bool" where
  "roundless e = (\<exists>mt. nt_execution_metadata (tr_node e) = Some mt \<and> em_iteration_index mt = None)"

fun roundOf :: "trace \<Rightarrow> int option" where
  "roundOf e = metaOf em_iteration_index e"

lemma rounds_indexed:
  "list_all (\<lambda>e. \<exists>i \<ge> 0. roundOf e = Some i) cs \<Longrightarrow>
   rowAt (fst (fold addIterationChild cs (rows, l))) k = rowAt rows k @ filter (\<lambda>e. roundOf e = Some k) cs"
proof (induction cs arbitrary: rows l)
  case (Cons c cs)
  then obtain i where i: "0 \<le> i" "roundOf c = Some i" by auto
  then obtain mt where "nt_execution_metadata (tr_node c) = Some mt" "em_iteration_index mt = Some i"
    by (auto simp: metaOf_def bind_eq_Some_conv)
  then have "addIterationChild c (rows, l) = (pushRow i c rows, i)" by (simp add: addIterationChild_def)
  then show ?case using Cons i rowAt_pushRow [OF i(1), of c rows k] by auto
qed simp

text \<open>The round an entry without a number joins.\<close>

definition joinRound :: "trace \<Rightarrow> trace list list \<Rightarrow> trace list list" where
  "joinRound e gs =
     (if gs = [] \<or> trace_id e \<in> trace_id ` set (last gs) then gs @ [[e]]
      else butlast gs @ [last gs @ [e]])"

lemma pushRow_new: "pushRow (int (length gs)) e (map Some gs) = map Some (gs @ [[e]])"
  by (simp add: pushRow_def nth_append list_update_append)

lemma pushRow_last:
  "gs \<noteq> [] \<Longrightarrow> pushRow (int (length gs) - 1) e (map Some gs) = map Some (butlast gs @ [last gs @ [e]])"
  by (cases gs rule: rev_cases) (auto simp: pushRow_def nth_append list_update_append)

lemma rowAt_last: "gs \<noteq> [] \<Longrightarrow> rowAt (map Some gs) (int (length gs) - 1) = last gs"
  by (cases gs rule: rev_cases) (auto simp: rowAt_def nth_append)

lemma addIterationChild_roundless:
  assumes "roundless e"
  shows "addIterationChild e (map Some gs, int (length gs) - 1) =
    (map Some (joinRound e gs), int (length (joinRound e gs)) - 1)"
proof -
  obtain mt where mt: "nt_execution_metadata (tr_node e) = Some mt" "em_iteration_index mt = None"
    using assms by (auto simp: roundless_def)
  show ?thesis
  proof (cases "gs = []")
    case True
    then show ?thesis using mt pushRow_new [of "[]" e] by (simp add: addIterationChild_def joinRound_def)
  next
    case False
    then show ?thesis
      using mt rowAt_last [OF False] pushRow_new [of gs e] pushRow_last [OF False, of e]
      by (auto simp: addIterationChild_def joinRound_def list_ex_iff image_iff Suc_le_eq)
  qed
qed

lemma joinRound_ok:
  "\<forall>g \<in> set gs. distinct (map trace_id g) \<Longrightarrow>
   concat (joinRound e gs) = concat gs @ [e] \<and> (\<forall>g \<in> set (joinRound e gs). distinct (map trace_id g))"
  by (cases gs rule: rev_cases) (auto simp: joinRound_def)

lemma rounds_unnumbered:
  "list_all roundless cs \<Longrightarrow> \<forall>g \<in> set gs. distinct (map trace_id g) \<Longrightarrow>
   \<exists>hs. fst (fold addIterationChild cs (map Some gs, int (length gs) - 1)) = map Some hs \<and>
     concat hs = concat gs @ cs \<and> (\<forall>g \<in> set hs. distinct (map trace_id g))"
proof (induction cs arbitrary: gs)
  case (Cons c cs)
  then have ok: "\<forall>g \<in> set (joinRound c gs). distinct (map trace_id g)"
    "concat (joinRound c gs) = concat gs @ [c]" "list_all roundless cs" "roundless c"
    using joinRound_ok [of gs c] by simp_all
  show ?case using Cons.IH [OF ok(3) ok(1)] addIterationChild_roundless [OF ok(4), of gs] ok(2) by simp
qed simp

section \<open>Properties\<close>

text \<open>C11: the agent log becomes a forest without circles. However the messages refer to each other,
  building the trees ends within the number of messages (more depth changes nothing), and after the
  clean-up no id repeats along a path or among siblings.\<close>

theorem agent_log_tree_is_complete_and_circle_free:
  "(\<forall>more. map (buildLog logs (length logs + 1 + more)) (rootLogs logs) = listToTree logs) \<and>
   list_all circle_free (map removeCircleLogItem (listToTree logs))"
proof
  show "\<forall>more. map (buildLog logs (length logs + 1 + more)) (rootLogs logs) = listToTree logs"
    unfolding listToTree_def by (intro allI map_cong refl buildLog_fuel root_ends) simp_all
  show "list_all circle_free (map removeCircleLogItem (listToTree logs))"
    using removeCircle_ok by (simp add: list_all_iff)
qed

text \<open>a human input node shows its latest state once. Other entries keep their order, every
  human input node of the log is still there, exactly once, and the entry shown has the highest
  index among the entries of its node.\<close>

theorem human_input_shows_latest_state:
  "filter (\<lambda>e. \<not> isHuman e) (formatHumanInputNode xs) = filter (\<lambda>e. \<not> isHuman e) xs \<and>
   distinct (map trace_id (filter isHuman (formatHumanInputNode xs))) \<and>
   trace_id ` set (filter isHuman (formatHumanInputNode xs)) = trace_id ` set (filter isHuman xs) \<and>
   (\<forall>e \<in> set (formatHumanInputNode xs). isHuman e \<longrightarrow> e \<in> set xs \<and>
      (\<forall>x \<in> set xs. isHuman x \<longrightarrow> trace_id x = trace_id e \<longrightarrow> nt_index (tr_node x) \<le> nt_index (tr_node e)))"
proof (cases "list_ex isHuman xs")
  case False
  then have "filter isHuman xs = []" by (auto simp: list_ex_iff filter_empty_conv)
  then show ?thesis using False by (auto simp: formatHumanInputNode_def list_ex_iff)
next
  case True
  let ?mp = "fold noteLatest xs Map.empty"
  have eq: "formatHumanInputNode xs = pushLatest ?mp [] xs" using True by (simp add: formatHumanInputNode_def)
  have latest: "e \<in> set xs \<and> (\<forall>x \<in> set xs. isHuman x \<longrightarrow> trace_id x = trace_id e \<longrightarrow>
      nt_index (tr_node x) \<le> nt_index (tr_node e))" if "?mp (trace_id e) = Some e" for e
    using latest_in_fold [of xs] that unfolding latest_in_def by blast
  show ?thesis
    unfolding eq using pushLatest_spec [OF latest_in_fold subset_refl, of xs "[]"] latest by simp
qed

text \<open>the rounds of an iteration partition its entries. Entries with a round number are in the
  row of that number, in order. Without numbers the rows follow each other, together hold all
  entries in order, and no row runs a node twice.\<close>

theorem iteration_rounds_partition_entries:
  "(list_all (\<lambda>e. \<exists>i \<ge> 0. roundOf e = Some i) cs \<longrightarrow>
      (\<exists>rows. details (addChildrenToIterationNode it cs) = Some rows \<and>
         (\<forall>k. rowAt rows k = filter (\<lambda>e. roundOf e = Some k) cs))) \<and>
   (list_all roundless cs \<longrightarrow>
      (\<exists>hs. details (addChildrenToIterationNode it cs) = Some (map Some hs) \<and> concat hs = cs \<and>
         (\<forall>g \<in> set hs. distinct (map trace_id g))))"
  using rounds_indexed [of cs "[]" "-1"] rounds_unnumbered [of cs "[]"]
  by (auto simp: addChildrenToIterationNode_def rowAt_def [of "[]"])

definition sample_entry :: "string \<Rightarrow> BlockEnum \<Rightarrow> int \<Rightarrow> trace" where
  "sample_entry nid ty i =
     Trace \<lparr>nt_id = nid, nt_index = i, nt_node_id = nid, nt_node_type = ty, nt_title = nid, nt_outputs = None,
       nt_status = Succeeded, nt_error = None, nt_execution_metadata = Some no_exec_metadata,
       nt_iterator_length = 0, nt_loop_length = 0, nt_retry_index = None, nt_parallel_id = None,
       nt_parallel_start_node_id = None, nt_parent_parallel_id = None, nt_parent_parallel_start_node_id = None,
       nt_rest = []\<rparr> [] None None"

lemma sample_entry_simps [simp]:
  "trace_id (sample_entry n ty i) = n" "isHuman (sample_entry n ty i) = (ty = HumanInput)"
  "nt_index (tr_node (sample_entry n ty i)) = i" "roundless (sample_entry n ty i)"
  by (simp_all add: sample_entry_def isHuman_def roundless_def no_exec_metadata_def)

theorem human_input_shows_latest_state_witness:
  "sample_entry ''h'' HumanInput 1 \<notin> set (formatHumanInputNode
     [sample_entry ''h'' HumanInput 1, sample_entry ''a'' Answer 2, sample_entry ''h'' HumanInput 3])"
proof
  let ?xs = "[sample_entry ''h'' HumanInput 1, sample_entry ''a'' Answer 2, sample_entry ''h'' HumanInput 3]"
  let ?e = "sample_entry ''h'' HumanInput 1"
  assume "?e \<in> set (formatHumanInputNode ?xs)"
  then have "\<forall>x \<in> set ?xs. isHuman x \<longrightarrow> trace_id x = trace_id ?e \<longrightarrow> nt_index (tr_node x) \<le> nt_index (tr_node ?e)"
    using human_input_shows_latest_state [of ?xs] sample_entry_simps(2) [of "''h''" HumanInput 1] by blast
  then show False by simp
qed

theorem iteration_rounds_partition_entries_witness:
  "\<exists>hs. details (addChildrenToIterationNode (sample_entry ''it'' Iteration 0)
     [sample_entry ''a'' Code 1, sample_entry ''b'' Code 2, sample_entry ''a'' Code 3]) = Some (map Some hs) \<and>
   concat hs = [sample_entry ''a'' Code 1, sample_entry ''b'' Code 2, sample_entry ''a'' Code 3]"
  using iteration_rounds_partition_entries
    [of "[sample_entry ''a'' Code 1, sample_entry ''b'' Code 2, sample_entry ''a'' Code 3]" "sample_entry ''it'' Iteration 0"]
  by (simp del: roundOf.simps) blast

end
