(* ===== verification/Log_Format.thy ===== *)
theory Log_Format
  imports Parallel_Laws Trace_Laws
begin

text \<open>
  The composition of the formatters of the run log, \<^verbatim>\<open>run/utils/format-log/index.ts\<close>. Deep copies are identities on
  values; an entry that belongs both to a loop and to an iteration of the list is mutated through two lists in the code
  and stands here as two values. \<open>None\<close> is the overflow of the stack on an entry that is a part of itself.
\<close>

section \<open>Loops and iterations\<close>

datatype logged = Logged (lg_trace: trace) (lg_rows: "trace par_tree list option list option")

fun withNode :: "trace \<Rightarrow> NodeTracing \<Rightarrow> trace" where
  "withNode (Trace n al rs ds) m = Trace m al rs ds"

definition withFailure :: "trace \<Rightarrow> trace list \<Rightarrow> trace" where
  "withFailure item childrenNodes =
     (case find (\<lambda>child. nt_status (tr_node child) = Failed) childrenNodes of
        None \<Rightarrow> item
      | Some child \<Rightarrow> withNode item ((tr_node item)\<lparr>nt_status := Failed, nt_error := nt_error (tr_node child)\<rparr>))"

text \<open>\<^verbatim>\<open>details.map\<close> leaves holes alone.\<close>

definition formatRows :: "(string \<Rightarrow> string) \<Rightarrow> trace list option list \<Rightarrow> trace par_tree list option list option" where
  "formatRows t rows =
     those (map (\<lambda>row. case row of None \<Rightarrow> Some None | Some r \<Rightarrow> map_option Some (formatParallelNode t tr_node r)) rows)"

definition withRows :: "(string \<Rightarrow> string) \<Rightarrow> trace \<Rightarrow> logged option" where
  "withRows t item =
     (case details item of
        None \<Rightarrow> Some (Logged item None)
      | Some rows \<Rightarrow> map_option (\<lambda>rs. Logged item (Some rs)) (formatRows t rows))"

definition memberOf :: "(exec_metadata \<Rightarrow> string option) \<Rightarrow> trace \<Rightarrow> trace \<Rightarrow> bool" where
  "memberOf get container child = (metaOf get child = Some (trace_id container))"

definition childIds :: "BlockEnum \<Rightarrow> (exec_metadata \<Rightarrow> string option) \<Rightarrow> trace list \<Rightarrow> string list" where
  "childIds kind get list =
     (let ids = map trace_id (filter (\<lambda>item. nt_node_type (tr_node item) = kind) list)
      in map trace_id (filter (\<lambda>item. case metaOf get item of None \<Rightarrow> False | Some i \<Rightarrow> i \<noteq> [] \<and> i \<in> set ids) list))"

definition formatContainer :: "(string \<Rightarrow> string) \<Rightarrow> trace list \<Rightarrow> trace \<Rightarrow> logged option" where
  "formatContainer t list item =
     (if nt_node_type (tr_node item) = Loop then
        (let childrenNodes = filter (memberOf em_loop_id item) list
         in withRows t (addChildrenToLoopNode (withFailure item childrenNodes) childrenNodes))
      else if nt_node_type (tr_node item) = Iteration then
        (let childrenNodes = filter (memberOf em_iteration_id item) list
         in withRows t (addChildrenToIterationNode (withFailure item childrenNodes) childrenNodes))
      else Some (Logged item None))"

definition outerEntries :: "trace list \<Rightarrow> trace list" where
  "outerEntries list =
     filter (\<lambda>item. trace_id item \<notin> set (childIds Loop em_loop_id list) \<and>
                    trace_id item \<notin> set (childIds Iteration em_iteration_id list)) list"

definition formatIterationAndLoopNode :: "(string \<Rightarrow> string) \<Rightarrow> trace list \<Rightarrow> logged list option" where
  "formatIterationAndLoopNode t list = those (map (formatContainer t list) (outerEntries list))"

section \<open>The whole log\<close>

definition flatEntries :: "NodeTracing list \<Rightarrow> trace list" where
  "flatEntries list = formatRetryNode (formatHumanInputNode (formatAgentNode (sort_key nt_index list)))"

definition formatToTracingNodeList :: "(string \<Rightarrow> string) \<Rightarrow> NodeTracing list \<Rightarrow> logged par_tree list option" where
  "formatToTracingNodeList t list =
     (case formatIterationAndLoopNode t (flatEntries list) of
        None \<Rightarrow> None
      | Some entries \<Rightarrow> formatParallelNode t (\<lambda>l. tr_node (lg_trace l)) entries)"

section \<open>Laws\<close>

text \<open>C12: The parallel tree ends and shows every entry of the list exactly once, provided node ids are distinct, the
  start of a nested branch comes after the start of its parent and an entry inside a branch after the start of the branch:
  the start of a parallel is a heading over branches that begin with a copy of it, and giving out titles loses nothing.
\<close>

theorem parallel_log_shows_every_entry:
  assumes "par_log_ok nt xs"
  shows "\<exists>trees. formatParallelNode t nt xs = Some trees \<and> mset (concat (map par_entries trees)) = mset xs"
  by (rule formatted_entries [OF assms])

definition sample_branch :: "string \<Rightarrow> string \<Rightarrow> string option \<Rightarrow> NodeTracing" where
  "sample_branch nid start parent =
     \<lparr>nt_id = nid, nt_index = 0, nt_node_id = nid, nt_node_type = Answer, nt_title = [], nt_outputs = None,
      nt_status = Succeeded, nt_error = None, nt_execution_metadata = None, nt_iterator_length = 0, nt_loop_length = 0,
      nt_retry_index = None, nt_parallel_id = Some ''p'', nt_parallel_start_node_id = Some start,
      nt_parent_parallel_id = parent, nt_parent_parallel_start_node_id = parent, nt_rest = []\<rparr>"

lemma sample_branch_simps [simp]:
  "nt_node_id (sample_branch n s p) = n" "inParallel (sample_branch n s p)" "parallelStart (sample_branch n s p) = Some s"
  "startsBranch (sample_branch n s p) = (s = n)" "isNested (sample_branch n s p) = nonempty_opt p"
  "parentParallelStart (sample_branch n s p) = p"
  by (simp_all add: sample_branch_def inParallel_def parallelId_def first_of_def parallelStart_def startsBranch_def
      isNested_def parentParallelId_def parentParallelStart_def metaField_def nonempty_opt_def split: option.split)

theorem parallel_log_shows_every_entry_witness:
  "\<exists>trees. formatParallelNode id id [sample_branch ''a'' ''a'' None, sample_branch ''b'' ''a'' None, sample_branch ''c'' ''c'' (Some ''a'')] =
    Some trees \<and> length (concat (map par_entries trees)) = 3"
proof -
  let ?xs = "[sample_branch ''a'' ''a'' None, sample_branch ''b'' ''a'' None, sample_branch ''c'' ''c'' (Some ''a'')]"
  have start: "starter id ?xs 0" by (simp add: starter_def)
  have "opened_before id ?xs i (Some ''a'')" if "0 < i" for i
    unfolding opened_before_def by (rule exI [of _ 0]) (use start that in simp)
  then have "par_log_ok id ?xs"
    by (auto simp: par_log_ok_def less_Suc_eq nonempty_opt_def)
  from parallel_log_shows_every_entry [OF this, of id] obtain trees
    where "formatParallelNode id id ?xs = Some trees" "mset (concat (map par_entries trees)) = mset ?xs" by blast
  moreover from this(2) have "length (concat (map par_entries trees)) = length ?xs" by (rule mset_eq_length)
  ultimately show ?thesis by auto
qed

text \<open>The log does not depend on the order in which the entries arrived: two lists of the same entries whose indices are
  distinct are formatted alike, branches, rounds, agent messages, retries and forms included.
\<close>

theorem log_ignores_arrival_order:
  assumes "mset xs = mset ys" and "distinct (map nt_index xs)"
  shows "formatToTracingNodeList t xs = formatToTracingNodeList t ys"
proof -
  have "inj_on nt_index (set xs)" using assms(2) by (simp add: distinct_map)
  then have "sort_key nt_index xs = sort_key nt_index ys"
    using assms(1) by (intro sort_key_inj_key_eq) simp_all
  then show ?thesis by (simp add: formatToTracingNodeList_def flatEntries_def)
qed

theorem log_ignores_arrival_order_witness:
  "formatToTracingNodeList id [sample_branch ''a'' ''a'' None, (sample_branch ''b'' ''a'' None)\<lparr>nt_index := 1\<rparr>] =
   formatToTracingNodeList id [(sample_branch ''b'' ''a'' None)\<lparr>nt_index := 1\<rparr>, sample_branch ''a'' ''a'' None]"
  by (rule log_ignores_arrival_order) (simp_all add: sample_branch_def add_mset_commute)

end
