(* ===== verification/Text_Search.thy ===== *)
theory Text_Search
  imports Js_Prelude
begin

text \<open>
  String searching as the stream components use it: \<^verbatim>\<open>s.indexOf(p)\<close>, \<^verbatim>\<open>s.trim()\<close>, and the
  law that makes chunked searching possible. A text without an occurrence of a tag can be cut in
  front of its longest suffix that begins the tag: whatever follows, no occurrence starts before
  the cut.
\<close>

section \<open>The index of a pattern\<close>

text \<open>\<^verbatim>\<open>indexOf\<close> answers \<open>None\<close> where JavaScript answers \<^verbatim>\<open>-1\<close>.\<close>

fun indexOf :: "string \<Rightarrow> string \<Rightarrow> nat option" where
  "indexOf p [] = (if p = [] then Some 0 else None)"
| "indexOf p (c # s) = (if startsWith (c # s) p then Some 0 else map_option Suc (indexOf p s))"

lemma startsWith_prefix: "startsWith s p \<longleftrightarrow> prefix p s"
  by (metis append_eq_conv_conj append_take_drop_id prefix_def startsWith_def)

lemma indexOf_SomeD:
  "indexOf p s = Some i \<Longrightarrow> prefix p (drop i s) \<and> i \<le> length s \<and> (\<forall>k < i. \<not> prefix p (drop k s))"
proof (induction s arbitrary: i)
  case (Cons c s)
  show ?case
  proof (cases "startsWith (c # s) p")
    case True
    then show ?thesis using Cons.prems by (simp add: startsWith_prefix)
  next
    case False
    with Cons.prems obtain j where j: "indexOf p s = Some j" "i = Suc j" by auto
    have "\<not> prefix p (drop k (c # s))" if "k < i" for k
      using that j False Cons.IH [OF j(1)] by (cases k) (auto simp: startsWith_prefix)
    then show ?thesis using Cons.IH [OF j(1)] j by simp
  qed
qed (auto split: if_splits)

lemma indexOf_NoneD: "indexOf p s = None \<Longrightarrow> p \<noteq> [] \<and> (\<forall>k. \<not> prefix p (drop k s))"
proof (induction s)
  case (Cons c s)
  then have "\<not> prefix p (c # s)" and "indexOf p s = None"
    by (auto simp: startsWith_prefix split: if_splits)
  with Cons.IH show ?case by (auto simp: drop_Cons split: nat.splits)
qed (auto split: if_splits)

lemma indexOf_skip:
  "\<forall>k < n. \<not> prefix p (drop k s) \<Longrightarrow> n \<le> length s \<Longrightarrow>
   indexOf p s = map_option ((+) n) (indexOf p (drop n s))"
proof (induction n arbitrary: s)
  case 0
  then show ?case by (cases "indexOf p s") auto
next
  case (Suc n)
  obtain c r where s: "s = c # r" using Suc.prems by (cases s) auto
  have "\<not> startsWith s p" using Suc.prems(1) by (auto simp: startsWith_prefix)
  moreover have "\<forall>k < n. \<not> prefix p (drop k r)"
    using Suc.prems(1) s by (metis Suc_less_eq drop_Suc_Cons)
  ultimately show ?case
    using Suc.IH [of r] Suc.prems(2) s by (auto simp: option.map_comp o_def)
qed

lemma indexOf_append:
  assumes "indexOf p s = Some i"
  shows "indexOf p (s @ t) = Some i"
proof -
  have hit: "prefix p (drop i s)" "i \<le> length s" "\<forall>k < i. \<not> prefix p (drop k s)"
    using indexOf_SomeD [OF assms] by auto
  then have fits: "i + length p \<le> length s"
    by (metis add.commute le_diff_conv2 length_drop prefix_length_le)
  have "\<not> prefix p (drop k (s @ t))" if "k < i" for k
  proof
    assume "prefix p (drop k (s @ t))"
    then have "prefix p (drop k s @ t)" using that hit(2) by simp
    then have "prefix p (drop k s)"
      using that fits by (auto simp: prefix_append dest: prefix_length_le)
    then show False using hit(3) that by blast
  qed
  then have "indexOf p (s @ t) = map_option ((+) i) (indexOf p (drop i (s @ t)))"
    using hit(2) by (intro indexOf_skip) auto
  moreover have "prefix p (drop i (s @ t))" using hit(1,2) by (simp add: prefix_prefix)
  then have "indexOf p (drop i (s @ t)) = Some 0"
    by (cases "drop i (s @ t)") (auto simp: startsWith_prefix)
  ultimately show ?thesis by simp
qed

lemma indexOf_short: "length s < length p \<Longrightarrow> indexOf p s = None"
  using indexOf_SomeD [of p s] by (cases "indexOf p s") (auto dest: prefix_length_le)

lemma indexOf_fits: "indexOf p s = Some i \<Longrightarrow> i + length p \<le> length s"
  using indexOf_SomeD [of p s i] prefix_length_le [of p "drop i s"] by auto

lemma startsWith_append [simp]: "startsWith (p @ y) p"
  by (simp add: startsWith_def)

lemma indexOf_after_plain:
  assumes "tag \<noteq> []" and "hd tag \<notin> set x"
  shows "indexOf tag (x @ tag @ y) = Some (length x)"
  using assms(2)
proof (induction x)
  case Nil
  then show ?case using assms(1) startsWith_append [of tag y] by (cases tag) auto
next
  case (Cons c x)
  then have "\<not> startsWith (c # x @ tag @ y) tag" using assms(1) by (cases tag) (auto simp: startsWith_def)
  then show ?case using Cons by simp
qed

lemma indexOf_plain: "tag \<noteq> [] \<Longrightarrow> hd tag \<notin> set x \<Longrightarrow> indexOf tag x = None"
proof (induction x)
  case (Cons c x)
  then show ?case by (cases tag) (auto simp: startsWith_def)
qed simp

section \<open>Holding back the start of a tag\<close>

text \<open>\<^verbatim>\<open>splitAtPotentialTag\<close> tries the suffixes of \<open>s\<close> from the longest that is shorter than the
  tag down to one character.\<close>

fun splitAtLen :: "string \<Rightarrow> string \<Rightarrow> nat \<Rightarrow> string \<times> string" where
  "splitAtLen s tag 0 = (s, [])"
| "splitAtLen s tag (Suc n) =
     (let k = length s - Suc n
      in if startsWith tag (drop k s) then (take k s, drop k s) else splitAtLen s tag n)"

definition splitAtPotentialTag :: "string \<Rightarrow> string \<Rightarrow> string \<times> string" where
  "splitAtPotentialTag s tag = splitAtLen s tag (min (length tag - 1) (length s))"

lemma splitAtLen_parts:
  "splitAtLen s tag n = (safe, held) \<Longrightarrow> n \<le> length s \<Longrightarrow>
   safe @ held = s \<and> length held \<le> n \<and> prefix held tag \<and>
   (\<forall>m \<le> n. length held < m \<longrightarrow> \<not> prefix (drop (length s - m) s) tag)"
proof (induction n)
  case (Suc n)
  show ?case
  proof (cases "startsWith tag (drop (length s - Suc n) s)")
    case True
    then show ?thesis using Suc.prems by (auto simp: Let_def startsWith_prefix)
  next
    case False
    then have "splitAtLen s tag n = (safe, held)" using Suc.prems by (simp add: Let_def)
    from Suc.IH [OF this] Suc.prems(2) False show ?thesis
      by (auto simp: startsWith_prefix le_Suc_eq)
  qed
qed simp

lemma held_is_short:
  "splitAtPotentialTag s tag = (safe, held) \<Longrightarrow> safe @ held = s \<and> length held \<le> length tag - 1 \<and> prefix held tag"
  unfolding splitAtPotentialTag_def by (drule splitAtLen_parts) auto

lemma nothing_starts_before_cut:
  assumes cut: "splitAtPotentialTag s tag = (safe, held)" and none: "indexOf tag s = None"
    and k: "k < length safe"
  shows "\<not> prefix tag (drop k (s @ t))"
proof
  assume occ: "prefix tag (drop k (s @ t))"
  have parts: "safe @ held = s" using held_is_short [OF cut] by blast
  then have len: "length s = length safe + length held" by auto
  have "prefix tag (drop k s @ t)" using occ k len by simp
  then consider "prefix tag (drop k s)" | us where "tag = drop k s @ us"
    by (auto simp: prefix_append)
  then show False
  proof cases
    case 1
    then show False using indexOf_NoneD [OF none] by blast
  next
    case 2
    let ?m = "length s - k"
    have "prefix (drop k s) tag" using 2 by simp
    moreover have "us \<noteq> []" using indexOf_NoneD [OF none] 2 by auto
    then have "length tag \<noteq> 0" and "?m \<le> length tag - 1"
      using arg_cong [OF 2, of length] by (cases us; simp)+
    then have "?m \<le> min (length tag - 1) (length s)" by simp
    moreover have "length held < ?m" using k len by simp
    moreover have "length s - ?m = k" using k len by simp
    ultimately show False
      using splitAtLen_parts [OF cut [unfolded splitAtPotentialTag_def]] by (metis min.cobounded2)
  qed
qed

text \<open>The law of chunked searching: the rest of the search only needs the held text.\<close>

lemma indexOf_held:
  assumes "splitAtPotentialTag s tag = (safe, held)" and "indexOf tag s = None"
  shows "indexOf tag (s @ t) = map_option ((+) (length safe)) (indexOf tag (held @ t))"
proof -
  have s: "s = safe @ held" using held_is_short [OF assms(1)] by simp
  then have "drop (length safe) (s @ t) = held @ t" by simp
  then show ?thesis
    using indexOf_skip [of "length safe" tag "s @ t"] nothing_starts_before_cut [OF assms] s
    by simp
qed

section \<open>Trimming\<close>

definition is_space :: "char \<Rightarrow> bool" where
  "is_space c = ((of_char c :: nat) \<in> {9, 10, 11, 12, 13, 32, 160})"

definition trim :: "string \<Rightarrow> string" where
  "trim s = rev (dropWhile is_space (rev (dropWhile is_space s)))"

end
