(* ===== verification/Think_Filter.thy ===== *)
theory Think_Filter
  imports Text_Search
begin

text \<open>
  The reasoning filter of the command line client, \<^verbatim>\<open>cli/src/sys/io/think-filter.ts\<close>: the batch
  functions that cut \<^verbatim>\<open><think>\<close> blocks out of a finished text, and the class
  \<^verbatim>\<open>ThinkChunkFilter\<close> that does it while the text arrives in chunks. The two output streams are
  the lists of the strings written to them.
\<close>

section \<open>Batch filtering\<close>

definition OPEN :: string where "OPEN = ''<think>''"

definition CLOSE :: string where "CLOSE = ''</think>''"

definition CR :: char where "CR = CHR 0x0D"

definition LF :: char where "LF = CHR 0x0A"

lemma tag_lengths [simp]: "length OPEN = 7" "length CLOSE = 8"
  by (simp_all add: OPEN_def CLOSE_def)

text \<open>The tail \<^verbatim>\<open>\r?\n?\<close> of the regular expression.\<close>

fun skip_cr_lf :: "string \<Rightarrow> string" where
  "skip_cr_lf s =
     (let s1 = (if startsWith s [CR] then drop 1 s else s)
      in if startsWith s1 [LF] then drop 1 s1 else s1)"

lemma length_skip_cr_lf: "length (skip_cr_lf s) \<le> length s"
  by (auto simp: Let_def)

declare skip_cr_lf.simps [simp del]

text \<open>
  The matches of \<^verbatim>\<open>/<think>([\s\S]*?)<\/think>\r?\n?/g\<close>: the leftmost opening tag, the shortest
  content up to a closing tag. The list pairs the text before each match with the captured content;
  the rest is the text after the last match.
\<close>

function think_matches :: "string \<Rightarrow> (string \<times> string) list \<times> string" where
  "think_matches s =
     (case indexOf OPEN s of
        None \<Rightarrow> ([], s)
      | Some i \<Rightarrow>
          (case indexOf CLOSE (drop (i + 7) s) of
             None \<Rightarrow> ([], s)
           | Some j \<Rightarrow>
               (let (ms, rest) = think_matches (skip_cr_lf (drop (i + 7 + j + 8) s))
                in ((take i s, take j (drop (i + 7) s)) # ms, rest))))"
  by pat_completeness auto

lemma after_block_shorter:
  "indexOf OPEN s = Some i \<Longrightarrow> length (skip_cr_lf (drop (i + 7 + j + 8) s)) < length s"
  using length_skip_cr_lf [of "drop (i + 7 + j + 8) s"] indexOf_fits [of OPEN s i] by simp

termination think_matches
proof (relation "measure length")
qed (simp_all only: wf_measure in_measure after_block_shorter)

declare think_matches.simps [simp del]

definition stripThinkBlocks :: "string \<Rightarrow> string" where
  "stripThinkBlocks s = (let (ms, rest) = think_matches s in concat (map fst ms) @ rest)"

record extracted =
  clean :: string
  thinking :: string

definition extractThinkBlocks :: "string \<Rightarrow> extracted" where
  "extractThinkBlocks s =
     (let (ms, rest) = think_matches s;
          parts = map (\<lambda>(_, content). OPEN @ [LF] @ trim content @ [LF] @ CLOSE) ms
      in \<lparr>clean = concat (map fst ms) @ rest, thinking = join ([LF] @ ''---'' @ [LF]) parts\<rparr>)"

record filtered_outputs =
  fo_outputs :: jsobj
  fo_thinking :: string

fun filter_entry :: "bool \<Rightarrow> jsobj \<times> string list \<Rightarrow> string \<times> jsval \<Rightarrow> jsobj \<times> string list" where
  "filter_entry showThink (cl, thoughts) (key, JStr value) =
     (let ex = extractThinkBlocks value
      in (obj_set key (JStr (clean ex)) cl,
          if showThink \<and> thinking ex \<noteq> [] then thoughts @ [thinking ex] else thoughts))"
| "filter_entry showThink (cl, thoughts) (key, value) = (obj_set key value cl, thoughts)"

definition filterThinkInOutputs :: "jsobj \<Rightarrow> bool \<Rightarrow> filtered_outputs" where
  "filterThinkInOutputs outputs showThink =
     (let (cl, thoughts) = foldl (filter_entry showThink) ([], []) outputs
      in \<lparr>fo_outputs = cl, fo_thinking = join ([LF] @ ''---'' @ [LF]) thoughts\<rparr>)"

section \<open>Filtering a stream\<close>

record think_chunk_filter =
  buf :: string
  inThink :: bool
  showThink :: bool
  outs :: "string list"
  errs :: "string list"

definition newThinkChunkFilter :: "bool \<Rightarrow> think_chunk_filter" where
  "newThinkChunkFilter show = \<lparr>buf = [], inThink = False, showThink = show, outs = [], errs = []\<rparr>"

text \<open>Writing is guarded by the text being non-empty wherever it can be empty.\<close>

definition write_out :: "string \<Rightarrow> think_chunk_filter \<Rightarrow> think_chunk_filter" where
  "write_out w f = (if w = [] then f else f\<lparr>outs := outs f @ [w]\<rparr>)"

definition write_err :: "string \<Rightarrow> think_chunk_filter \<Rightarrow> think_chunk_filter" where
  "write_err w f = (if w = [] \<or> \<not> showThink f then f else f\<lparr>errs := errs f @ [w]\<rparr>)"

definition skip_eol :: "string \<Rightarrow> string" where
  "skip_eol s = (if startsWith s [CR, LF] then drop 2 s else if startsWith s [LF] then drop 1 s else s)"

lemma length_skip_eol: "length (skip_eol s) \<le> length s"
  by (simp add: skip_eol_def)

text \<open>The loop of \<^verbatim>\<open>push\<close>; every turn that does not return consumes at least a tag.\<close>

function push_loop :: "think_chunk_filter \<Rightarrow> string \<Rightarrow> think_chunk_filter" where
  "push_loop f s =
     (if s = [] then f
      else if \<not> inThink f then
        (case indexOf OPEN s of
           None \<Rightarrow>
             (let (safe, held) = splitAtPotentialTag s OPEN
              in (write_out safe f)\<lparr>buf := held\<rparr>)
         | Some idx \<Rightarrow>
             push_loop (write_err (OPEN @ [LF]) ((write_out (take idx s) f)\<lparr>inThink := True\<rparr>))
               (drop (idx + 7) s))
      else
        (case indexOf CLOSE s of
           None \<Rightarrow>
             (let (safe, held) = splitAtPotentialTag s CLOSE
              in (write_err safe f)\<lparr>buf := held\<rparr>)
         | Some idx \<Rightarrow>
             push_loop ((write_err (CLOSE @ [LF]) (write_err (take idx s) f))\<lparr>inThink := False\<rparr>)
               (skip_eol (drop (idx + 8) s))))"
  by pat_completeness auto

lemma after_tag_shorter: "s \<noteq> [] \<Longrightarrow> 0 < n \<Longrightarrow> length (skip_eol (drop n s)) < length s"
  using length_skip_eol [of "drop n s"] by (cases s) (auto simp: le_less_trans less_diff_conv)

termination push_loop
  by (relation "measure (\<lambda>(_, s). length s)") (auto simp: after_tag_shorter)

declare push_loop.simps [simp del]

definition push :: "string \<Rightarrow> think_chunk_filter \<Rightarrow> think_chunk_filter" where
  "push chunk f = push_loop (f\<lparr>buf := []\<rparr>) (buf f @ chunk)"

definition flush :: "think_chunk_filter \<Rightarrow> think_chunk_filter" where
  "flush f =
     (if buf f = [] then f
      else if inThink f then (write_err (buf f) f)\<lparr>buf := [], inThink := False\<rparr>
      else (write_out (buf f) f)\<lparr>buf := [], inThink := False\<rparr>)"

definition stream_filter :: "bool \<Rightarrow> string list \<Rightarrow> think_chunk_filter" where
  "stream_filter show chunks = flush (fold push chunks (newThinkChunkFilter show))"

definition out_text :: "think_chunk_filter \<Rightarrow> string" where
  "out_text f = concat (outs f)"

definition err_text :: "think_chunk_filter \<Rightarrow> string" where
  "err_text f = concat (errs f)"

end
