(* ===== verification/Json_Text.thy ===== *)
theory Json_Text
  imports Text_Search
begin

text \<open>
  \<^verbatim>\<open>JSON.stringify\<close> and \<^verbatim>\<open>JSON.parse\<close> on dynamic values, and their round trip. Strings are
  sequences of 8-bit characters, so an escape \<^verbatim>\<open>\uXXXX\<close> is read when it is below 256. The text of
  a number that is not an integer of at most 21 digits (a fraction, an exponent) is the argument
  \<open>repr\<close> of the printer; the reader reads every JSON number. Keys of objects keep the order of
  insertion (the reordering of integer-like keys is not modelled), and a literal beyond the range
  of doubles is read as its real value rather than as infinity.
\<close>

section \<open>Shapes of values\<close>

fun nullish :: "jsval \<Rightarrow> bool" where
  "nullish JUndefined = True"
| "nullish JNull = True"
| "nullish _ = False"

fun is_object :: "jsval \<Rightarrow> bool" where
  "is_object (JObj _) = True"
| "is_object (JArr _) = True"
| "is_object _ = False"

fun plain_object :: "jsval \<Rightarrow> bool" where
  "plain_object (JObj _) = True"
| "plain_object _ = False"

fun str_of :: "jsval \<Rightarrow> string option" where
  "str_of (JStr s) = Some s"
| "str_of _ = None"

section \<open>Printing\<close>

definition hex_digit :: "nat \<Rightarrow> char" where
  "hex_digit d = (if d < 10 then char_of (48 + d) else char_of (87 + d))"

definition esc_char :: "char \<Rightarrow> string" where
  "esc_char c =
     (let n = (of_char c :: nat) in
      if n = 34 then [CHR 0x5C, CHR 0x22]
      else if n = 92 then [CHR 0x5C, CHR 0x5C]
      else if n = 8 then [CHR 0x5C, CHR ''b'']
      else if n = 9 then [CHR 0x5C, CHR ''t'']
      else if n = 10 then [CHR 0x5C, CHR ''n'']
      else if n = 12 then [CHR 0x5C, CHR ''f'']
      else if n = 13 then [CHR 0x5C, CHR ''r'']
      else if n < 32 then [CHR 0x5C, CHR ''u'', CHR ''0'', CHR ''0'', hex_digit (n div 16), hex_digit (n mod 16)]
      else [c])"

definition str_text :: "string \<Rightarrow> string" where
  "str_text s = [CHR 0x22] @ concat (map esc_char s) @ [CHR 0x22]"

fun num_text :: "(real \<Rightarrow> string) \<Rightarrow> jsnum \<Rightarrow> string" where
  "num_text repr (Finite x) =
     (if x = of_int \<lfloor>x\<rfloor> \<and> \<bar>x\<bar> < 10 ^ 21 then string_of_int \<lfloor>x\<rfloor> else repr x)"
| "num_text repr _ = ''null''"

fun json_text :: "(real \<Rightarrow> string) \<Rightarrow> jsval \<Rightarrow> string"
  and json_items :: "(real \<Rightarrow> string) \<Rightarrow> jsval list \<Rightarrow> string list"
  and json_fields :: "(real \<Rightarrow> string) \<Rightarrow> (string \<times> jsval) list \<Rightarrow> string list" where
  "json_text repr JUndefined = ''null''"
| "json_text repr JNull = ''null''"
| "json_text repr (JBool b) = (if b then ''true'' else ''false'')"
| "json_text repr (JNum x) = num_text repr x"
| "json_text repr (JStr s) = str_text s"
| "json_text repr (JArr vs) = ''['' @ join '','' (json_items repr vs) @ '']''"
| "json_text repr (JObj ob) = ''{'' @ join '','' (json_fields repr ob) @ ''}''"
| "json_items repr [] = []"
| "json_items repr (v # vs) = json_text repr v # json_items repr vs"
| "json_fields repr [] = []"
| "json_fields repr ((k, v) # ob) =
     (if v = JUndefined then json_fields repr ob
      else (str_text k @ '':'' @ json_text repr v) # json_fields repr ob)"

section \<open>Reading\<close>

definition json_ws :: "char \<Rightarrow> bool" where
  "json_ws c = (c \<in> {CHR '' '', CHR 0x09, CHR 0x0A, CHR 0x0D})"

definition skip_ws :: "string \<Rightarrow> string" where
  "skip_ws s = dropWhile json_ws s"

definition is_digit :: "char \<Rightarrow> bool" where
  "is_digit c = (48 \<le> (of_char c :: nat) \<and> (of_char c :: nat) \<le> 57)"

definition digit_val :: "char \<Rightarrow> nat" where
  "digit_val c = of_char c - 48"

definition digits_val :: "string \<Rightarrow> nat" where
  "digits_val s = foldl (\<lambda>n c. 10 * n + digit_val c) 0 s"

definition hex_val :: "char \<Rightarrow> nat option" where
  "hex_val c =
     (let n = (of_char c :: nat) in
      if 48 \<le> n \<and> n \<le> 57 then Some (n - 48)
      else if 97 \<le> n \<and> n \<le> 102 then Some (n - 87)
      else if 65 \<le> n \<and> n \<le> 70 then Some (n - 55)
      else None)"

definition hex4 :: "char \<Rightarrow> char \<Rightarrow> char \<Rightarrow> char \<Rightarrow> char option" where
  "hex4 a b c d =
     (case (hex_val a, hex_val b, hex_val c, hex_val d) of
        (Some 0, Some 0, Some h, Some l) \<Rightarrow> Some (char_of (16 * h + l))
      | _ \<Rightarrow> None)"

definition esc_val :: "char \<Rightarrow> char option" where
  "esc_val e =
     (if e = CHR 0x22 \<or> e = CHR 0x5C \<or> e = CHR ''/'' then Some e
      else if e = CHR ''b'' then Some (CHR 0x08)
      else if e = CHR ''t'' then Some (CHR 0x09)
      else if e = CHR ''n'' then Some (CHR 0x0A)
      else if e = CHR ''f'' then Some (CHR 0x0C)
      else if e = CHR ''r'' then Some (CHR 0x0D)
      else None)"

definition cons_fst :: "'a \<Rightarrow> ('a list \<times> 'b) option \<Rightarrow> ('a list \<times> 'b) option" where
  "cons_fst x r = map_option (apfst ((#) x)) r"

text \<open>The characters of a string literal after its opening quote.\<close>

fun read_str :: "string \<Rightarrow> (string \<times> string) option" where
  "read_str [] = None"
| "read_str (c # s) =
     (if c = CHR 0x22 then Some ([], s)
      else if c = CHR 0x5C then
        (case s of
           [] \<Rightarrow> None
         | e # s1 \<Rightarrow>
             if e = CHR ''u'' then
               (case s1 of
                  h1 # h2 # h3 # h4 # s2 \<Rightarrow>
                    (case hex4 h1 h2 h3 h4 of None \<Rightarrow> None | Some ch \<Rightarrow> cons_fst ch (read_str s2))
                | _ \<Rightarrow> None)
             else (case esc_val e of None \<Rightarrow> None | Some ch \<Rightarrow> cons_fst ch (read_str s1)))
      else if (of_char c :: nat) < 32 then None
      else cons_fst c (read_str s))"

text \<open>A number: an integer part without superfluous zeros, an optional fraction and exponent.\<close>

definition read_digits :: "string \<Rightarrow> string \<times> string" where
  "read_digits s = (takeWhile is_digit s, dropWhile is_digit s)"

definition read_frac :: "string \<Rightarrow> (real \<times> string) option" where
  "read_frac s =
     (case s of
        [] \<Rightarrow> Some (0, s)
      | c # r \<Rightarrow>
          if c = CHR ''.'' then
            (let (ds, r') = read_digits r
             in if ds = [] then None else Some (real (digits_val ds) / 10 ^ length ds, r'))
          else Some (0, s))"

definition read_exp :: "string \<Rightarrow> (real \<times> string) option" where
  "read_exp s =
     (case s of
        [] \<Rightarrow> Some (1, s)
      | c # r \<Rightarrow>
          if c = CHR ''e'' \<or> c = CHR ''E'' then
            (let neg = startsWith r ''-'';
                 r1 = (if neg \<or> startsWith r ''+'' then drop 1 r else r);
                 (ds, r') = read_digits r1
             in if ds = [] then None
                else Some (if neg then 1 / 10 ^ digits_val ds else 10 ^ digits_val ds, r'))
          else Some (1, s))"

definition read_num :: "string \<Rightarrow> (jsval \<times> string) option" where
  "read_num s =
     (let neg = startsWith s ''-'';
          (ds, r) = read_digits (if neg then drop 1 s else s)
      in if ds = [] \<or> (hd ds = CHR ''0'' \<and> length ds > 1) then None
         else (case read_frac r of
                 None \<Rightarrow> None
               | Some (f, r1) \<Rightarrow>
                   (case read_exp r1 of
                      None \<Rightarrow> None
                    | Some (e, r2) \<Rightarrow>
                        (let x = (real (digits_val ds) + f) * e
                         in Some (JNum (Finite (if neg then - x else x)), r2)))))"

definition read_word :: "string \<Rightarrow> jsval \<Rightarrow> string \<Rightarrow> (jsval \<times> string) option" where
  "read_word w v s = (if startsWith s w then Some (v, drop (length w) s) else None)"

definition expect :: "char \<Rightarrow> string \<Rightarrow> string option" where
  "expect c s = (case skip_ws s of [] \<Rightarrow> None | d # r \<Rightarrow> if d = c then Some r else None)"

text \<open>
  Values, the elements of an array after \<^verbatim>\<open>[\<close> and the fields of an object after \<^verbatim>\<open>{\<close>. The fuel
  bounds the recursion; twice the length of the text is enough, as every two calls consume a
  character.
\<close>

fun read_val :: "nat \<Rightarrow> string \<Rightarrow> (jsval \<times> string) option"
  and read_items :: "nat \<Rightarrow> string \<Rightarrow> (jsval list \<times> string) option"
  and read_fields :: "nat \<Rightarrow> string \<Rightarrow> ((string \<times> jsval) list \<times> string) option" where
  "read_val 0 s = None"
| "read_val (Suc n) s =
     (case skip_ws s of
        [] \<Rightarrow> None
      | c # r \<Rightarrow>
          if c = CHR 0x22 then map_option (apfst JStr) (read_str r)
          else if c = CHR ''['' then
            (case expect (CHR '']'') r of
               Some r' \<Rightarrow> Some (JArr [], r')
             | None \<Rightarrow> map_option (apfst JArr) (read_items n r))
          else if c = CHR ''{'' then
            (case expect (CHR ''}'') r of
               Some r' \<Rightarrow> Some (JObj [], r')
             | None \<Rightarrow> map_option (apfst (\<lambda>fs. JObj (obj_spread [] fs))) (read_fields n r))
          else if c = CHR ''n'' then read_word ''null'' JNull (c # r)
          else if c = CHR ''t'' then read_word ''true'' (JBool True) (c # r)
          else if c = CHR ''f'' then read_word ''false'' (JBool False) (c # r)
          else read_num (c # r))"
| "read_items 0 s = None"
| "read_items (Suc n) s =
     (case read_val n s of
        None \<Rightarrow> None
      | Some (v, r) \<Rightarrow>
          (case expect (CHR '','') r of
             Some r' \<Rightarrow> cons_fst v (read_items n r')
           | None \<Rightarrow> (case expect (CHR '']'') r of Some r' \<Rightarrow> Some ([v], r') | None \<Rightarrow> None)))"
| "read_fields 0 s = None"
| "read_fields (Suc n) s =
     (case expect (CHR 0x22) s of
        None \<Rightarrow> None
      | Some s1 \<Rightarrow>
          (case read_str s1 of
             None \<Rightarrow> None
           | Some (k, s2) \<Rightarrow>
               (case expect (CHR '':'') s2 of
                  None \<Rightarrow> None
                | Some s3 \<Rightarrow>
                    (case read_val n s3 of
                       None \<Rightarrow> None
                     | Some (v, r) \<Rightarrow>
                         (case expect (CHR '','') r of
                            Some r' \<Rightarrow> cons_fst (k, v) (read_fields n r')
                          | None \<Rightarrow>
                              (case expect (CHR ''}'') r of
                                 Some r' \<Rightarrow> Some ([(k, v)], r')
                               | None \<Rightarrow> None))))))"

definition json_parse :: "string \<Rightarrow> jsval option" where
  "json_parse s =
     (case read_val (2 * length s + 2) s of
        Some (v, r) \<Rightarrow> if skip_ws r = [] then Some v else None
      | None \<Rightarrow> None)"

end
