(* ===== verification/Cli_Run.thy ===== *)
theory Cli_Run
  imports Think_Filter Json_Text
begin

text \<open>
  Running an app from the command line: the server answers with a stream of events. One strategy
  prints while the events arrive (\<^verbatim>\<open>streaming-text.ts\<close> with the printers of
  \<^verbatim>\<open>stream-handlers.ts\<close>); the other collects them into one response (\<^verbatim>\<open>sse-collector.ts\<close>) and
  prints that (\<^verbatim>\<open>streaming-structured.ts\<close>, \<^verbatim>\<open>handlers.ts\<close>). Both share the reasoning channel of
  \<^verbatim>\<open>reasoning.ts\<close>. An event carries its decoded text; the stream is the list of the events.
\<close>

section \<open>Errors and values\<close>

text \<open>What the engine and the terminal supply: the text of a JSON syntax error, the conversion of a
  value to a number, the text of a number that is no integer, two colours.\<close>

record run_env =
  syntaxMessage :: "string \<Rightarrow> string"
  toNumber :: "jsval \<Rightarrow> jsnum"
  numRepr :: "real \<Rightarrow> string"
  magenta :: "string \<Rightarrow> string"
  cyan :: "string \<Rightarrow> string"

datatype cli_error =
    BaseError string jsval
  | HttpClientError string jsval jsval
  | HitlPauseError jsval
  | Thrown js_error

record sse_event =
  ev_name :: string
  ev_data :: string

text \<open>The own entries that \<^verbatim>\<open>{...v}\<close> copies.\<close>

fun spread_entries :: "jsval \<Rightarrow> jsobj" where
  "spread_entries (JObj ob) = ob"
| "spread_entries (JArr vs) = zip (indices_of vs) vs"
| "spread_entries (JStr s) = zip (indices_of s) (map (\<lambda>c. JStr [c]) s)"
| "spread_entries _ = []"

text \<open>Reading a property of \<^verbatim>\<open>null\<close> or \<^verbatim>\<open>undefined\<close> throws.\<close>

definition read_prop :: "jsval \<Rightarrow> string \<Rightarrow> cli_error + jsval" where
  "read_prop v k = (if nullish v then Inl (Thrown TypeError) else Inr (js_get v k))"

definition bind_err :: "'e + 'a \<Rightarrow> ('a \<Rightarrow> 'e + 'b) \<Rightarrow> 'e + 'b" where
  "bind_err m f = (case m of Inl e \<Rightarrow> Inl e | Inr x \<Rightarrow> f x)"

section \<open>Event names and requests\<close>

text \<open>The server puts the name of an event into its JSON data; a name on the transport wins.\<close>

definition eventNameFromDifyData :: "string \<Rightarrow> string" where
  "eventNameFromDifyData data =
     (if data = [] then []
      else case json_parse data of
        None \<Rightarrow> []
      | Some v \<Rightarrow>
          (if \<not> is_object v then []
           else case str_of (js_get v ''event'') of Some s \<Rightarrow> s | None \<Rightarrow> []))"

definition normalizeEvent :: "sse_event \<Rightarrow> sse_event" where
  "normalizeEvent ev =
     (if ev_name ev \<noteq> [] then ev
      else let name = eventNameFromDifyData (ev_data ev)
           in if name = [] then ev else ev\<lparr>ev_name := name\<rparr>)"

definition normalizeDifyStream :: "sse_event list \<Rightarrow> sse_event list" where
  "normalizeDifyStream evs = map normalizeEvent evs"

record run_body_args =
  ra_message :: "string option"
  ra_inputs :: "jsobj option"
  ra_conversationId :: "string option"
  ra_workspaceId :: "string option"
  ra_workflowId :: "string option"
  ra_files :: "jsval list option"

definition put_text :: "string \<Rightarrow> string option \<Rightarrow> jsobj \<Rightarrow> jsobj" where
  "put_text key v body = (if nonempty_opt v then obj_set key (JStr (the v)) body else body)"

definition buildRunBody :: "run_body_args \<Rightarrow> jsobj" where
  "buildRunBody a =
     (let body = [(''inputs'', JObj (case ra_inputs a of None \<Rightarrow> [] | Some ob \<Rightarrow> ob))];
          body = put_text ''query'' (ra_message a) body;
          body = put_text ''conversation_id'' (ra_conversationId a) body;
          body = put_text ''workspace_id'' (ra_workspaceId a) body;
          body = put_text ''workflow_id'' (ra_workflowId a) body
      in case ra_files a of
           None \<Rightarrow> body
         | Some fs \<Rightarrow> if fs \<noteq> [] then obj_set ''files'' (JArr fs) body else body)"

section \<open>The reasoning channel\<close>

record reasoning_chunk =
  rc_reasoning :: string
  rc_nodeId :: string
  rc_isFinal :: bool

definition parseReasoningChunk :: "jsval \<Rightarrow> cli_error + reasoning_chunk option" where
  "parseReasoningChunk parsed =
     bind_err (read_prop parsed ''data'') (\<lambda>data.
       if \<not> plain_object data then Inr None
       else Inr (Some
         \<lparr>rc_reasoning = (case str_of (js_get data ''reasoning'') of Some s \<Rightarrow> s | None \<Rightarrow> []),
          rc_nodeId = (case str_of (js_get data ''node_id'') of Some s \<Rightarrow> s | None \<Rightarrow> []),
          rc_isFinal = (js_get data ''is_final'' = JBool True)\<rparr>))"

definition reasoningKey :: "reasoning_chunk \<Rightarrow> string" where
  "reasoningKey ch = (if rc_nodeId ch \<noteq> [] then rc_nodeId ch else ''_'')"

definition accumulateReasoning :: "(string \<times> string) list \<Rightarrow> reasoning_chunk \<Rightarrow> (string \<times> string) list" where
  "accumulateReasoning acc ch =
     (if rc_reasoning ch = [] then acc
      else let key = reasoningKey ch
           in obj_set key ((case map_of acc key of None \<Rightarrow> [] | Some s \<Rightarrow> s) @ rc_reasoning ch) acc)"

text \<open>The renderer keeps the key of the block it has open.\<close>

definition closeActive :: "string option \<Rightarrow> string list \<Rightarrow> string option \<times> string list" where
  "closeActive openNode errOut =
     (case openNode of None \<Rightarrow> (None, errOut) | Some _ \<Rightarrow> (None, errOut @ [CLOSE @ [LF]]))"

definition renderReasoning ::
  "reasoning_chunk \<Rightarrow> string option \<times> string list \<Rightarrow> string option \<times> string list" where
  "renderReasoning ch st =
     (let key = reasoningKey ch;
          opened = (if rc_reasoning ch \<noteq> [] then
             (let (openNode, errOut) = st;
                  (n, e) = (if openNode \<noteq> Some key then
                     (let (_, e1) = closeActive openNode errOut
                      in (Some key,
                          e1 @ [if rc_nodeId ch \<noteq> [] then OPEN @ '' ['' @ rc_nodeId ch @ '']'' @ [LF]
                                else OPEN @ [LF]]))
                   else (openNode, errOut))
              in (n, e @ [rc_reasoning ch]))
           else st)
      in if rc_isFinal ch \<and> fst opened = Some key then closeActive (fst opened) (snd opened) else opened)"

definition formatReasoningBlocks :: "(string \<times> string) list \<Rightarrow> string" where
  "formatReasoningBlocks reasoning =
     join ([LF] @ ''---'' @ [LF])
       (map (\<lambda>t. OPEN @ [LF] @ t @ [LF] @ CLOSE) (filter (\<lambda>t. t \<noteq> []) (map (trim \<circ> snd) reasoning)))"

definition reasoningBlocksFromMetadata :: "jsval \<Rightarrow> string" where
  "reasoningBlocksFromMetadata metadata =
     (if \<not> plain_object metadata \<or> \<not> plain_object (js_get metadata ''reasoning'') then []
      else formatReasoningBlocks
        (foldl (\<lambda>acc (k, v). case str_of v of Some s \<Rightarrow> obj_set k s acc | None \<Rightarrow> acc) []
           (spread_entries (js_get metadata ''reasoning''))))"

section \<open>Collecting\<close>

definition parseJson :: "run_env \<Rightarrow> string \<Rightarrow> cli_error + jsval" where
  "parseJson env data =
     (if data = [] then Inr (JObj [])
      else case json_parse data of
        Some v \<Rightarrow> Inr v
      | None \<Rightarrow> Inl (BaseError ''unknown'' (JStr (''decode SSE event: '' @ syntaxMessage env data))))"

fun copyScalar :: "jsobj \<Rightarrow> jsval \<Rightarrow> string list \<Rightarrow> cli_error + jsobj" where
  "copyScalar dst src [] = Inr dst"
| "copyScalar dst src (k # ks) =
     (if k \<in> fst ` set dst then copyScalar dst src ks
      else if \<not> is_object src then Inl (Thrown TypeError)
      else if k \<in> set (object_keys src) then copyScalar (obj_set k (js_get src k) dst) src ks
      else copyScalar dst src ks)"

record collector_data =
  cd_answer :: string
  cd_base :: jsobj
  cd_metadata :: "jsval option"
  cd_thoughts :: "jsval list"
  cd_reasoning :: "(string \<times> string) list"
  cd_final :: "jsval option"

datatype collector =
    ChatCollector string bool collector_data
  | CompletionCollector collector_data
  | WorkflowCollector collector_data

definition emptyCollector :: collector_data where
  "emptyCollector =
     \<lparr>cd_answer = [], cd_base = [], cd_metadata = None, cd_thoughts = [], cd_reasoning = [], cd_final = None\<rparr>"

definition chatScalars :: "string list" where
  "chatScalars = [''id'', ''conversation_id'', ''message_id'', ''task_id'', ''created_at'']"

definition completionScalars :: "string list" where
  "completionScalars = [''id'', ''message_id'', ''task_id'', ''created_at'']"

definition consumeAnswer :: "string list \<Rightarrow> jsval \<Rightarrow> collector_data \<Rightarrow> cli_error + collector_data" where
  "consumeAnswer keys c d =
     bind_err (read_prop c ''answer'') (\<lambda>a.
       let d1 = (case str_of a of Some s \<Rightarrow> d\<lparr>cd_answer := cd_answer d @ s\<rparr> | None \<Rightarrow> d)
       in bind_err (copyScalar (cd_base d1) c keys) (\<lambda>b. Inr (d1\<lparr>cd_base := b\<rparr>)))"

definition consumeEnd :: "string list \<Rightarrow> jsval \<Rightarrow> collector_data \<Rightarrow> cli_error + collector_data" where
  "consumeEnd keys c d =
     bind_err (read_prop c ''metadata'') (\<lambda>mt.
       let d1 = (if is_object mt then d\<lparr>cd_metadata := Some mt\<rparr> else d)
       in bind_err (copyScalar (cd_base d1) c keys) (\<lambda>b. Inr (d1\<lparr>cd_base := b\<rparr>)))"

definition consumeReasoning :: "jsval \<Rightarrow> collector_data \<Rightarrow> cli_error + collector_data" where
  "consumeReasoning c d =
     bind_err (parseReasoningChunk c) (\<lambda>ch.
       Inr (case ch of
              None \<Rightarrow> d
            | Some ch \<Rightarrow> d\<lparr>cd_reasoning := accumulateReasoning (cd_reasoning d) ch\<rparr>))"

fun consume :: "run_env \<Rightarrow> collector \<Rightarrow> sse_event \<Rightarrow> cli_error + collector" where
  "consume env (ChatCollector mode isAgent d) ev =
     bind_err (parseJson env (ev_data ev)) (\<lambda>c.
       bind_err
         (if ev_name ev \<in> {''message'', ''agent_message''} then consumeAnswer chatScalars c d
          else if ev_name ev = ''reasoning_chunk'' then consumeReasoning c d
          else if ev_name ev = ''agent_thought'' then Inr (d\<lparr>cd_thoughts := cd_thoughts d @ [c]\<rparr>)
          else if ev_name ev = ''message_end'' then consumeEnd chatScalars c d
          else Inr d)
         (\<lambda>d'. Inr (ChatCollector mode isAgent d')))"
| "consume env (CompletionCollector d) ev =
     bind_err (parseJson env (ev_data ev)) (\<lambda>c.
       bind_err
         (if ev_name ev = ''message'' then consumeAnswer completionScalars c d
          else if ev_name ev = ''message_end'' then consumeEnd completionScalars c d
          else Inr d)
         (\<lambda>d'. Inr (CompletionCollector d')))"
| "consume env (WorkflowCollector d) ev =
     (if ev_name ev = ''reasoning_chunk'' then
        bind_err (parseJson env (ev_data ev)) (\<lambda>c.
          bind_err (consumeReasoning c d) (\<lambda>d'. Inr (WorkflowCollector d')))
      else if ev_name ev \<noteq> ''workflow_finished'' then Inr (WorkflowCollector d)
      else bind_err (parseJson env (ev_data ev)) (\<lambda>c. Inr (WorkflowCollector (d\<lparr>cd_final := Some c\<rparr>))))"

definition reasoningObject :: "(string \<times> string) list \<Rightarrow> jsval" where
  "reasoningObject r = JObj (map (\<lambda>(k, s). (k, JStr s)) r)"

definition hasReasoning :: "jsval option \<Rightarrow> bool" where
  "hasReasoning metadata =
     (case metadata of
        None \<Rightarrow> False
      | Some mt \<Rightarrow> plain_object (js_get mt ''reasoning'') \<and> object_keys (js_get mt ''reasoning'') \<noteq> [])"

fun finalize :: "collector \<Rightarrow> jsobj" where
  "finalize (ChatCollector mode isAgent d) =
     (let out = obj_spread [(''mode'', JStr mode), (''answer'', JStr (cd_answer d))] (cd_base d);
          out = (case cd_metadata d of None \<Rightarrow> out | Some mt \<Rightarrow> obj_set ''metadata'' mt out);
          out = (if cd_reasoning d \<noteq> [] \<and> \<not> hasReasoning (cd_metadata d) then
                   obj_set ''metadata''
                     (JObj (obj_set ''reasoning'' (reasoningObject (cd_reasoning d))
                        (case cd_metadata d of None \<Rightarrow> [] | Some mt \<Rightarrow> spread_entries mt))) out
                 else out)
      in if isAgent \<or> cd_thoughts d \<noteq> [] then obj_set ''agent_thoughts'' (JArr (cd_thoughts d)) out else out)"
| "finalize (CompletionCollector d) =
     (let out = obj_spread [(''mode'', JStr ''completion''), (''answer'', JStr (cd_answer d))] (cd_base d)
      in case cd_metadata d of None \<Rightarrow> out | Some mt \<Rightarrow> obj_set ''metadata'' mt out)"
| "finalize (WorkflowCollector d) =
     (let out = obj_spread [(''mode'', JStr ''workflow'')]
                  (case cd_final d of None \<Rightarrow> [] | Some v \<Rightarrow> spread_entries v)
      in if cd_reasoning d \<noteq> [] then
           obj_set ''metadata''
             (JObj (obj_set ''reasoning'' (reasoningObject (cd_reasoning d))
                (if plain_object (obj_get out ''metadata'') then spread_entries (obj_get out ''metadata'') else []))) out
         else out)"

definition collectorFor :: "string \<Rightarrow> cli_error + collector" where
  "collectorFor mode =
     (if mode = ''chat'' \<or> mode = ''advanced-chat'' then Inr (ChatCollector mode False emptyCollector)
      else if mode = ''agent-chat'' then Inr (ChatCollector mode True emptyCollector)
      else if mode = ''completion'' then Inr (CompletionCollector emptyCollector)
      else if mode = ''workflow'' then Inr (WorkflowCollector emptyCollector)
      else Inl (BaseError ''unknown'' (JStr (''unsupported streaming mode '' @ [CHR 0x22] @ mode @ [CHR 0x22]))))"

section \<open>Errors of the stream\<close>

definition num_of :: "run_env \<Rightarrow> jsval \<Rightarrow> jsnum" where
  "num_of env v = (case v of JNum n \<Rightarrow> n | _ \<Rightarrow> toNumber env v)"

fun num_positive :: "jsnum \<Rightarrow> bool" where
  "num_positive (Finite x) = (x > 0)"
| "num_positive Infinity = True"
| "num_positive _ = False"

fun num_below :: "real \<Rightarrow> jsnum \<Rightarrow> bool" where
  "num_below b (Finite x) = (x < b)"
| "num_below b NegInfinity = True"
| "num_below b _ = False"

text \<open>\<^verbatim>\<open>inner.args?.description ?? inner.message ?? raw\<close>\<close>

definition unwrapInvokeErrorMessage :: "string \<Rightarrow> jsval" where
  "unwrapInvokeErrorMessage raw =
     (if \<not> startsWith raw ''{'' then JStr raw
      else case json_parse raw of
        None \<Rightarrow> JStr raw
      | Some inner \<Rightarrow>
          (if js_get inner ''error_type'' = JUndefined then JStr raw
           else let description = js_get (js_get inner ''args'') ''description''
                in if \<not> nullish description then description
                   else if \<not> nullish (js_get inner ''message'') then js_get inner ''message''
                   else JStr raw))"

definition decodeStreamError :: "run_env \<Rightarrow> string \<Rightarrow> cli_error" where
  "decodeStreamError env data =
     (let envelope = (if data = [] then JObj [] else case json_parse data of None \<Rightarrow> JObj [] | Some v \<Rightarrow> v)
      in if nullish envelope then Thrown TypeError
         else
           (let rawMessage = (if js_get envelope ''message'' \<in> {JUndefined, JStr []}
                              then JStr ''stream terminated by error event'' else js_get envelope ''message'');
                status = js_get envelope ''status''
            in case str_of rawMessage of
                 None \<Rightarrow> Thrown TypeError
               | Some raw \<Rightarrow>
                   (let msg = unwrapInvokeErrorMessage raw;
                        known = (status \<noteq> JUndefined \<and> num_positive (num_of env status));
                        code = (if known \<and> num_below 500 (num_of env status)
                                then ''server_4xx_other'' else ''server_5xx'')
                    in if known then HttpClientError code msg status else BaseError code msg)))"

definition SILENT_EVENTS :: "string list" where
  "SILENT_EVENTS =
     [''node_retry'', ''iteration_started'', ''iteration_next'', ''iteration_completed'',
      ''loop_started'', ''loop_next'', ''loop_completed'']"

fun collectEvents :: "run_env \<Rightarrow> collector \<Rightarrow> sse_event list \<Rightarrow> cli_error + collector" where
  "collectEvents env c [] = Inr c"
| "collectEvents env c (ev # evs) =
     (if ev_name ev = ''ping'' \<or> ev_name ev \<in> set SILENT_EVENTS then collectEvents env c evs
      else if ev_name ev = ''error'' then Inl (decodeStreamError env (ev_data ev))
      else if ev_name ev = ''human_input_required'' then
        bind_err (parseJson env (ev_data ev)) (\<lambda>v. Inl (HitlPauseError v))
      else if ev_name ev = ''workflow_paused'' then
        Inl (BaseError ''unknown'' (JStr ''workflow paused (non-interactive pause; check server logs)''))
      else bind_err (consume env c ev) (\<lambda>c'. collectEvents env c' evs))"

definition collect :: "run_env \<Rightarrow> sse_event list \<Rightarrow> string \<Rightarrow> cli_error + jsobj" where
  "collect env evs mode =
     bind_err (collectorFor mode) (\<lambda>c. bind_err (collectEvents env c evs) (\<lambda>c'. Inr (finalize c')))"

section \<open>Printing while the events arrive\<close>

text \<open>The sinks are those of the filter; the workflow printer uses nothing else of it.\<close>

datatype printer_kind = ChatStreamPrinter | CompletionStreamPrinter | WorkflowStreamPrinter

record printer =
  pr_kind :: printer_kind
  pr_filter :: think_chunk_filter
  pr_open :: "string option"
  pr_convo :: string
  pr_final :: "jsval option"
  pr_think :: bool

definition newPrinter :: "printer_kind \<Rightarrow> bool \<Rightarrow> printer" where
  "newPrinter kind think =
     \<lparr>pr_kind = kind, pr_filter = newThinkChunkFilter think, pr_open = None, pr_convo = [], pr_final = None,
      pr_think = think\<rparr>"

definition print_out :: "string \<Rightarrow> printer \<Rightarrow> printer" where
  "print_out w p = p\<lparr>pr_filter := (pr_filter p)\<lparr>outs := outs (pr_filter p) @ [w]\<rparr>\<rparr>"

definition print_err :: "string \<Rightarrow> printer \<Rightarrow> printer" where
  "print_err w p = p\<lparr>pr_filter := (pr_filter p)\<lparr>errs := errs (pr_filter p) @ [w]\<rparr>\<rparr>"

definition pushReasoning :: "reasoning_chunk \<Rightarrow> printer \<Rightarrow> printer" where
  "pushReasoning ch p =
     (let (n, e) = renderReasoning ch (pr_open p, errs (pr_filter p))
      in p\<lparr>pr_open := n, pr_filter := (pr_filter p)\<lparr>errs := e\<rparr>\<rparr>)"

definition flushReasoning :: "printer \<Rightarrow> printer" where
  "flushReasoning p =
     (let (n, e) = closeActive (pr_open p) (errs (pr_filter p))
      in p\<lparr>pr_open := n, pr_filter := (pr_filter p)\<lparr>errs := e\<rparr>\<rparr>)"

definition lenientJson :: "string \<Rightarrow> jsval" where
  "lenientJson data =
     (if data = [] then JObj [] else case json_parse data of None \<Rightarrow> JObj [] | Some v \<Rightarrow> v)"

definition handleCommonEvents :: "sse_event \<Rightarrow> cli_error + bool" where
  "handleCommonEvents ev =
     (if ev_name ev \<in> set SILENT_EVENTS then Inr True
      else if ev_name ev = ''human_input_required'' then Inl (HitlPauseError (lenientJson (ev_data ev)))
      else Inr False)"

definition noteConversation :: "jsval \<Rightarrow> printer \<Rightarrow> printer" where
  "noteConversation c p =
     (case str_of (js_get c ''conversation_id'') of
        None \<Rightarrow> p
      | Some s \<Rightarrow> if s \<noteq> [] then p\<lparr>pr_convo := s\<rparr> else p)"

definition pushAnswer :: "jsval \<Rightarrow> printer \<Rightarrow> printer" where
  "pushAnswer c p =
     (case str_of (js_get c ''answer'') of
        None \<Rightarrow> p
      | Some s \<Rightarrow> p\<lparr>pr_filter := push s (pr_filter p)\<rparr>)"

definition printReasoning :: "jsval \<Rightarrow> printer \<Rightarrow> cli_error + printer" where
  "printReasoning c p =
     (if \<not> pr_think p then Inr p
      else bind_err (parseReasoningChunk c) (\<lambda>ch.
        Inr (case ch of None \<Rightarrow> p | Some ch \<Rightarrow> pushReasoning ch p)))"

definition onChatEvent :: "sse_event \<Rightarrow> jsval \<Rightarrow> printer \<Rightarrow> cli_error + printer" where
  "onChatEvent ev c p =
     (if ev_name ev \<in> {''message'', ''agent_message''} then
        (if nullish c then Inl (Thrown TypeError) else Inr (noteConversation c (pushAnswer c p)))
      else if ev_name ev = ''reasoning_chunk'' then printReasoning c p
      else if ev_name ev = ''agent_thought'' then
        bind_err (read_prop c ''thought'') (\<lambda>t.
          Inr (case str_of t of
                 None \<Rightarrow> p
               | Some s \<Rightarrow> if s \<noteq> [] then print_err (''thought: '' @ s @ [LF]) p else p))
      else if ev_name ev = ''message_end'' then
        (if nullish c then Inl (Thrown TypeError) else Inr (noteConversation c p))
      else Inr p)"

definition onCompletionEvent :: "sse_event \<Rightarrow> printer \<Rightarrow> cli_error + printer" where
  "onCompletionEvent ev p =
     (if ev_name ev \<noteq> ''message'' then Inr p
      else let c = lenientJson (ev_data ev)
           in if nullish c then Inl (Thrown TypeError) else Inr (pushAnswer c p))"

definition arrow :: string where
  "arrow = [CHR 0xE2, CHR 0x86, CHR 0x92]"

definition onWorkflowEvent :: "sse_event \<Rightarrow> jsval \<Rightarrow> printer \<Rightarrow> cli_error + printer" where
  "onWorkflowEvent ev c p =
     (if ev_name ev = ''node_started'' then
        (if nullish c then Inl (Thrown TypeError)
         else let fallback = (case str_of (js_get c ''id'') of Some s \<Rightarrow> s | None \<Rightarrow> []);
                  title = (case str_of (js_get c ''title'') of
                             Some s \<Rightarrow> if s \<noteq> [] then s else fallback
                           | None \<Rightarrow> fallback)
              in Inr (if title \<noteq> [] then print_err (arrow @ '' '' @ title @ [LF]) p else p))
      else if ev_name ev = ''reasoning_chunk'' then printReasoning c p
      else if ev_name ev = ''node_finished'' then
        (if nullish c then Inl (Thrown TypeError)
         else let status = (case str_of (js_get c ''status'') of Some s \<Rightarrow> s | None \<Rightarrow> []);
                  nid = (case str_of (js_get c ''id'') of Some s \<Rightarrow> s | None \<Rightarrow> [])
              in Inr (if status \<noteq> [] \<and> status \<noteq> ''succeeded''
                      then print_err (''  ['' @ status @ ''] '' @ nid @ [LF]) p else p))
      else if ev_name ev = ''workflow_finished'' then Inr (p\<lparr>pr_final := Some c\<rparr>)
      else Inr p)"

definition onEvent :: "sse_event \<Rightarrow> printer \<Rightarrow> cli_error + printer" where
  "onEvent ev p =
     bind_err (handleCommonEvents ev) (\<lambda>handled.
       if handled then Inr p
       else case pr_kind p of
         ChatStreamPrinter \<Rightarrow> onChatEvent ev (lenientJson (ev_data ev)) p
       | CompletionStreamPrinter \<Rightarrow> onCompletionEvent ev p
       | WorkflowStreamPrinter \<Rightarrow> onWorkflowEvent ev (lenientJson (ev_data ev)) p)"

definition conversationHint :: "run_env \<Rightarrow> string \<Rightarrow> string" where
  "conversationHint env cid =
     magenta env ''hint:'' @ '' continue this conversation with --conversation '' @ cyan env cid @ [LF]"

text \<open>\<^verbatim>\<open>'outputs' in data\<close>, the object or array that holds it.\<close>

definition outputs_of :: "jsval \<Rightarrow> jsval option" where
  "outputs_of data =
     (if is_object data \<and> ''outputs'' \<in> set (object_keys data) then Some (js_get data ''outputs'') else None)"

definition endWorkflow :: "run_env \<Rightarrow> printer \<Rightarrow> cli_error + printer" where
  "endWorkflow env p =
     (case pr_final p of
        None \<Rightarrow> Inr p
      | Some fin \<Rightarrow>
          bind_err (read_prop fin ''data'') (\<lambda>data.
            Inr (case outputs_of data of
                   Some raw \<Rightarrow>
                     (if plain_object raw then
                        (let fo = filterThinkInOutputs (spread_entries raw) (pr_think p);
                             p1 = (if pr_think p \<and> fo_thinking fo \<noteq> []
                                   then print_err (fo_thinking fo @ [LF]) p else p)
                         in print_out (json_text (numRepr env) (JObj (fo_outputs fo)) @ [LF]) p1)
                      else print_out (json_text (numRepr env) raw @ [LF]) p)
                 | None \<Rightarrow> print_out (json_text (numRepr env) fin @ [LF]) p)))"

definition onEnd :: "run_env \<Rightarrow> printer \<Rightarrow> cli_error + printer" where
  "onEnd env p =
     (case pr_kind p of
        ChatStreamPrinter \<Rightarrow>
          (let p1 = flushReasoning p;
               p2 = print_out [LF] (p1\<lparr>pr_filter := flush (pr_filter p1)\<rparr>)
           in Inr (if pr_convo p2 \<noteq> [] then print_err (conversationHint env (pr_convo p2)) p2 else p2))
      | CompletionStreamPrinter \<Rightarrow> Inr (print_out [LF] (p\<lparr>pr_filter := flush (pr_filter p)\<rparr>))
      | WorkflowStreamPrinter \<Rightarrow> endWorkflow env (flushReasoning p))"

definition streamPrinterFor :: "string \<Rightarrow> bool \<Rightarrow> cli_error + printer" where
  "streamPrinterFor mode think =
     (if mode \<in> {''chat'', ''advanced-chat'', ''agent-chat''} then Inr (newPrinter ChatStreamPrinter think)
      else if mode = ''completion'' then Inr (newPrinter CompletionStreamPrinter think)
      else if mode = ''workflow'' then Inr (newPrinter WorkflowStreamPrinter think)
      else Inl (BaseError ''unknown'' (JStr (''unsupported streaming mode '' @ [CHR 0x22] @ mode @ [CHR 0x22]))))"

text \<open>The loop of \<^verbatim>\<open>StreamingTextStrategy.execute\<close>, with the first task id it sees.\<close>

definition firstTaskId :: "string \<Rightarrow> string option \<Rightarrow> string option" where
  "firstTaskId data taskId =
     (if data = [] then taskId
      else case json_parse data of
        None \<Rightarrow> taskId
      | Some parsed \<Rightarrow>
          (case str_of (js_get parsed ''task_id'') of
             Some s \<Rightarrow> if s \<noteq> [] \<and> taskId = None then Some s else taskId
           | None \<Rightarrow> taskId))"

fun printEvents ::
  "run_env \<Rightarrow> printer \<times> string option \<Rightarrow> sse_event list \<Rightarrow> cli_error + (printer \<times> string option)" where
  "printEvents env (p, taskId) [] = Inr (p, taskId)"
| "printEvents env (p, taskId) (ev # evs) =
     (if ev_name ev = ''ping'' then printEvents env (p, taskId) evs
      else if ev_name ev = ''error'' then Inl (decodeStreamError env (ev_data ev))
      else bind_err (onEvent ev p) (\<lambda>p'. printEvents env (p', firstTaskId (ev_data ev) taskId) evs))"

definition streamingText :: "run_env \<Rightarrow> bool \<Rightarrow> string \<Rightarrow> sse_event list \<Rightarrow> cli_error + printer" where
  "streamingText env think mode evs =
     bind_err (streamPrinterFor mode think) (\<lambda>p.
       bind_err (printEvents env (p, None) evs) (\<lambda>r. onEnd env (fst r)))"

section \<open>Printing the collected response\<close>

definition pickString :: "jsobj \<Rightarrow> string \<Rightarrow> string option" where
  "pickString ob key = str_of (obj_get ob key)"

definition renderChat :: "jsobj \<Rightarrow> string" where
  "renderChat raw =
     join [LF] ((case pickString raw ''answer'' of Some a \<Rightarrow> [a] | None \<Rightarrow> []) @ [[]])"

definition renderCompletion :: "jsobj \<Rightarrow> string" where
  "renderCompletion raw = (case pickString raw ''answer'' of Some a \<Rightarrow> a | None \<Rightarrow> []) @ [LF]"

definition renderWorkflow :: "run_env \<Rightarrow> jsobj \<Rightarrow> string" where
  "renderWorkflow env raw =
     (case outputs_of (obj_get raw ''data'') of
        None \<Rightarrow> json_text (numRepr env) (JObj raw) @ [LF]
      | Some outputs \<Rightarrow>
          (if outputs = JUndefined then json_text (numRepr env) (JObj raw) @ [LF]
           else case (if is_object outputs then spread_entries outputs else []) of
             [(_, JStr s)] \<Rightarrow> s @ [LF]
           | _ \<Rightarrow> json_text (numRepr env) outputs @ [LF]))"

definition textForMode :: "run_env \<Rightarrow> string \<Rightarrow> jsobj \<Rightarrow> string" where
  "textForMode env mode raw =
     (if mode \<in> {''chat'', ''agent-chat'', ''advanced-chat''} then renderChat raw
      else if mode = ''completion'' then renderCompletion raw
      else if mode = ''workflow'' then renderWorkflow env raw
      else json_text (numRepr env) (JObj raw) @ [LF])"

definition newAppRunObject :: "string \<Rightarrow> jsobj \<Rightarrow> jsobj" where
  "newAppRunObject mode resp =
     (if obj_get resp ''mode'' \<in> {JUndefined, JStr []} then obj_set ''mode'' (JStr mode) resp else resp)"

definition processResponse :: "bool \<Rightarrow> string \<Rightarrow> jsobj \<Rightarrow> jsobj \<times> string list" where
  "processResponse think mode resp =
     (case str_of (obj_get resp ''answer'') of
        Some a \<Rightarrow>
          (if think then
             (let ex = extractThinkBlocks a
              in (obj_set ''answer'' (JStr (clean ex)) resp,
                  if thinking ex \<noteq> [] then [thinking ex @ [LF]] else []))
           else (obj_set ''answer'' (JStr (stripThinkBlocks a)) resp, []))
      | None \<Rightarrow>
          (if mode = ''workflow'' then
             (case outputs_of (obj_get resp ''data'') of
                Some raw \<Rightarrow>
                  (if plain_object raw then
                     (let fo = filterThinkInOutputs (spread_entries raw) think
                      in (obj_set ''data''
                            (JObj (obj_set ''outputs'' (JObj (fo_outputs fo)) (spread_entries (obj_get resp ''data'')))) resp,
                          if think \<and> fo_thinking fo \<noteq> [] then [fo_thinking fo @ [LF]] else []))
                   else (resp, []))
              | None \<Rightarrow> (resp, []))
           else (resp, [])))"

text \<open>The text format of \<^verbatim>\<open>StreamingStructuredStrategy.execute\<close>: what goes to standard output and
  the writes to standard error.\<close>

definition streamingStructured ::
  "run_env \<Rightarrow> bool \<Rightarrow> string \<Rightarrow> sse_event list \<Rightarrow> cli_error + (string \<times> string list)" where
  "streamingStructured env think mode evs =
     bind_err (collect env evs mode) (\<lambda>resp.
       let (processed, e1) = processResponse think mode resp;
           blocks = reasoningBlocksFromMetadata (obj_get processed ''metadata'');
           e2 = (if think \<and> blocks \<noteq> [] then [blocks @ [LF]] else []);
           respMode = (case str_of (obj_get processed ''mode'') of Some s \<Rightarrow> if s \<noteq> [] then s else mode | None \<Rightarrow> mode);
           hint = (if respMode \<in> {''chat'', ''agent-chat'', ''advanced-chat''} then
                     (case pickString processed ''conversation_id'' of
                        Some cid \<Rightarrow> if cid \<noteq> [] then [conversationHint env cid] else []
                      | None \<Rightarrow> [])
                   else [])
       in Inr (textForMode env respMode (newAppRunObject respMode processed), e1 @ e2 @ hint))"

end
