(* ===== verification/Think_Laws.thy ===== *)
theory Think_Laws
  imports Think_Filter
begin

text \<open>
  Laws of the reasoning filter. The reference is \<open>reveal\<close>, which reads a whole text and answers
  what belongs on the two streams. The class holds back at most the start of a tag, so what it has
  written plus what \<open>reveal\<close> makes of the held text and the future is the same before and after a
  chunk.
\<close>

section \<open>The reference\<close>

function reveal :: "bool \<Rightarrow> bool \<Rightarrow> string \<Rightarrow> string \<times> string" where
  "reveal show False s =
     (case indexOf OPEN s of
        None \<Rightarrow> (s, [])
      | Some i \<Rightarrow>
          (let (r, e) = reveal show True (drop (i + 7) s)
           in (take i s @ r, (if show then OPEN @ [LF] else []) @ e)))"
| "reveal show True s =
     (case indexOf CLOSE s of
        None \<Rightarrow> ([], if show then s else [])
      | Some i \<Rightarrow>
          (let (r, e) = reveal show False (skip_eol (drop (i + 8) s))
           in (r, (if show then take i s @ CLOSE @ [LF] else []) @ e)))"
  by pat_completeness auto

lemma after_close_shorter:
  "indexOf CLOSE s = Some i \<Longrightarrow> length (skip_eol (drop (i + 8) s)) < length s"
  using length_skip_eol [of "drop (i + 8) s"] indexOf_fits [of CLOSE s i] by simp

lemma after_open_shorter: "indexOf OPEN s = Some i \<Longrightarrow> length (drop (i + 7) s) < length s"
  using indexOf_fits [of OPEN s i] by simp

termination reveal
proof (relation "measure (\<lambda>(_, _, s). length s)")
qed (simp_all only: wf_measure in_measure prod.case after_close_shorter after_open_shorter)

declare reveal.simps [simp del]

lemma reveal_Nil [simp]: "reveal show b [] = ([], [])"
  by (cases b) (simp_all add: reveal.simps OPEN_def CLOSE_def)

definition foresee :: "think_chunk_filter \<Rightarrow> string \<Rightarrow> string \<times> string" where
  "foresee f t =
     (let (r, e) = reveal (showThink f) (inThink f) (buf f @ t) in (out_text f @ r, err_text f @ e))"

text \<open>
  A cut between the text so far and the text to come. The filter drops one line break after a closing tag, but
  only what stands in the same chunk; so a cut is safe unless it parts a closing tag from its line break, or
  the two characters of that line break.
\<close>

definition safe_cut :: "string \<Rightarrow> string \<Rightarrow> bool" where
  "safe_cut p t \<longleftrightarrow>
     \<not> (endsWith p CLOSE \<and> t \<noteq> [] \<and> (hd t = CR \<or> hd t = LF))
   \<and> \<not> (endsWith p (CLOSE @ [CR]) \<and> t \<noteq> [] \<and> hd t = LF)"

fun safe_from :: "string \<Rightarrow> string list \<Rightarrow> bool" where
  "safe_from p [] = True"
| "safe_from p (c # cs) = (safe_cut (p @ c) (concat cs) \<and> safe_from (p @ c) cs)"

definition safe_cuts :: "string list \<Rightarrow> bool" where
  "safe_cuts cs = safe_from [] cs"

lemma safe_cut_end [simp]: "safe_cut p []"
  by (simp add: safe_cut_def)

lemma endsWith_suffix: "endsWith p x \<longleftrightarrow> suffix x p"
  by (auto simp: endsWith_def suffix_def) (metis append_take_drop_id)

lemma safe_cut_suffix: "safe_cut p t \<Longrightarrow> suffix q p \<Longrightarrow> safe_cut q t"
  by (auto simp: safe_cut_def endsWith_suffix dest: suffix_order.trans)

lemma safe_from_append: "safe_from p (xs @ ys) \<Longrightarrow> safe_from (p @ concat xs) ys"
proof (induction xs arbitrary: p)
  case (Cons x xs)
  then show ?case using Cons.IH [of "p @ x"] by simp
qed simp

lemma skip_eol_suffix: "suffix (skip_eol s) s"
  by (simp add: skip_eol_def suffix_drop)

lemma skip_eol_append:
  assumes "safe_cut (CLOSE @ s) t"
  shows "skip_eol (s @ t) = skip_eol s @ t"
proof -
  have 1: "s = [] \<Longrightarrow> t \<noteq> [] \<Longrightarrow> hd t \<noteq> CR \<and> hd t \<noteq> LF"
    using assms by (auto simp: safe_cut_def endsWith_suffix)
  have 2: "s = [CR] \<Longrightarrow> t \<noteq> [] \<Longrightarrow> hd t \<noteq> LF"
    using assms by (auto simp: safe_cut_def endsWith_suffix)
  show ?thesis
  proof (cases s)
    case Nil
    then show ?thesis using 1 by (cases t) (auto simp: skip_eol_def startsWith_def CR_def LF_def)
  next
    case (Cons x r)
    then show ?thesis using 2 by (cases r; cases t) (auto simp: skip_eol_def startsWith_def CR_def LF_def)
  qed
qed

section \<open>Writing\<close>

lemma write_out_simps [simp]:
  "out_text (write_out w f) = out_text f @ w" "err_text (write_out w f) = err_text f"
  "buf (write_out w f) = buf f" "inThink (write_out w f) = inThink f"
  "showThink (write_out w f) = showThink f"
  by (simp_all add: write_out_def out_text_def err_text_def)

lemma write_err_simps [simp]:
  "out_text (write_err w f) = out_text f"
  "err_text (write_err w f) = err_text f @ (if showThink f then w else [])"
  "buf (write_err w f) = buf f" "inThink (write_err w f) = inThink f"
  "showThink (write_err w f) = showThink f"
  by (simp_all add: write_err_def out_text_def err_text_def)

lemma text_upd_simps [simp]:
  "out_text (f\<lparr>buf := b\<rparr>) = out_text f" "err_text (f\<lparr>buf := b\<rparr>) = err_text f"
  "out_text (f\<lparr>inThink := i\<rparr>) = out_text f" "err_text (f\<lparr>inThink := i\<rparr>) = err_text f"
  by (simp_all add: out_text_def err_text_def)

section \<open>One chunk\<close>

lemma reveal_open:
  "indexOf OPEN s = Some i \<Longrightarrow>
   reveal show False (s @ t) =
     (let (r, e) = reveal show True (drop (i + 7) s @ t)
      in (take i s @ r, (if show then OPEN @ [LF] else []) @ e))"
  using indexOf_fits [of OPEN s i] by (simp add: reveal.simps indexOf_append)

lemma reveal_close:
  assumes i: "indexOf CLOSE s = Some i" and t: "safe_cut s t"
  shows "reveal show True (s @ t) =
     (let (r, e) = reveal show False (skip_eol (drop (i + 8) s) @ t)
      in (r, (if show then take i s @ CLOSE @ [LF] else []) @ e))"
proof -
  have "suffix (CLOSE @ drop (i + 8) s) s"
  proof -
    have "prefix CLOSE (drop i s)" using indexOf_SomeD [OF i] by blast
    then obtain zs where zs: "drop i s = CLOSE @ zs" by (auto simp: prefix_def)
    then have "drop 8 (drop i s) = zs" by simp
    then have "drop i s = CLOSE @ drop 8 (drop i s)" using zs by simp
    then have "drop i s = CLOSE @ drop (i + 8) s" by (simp add: add.commute)
    then show ?thesis by (metis suffix_drop)
  qed
  then have "skip_eol (drop (i + 8) s @ t) = skip_eol (drop (i + 8) s) @ t"
    by (intro skip_eol_append safe_cut_suffix [OF t])
  then show ?thesis using indexOf_fits [OF i] i by (simp add: reveal.simps indexOf_append)
qed

lemma reveal_held_open:
  assumes "splitAtPotentialTag s OPEN = (safe, held)" and "indexOf OPEN s = None"
  shows "reveal show False (s @ t) = (let (r, e) = reveal show False (held @ t) in (safe @ r, e))"
proof -
  have s: "s = safe @ held" using held_is_short [OF assms(1)] by simp
  show ?thesis
    using indexOf_held [OF assms, of t] reveal.simps(1) [of "show" "s @ t"] reveal.simps(1) [of "show" "held @ t"]
    by (cases "indexOf OPEN (held @ t)") (auto simp: s add.assoc split: prod.splits)
qed

lemma reveal_held_close:
  assumes "splitAtPotentialTag s CLOSE = (safe, held)" and "indexOf CLOSE s = None"
  shows "reveal show True (s @ t) =
    (let (r, e) = reveal show True (held @ t) in (r, (if show then safe else []) @ e))"
proof -
  have s: "s = safe @ held" using held_is_short [OF assms(1)] by simp
  show ?thesis
    using indexOf_held [OF assms, of t] reveal.simps(2) [of "show" "s @ t"] reveal.simps(2) [of "show" "held @ t"]
    by (cases "indexOf CLOSE (held @ t)") (auto simp: s add.assoc split: prod.splits)
qed

lemma push_loop_foresee:
  "safe_cut s t \<Longrightarrow> buf f = [] \<Longrightarrow> foresee (push_loop f s) t = foresee f (s @ t)"
proof (induction f s rule: push_loop.induct)
  case (1 f s)
  consider "s = []" | (quiet) "s \<noteq> []" "\<not> inThink f" "indexOf OPEN s = None"
    | (opens) i where "s \<noteq> []" "\<not> inThink f" "indexOf OPEN s = Some i"
    | (think) "s \<noteq> []" "inThink f" "indexOf CLOSE s = None"
    | (closes) i where "s \<noteq> []" "inThink f" "indexOf CLOSE s = Some i"
    by (cases "inThink f"; cases "indexOf OPEN s"; cases "indexOf CLOSE s") blast+
  then show ?case
  proof cases
    case quiet
    obtain safe held where sp: "splitAtPotentialTag s OPEN = (safe, held)" by fastforce
    show ?thesis
      using quiet sp "1.prems" reveal_held_open [OF sp quiet(3)]
      by (simp add: push_loop.simps [of f s] foresee_def split: prod.splits)
  next
    case think
    obtain safe held where sp: "splitAtPotentialTag s CLOSE = (safe, held)" by fastforce
    show ?thesis
      using think sp "1.prems" reveal_held_close [OF sp think(3)]
      by (auto simp: push_loop.simps [of f s] foresee_def split: prod.splits)
  next
    case (opens i)
    have "safe_cut (drop (i + 7) s) t" by (rule safe_cut_suffix [OF "1.prems"(1) suffix_drop])
    then show ?thesis
      using opens "1.IH"(1) [OF opens(1,2,3)] "1.prems" reveal_open [OF opens(3)]
      by (auto simp: push_loop.simps [of f s] foresee_def split: prod.splits)
  next
    case (closes i)
    then have "\<not> \<not> inThink f" by simp
    moreover have "safe_cut (skip_eol (drop (i + 8) s)) t"
      by (rule safe_cut_suffix [OF safe_cut_suffix [OF "1.prems"(1) suffix_drop] skip_eol_suffix])
    ultimately show ?thesis
      using closes "1.IH"(2) [OF closes(1) _ closes(3)] "1.prems" reveal_close [OF closes(3) "1.prems"(1)]
      by (auto simp: push_loop.simps [of f s] foresee_def split: prod.splits)
  qed (simp add: push_loop.simps)
qed

lemma push_foresee: "safe_cut (buf f @ c) t \<Longrightarrow> foresee (push c f) t = foresee f (c @ t)"
  using push_loop_foresee [of "buf f @ c" t "f\<lparr>buf := []\<rparr>"] by (simp add: push_def foresee_def)

section \<open>The held text\<close>

text \<open>What is held is the start of the tag the filter waits for.\<close>

definition holds_tag_start :: "think_chunk_filter \<Rightarrow> bool" where
  "holds_tag_start f = (strict_prefix (buf f) (if inThink f then CLOSE else OPEN))"

lemma held_strict: "splitAtPotentialTag s tag = (safe, held) \<Longrightarrow> tag \<noteq> [] \<Longrightarrow> strict_prefix held tag"
  using held_is_short [of s tag safe held]
  by (cases tag) (auto simp: strict_prefix_def)

lemma push_loop_holds:
  "buf f = [] \<Longrightarrow> holds_tag_start (push_loop f s)"
proof (induction f s rule: push_loop.induct)
  case (1 f s)
  have tags: "OPEN \<noteq> []" "CLOSE \<noteq> []" by (simp_all add: OPEN_def CLOSE_def)
  then have empty: "strict_prefix [] OPEN" "strict_prefix [] CLOSE" by (simp_all add: strict_prefix_def)
  show ?case
    using 1 empty held_strict [OF _ tags(1)] held_strict [OF _ tags(2)]
    by (auto simp: push_loop.simps [of f s] holds_tag_start_def split: option.splits prod.splits)
qed

lemma push_holds: "holds_tag_start (push c f)"
  unfolding push_def by (rule push_loop_holds) simp

lemma fold_push_holds: "holds_tag_start (fold push cs (newThinkChunkFilter show))"
proof (cases cs rule: rev_cases)
  case Nil
  then show ?thesis by (simp add: holds_tag_start_def newThinkChunkFilter_def OPEN_def strict_prefix_def)
qed (simp add: push_holds)

lemma strict_prefix_short: "strict_prefix b tag \<Longrightarrow> indexOf tag b = None"
  by (rule indexOf_short) (rule prefix_length_less)

lemma flush_foresee:
  assumes "holds_tag_start f"
  shows "(out_text (flush f), err_text (flush f)) = foresee f []"
  using assms strict_prefix_short [of "buf f" OPEN] strict_prefix_short [of "buf f" CLOSE]
  by (cases "inThink f")
     (auto simp: flush_def foresee_def holds_tag_start_def reveal.simps [of _ "buf f"])

section \<open>All chunks\<close>

text \<open>What is held is the end of what was read.\<close>

lemma push_loop_buf: "buf f = [] \<Longrightarrow> suffix (buf (push_loop f s)) s"
proof (induction f s rule: push_loop.induct)
  case (1 f s)
  have held: "splitAtPotentialTag s tag = (safe, held) \<Longrightarrow> suffix held s" for tag safe held
    using held_is_short [of s tag safe held] by (metis suffixI)
  have up: "suffix u (drop k s) \<Longrightarrow> suffix u s" "suffix u (skip_eol (drop k s)) \<Longrightarrow> suffix u s" for u k
    using suffix_order.trans [OF _ suffix_drop] suffix_order.trans [OF _ skip_eol_suffix] by blast+
  show ?case
    using 1 held by (auto simp: push_loop.simps [of f s] split: option.splits prod.splits intro: up)
qed

lemma push_buf: "suffix (buf f) p \<Longrightarrow> suffix (buf (push c f)) (p @ c)"
  using push_loop_buf [of "f\<lparr>buf := []\<rparr>" "buf f @ c"] suffix_order.trans [of _ "buf f @ c" "p @ c"]
  by (simp add: push_def)

lemma fold_push_foresee:
  "suffix (buf f) p \<Longrightarrow> safe_from p cs \<Longrightarrow> foresee (fold push cs f) [] = foresee f (concat cs)"
proof (induction cs arbitrary: f p)
  case (Cons c cs)
  have "safe_cut (buf f @ c) (concat cs)"
    by (rule safe_cut_suffix [of "p @ c"]) (use Cons.prems in simp_all)
  then have "foresee (push c f) (concat cs) = foresee f (c @ concat cs)" by (rule push_foresee)
  then show ?case using Cons.IH [OF push_buf [OF Cons.prems(1)]] Cons.prems(2) by simp
qed simp

lemma stream_is_reveal:
  assumes "safe_cuts cs"
  shows "(out_text (stream_filter show cs), err_text (stream_filter show cs)) = reveal show False (concat cs)"
proof -
  have "(out_text (stream_filter show cs), err_text (stream_filter show cs)) =
        foresee (fold push cs (newThinkChunkFilter show)) []"
    unfolding stream_filter_def by (rule flush_foresee [OF fold_push_holds])
  also have "\<dots> = foresee (newThinkChunkFilter show) (concat cs)"
    by (rule fold_push_foresee [of _ "[]"]) (use assms in \<open>simp_all add: newThinkChunkFilter_def safe_cuts_def\<close>)
  finally show ?thesis
    by (simp add: foresee_def newThinkChunkFilter_def out_text_def err_text_def split: prod.splits)
qed

section \<open>Streaming against the batch function\<close>

lemma skip_same: "CR \<notin> set s \<Longrightarrow> skip_eol s = skip_cr_lf s"
  by (cases s) (auto simp: skip_eol_def skip_cr_lf.simps startsWith_def)

lemma set_skip_cr_lf: "set (skip_cr_lf s) \<subseteq> set s"
  using set_drop_subset [of 1 s] set_drop_subset [of 1 "drop 1 s"] by (auto simp: skip_cr_lf.simps Let_def)

lemma reveal_is_strip:
  "CR \<notin> set s \<Longrightarrow> indexOf OPEN (snd (think_matches s)) = None \<Longrightarrow>
   fst (reveal show False s) = stripThinkBlocks s"
proof (induction s rule: think_matches.induct)
  case (1 s)
  show ?case
  proof (cases "indexOf OPEN s")
    case None
    then show ?thesis by (simp add: stripThinkBlocks_def think_matches.simps [of s] reveal.simps)
  next
    case (Some i)
    then obtain j where j: "indexOf CLOSE (drop (i + 7) s) = Some j"
      using "1.prems"(2) by (cases "indexOf CLOSE (drop (i + 7) s)") (auto simp: think_matches.simps [of s])
    let ?d = "drop (i + 7 + j + 8) s"
    obtain ms rest where m: "think_matches (skip_cr_lf ?d) = (ms, rest)" by fastforce
    have d: "drop (j + 8) (drop (i + 7) s) = ?d" by (simp add: add.commute add.left_commute)
    have nocr: "CR \<notin> set ?d" using "1.prems"(1) set_drop_subset by fastforce
    have here: "think_matches s = ((take i s, take j (drop (i + 7) s)) # ms, rest)"
      using Some j m by (simp add: think_matches.simps [of s])
    have "fst (reveal show False (skip_cr_lf ?d)) = stripThinkBlocks (skip_cr_lf ?d)"
      using "1.IH" [OF Some j] nocr set_skip_cr_lf [of ?d] "1.prems"(2) here m by auto
    moreover have "fst (reveal show False s) = take i s @ fst (reveal show False (skip_cr_lf ?d))"
      using Some j reveal.simps(1) [of "show" s] reveal.simps(2) [of "show" "drop (i + 7) s"]
        skip_same [OF nocr] unfolding d by (simp add: case_prod_beta add.commute [of j i])
    ultimately show ?thesis using here m by (simp add: stripThinkBlocks_def)
  qed
qed

lemma tag_heads [simp]: "OPEN \<noteq> []" "CLOSE \<noteq> []" "hd OPEN = CHR ''<''" "hd CLOSE = CHR ''<''"
  by (simp_all add: OPEN_def CLOSE_def)

lemma startsWith_LF: "startsWith (LF # r) [LF]" "\<not> startsWith (LF # r) [CR]"
  by (simp_all add: startsWith_def LF_def CR_def)

text \<open>One block without markup inside, read in one chunk.\<close>

lemma push_block:
  assumes "CHR ''<'' \<notin> set x"
  shows "out_text (push (OPEN @ x @ CLOSE) (newThinkChunkFilter show)) = []"
    and "buf (push (OPEN @ x @ CLOSE) (newThinkChunkFilter show)) = []"
    and "\<not> inThink (push (OPEN @ x @ CLOSE) (newThinkChunkFilter show))"
proof -
  let ?f = "newThinkChunkFilter show"
  have fresh: "out_text ?f = []" "buf ?f = []" by (simp_all add: newThinkChunkFilter_def out_text_def)
  have o: "indexOf OPEN (OPEN @ x @ CLOSE) = Some 0"
    using indexOf_after_plain [of OPEN "[]"] by simp
  have c: "indexOf CLOSE (x @ CLOSE) = Some (length x)"
    using indexOf_after_plain [of CLOSE x "[]"] assms by simp
  have d: "drop 7 (OPEN @ x @ CLOSE) = x @ CLOSE" by (simp add: OPEN_def)
  have e: "skip_eol [] = []" by (simp add: skip_eol_def startsWith_def)
  define g where "g = write_err (OPEN @ [LF]) ((write_out [] ?f)\<lparr>inThink := True\<rparr>)"
  define h where "h = (write_err (CLOSE @ [LF]) (write_err x g))\<lparr>inThink := False\<rparr>"
  have "push (OPEN @ x @ CLOSE) ?f = push_loop g (x @ CLOSE)"
    using o d by (simp add: push_def push_loop.simps [of _ "OPEN @ x @ CLOSE"] g_def newThinkChunkFilter_def)
  also have "\<dots> = push_loop h []"
  proof -
    have "inThink g" by (simp add: g_def)
    then show ?thesis using c e by (simp add: push_loop.simps [of g "x @ CLOSE"] h_def)
  qed
  also have "\<dots> = h" by (simp add: push_loop.simps)
  finally have "push (OPEN @ x @ CLOSE) ?f = h" .
  then show "out_text (push (OPEN @ x @ CLOSE) ?f) = []" "buf (push (OPEN @ x @ CLOSE) ?f) = []"
    "\<not> inThink (push (OPEN @ x @ CLOSE) ?f)"
    by (simp_all add: h_def g_def fresh)
qed

lemma strip_block:
  assumes "CHR ''<'' \<notin> set x" and "CHR ''<'' \<notin> set r"
  shows "stripThinkBlocks (OPEN @ x @ CLOSE @ LF # r) = r"
proof -
  let ?s = "OPEN @ x @ CLOSE @ LF # r"
  have o: "indexOf OPEN ?s = Some 0" using indexOf_after_plain [of OPEN "[]"] by simp
  have d: "drop 7 ?s = x @ CLOSE @ LF # r" by (simp add: OPEN_def)
  have c: "indexOf CLOSE (drop (0 + 7) ?s) = Some (length x)"
    using indexOf_after_plain [of CLOSE x "LF # r"] assms d by simp
  have "drop (7 + length x + 8) ?s = drop (length x + 8) (drop 7 ?s)" by (simp add: add.commute)
  then have e: "skip_cr_lf (drop (0 + 7 + length x + 8) ?s) = r"
    unfolding d using startsWith_LF [of r] by (simp add: skip_cr_lf.simps CLOSE_def)
  have "think_matches r = ([], r)"
    using indexOf_plain [of OPEN r] assms(2) by (simp add: think_matches.simps [of r])
  then have "think_matches ?s = ([([], x)], r)"
    using d by (simp only: think_matches.simps [of ?s] o c e option.case) simp
  then show ?thesis by (simp add: stripThinkBlocks_def)
qed

section \<open>Properties\<close>

text \<open>C8: chunk boundaries are invisible unless one parts a closing tag from the line break behind it. However
  the answer is cut into chunks, as long as no cut stands between a closing tag and a line break character or
  inside the line break after it, both output streams receive the text that pushing the whole answer at once
  would write. (A cut at such a place can be seen: \<open>split_line_break_is_printed\<close>.)\<close>

theorem chunking_is_invisible:
  assumes "safe_cuts cs"
  shows "out_text (stream_filter show cs) = out_text (stream_filter show [concat cs]) \<and>
         err_text (stream_filter show cs) = err_text (stream_filter show [concat cs])"
proof -
  have "(out_text (stream_filter show [concat cs]), err_text (stream_filter show [concat cs])) =
        reveal show False (concat cs)"
    using stream_is_reveal [of "[concat cs]"] by (simp add: safe_cuts_def)
  then show ?thesis using stream_is_reveal [OF assms, of "show"] by (metis prod.inject)
qed

theorem chunking_is_invisible_witness:
  "out_text (stream_filter True [''a<th'', ''ink>b</thi'', ''nk>c'']) =
     out_text (stream_filter True [''a<think>b</think>c'']) \<and>
   err_text (stream_filter True [''a<th'', ''ink>b</thi'', ''nk>c'']) =
     err_text (stream_filter True [''a<think>b</think>c''])"
  using chunking_is_invisible [of "[''a<th'', ''ink>b</thi'', ''nk>c'']" True]
  by (simp add: safe_cuts_def safe_cut_def endsWith_def CR_def LF_def CLOSE_def)

text \<open>streaming agrees with batch filtering. If every cut is safe, the answer
  has no carriage return, and every opened block is closed, then standard output receives exactly
  \<^verbatim>\<open>stripThinkBlocks\<close> of the whole answer.\<close>

theorem streamed_answer_is_stripped_answer:
  assumes "safe_cuts cs" and "CR \<notin> set (concat cs)"
    and "indexOf OPEN (snd (think_matches (concat cs))) = None"
  shows "out_text (stream_filter show cs) = stripThinkBlocks (concat cs)"
  using stream_is_reveal [OF assms(1), of "show"] reveal_is_strip [OF assms(2,3), of "show"]
  by (metis fst_conv)

theorem streamed_answer_is_stripped_answer_witness:
  "out_text (stream_filter False [''x<thi'', ''nk>b</think>'', ''y'']) = stripThinkBlocks ''x<think>b</think>y''"
proof -
  have "snd (think_matches ''x<think>b</think>y'') = ''y''"
    by (simp add: think_matches.simps OPEN_def CLOSE_def startsWith_def skip_cr_lf.simps CR_def LF_def)
  then show ?thesis
    using streamed_answer_is_stripped_answer [of "[''x<thi'', ''nk>b</think>'', ''y'']" False]
    by (simp add: safe_cuts_def safe_cut_def endsWith_def CR_def LF_def OPEN_def CLOSE_def startsWith_def)
qed

text \<open>the filter never delays much. After any chunks, the text it holds back is a proper
  prefix of the tag it waits for, hence at most seven characters.\<close>

theorem held_text_is_bounded:
  "length (buf (fold push cs (newThinkChunkFilter show))) \<le> 7 \<and>
   startsWith (if inThink (fold push cs (newThinkChunkFilter show)) then CLOSE else OPEN)
     (buf (fold push cs (newThinkChunkFilter show)))"
proof -
  let ?f = "fold push cs (newThinkChunkFilter show)"
  have "strict_prefix (buf ?f) (if inThink ?f then CLOSE else OPEN)"
    using fold_push_holds by (simp add: holds_tag_start_def)
  moreover from this have "length (buf ?f) < length (if inThink ?f then CLOSE else OPEN)"
    by (rule prefix_length_less)
  then have "length (buf ?f) \<le> 7" by (simp split: if_splits)
  ultimately show ?thesis by (simp add: startsWith_prefix strict_prefix_def)
qed

text \<open>the line break after a block survives when it arrives in the next chunk. The same text
  in one chunk, or in the batch function, loses it.\<close>

theorem split_line_break_is_printed:
  assumes "CHR ''<'' \<notin> set x" and "CHR ''<'' \<notin> set r"
  shows "out_text (stream_filter show [OPEN @ x @ CLOSE, LF # r]) = LF # r \<and>
         stripThinkBlocks (OPEN @ x @ CLOSE @ LF # r) = r"
proof -
  let ?g = "push (OPEN @ x @ CLOSE) (newThinkChunkFilter show)"
  have "(out_text (flush (push (LF # r) ?g)), err_text (flush (push (LF # r) ?g))) = foresee ?g (LF # r)"
    using flush_foresee [OF push_holds] push_foresee [of ?g "LF # r" "[]"] by simp
  moreover have "indexOf OPEN (LF # r) = None"
    by (rule indexOf_plain) (simp_all add: LF_def assms(2))
  then have "foresee ?g (LF # r) = (LF # r, err_text ?g)"
    using push_block [OF assms(1), of "show"] by (simp add: foresee_def reveal.simps)
  ultimately show ?thesis using strip_block [OF assms] by (simp add: stream_filter_def)
qed

theorem split_line_break_is_printed_witness:
  "out_text (stream_filter False [''<think>why</think>'', LF # ''yes'']) = LF # ''yes'' \<and>
   stripThinkBlocks (''<think>why</think>'' @ LF # ''yes'') = ''yes''"
  using split_line_break_is_printed [of "''why''" "''yes''" False] by (simp add: OPEN_def CLOSE_def)

end
