(* ===== verification/Json_Laws.thy ===== *)
theory Json_Laws
  imports Json_Text
begin

text \<open>
  The round trip of JSON text: reading what was printed gives the value back, for every value that
  has a JSON form (no \<^verbatim>\<open>undefined\<close>, no non-finite number, no repeated key) and whose numbers are
  integers.
\<close>

section \<open>Numbers\<close>

lemma of_digit_char: "d < 10 \<Longrightarrow> (of_char (digit_char d) :: nat) = 48 + d"
  by (simp add: of_char_of)

lemma digit_char_simps [simp]:
  "d < 10 \<Longrightarrow> is_digit (digit_char d)" "d < 10 \<Longrightarrow> digit_val (digit_char d) = d"
  using of_digit_char [of d] by (simp_all add: is_digit_def digit_val_def)

lemma digits_val_snoc [simp]: "digits_val (s @ [c]) = 10 * digits_val s + digit_val c"
  by (simp add: digits_val_def)

lemma string_of_nat_digits:
  "list_all is_digit (string_of_nat n) \<and> digits_val (string_of_nat n) = n \<and> string_of_nat n \<noteq> []"
proof (induction n rule: string_of_nat.induct)
  case (1 n)
  show ?case
  proof (cases "n < 10")
    case True
    then show ?thesis
      using digits_val_snoc [of "[]"] by (simp add: string_of_nat.simps [of n] digits_val_def del: digit_char.simps)
  next
    case False
    then show ?thesis
      using 1 by (simp add: string_of_nat.simps [of n] del: digit_char.simps)
  qed
qed

lemma string_of_nat_head: "n > 0 \<Longrightarrow> hd (string_of_nat n) \<noteq> CHR ''0''"
proof (induction n rule: string_of_nat.induct)
  case (1 n)
  show ?case
  proof (cases "n < 10")
    case True
    then have "(of_char (digit_char n) :: nat) \<noteq> of_char (CHR ''0'')"
      using of_digit_char [of n] 1(2) by simp
    then show ?thesis using True by (auto simp: string_of_nat.simps [of n] simp del: digit_char.simps)
  next
    case False
    then show ?thesis
      using 1 string_of_nat_digits [of "n div 10"] by (simp add: string_of_nat.simps [of n] hd_append del: digit_char.simps)
  qed
qed

text \<open>What may follow a value inside a JSON text.\<close>

definition at_delimiter :: "string \<Rightarrow> bool" where
  "at_delimiter r = (r = [] \<or> hd r \<in> {CHR '','', CHR '']'', CHR ''}''})"

lemma read_digits_nat:
  assumes "at_delimiter r"
  shows "read_digits (string_of_nat n @ r) = (string_of_nat n, r)"
proof -
  have all: "\<And>c. c \<in> set (string_of_nat n) \<Longrightarrow> is_digit c"
    using string_of_nat_digits [of n] by (simp add: list_all_iff)
  have "takeWhile is_digit r = []" "dropWhile is_digit r = r"
    using assms by (cases r; auto simp: at_delimiter_def is_digit_def)+
  then show ?thesis
    using all by (simp add: read_digits_def takeWhile_append2 dropWhile_append2)
qed

lemma single_zero: "hd (string_of_nat n) = CHR ''0'' \<Longrightarrow> length (string_of_nat n) \<le> 1"
  using string_of_nat_head [of n] by (cases "n = 0") (simp_all add: string_of_nat.simps [of 0])

lemma read_frac_exp_delim: "at_delimiter r \<Longrightarrow> read_frac r = Some (0, r) \<and> read_exp r = Some (1, r)"
  by (cases r) (auto simp: at_delimiter_def read_frac_def read_exp_def)

lemma not_minus: "\<not> startsWith (string_of_nat n @ r) ''-''"
proof
  assume "startsWith (string_of_nat n @ r) ''-''"
  then have "hd (string_of_nat n) = CHR ''-''"
    using string_of_nat_digits [of n] by (cases "string_of_nat n") (auto simp: startsWith_def)
  then have "is_digit (CHR ''-'')"
    using string_of_nat_digits [of n] by (metis hd_in_set list_all_iff)
  then show False by (simp add: is_digit_def)
qed

lemma read_num_int:
  assumes "at_delimiter r"
  shows "read_num (string_of_int i @ r) = Some (JNum (Finite (of_int i)), r)"
proof (cases "i < 0")
  case True
  then have "string_of_int i @ r = CHR ''-'' # string_of_nat (nat (- i)) @ r" by (simp add: string_of_int_def)
  moreover have "startsWith (CHR ''-'' # string_of_nat (nat (- i)) @ r) ''-''" by (simp add: startsWith_def)
  ultimately show ?thesis
    using True read_digits_nat [OF assms] single_zero [of "nat (- i)"] read_frac_exp_delim [OF assms]
      string_of_nat_digits [of "nat (- i)"]
    by (auto simp: read_num_def)
next
  case False
  then show ?thesis
    using not_minus read_digits_nat [OF assms] single_zero [of "nat i"] read_frac_exp_delim [OF assms]
      string_of_nat_digits [of "nat i"]
    by (auto simp: read_num_def string_of_int_def)
qed

section \<open>Strings\<close>

lemma hex_val_digit: "d < 16 \<Longrightarrow> hex_val (hex_digit d) = Some d"
  by (auto simp: hex_val_def hex_digit_def of_char_of)

lemma read_escaped: "read_str (esc_char c @ s) = cons_fst c (read_str s)"
proof -
  let ?n = "of_char c :: nat"
  have h: "hex_val (CHR ''0'') = Some 0" by (simp add: hex_val_def)
  show ?thesis
  proof (cases "?n < 32 \<and> ?n \<notin> {8, 9, 10, 12, 13}")
    case True
    have "?n div 16 < 16" by (rule less_mult_imp_div_less) (use True in simp)
    with True have "hex4 (CHR ''0'') (CHR ''0'') (hex_digit (?n div 16)) (hex_digit (?n mod 16)) = Some c"
      using h hex_val_digit [of "?n div 16"] hex_val_digit [of "?n mod 16"] by (simp add: hex4_def)
    then show ?thesis using True by (simp add: esc_char_def Let_def)
  next
    case False
    then consider "?n = of_char (CHR 0x08)" | "?n = of_char (CHR 0x09)" | "?n = of_char (CHR 0x0A)"
      | "?n = of_char (CHR 0x0C)" | "?n = of_char (CHR 0x0D)" | "?n = of_char (CHR 0x22)"
      | "?n = of_char (CHR 0x5C)" | (plain) "32 \<le> ?n" "?n \<noteq> 34" "?n \<noteq> 92" by force
    then show ?thesis
    proof cases
      case plain
      then have "c \<noteq> CHR 0x22" "c \<noteq> CHR 0x5C" by auto
      then show ?thesis using plain by (simp add: esc_char_def Let_def)
    qed (simp_all only: of_char_eq_iff, simp_all add: esc_char_def esc_val_def)
  qed
qed

lemma read_str_text: "read_str (concat (map esc_char s) @ CHR 0x22 # r) = Some (s, r)"
  by (induction s) (simp_all add: read_escaped cons_fst_def)

section \<open>Values\<close>

fun json_plain :: "jsval \<Rightarrow> bool"
  and plain_items :: "jsval list \<Rightarrow> bool"
  and plain_fields :: "(string \<times> jsval) list \<Rightarrow> bool" where
  "json_plain JUndefined = False"
| "json_plain (JNum (Finite x)) = (x = of_int \<lfloor>x\<rfloor> \<and> \<bar>x\<bar> < 10 ^ 21)"
| "json_plain (JNum _) = False"
| "json_plain (JArr vs) = plain_items vs"
| "json_plain (JObj ob) = (plain_fields ob \<and> distinct (map fst ob))"
| "json_plain _ = True"
| "plain_items [] = True"
| "plain_items (v # vs) = (json_plain v \<and> plain_items vs)"
| "plain_fields [] = True"
| "plain_fields ((k, v) # ob) = (json_plain v \<and> plain_fields ob)"

text \<open>The fuel a value needs.\<close>

fun need :: "jsval \<Rightarrow> nat" and need_items :: "jsval list \<Rightarrow> nat"
  and need_fields :: "(string \<times> jsval) list \<Rightarrow> nat" where
  "need (JArr vs) = Suc (need_items vs)"
| "need (JObj ob) = Suc (need_fields ob)"
| "need JUndefined = 1"
| "need JNull = 1"
| "need (JBool b) = 1"
| "need (JNum x) = 1"
| "need (JStr s) = 1"
| "need_items [] = 0"
| "need_items (v # vs) = Suc (need v + need_items vs)"
| "need_fields [] = 0"
| "need_fields ((k, v) # ob) = Suc (need v + need_fields ob)"

lemma join_Cons: "join sep (x # xs) = x @ (if xs = [] then [] else sep @ join sep xs)"
  by (cases xs) simp_all

lemma expect_simps [simp]:
  "\<not> json_ws c \<Longrightarrow> expect c (c # r) = Some r"
  "\<not> json_ws d \<Longrightarrow> d \<noteq> c \<Longrightarrow> expect c (d # r) = None"
  by (simp_all add: expect_def skip_ws_def)

lemma ws_simps [simp]:
  "\<not> json_ws (CHR '','')" "\<not> json_ws (CHR '']'')" "\<not> json_ws (CHR ''}'')" "\<not> json_ws (CHR '':'')"
  "\<not> json_ws (CHR 0x22)" "\<not> json_ws (CHR ''['')" "\<not> json_ws (CHR ''{'')"
  by (simp_all add: json_ws_def)

lemma skip_ws_id [simp]: "\<not> json_ws c \<Longrightarrow> skip_ws (c # r) = c # r"
  by (simp add: skip_ws_def)

lemma at_delimiter_simps [simp]:
  "at_delimiter (CHR '','' # r)" "at_delimiter (CHR '']'' # r)" "at_delimiter (CHR ''}'' # r)" "at_delimiter []"
  by (simp_all add: at_delimiter_def)

text \<open>How the text of a number starts.\<close>

lemma int_text_start:
  obtains c r where "string_of_int i = c # r" and "is_digit c \<or> c = CHR ''-''"
proof (cases "i < 0")
  case True
  then show ?thesis using that by (simp add: string_of_int_def)
next
  case False
  then show ?thesis
    using that string_of_nat_digits [of "nat i"] by (cases "string_of_nat (nat i)") (auto simp: string_of_int_def)
qed

lemma digit_not_special:
  "is_digit c \<or> c = CHR ''-'' \<Longrightarrow>
   \<not> json_ws c \<and> c \<notin> {CHR 0x22, CHR ''['', CHR '']'', CHR ''{'', CHR ''}'', CHR ''n'', CHR ''t'', CHR ''f''}"
  by (auto simp: is_digit_def json_ws_def)

lemma text_start:
  assumes "json_plain v"
  obtains c r where "json_text repr v = c # r" and "\<not> json_ws c" and "c \<noteq> CHR '']''"
proof (cases v)
  case (JNum x)
  then obtain y where "x = Finite y" "y = of_int \<lfloor>y\<rfloor> \<and> \<bar>y\<bar> < 10 ^ 21" using assms by (cases x) auto
  then have t: "json_text repr v = string_of_int \<lfloor>y\<rfloor>" using JNum by simp
  obtain c r where c: "string_of_int \<lfloor>y\<rfloor> = c # r" "is_digit c \<or> c = CHR ''-''"
    by (rule int_text_start)
  show ?thesis using t c digit_not_special [OF c(2)] by (intro that) auto
next
  case (JBool b)
  then show ?thesis using that by (cases b) (auto simp: json_ws_def)
qed (use assms that in \<open>auto simp: str_text_def json_ws_def\<close>)

lemma read_leaf_num:
  assumes "json_plain (JNum x)" and "at_delimiter r"
  shows "read_val (Suc n) (num_text repr x @ r) = Some (JNum x, r)"
proof -
  obtain y where x: "x = Finite y" and y: "y = of_int \<lfloor>y\<rfloor>" "\<bar>y\<bar> < 10 ^ 21"
    using assms(1) by (cases x) auto
  then have t: "num_text repr x = string_of_int \<lfloor>y\<rfloor>" by simp
  obtain c r' where c: "string_of_int \<lfloor>y\<rfloor> = c # r'" "is_digit c \<or> c = CHR ''-''"
    by (rule int_text_start)
  have "read_val (Suc n) (string_of_int \<lfloor>y\<rfloor> @ r) = read_num (string_of_int \<lfloor>y\<rfloor> @ r)"
    using c digit_not_special [OF c(2)] by simp
  also have "\<dots> = Some (JNum (Finite y), r)" using read_num_int [OF assms(2)] y(1) by simp
  finally show ?thesis using t x by simp
qed

lemma read_word_hit [simp]: "read_word w v (w @ r) = Some (v, r)"
  by (simp add: read_word_def startsWith_def)

lemma read_leaf_word:
  "read_val (Suc n) (''null'' @ r) = Some (JNull, r)"
  "read_val (Suc n) (''true'' @ r) = Some (JBool True, r)"
  "read_val (Suc n) (''false'' @ r) = Some (JBool False, r)"
  using read_word_hit [of "''null''" JNull r] read_word_hit [of "''true''" "JBool True" r]
    read_word_hit [of "''false''" "JBool False" r] by (simp_all add: json_ws_def)

lemma read_leaf_str: "read_val (Suc n) (str_text s @ r) = Some (JStr s, r)"
  using read_str_text [of s r] by (simp add: str_text_def)

lemma obj_spread_distinct: "distinct (map fst (a @ b)) \<Longrightarrow> obj_spread a b = a @ b"
proof (induction b arbitrary: a)
  case (Cons p b)
  obtain k v where p: "p = (k, v)" by fastforce
  have "k \<notin> fst ` set a \<Longrightarrow> obj_set k v a = a @ [(k, v)]"
    by (induction k v a rule: obj_set.induct) auto
  then show ?case using Cons.IH [of "a @ [p]"] Cons.prems p by (auto simp: obj_spread_def)
qed (simp add: obj_spread_def)

lemma plain_defined: "json_plain v \<Longrightarrow> v \<noteq> JUndefined"
  by auto

lemma read_printed:
  "json_plain v \<Longrightarrow> at_delimiter r \<Longrightarrow> need v \<le> n \<Longrightarrow> read_val n (json_text repr v @ r) = Some (v, r)"
  "plain_items vs \<Longrightarrow> vs \<noteq> [] \<Longrightarrow> need_items vs \<le> n \<Longrightarrow>
   read_items n (join '','' (json_items repr vs) @ CHR '']'' # r) = Some (vs, r)"
  "plain_fields ob \<Longrightarrow> ob \<noteq> [] \<Longrightarrow> need_fields ob \<le> n \<Longrightarrow>
   read_fields n (join '','' (json_fields repr ob) @ CHR ''}'' # r) = Some (ob, r)"
proof (induction v and vs and ob arbitrary: n r and n r and n r rule: need_need_items_need_fields.induct)
  case (1 vs)
  then obtain m where n: "n = Suc m" "need_items vs \<le> m" by (cases n) auto
  show ?case
  proof (cases vs)
    case Nil
    then show ?thesis using n by simp
  next
    case (Cons w ws)
    then have "json_plain w" using 1 by simp
    then obtain c t where c: "json_text repr w = c # t" "\<not> json_ws c" "c \<noteq> CHR '']''" by (rule text_start)
    then have "expect (CHR '']'') (join '','' (json_items repr vs) @ CHR '']'' # r) = None"
      using Cons by (simp add: join_Cons)
    then show ?thesis using 1 n Cons by simp
  qed
next
  case (2 ob)
  then obtain m where n: "n = Suc m" "need_fields ob \<le> m" by (cases n) auto
  show ?case
  proof (cases ob)
    case Nil
    then show ?thesis using n by (simp add: obj_spread_def)
  next
    case (Cons p ps)
    obtain k w where p: "p = (k, w)" by fastforce
    then have "w \<noteq> JUndefined" using 2 Cons plain_defined by auto
    then have "expect (CHR ''}'') (join '','' (json_fields repr ob) @ CHR ''}'' # r) = None"
      using Cons p by (simp add: join_Cons str_text_def)
    then show ?thesis using 2 n Cons obj_spread_distinct [of "[]" ob] by simp
  qed
next
  case (5 b)
  then show ?case using read_leaf_word by (cases n; cases b) simp_all
next
  case (6 x)
  then show ?case using read_leaf_num by (cases n) simp_all
next
  case (7 s)
  then show ?case using read_leaf_str by (cases n) simp_all
next
  case (9 v vs)
  then obtain m where n: "n = Suc m" "need v \<le> m" "need_items vs \<le> m" by (cases n) auto
  show ?case
  proof (cases "vs = []")
    case True
    then show ?thesis using 9 n by simp
  next
    case False
    then have "json_items repr vs \<noteq> []" by (cases vs) simp_all
    then show ?thesis using 9 n False by (simp add: join_Cons cons_fst_def)
  qed
next
  case (11 k v ob)
  then obtain m where n: "n = Suc m" "need v \<le> m" "need_fields ob \<le> m" by (cases n) auto
  have v: "v \<noteq> JUndefined" using 11 plain_defined by auto
  have key: "read_str (concat (map esc_char k) @ CHR 0x22 # s) = Some (k, s)" for s
    by (rule read_str_text)
  show ?case
  proof (cases "ob = []")
    case True
    then show ?thesis using 11 n v key by (simp add: str_text_def)
  next
    case False
    then obtain k' w ob' where ob: "ob = (k', w) # ob'" by (cases ob) auto
    then have "json_fields repr ob \<noteq> []" using 11 plain_defined by auto
    then show ?thesis using 11 n False v key by (simp add: join_Cons cons_fst_def str_text_def)
  qed
qed (simp_all, use read_leaf_word(1) in \<open>auto simp: Suc_le_eq gr0_conv_Suc\<close>)

lemma need_bound:
  "json_plain v \<Longrightarrow> need v \<le> 2 * length (json_text repr v)"
  "plain_items vs \<Longrightarrow> vs \<noteq> [] \<Longrightarrow> need_items vs \<le> 2 * length (join '','' (json_items repr vs)) + 1"
  "plain_fields ob \<Longrightarrow> ob \<noteq> [] \<Longrightarrow> need_fields ob \<le> 2 * length (join '','' (json_fields repr ob))"
proof (induction v and vs and ob rule: need_need_items_need_fields.induct)
  case (1 vs)
  then show ?case by (cases "vs = []") simp_all
next
  case (2 ob)
  then show ?case by (cases "ob = []") simp_all
next
  case (9 v vs)
  have "json_items repr vs = [] \<longleftrightarrow> vs = []" by (cases vs) simp_all
  then show ?case using 9 by (cases "vs = []") (simp_all add: join_Cons)
next
  case (11 k v ob)
  have "v \<noteq> JUndefined" using 11 plain_defined by auto
  moreover have "json_fields repr ob = [] \<longleftrightarrow> ob = []" using 11(3) plain_defined by (cases ob) auto
  ultimately show ?case using 11 by (cases "ob = []") (simp_all add: join_Cons str_text_def)
next
  case (6 x)
  from text_start [OF 6, of repr] show ?case by fastforce
qed (simp_all add: str_text_def)

text \<open>The round trip.\<close>

lemma json_round_trip: "json_plain v \<Longrightarrow> json_parse (json_text repr v) = Some v"
  using read_printed(1) [of v "[]" "2 * length (json_text repr v) + 2" repr] need_bound(1) [of v repr]
  by (simp add: json_parse_def skip_ws_def)

lemma json_text_nonempty: "json_plain v \<Longrightarrow> json_text repr v \<noteq> []"
  by (erule text_start [where repr = repr]) simp

end
