(* ===== verification/Cli_Laws.thy ===== *)
theory Cli_Laws
  imports Cli_Run Think_Laws Json_Laws
begin

text \<open>
  Laws of a run from the command line. The two strategies read the same events: the live printer
  through the reasoning filter, chunk by chunk; the collector into one answer that is filtered at
  the end. The laws compare them.
\<close>

section \<open>Streams without failures\<close>

definition quiet_event :: "sse_event \<Rightarrow> bool" where
  "quiet_event ev =
     (ev_name ev \<notin> {''error'', ''human_input_required'', ''workflow_paused''} \<and>
      plain_object (lenientJson (ev_data ev)) \<and> (ev_data ev = [] \<or> json_parse (ev_data ev) \<noteq> None))"

definition event_answer :: "sse_event \<Rightarrow> string list" where
  "event_answer ev =
     (if ev_name ev \<in> {''message'', ''agent_message''} then
        (case str_of (js_get (lenientJson (ev_data ev)) ''answer'') of Some s \<Rightarrow> [s] | None \<Rightarrow> [])
      else [])"

definition answers_of :: "sse_event list \<Rightarrow> string list" where
  "answers_of evs = concat (map event_answer evs)"

lemma answers_of_simps [simp]:
  "answers_of [] = []" "answers_of (ev # evs) = event_answer ev @ answers_of evs"
  by (simp_all add: answers_of_def)

lemma bind_err_simps [simp]:
  "bind_err (Inr x) f = f x" "bind_err (Inl e) f = Inl e"
  by (simp_all add: bind_err_def)

lemma quiet_parse:
  "quiet_event ev \<Longrightarrow> parseJson env (ev_data ev) = Inr (lenientJson (ev_data ev))"
  by (auto simp: quiet_event_def parseJson_def lenientJson_def)

lemma plain_objectE: "plain_object c \<Longrightarrow> (\<And>ob. c = JObj ob \<Longrightarrow> P) \<Longrightarrow> P"
  by (cases c) auto

lemma plain_reads [simp]: "plain_object c \<Longrightarrow> read_prop c k = Inr (js_get c k)" "plain_object c \<Longrightarrow> \<not> nullish c"
  by (auto elim: plain_objectE simp: read_prop_def)

lemma parseReasoningChunk_plain: "plain_object c \<Longrightarrow> \<exists>ch. parseReasoningChunk c = Inr ch"
  by (simp add: parseReasoningChunk_def)

section \<open>The collector\<close>

lemma copyScalar_object:
  "is_object src \<Longrightarrow> \<exists>b. copyScalar dst src ks = Inr b \<and> fst ` set b \<subseteq> fst ` set dst \<union> set ks"
proof (induction dst src ks rule: copyScalar.induct)
  case (2 dst src k ks)
  let ?dst = "obj_set k (js_get src k) dst"
  consider "k \<in> fst ` set dst" | (copied) "k \<notin> fst ` set dst" "k \<in> set (object_keys src)"
    | (absent) "k \<notin> fst ` set dst" "k \<notin> set (object_keys src)" by blast
  then show ?case
  proof cases
    case 1
    obtain b where b: "copyScalar dst src ks = Inr b" "fst ` set b \<subseteq> fst ` set dst \<union> set ks"
      using "2.IH"(1) [OF 1 "2.prems"] by blast
    then have "fst ` set b \<subseteq> fst ` set dst \<union> set (k # ks)" by (simp only: list.set) blast
    then show ?thesis using b 1 by simp
  next
    case copied
    have "\<exists>b. copyScalar ?dst src ks = Inr b \<and> fst ` set b \<subseteq> fst ` set ?dst \<union> set ks"
      by (rule "2.IH"(2)) (use copied "2.prems" in simp_all)
    then obtain b where b: "copyScalar ?dst src ks = Inr b" "fst ` set b \<subseteq> fst ` set ?dst \<union> set ks"
      by blast
    then have "fst ` set b \<subseteq> fst ` set dst \<union> set (k # ks)"
      using dom_obj_set [of k "js_get src k" dst] by (simp only: list.set) blast
    then show ?thesis using b copied "2.prems" by simp
  next
    case absent
    have "\<exists>b. copyScalar dst src ks = Inr b \<and> fst ` set b \<subseteq> fst ` set dst \<union> set ks"
      by (rule "2.IH"(3)) (use absent "2.prems" in simp_all)
    then obtain b where b: "copyScalar dst src ks = Inr b" "fst ` set b \<subseteq> fst ` set dst \<union> set ks"
      by blast
    then have "fst ` set b \<subseteq> fst ` set dst \<union> set (k # ks)" by (simp only: list.set) blast
    then show ?thesis using b absent "2.prems" by simp
  qed
qed simp

lemma plain_is_object: "plain_object c \<Longrightarrow> is_object c"
  by (auto elim: plain_objectE)

definition scalars_only :: "collector_data \<Rightarrow> bool" where
  "scalars_only d = (fst ` set (cd_base d) \<subseteq> set chatScalars)"

lemma copyScalar_scalars:
  assumes "plain_object c" "scalars_only d"
  shows "\<exists>b. copyScalar (cd_base d) c chatScalars = Inr b \<and> fst ` set b \<subseteq> set chatScalars"
proof -
  obtain b where "copyScalar (cd_base d) c chatScalars = Inr b"
    "fst ` set b \<subseteq> fst ` set (cd_base d) \<union> set chatScalars"
    using copyScalar_object [OF plain_is_object [OF assms(1)]] by blast
  moreover have "fst ` set (cd_base d) \<subseteq> set chatScalars" using assms(2) by (simp add: scalars_only_def)
  ultimately show ?thesis by blast
qed

lemma consumeAnswer_plain:
  assumes "plain_object c" "scalars_only d"
  shows "\<exists>d'. consumeAnswer chatScalars c d = Inr d' \<and> scalars_only d' \<and>
    cd_answer d' = cd_answer d @ (case str_of (js_get c ''answer'') of Some s \<Rightarrow> s | None \<Rightarrow> [])"
proof -
  obtain b where "copyScalar (cd_base d) c chatScalars = Inr b" "fst ` set b \<subseteq> set chatScalars"
    using copyScalar_scalars [OF assms] by blast
  then show ?thesis using assms(1)
    by (cases "str_of (js_get c ''answer'')") (simp_all add: consumeAnswer_def scalars_only_def)
qed

lemma consumeEnd_plain:
  assumes "plain_object c" "scalars_only d"
  shows "\<exists>d'. consumeEnd chatScalars c d = Inr d' \<and> scalars_only d' \<and> cd_answer d' = cd_answer d"
proof -
  obtain b where "copyScalar (cd_base d) c chatScalars = Inr b" "fst ` set b \<subseteq> set chatScalars"
    using copyScalar_scalars [OF assms] by blast
  then show ?thesis using assms(1)
    by (cases "is_object (js_get c ''metadata'')") (simp_all add: consumeEnd_def scalars_only_def)
qed

lemma consumeReasoning_plain:
  assumes "plain_object c" "scalars_only d"
  shows "\<exists>d'. consumeReasoning c d = Inr d' \<and> scalars_only d' \<and> cd_answer d' = cd_answer d"
  using parseReasoningChunk_plain [OF assms(1)] assms
  by (auto simp: consumeReasoning_def scalars_only_def split: option.splits)

lemma consume_quiet:
  assumes "quiet_event ev" "scalars_only d"
  shows "\<exists>d'. consume env (ChatCollector mode ag d) ev = Inr (ChatCollector mode ag d') \<and> scalars_only d' \<and>
    cd_answer d' = cd_answer d @ concat (event_answer ev)"
proof -
  let ?c = "lenientJson (ev_data ev)"
  have c: "plain_object ?c" using assms(1) by (simp add: quiet_event_def)
  note steps = consumeAnswer_plain [OF c assms(2)] consumeEnd_plain [OF c assms(2)] consumeReasoning_plain [OF c assms(2)]
  consider "ev_name ev \<in> {''message'', ''agent_message''}" | "ev_name ev = ''reasoning_chunk''"
    | "ev_name ev = ''agent_thought''" | "ev_name ev = ''message_end''"
    | "ev_name ev \<notin> {''message'', ''agent_message'', ''reasoning_chunk'', ''agent_thought'', ''message_end''}" by blast
  then show ?thesis
    using steps assms(2) quiet_parse [OF assms(1), of env]
    by cases (auto simp: event_answer_def scalars_only_def split: option.splits)
qed

lemma silent_no_answer: "ev_name ev \<in> set SILENT_EVENTS \<or> ev_name ev = ''ping'' \<Longrightarrow> event_answer ev = []"
  by (auto simp: SILENT_EVENTS_def event_answer_def)

lemma collectEvents_quiet:
  "list_all quiet_event evs \<Longrightarrow> scalars_only d \<Longrightarrow>
   \<exists>d'. collectEvents env (ChatCollector mode ag d) evs = Inr (ChatCollector mode ag d') \<and> scalars_only d' \<and>
     cd_answer d' = cd_answer d @ concat (answers_of evs)"
proof (induction evs arbitrary: d)
  case (Cons ev evs)
  show ?case
  proof (cases "ev_name ev = ''ping'' \<or> ev_name ev \<in> set SILENT_EVENTS")
    case True
    then have "event_answer ev = []" by (intro silent_no_answer) blast
    then show ?thesis using True Cons by simp
  next
    case False
    obtain d1 where d1: "consume env (ChatCollector mode ag d) ev = Inr (ChatCollector mode ag d1)" "scalars_only d1"
      "cd_answer d1 = cd_answer d @ concat (event_answer ev)"
      using consume_quiet [of ev d env mode ag] Cons.prems by auto
    have "ev_name ev \<noteq> ''error''" "ev_name ev \<noteq> ''human_input_required''" "ev_name ev \<noteq> ''workflow_paused''"
      using Cons.prems(1) by (simp_all add: quiet_event_def)
    then show ?thesis using False d1 Cons.IH [OF _ d1(2)] Cons.prems(1) by (simp del: consume.simps)
  qed
qed simp

lemma obj_get_map: "obj_get ob k = (case map_of ob k of None \<Rightarrow> JUndefined | Some v \<Rightarrow> v)"
  by (simp add: obj_get_def)

lemma obj_get_set [simp]: "obj_get (obj_set k v ob) j = (if j = k then v else obj_get ob j)"
  by (simp add: obj_get_def)

lemma obj_get_spread_other: "k \<notin> fst ` set b \<Longrightarrow> obj_get (obj_spread a b) k = obj_get a k"
proof -
  assume "k \<notin> fst ` set b"
  then have "map_of (rev b) k = None" by (simp add: map_of_eq_None_iff)
  then show ?thesis by (simp add: obj_get_def map_of_obj_spread map_add_def)
qed

lemma finalize_answer:
  assumes "scalars_only d"
  shows "obj_get (finalize (ChatCollector mode ag d)) ''answer'' = JStr (cd_answer d)"
    and "obj_get (finalize (ChatCollector mode ag d)) ''mode'' = JStr mode"
proof -
  have "''answer'' \<notin> fst ` set (cd_base d)" "''mode'' \<notin> fst ` set (cd_base d)"
    using assms by (auto simp: scalars_only_def chatScalars_def)
  then have "obj_get (obj_spread [(''mode'', JStr mode), (''answer'', JStr (cd_answer d))] (cd_base d)) ''answer'' = JStr (cd_answer d)"
    "obj_get (obj_spread [(''mode'', JStr mode), (''answer'', JStr (cd_answer d))] (cd_base d)) ''mode'' = JStr mode"
    by (simp_all add: obj_get_spread_other, simp_all add: obj_get_def)
  then show "obj_get (finalize (ChatCollector mode ag d)) ''answer'' = JStr (cd_answer d)"
    "obj_get (finalize (ChatCollector mode ag d)) ''mode'' = JStr mode"
    by (simp_all add: Let_def split: option.splits)
qed

definition chat_mode :: "string \<Rightarrow> bool" where
  "chat_mode mode = (mode \<in> {''chat'', ''advanced-chat'', ''agent-chat''})"

lemma chat_collector:
  "chat_mode mode \<Longrightarrow> collectorFor mode = Inr (ChatCollector mode (mode = ''agent-chat'') emptyCollector)"
  unfolding chat_mode_def by (elim insertE emptyE) (simp_all add: collectorFor_def)

lemma collect_quiet:
  assumes "chat_mode mode" "list_all quiet_event evs"
  shows "\<exists>resp. collect env evs mode = Inr resp \<and> obj_get resp ''mode'' = JStr mode \<and>
    obj_get resp ''answer'' = JStr (concat (answers_of evs))"
proof -
  define ag where "ag = (mode = ''agent-chat'')"
  have ag: "collectorFor mode = Inr (ChatCollector mode ag emptyCollector)"
    using chat_collector [OF assms(1)] by (simp add: ag_def)
  have "scalars_only emptyCollector" "cd_answer emptyCollector = []"
    by (simp_all add: scalars_only_def emptyCollector_def)
  then obtain d where "collectEvents env (ChatCollector mode ag emptyCollector) evs = Inr (ChatCollector mode ag d)"
    "scalars_only d" "cd_answer d = concat (answers_of evs)"
    using collectEvents_quiet [OF assms(2), of emptyCollector env mode ag] by auto
  then show ?thesis using ag finalize_answer [of d mode ag] by (simp add: collect_def)
qed

lemma structured_chat:
  assumes "chat_mode mode" "list_all quiet_event evs"
  shows "\<exists>e. streamingStructured env think mode evs = Inr (stripThinkBlocks (concat (answers_of evs)) @ [LF], e)"
proof -
  obtain resp where r: "collect env evs mode = Inr resp" "obj_get resp ''mode'' = JStr mode"
    "obj_get resp ''answer'' = JStr (concat (answers_of evs))" using collect_quiet [OF assms] by blast
  obtain ob e1 where ob: "processResponse think mode resp = (ob, e1)" "obj_get ob ''mode'' = JStr mode"
    "obj_get ob ''answer'' = JStr (stripThinkBlocks (concat (answers_of evs)))"
    using r by (cases think)
      (auto simp: processResponse_def extractThinkBlocks_def stripThinkBlocks_def Let_def split: prod.splits)
  have "mode \<noteq> []" "mode \<in> {''chat'', ''agent-chat'', ''advanced-chat''}" using assms(1) by (auto simp: chat_mode_def)
  then have "textForMode env mode (newAppRunObject mode ob) = stripThinkBlocks (concat (answers_of evs)) @ [LF]"
    using ob by (simp add: textForMode_def newAppRunObject_def renderChat_def pickString_def)
  then show ?thesis using r ob \<open>mode \<noteq> []\<close> by (auto simp: streamingStructured_def Let_def)
qed

section \<open>The live printer\<close>

text \<open>What standard output will hold; writes to standard error do not matter to it.\<close>

definition out_ahead :: "think_chunk_filter \<Rightarrow> string \<Rightarrow> string" where
  "out_ahead f t = fst (foresee f t)"

lemma out_ahead_push: "safe_cut (buf f @ c) t \<Longrightarrow> out_ahead (push c f) t = out_ahead f (c @ t)"
  by (simp add: out_ahead_def push_foresee)

lemma out_ahead_errs [simp]:
  "out_ahead (f\<lparr>errs := e\<rparr>) t = out_ahead f t" "holds_tag_start (f\<lparr>errs := e\<rparr>) = holds_tag_start f"
  by (simp_all add: out_ahead_def foresee_def out_text_def holds_tag_start_def case_prod_beta)

lemma out_ahead_flush: "holds_tag_start f \<Longrightarrow> out_text (flush f) = out_ahead f []"
  using flush_foresee [of f] by (metis fst_conv out_ahead_def)

text \<open>A printer in order: it prints a chat and its filter holds the start of a tag; and it has read a text
  that ends with what it holds.\<close>

definition chat_printer :: "printer \<Rightarrow> bool" where
  "chat_printer p = (pr_kind p = ChatStreamPrinter \<and> holds_tag_start (pr_filter p))"

definition has_read :: "string \<Rightarrow> printer \<Rightarrow> bool" where
  "has_read w p = suffix (buf (pr_filter p)) w"

lemma err_only_simps [simp]:
  "chat_printer (print_err w p) = chat_printer p" "out_ahead (pr_filter (print_err w p)) t = out_ahead (pr_filter p) t"
  "chat_printer (pushReasoning ch p) = chat_printer p"
  "out_ahead (pr_filter (pushReasoning ch p)) t = out_ahead (pr_filter p) t"
  "chat_printer (flushReasoning p) = chat_printer p"
  "out_ahead (pr_filter (flushReasoning p)) t = out_ahead (pr_filter p) t"
  "chat_printer (noteConversation c p) = chat_printer p" "pr_filter (noteConversation c p) = pr_filter p"
  "has_read w (print_err x p) = has_read w p" "has_read w (pushReasoning ch p) = has_read w p"
  "has_read w (flushReasoning p) = has_read w p" "has_read w (noteConversation c p) = has_read w p"
  by (simp_all add: chat_printer_def has_read_def print_err_def pushReasoning_def flushReasoning_def noteConversation_def
      case_prod_beta split: option.splits)

definition answer_text :: "jsval \<Rightarrow> string" where
  "answer_text c = (case str_of (js_get c ''answer'') of Some s \<Rightarrow> s | None \<Rightarrow> [])"

lemma pushAnswer_ahead:
  assumes "chat_printer p" and w: "has_read w p"
    and cut: "str_of (js_get c ''answer'') \<noteq> None \<Longrightarrow> safe_cut (w @ answer_text c) t"
  shows "chat_printer (pushAnswer c p) \<and> has_read (w @ answer_text c) (pushAnswer c p)
    \<and> out_ahead (pr_filter (pushAnswer c p)) t = out_ahead (pr_filter p) (answer_text c @ t)"
proof (cases "str_of (js_get c ''answer'')")
  case (Some a)
  have "safe_cut (buf (pr_filter p) @ a) t"
    by (rule safe_cut_suffix [of "w @ a"]) (use cut Some w in \<open>simp_all add: answer_text_def has_read_def\<close>)
  then show ?thesis
    using Some assms(1) w push_buf
    by (simp add: pushAnswer_def chat_printer_def push_holds out_ahead_push answer_text_def has_read_def)
qed (use assms in \<open>simp add: pushAnswer_def answer_text_def\<close>)

lemma onEvent_quiet:
  assumes "quiet_event ev" "chat_printer p" "has_read w p"
    and cut: "event_answer ev \<noteq> [] \<Longrightarrow> safe_cut (w @ concat (event_answer ev)) t"
  shows "\<exists>p'. onEvent ev p = Inr p' \<and> chat_printer p' \<and> has_read (w @ concat (event_answer ev)) p' \<and>
    out_ahead (pr_filter p') t = out_ahead (pr_filter p) (concat (event_answer ev) @ t)"
proof (cases "ev_name ev \<in> set SILENT_EVENTS")
  case True
  then show ?thesis using assms(2,3) silent_no_answer [of ev] by (simp add: onEvent_def handleCommonEvents_def)
next
  case False
  let ?c = "lenientJson (ev_data ev)"
  have c: "plain_object ?c" and name: "ev_name ev \<noteq> ''human_input_required''"
    using assms(1) by (simp_all add: quiet_event_def)
  have ev: "onEvent ev p = onChatEvent ev ?c p"
    using False name assms(2) by (simp add: onEvent_def handleCommonEvents_def chat_printer_def)
  obtain ch where ch: "parseReasoningChunk ?c = Inr ch" using parseReasoningChunk_plain [OF c] by blast
  consider "ev_name ev \<in> {''message'', ''agent_message''}" | "ev_name ev = ''reasoning_chunk''"
    | "ev_name ev = ''agent_thought''" | "ev_name ev = ''message_end''"
    | "ev_name ev \<notin> {''message'', ''agent_message'', ''reasoning_chunk'', ''agent_thought'', ''message_end''}" by blast
  then show ?thesis
  proof cases
    case 1
    then have "onEvent ev p = Inr (noteConversation ?c (pushAnswer ?c p))"
      using ev c by (simp add: onChatEvent_def)
    moreover have "concat (event_answer ev) = answer_text ?c"
      using 1 by (simp add: event_answer_def answer_text_def split: option.splits)
    moreover have "event_answer ev \<noteq> []" if "str_of (js_get ?c ''answer'') \<noteq> None"
      using 1 that by (auto simp: event_answer_def split: option.splits)
    ultimately show ?thesis using pushAnswer_ahead [OF assms(2,3), of ?c t] cut by simp
  qed (use ev c ch assms(2,3) in \<open>auto simp: onChatEvent_def printReasoning_def event_answer_def split: option.splits\<close>)
qed

lemma event_answer_one: "event_answer ev = [] \<or> (\<exists>a. event_answer ev = [a])"
  by (simp add: event_answer_def split: option.split)

lemma printEvents_quiet:
  "list_all quiet_event evs \<Longrightarrow> safe_from w (answers_of evs) \<Longrightarrow> chat_printer p \<Longrightarrow> has_read w p \<Longrightarrow>
   \<exists>p' t'. printEvents env (p, t) evs = Inr (p', t') \<and> chat_printer p' \<and>
     out_ahead (pr_filter p') [] = out_ahead (pr_filter p) (concat (answers_of evs))"
proof (induction evs arbitrary: p t w)
  case (Cons ev evs)
  show ?case
  proof (cases "ev_name ev = ''ping''")
    case True
    then have "event_answer ev = []" by (intro silent_no_answer) blast
    then show ?thesis using True Cons by simp
  next
    case False
    let ?w = "w @ concat (event_answer ev)"
    have sf: "safe_from w (event_answer ev @ answers_of evs)" using Cons.prems(2) by simp
    have cut: "event_answer ev \<noteq> [] \<Longrightarrow> safe_cut ?w (concat (answers_of evs))"
      using event_answer_one [of ev] sf by auto
    obtain p1 where p1: "onEvent ev p = Inr p1" "chat_printer p1" "has_read ?w p1"
      "out_ahead (pr_filter p1) (concat (answers_of evs)) = out_ahead (pr_filter p) (concat (event_answer ev) @ concat (answers_of evs))"
      using onEvent_quiet [OF _ Cons.prems(3,4) cut] Cons.prems(1) by auto
    have "ev_name ev \<noteq> ''error''" using Cons.prems(1) by (simp add: quiet_event_def)
    then show ?thesis
      using False p1 Cons.IH [OF _ safe_from_append [OF sf] p1(2,3)] Cons.prems(1) by simp
  qed
qed simp

lemma live_chat:
  assumes "chat_mode mode" "list_all quiet_event evs" "safe_cuts (answers_of evs)"
  shows "\<exists>p. streamingText env think mode evs = Inr p \<and>
    out_text (pr_filter p) = fst (reveal think False (concat (answers_of evs))) @ [LF]"
proof -
  let ?p = "newPrinter ChatStreamPrinter think"
  have new: "streamPrinterFor mode think = Inr ?p" using assms(1) by (simp add: streamPrinterFor_def chat_mode_def)
  have "chat_printer ?p" using fold_push_holds [of "[]" think] by (simp add: chat_printer_def newPrinter_def)
  moreover have "has_read [] ?p" by (simp add: has_read_def newPrinter_def newThinkChunkFilter_def)
  ultimately obtain p t where p: "printEvents env (?p, None) evs = Inr (p, t)" "chat_printer p"
    "out_ahead (pr_filter p) [] = out_ahead (pr_filter ?p) (concat (answers_of evs))"
    using printEvents_quiet [OF assms(2) assms(3) [unfolded safe_cuts_def]] by blast
  let ?q = "flushReasoning p"
  have q: "chat_printer ?q" "out_ahead (pr_filter ?q) [] = out_ahead (pr_filter ?p) (concat (answers_of evs))"
    using p by simp_all
  have "out_text (flush (pr_filter ?q)) = out_ahead (pr_filter ?p) (concat (answers_of evs))"
    using q by (simp add: out_ahead_flush chat_printer_def)
  also have "\<dots> = fst (reveal think False (concat (answers_of evs)))"
    by (simp add: out_ahead_def foresee_def newPrinter_def newThinkChunkFilter_def out_text_def case_prod_beta)
  finally have f: "out_text (flush (pr_filter ?q)) = fst (reveal think False (concat (answers_of evs)))" .
  have "pr_kind p = ChatStreamPrinter" using p(2) by (simp add: chat_printer_def)
  then show ?thesis
    using new p(1) f by (simp add: streamingText_def onEnd_def Let_def print_out_def print_err_def out_text_def)
qed

section \<open>Failures\<close>

lemma collectEvents_append:
  "collectEvents env c (as @ bs) = bind_err (collectEvents env c as) (\<lambda>c'. collectEvents env c' bs)"
proof (induction as arbitrary: c)
  case (Cons ev evs)
  then show ?case by (cases "consume env c ev") (simp_all del: consume.simps add: bind_err_def split: sum.splits)
qed simp

lemma printEvents_append:
  "printEvents env (p, t) (as @ bs) = bind_err (printEvents env (p, t) as) (\<lambda>r. printEvents env r bs)"
proof (induction as arbitrary: p t)
  case (Cons ev evs)
  then show ?case by (cases "onEvent ev p") simp_all
qed simp

lemma printEvents_runs:
  "list_all quiet_event evs \<Longrightarrow> chat_printer p \<Longrightarrow>
   \<exists>p' t'. printEvents env (p, t) evs = Inr (p', t') \<and> chat_printer p'"
proof (induction evs arbitrary: p t)
  case (Cons ev evs)
  obtain p1 where "onEvent ev p = Inr p1" "chat_printer p1"
    using onEvent_quiet [of ev p "buf (pr_filter p)" "[]"] Cons.prems by (auto simp: has_read_def)
  moreover have "ev_name ev \<noteq> ''error''" using Cons.prems(1) by (simp add: quiet_event_def)
  ultimately show ?case using Cons by simp
qed simp

lemma chat_start:
  assumes "chat_mode mode"
  shows "streamPrinterFor mode think = Inr (newPrinter ChatStreamPrinter think) \<and>
    chat_printer (newPrinter ChatStreamPrinter think)"
  using assms fold_push_holds [of "[]" think]
  by (simp add: streamPrinterFor_def chat_mode_def chat_printer_def newPrinter_def)

lemma live_prefix:
  assumes "chat_mode mode" "list_all quiet_event pre"
  shows "\<exists>p t. chat_printer p \<and>
    streamingText env think mode (pre @ post) = bind_err (printEvents env (p, t) post) (\<lambda>r. onEnd env (fst r))"
proof -
  obtain p t where p: "printEvents env (newPrinter ChatStreamPrinter think, None) pre = Inr (p, t)" "chat_printer p"
    using chat_start [OF assms(1), of think] printEvents_runs [OF assms(2)] by blast
  then have "streamingText env think mode (pre @ post) =
      bind_err (printEvents env (p, t) post) (\<lambda>r. onEnd env (fst r))"
    using chat_start [OF assms(1), of think] by (simp add: streamingText_def printEvents_append)
  then show ?thesis using p(2) by blast
qed

lemma collected_prefix:
  assumes "chat_mode mode" "list_all quiet_event pre"
  shows "\<exists>c. collect env (pre @ post) mode = bind_err (collectEvents env c post) (\<lambda>c'. Inr (finalize c'))"
proof -
  have "scalars_only emptyCollector" by (simp add: scalars_only_def emptyCollector_def)
  then obtain d where "collectEvents env (ChatCollector mode (mode = ''agent-chat'') emptyCollector) pre =
      Inr (ChatCollector mode (mode = ''agent-chat'') d)"
    using collectEvents_quiet [OF assms(2)] by blast
  then have "collect env (pre @ post) mode =
      bind_err (collectEvents env (ChatCollector mode (mode = ''agent-chat'') d) post) (\<lambda>c'. Inr (finalize c'))"
    using chat_collector [OF assms(1)] by (simp add: collect_def collectEvents_append)
  then show ?thesis by blast
qed

text \<open>Events of a small run.\<close>

definition event_of :: "string \<Rightarrow> jsobj \<Rightarrow> sse_event" where
  "event_of name ob = \<lparr>ev_name = name, ev_data = json_text (\<lambda>_. []) (JObj ob)\<rparr>"

lemma event_of_data:
  "json_plain (JObj ob) \<Longrightarrow> json_parse (ev_data (event_of name ob)) = Some (JObj ob)"
  "json_plain (JObj ob) \<Longrightarrow> lenientJson (ev_data (event_of name ob)) = JObj ob"
  using json_round_trip [of "JObj ob"] json_text_nonempty [of "JObj ob"]
  by (simp_all add: event_of_def lenientJson_def del: json_text.simps)

lemma quiet_event_of:
  "json_plain (JObj ob) \<Longrightarrow> name \<notin> {''error'', ''human_input_required'', ''workflow_paused''} \<Longrightarrow>
   quiet_event (event_of name ob)"
  using event_of_data [of ob name] by (simp add: quiet_event_def) (simp add: event_of_def)

lemma answer_of_event:
  "json_plain (JObj ob) \<Longrightarrow> event_answer (event_of ''message'' ob) =
     (case str_of (obj_get ob ''answer'') of Some s \<Rightarrow> [s] | None \<Rightarrow> [])"
  using event_of_data [of ob "''message''"] by (simp add: event_answer_def) (simp add: event_of_def)

definition sample_run :: "sse_event list" where
  "sample_run = [event_of ''message'' [(''answer'', JStr ''a<thi'')], event_of ''message'' [(''answer'', JStr ''nk>b</think>c'')]]"

lemma sample_run_quiet: "list_all quiet_event sample_run"
  by (simp add: sample_run_def quiet_event_of)

lemma sample_run_answers: "answers_of sample_run = [''a<thi'', ''nk>b</think>c'']"
  by (simp add: sample_run_def answer_of_event obj_get_def)

definition sample_env :: run_env where
  "sample_env = \<lparr>syntaxMessage = (\<lambda>_. []), toNumber = (\<lambda>_. NaN), numRepr = (\<lambda>_. []), magenta = id, cyan = id\<rparr>"

section \<open>Properties\<close>

text \<open>C7: printing live and printing the collected response show the same chat answer, when no event fails or
  pauses the run, every payload is a JSON object, no answer delta ends between a closing tag and the line
  break behind it, and the answer contains no carriage return and closes every reasoning block: standard
  output then holds the same text under both strategies. Without these conditions they can differ
  (\<open>split_line_break_is_printed\<close>, \<open>unattended_pause_is_silent_when_live\<close>).\<close>

theorem live_and_collected_answers_agree:
  assumes "chat_mode mode" "list_all quiet_event evs"
    and "safe_cuts (answers_of evs)" "CR \<notin> set (concat (answers_of evs))"
    and "indexOf OPEN (snd (think_matches (concat (answers_of evs)))) = None"
  shows "\<exists>p out err. streamingText env think mode evs = Inr p \<and>
    streamingStructured env think mode evs = Inr (out, err) \<and> out_text (pr_filter p) = out \<and>
    out = stripThinkBlocks (concat (answers_of evs)) @ [LF]"
proof -
  obtain p where "streamingText env think mode evs = Inr p"
    "out_text (pr_filter p) = fst (reveal think False (concat (answers_of evs))) @ [LF]"
    using live_chat [OF assms(1,2,3)] by blast
  moreover obtain e where "streamingStructured env think mode evs = Inr (stripThinkBlocks (concat (answers_of evs)) @ [LF], e)"
    using structured_chat [OF assms(1,2)] by blast
  ultimately show ?thesis using reveal_is_strip [OF assms(4,5), of think] by simp
qed

theorem live_and_collected_answers_agree_witness:
  "\<exists>p out err. streamingText sample_env False ''chat'' sample_run = Inr p \<and>
    streamingStructured sample_env False ''chat'' sample_run = Inr (out, err) \<and> out_text (pr_filter p) = out"
proof -
  have "snd (think_matches ''a<think>b</think>c'') = ''c''"
    by (simp add: think_matches.simps OPEN_def CLOSE_def startsWith_def skip_cr_lf.simps CR_def LF_def)
  then show ?thesis
    using live_and_collected_answers_agree [of "''chat''" sample_run sample_env False] sample_run_quiet
    by (auto simp: sample_run_answers chat_mode_def safe_cuts_def safe_cut_def endsWith_def CR_def LF_def OPEN_def CLOSE_def startsWith_def)
qed

text \<open>C9: an error event ends the run. Whatever follows it, both strategies fail with the error
  decoded from its payload, after any events that neither fail nor pause.\<close>

theorem error_event_ends_both_strategies:
  assumes "chat_mode mode" "list_all quiet_event pre" "ev_name ev = ''error''"
  shows "streamingText env think mode (pre @ ev # post) = Inl (decodeStreamError env (ev_data ev)) \<and>
         streamingStructured env think mode (pre @ ev # post) = Inl (decodeStreamError env (ev_data ev))"
proof -
  obtain p t where "streamingText env think mode (pre @ ev # post) =
      bind_err (printEvents env (p, t) (ev # post)) (\<lambda>r. onEnd env (fst r))"
    using live_prefix [OF assms(1,2)] by blast
  moreover obtain c where "collect env (pre @ ev # post) mode =
      bind_err (collectEvents env c (ev # post)) (\<lambda>c'. Inr (finalize c'))"
    using collected_prefix [OF assms(1,2)] by blast
  ultimately show ?thesis using assms(3) by (simp add: streamingStructured_def SILENT_EVENTS_def)
qed

theorem error_event_ends_both_strategies_witness:
  "streamingText sample_env True ''chat'' (sample_run @ \<lparr>ev_name = ''error'', ev_data = []\<rparr> # sample_run) =
   Inl (BaseError ''server_5xx'' (JStr ''stream terminated by error event''))"
  using error_event_ends_both_strategies
    [of "''chat''" sample_run "\<lparr>ev_name = ''error'', ev_data = []\<rparr>" sample_env True sample_run] sample_run_quiet
  by (simp add: chat_mode_def decodeStreamError_def obj_get_def unwrapInvokeErrorMessage_def startsWith_def)

text \<open>a pause without a form is reported only when the response is collected. The collecting
  strategy fails with an explanation; the live strategy ends as if the run had succeeded.\<close>

theorem unattended_pause_is_silent_when_live:
  assumes "chat_mode mode" "list_all quiet_event pre" "ev_name ev = ''workflow_paused''"
  shows "(\<exists>p. streamingText env think mode (pre @ [ev]) = Inr p) \<and>
         streamingStructured env think mode (pre @ [ev]) =
           Inl (BaseError ''unknown'' (JStr ''workflow paused (non-interactive pause; check server logs)''))"
proof -
  obtain p t where p: "chat_printer p" "streamingText env think mode (pre @ [ev]) =
      bind_err (printEvents env (p, t) [ev]) (\<lambda>r. onEnd env (fst r))"
    using live_prefix [OF assms(1,2)] by blast
  then have "onEvent ev p = Inr p"
    using assms(3) by (simp add: onEvent_def handleCommonEvents_def SILENT_EVENTS_def chat_printer_def onChatEvent_def)
  then have "\<exists>q. streamingText env think mode (pre @ [ev]) = Inr q"
    using p assms(3) by (simp add: onEnd_def chat_printer_def Let_def)
  moreover obtain c where "collect env (pre @ [ev]) mode =
      bind_err (collectEvents env c [ev]) (\<lambda>c'. Inr (finalize c'))"
    using collected_prefix [OF assms(1,2)] by blast
  ultimately show ?thesis using assms(3) by (simp add: streamingStructured_def SILENT_EVENTS_def)
qed

theorem unattended_pause_is_silent_when_live_witness:
  "\<exists>p. streamingText sample_env True ''chat'' (sample_run @ [\<lparr>ev_name = ''workflow_paused'', ev_data = []\<rparr>]) = Inr p"
  using unattended_pause_is_silent_when_live
    [of "''chat''" sample_run "\<lparr>ev_name = ''workflow_paused'', ev_data = []\<rparr>" sample_env True] sample_run_quiet
  by (simp add: chat_mode_def)

end
