(* ===== verification/Clipboard.thy ===== *)
theory Clipboard
  imports Json_Laws
begin

text \<open>
  The workflow clipboard, \<^verbatim>\<open>workflow/utils/clipboard.ts\<close>: nodes and edges travel as JSON text through
  the system clipboard; pasted data is checked for its structure and fitted to the default data of
  its node type. Nodes and edges are dynamic values here, as the code reads them before it knows
  their type.
\<close>

section \<open>Operations\<close>

definition WORKFLOW_CLIPBOARD_KIND :: string where
  "WORKFLOW_CLIPBOARD_KIND = ''dify-workflow-clipboard''"

record clipboard_data =
  cb_nodes :: "jsval list"
  cb_edges :: "jsval list"

record clipboard_read =
  rd_nodes :: "jsval list"
  rd_edges :: "jsval list"
  sourceVersion :: "string option"
  isVersionMismatch :: bool

definition emptyClipboardReadResult :: clipboard_read where
  "emptyClipboardReadResult =
     \<lparr>rd_nodes = [], rd_edges = [], sourceVersion = None, isVersionMismatch = False\<rparr>"

fun isPlainObject :: "jsval \<Rightarrow> bool" where
  "isPlainObject (JObj _) = True"
| "isPlainObject _ = False"

fun isArray :: "jsval \<Rightarrow> bool" where
  "isArray (JArr _) = True"
| "isArray _ = False"

fun isFinite :: "jsval \<Rightarrow> bool" where
  "isFinite (JNum (Finite _)) = True"
| "isFinite _ = False"

fun arr_elems :: "jsval \<Rightarrow> jsval list" where
  "arr_elems (JArr vs) = vs"
| "arr_elems _ = []"

text \<open>The keys of the default come first, in their order, then the keys that only the incoming
  object has.\<close>

fun sanitizeClipboardValueByDefault :: "jsval \<Rightarrow> jsval \<Rightarrow> jsval"
  and sanitizeEntries :: "jsobj \<Rightarrow> jsobj \<Rightarrow> jsobj" where
  "sanitizeClipboardValueByDefault JUndefined incoming = incoming"
| "sanitizeClipboardValueByDefault (JArr ds) incoming = (if isArray incoming then incoming else JArr ds)"
| "sanitizeClipboardValueByDefault (JObj d) incoming =
     (case incoming of
        JObj inc \<Rightarrow> JObj (sanitizeEntries d inc @ filter (\<lambda>(k, _). k \<notin> fst ` set d) inc)
      | _ \<Rightarrow> JObj (sanitizeEntries d []))"
| "sanitizeClipboardValueByDefault (JNum n) incoming = (if isFinite incoming then incoming else JNum n)"
| "sanitizeClipboardValueByDefault defaultValue incoming =
     (if js_typeof incoming = js_typeof defaultValue then incoming else defaultValue)"
| "sanitizeEntries [] inc = []"
| "sanitizeEntries ((k, v) # d) inc =
     (k, sanitizeClipboardValueByDefault v (obj_get inc k)) # sanitizeEntries d inc"

fun isClipboardValueCompatibleWithDefault :: "jsval \<Rightarrow> jsval \<Rightarrow> bool"
  and entriesCompatible :: "jsobj \<Rightarrow> jsobj \<Rightarrow> bool" where
  "isClipboardValueCompatibleWithDefault JUndefined incoming = True"
| "isClipboardValueCompatibleWithDefault (JArr _) incoming = (incoming = JUndefined \<or> isArray incoming)"
| "isClipboardValueCompatibleWithDefault (JObj d) incoming =
     (case incoming of
        JUndefined \<Rightarrow> True
      | JObj inc \<Rightarrow> entriesCompatible d inc
      | _ \<Rightarrow> False)"
| "isClipboardValueCompatibleWithDefault (JNum _) incoming = (incoming = JUndefined \<or> isFinite incoming)"
| "isClipboardValueCompatibleWithDefault defaultValue incoming =
     (incoming = JUndefined \<or> js_typeof incoming = js_typeof defaultValue)"
| "entriesCompatible [] inc = True"
| "entriesCompatible ((k, v) # d) inc =
     (isClipboardValueCompatibleWithDefault v (obj_get inc k) \<and> entriesCompatible d inc)"

definition isClipboardNodeStructurallyValid :: "jsval \<Rightarrow> bool" where
  "isClipboardNodeStructurallyValid value =
     (if \<not> isPlainObject value then False
      else if js_typeof (js_get value ''id'') \<noteq> ''string'' \<or> js_typeof (js_get value ''type'') \<noteq> ''string'' then False
      else if \<not> isPlainObject (js_get value ''data'') \<or> \<not> isPlainObject (js_get value ''position'') then False
      else isFinite (js_get (js_get value ''position'') ''x'') \<and> isFinite (js_get (js_get value ''position'') ''y''))"

definition isClipboardEdgeStructurallyValid :: "jsval \<Rightarrow> bool" where
  "isClipboardEdgeStructurallyValid value =
     (if \<not> isPlainObject value then False
      else js_typeof (js_get value ''id'') = ''string''
         \<and> js_typeof (js_get value ''source'') = ''string''
         \<and> js_typeof (js_get value ''target'') = ''string'')"

text \<open>A text that is not JSON, and a JSON \<^verbatim>\<open>null\<close> whose property is read, both end in the
  \<^verbatim>\<open>catch\<close>.\<close>

definition parseWorkflowClipboardText :: "string \<Rightarrow> string \<Rightarrow> clipboard_read" where
  "parseWorkflowClipboardText txt currentClipboardVersion =
     (if txt = [] then emptyClipboardReadResult
      else case json_parse txt of
        None \<Rightarrow> emptyClipboardReadResult
      | Some parsed \<Rightarrow>
          (case js_get parsed ''version'' of
             JStr version \<Rightarrow>
               (if js_get parsed ''kind'' \<noteq> JStr WORKFLOW_CLIPBOARD_KIND
                   \<or> \<not> isArray (js_get parsed ''nodes'') \<or> \<not> isArray (js_get parsed ''edges'')
                then emptyClipboardReadResult
                else \<lparr>rd_nodes = filter isClipboardNodeStructurallyValid (arr_elems (js_get parsed ''nodes'')),
                      rd_edges = filter isClipboardEdgeStructurallyValid (arr_elems (js_get parsed ''edges'')),
                      sourceVersion = Some version,
                      isVersionMismatch = (version \<noteq> currentClipboardVersion)\<rparr>)
           | _ \<Rightarrow> emptyClipboardReadResult))"

definition clipboardPayload :: "clipboard_data \<Rightarrow> string \<Rightarrow> jsval" where
  "clipboardPayload payload version =
     JObj [(''kind'', JStr WORKFLOW_CLIPBOARD_KIND), (''version'', JStr version),
           (''nodes'', JArr (cb_nodes payload)), (''edges'', JArr (cb_edges payload))]"

definition stringifyWorkflowClipboardData :: "(real \<Rightarrow> string) \<Rightarrow> clipboard_data \<Rightarrow> string \<Rightarrow> string" where
  "stringifyWorkflowClipboardData repr payload currentClipboardVersion =
     json_text repr (clipboardPayload payload currentClipboardVersion)"

text \<open>The system clipboard is the text it holds, or \<open>None\<close> when access to it is refused.\<close>

definition writeWorkflowClipboard ::
  "(real \<Rightarrow> string) \<Rightarrow> clipboard_data \<Rightarrow> string \<Rightarrow> string option \<Rightarrow> string option outcome" where
  "writeWorkflowClipboard repr payload version clip =
     (case clip of
        None \<Rightarrow> Threw (JsError ''NotAllowedError'') None
      | Some _ \<Rightarrow> Ok (Some (stringifyWorkflowClipboardData repr payload version)))"

definition readWorkflowClipboard :: "string \<Rightarrow> string option \<Rightarrow> clipboard_read" where
  "readWorkflowClipboard version clip =
     (case clip of
        None \<Rightarrow> emptyClipboardReadResult
      | Some txt \<Rightarrow> parseWorkflowClipboardText txt version)"

section \<open>Fitting to a default\<close>

text \<open>A default: finite numbers, every key once.\<close>

fun default_ok :: "jsval \<Rightarrow> bool" and defaults_ok :: "jsobj \<Rightarrow> bool" where
  "default_ok (JNum n) = isFinite (JNum n)"
| "default_ok (JObj d) = (defaults_ok d \<and> distinct (map fst d))"
| "default_ok _ = True"
| "defaults_ok [] = True"
| "defaults_ok ((k, v) # d) = (default_ok v \<and> defaults_ok d)"

lemma keys_sanitizeEntries [simp]: "map fst (sanitizeEntries d inc) = map fst d"
  by (induction d) auto

lemma entriesCompatible_ext:
  "(\<And>k. k \<in> fst ` set d \<Longrightarrow> obj_get a k = obj_get b k) \<Longrightarrow> entriesCompatible d a = entriesCompatible d b"
  by (induction d) auto

lemma sanitizeEntries_ext:
  "(\<And>k. k \<in> fst ` set d \<Longrightarrow> obj_get a k = obj_get b k) \<Longrightarrow> sanitizeEntries d a = sanitizeEntries d b"
  by (induction d) auto

lemma obj_get_Cons [simp]: "obj_get ((k, v) # ob) j = (if k = j then v else obj_get ob j)"
  by (simp add: obj_get_def)

lemma obj_get_append:
  "obj_get (a @ b) k = (if k \<in> fst ` set a then obj_get a k else obj_get b k)"
  by (induction a) (auto simp: obj_get_def)

lemma fst_set_sanitizeEntries [simp]: "fst ` set (sanitizeEntries d inc) = fst ` set d"
  by (metis keys_sanitizeEntries list.set_map)

lemma finite_is_num: "isFinite v \<Longrightarrow> js_typeof v = ''number''"
  by (cases v rule: isFinite.cases) auto

lemma sanitized_fits:
  "default_ok d \<Longrightarrow> isClipboardValueCompatibleWithDefault d (sanitizeClipboardValueByDefault d v)"
  "defaults_ok ds \<Longrightarrow> distinct (map fst ds) \<Longrightarrow> entriesCompatible ds (sanitizeEntries ds inc @ rest)"
proof (induction d v and ds inc arbitrary: and rest rule: sanitizeClipboardValueByDefault_sanitizeEntries.induct)
  case (3 d incoming)
  then show ?case by (cases incoming) (simp_all, (metis append_Nil2)+)
next
  case (7 k v d inc)
  have "entriesCompatible d ((k, w) # sanitizeEntries d inc @ rest) =
        entriesCompatible d (sanitizeEntries d inc @ rest)" for w
    by (rule entriesCompatible_ext) (use 7 in \<open>auto simp: image_iff\<close>)
  then show ?case using 7 by simp
qed auto

lemma sanitize_fixed:
  "default_ok d \<Longrightarrow>
   sanitizeClipboardValueByDefault d (sanitizeClipboardValueByDefault d v) = sanitizeClipboardValueByDefault d v"
  "defaults_ok ds \<Longrightarrow> distinct (map fst ds) \<Longrightarrow>
   sanitizeEntries ds (sanitizeEntries ds inc @ rest) = sanitizeEntries ds inc"
proof (induction d v and ds inc arbitrary: and rest rule: sanitizeClipboardValueByDefault_sanitizeEntries.induct)
  case (3 d incoming)
  have none: "filter (\<lambda>(k, _). k \<notin> fst ` set d) (sanitizeEntries d i) = []" for i
  proof -
    have "\<forall>p \<in> set (sanitizeEntries d i). fst p \<in> fst ` set d"
      using fst_set_sanitizeEntries [of d i] by (metis image_eqI)
    then show ?thesis by (intro filter_False ballI) (simp add: case_prod_beta)
  qed
  have step: "sanitizeClipboardValueByDefault (JObj d)
      (JObj (sanitizeEntries d i @ filter (\<lambda>(k, _). k \<notin> fst ` set d) j)) =
      JObj (sanitizeEntries d i @ filter (\<lambda>(k, _). k \<notin> fst ` set d) j)"
    if "\<And>rest. sanitizeEntries d (sanitizeEntries d i @ rest) = sanitizeEntries d i" for i j
  proof -
    define P where "P = (\<lambda>(k :: string, _ :: jsval). k \<notin> fst ` set d)"
    have "filter P (sanitizeEntries d i) = []" using none [of i] by (simp add: P_def)
    then show ?thesis using that by (simp flip: P_def)
  qed
  have d: "defaults_ok d" "distinct (map fst d)" using 3 by simp_all
  show ?case
  proof (cases incoming)
    case (JObj inc)
    then show ?thesis using step [of inc inc] "3.IH"(7) [OF JObj d] by simp
  qed (use step [of "[]" "[]"] "3.IH"(1-6) [OF _ d] in simp_all)
next
  case (7 k v d inc)
  have "sanitizeEntries d ((k, w) # sanitizeEntries d inc @ rest) =
        sanitizeEntries d (sanitizeEntries d inc @ rest)" for w
    by (rule sanitizeEntries_ext) (use 7 in \<open>auto simp: image_iff\<close>)
  then show ?case using 7 by simp
qed auto

section \<open>Properties\<close>

text \<open>fitting pasted data to a default repairs its type. The result is compatible with the
  default at every depth, fitting it again changes nothing, and keys that only the pasted object
  has keep their values.\<close>

theorem sanitized_value_fits_default:
  assumes "default_ok (JObj d)"
  shows "isClipboardValueCompatibleWithDefault (JObj d) (sanitizeClipboardValueByDefault (JObj d) v) \<and>
    sanitizeClipboardValueByDefault (JObj d) (sanitizeClipboardValueByDefault (JObj d) v) =
      sanitizeClipboardValueByDefault (JObj d) v \<and>
    (\<forall>inc k. v = JObj inc \<longrightarrow> k \<notin> fst ` set d \<longrightarrow>
       js_get (sanitizeClipboardValueByDefault (JObj d) v) k = obj_get inc k)"
proof (intro conjI allI impI)
  fix inc k
  assume "v = JObj inc" "k \<notin> fst ` set d"
  moreover have "obj_get (filter (\<lambda>(j, _). j \<notin> fst ` set d) inc) k = obj_get inc k"
    using \<open>k \<notin> fst ` set d\<close> by (induction inc) (auto split: if_splits, metis fst_conv image_eqI)
  ultimately show "js_get (sanitizeClipboardValueByDefault (JObj d) v) k = obj_get inc k"
    by (simp add: obj_get_append)
qed (rule sanitized_fits(1) [OF assms] sanitize_fixed(1) [OF assms])+

theorem sanitized_value_fits_default_witness:
  "isClipboardValueCompatibleWithDefault (JObj [(''n'', JNum (Finite 1))])
     (sanitizeClipboardValueByDefault (JObj [(''n'', JNum (Finite 1))]) (JObj [(''n'', JStr ''x''), (''m'', JNull)]))"
  using sanitized_value_fits_default [of "[(''n'', JNum (Finite 1))]" "JObj [(''n'', JStr ''x''), (''m'', JNull)]"]
  by simp

text \<open>C10: copy and paste is a round trip. Nodes and edges with a JSON form and the required
  structure come back from the clipboard exactly, in order, together with the version they were
  copied under, and a mismatch is reported just when the reading version differs.\<close>

theorem copy_paste_round_trip:
  assumes "list_all isClipboardNodeStructurallyValid (cb_nodes p)" "plain_items (cb_nodes p)"
    and "list_all isClipboardEdgeStructurallyValid (cb_edges p)" "plain_items (cb_edges p)"
  shows "writeWorkflowClipboard repr p version (Some old) =
           Ok (Some (stringifyWorkflowClipboardData repr p version)) \<and>
         readWorkflowClipboard current (Some (stringifyWorkflowClipboardData repr p version)) =
           \<lparr>rd_nodes = cb_nodes p, rd_edges = cb_edges p, sourceVersion = Some version,
            isVersionMismatch = (version \<noteq> current)\<rparr>"
proof -
  let ?v = "clipboardPayload p version"
  have plain: "json_plain ?v" using assms by (simp add: clipboardPayload_def)
  have kept: "filter isClipboardNodeStructurallyValid (cb_nodes p) = cb_nodes p"
    "filter isClipboardEdgeStructurallyValid (cb_edges p) = cb_edges p"
    using assms by (simp_all add: list_all_iff filter_id_conv)
  have fields: "js_get ?v ''version'' = JStr version" "js_get ?v ''kind'' = JStr WORKFLOW_CLIPBOARD_KIND"
    "js_get ?v ''nodes'' = JArr (cb_nodes p)" "js_get ?v ''edges'' = JArr (cb_edges p)"
    by (simp_all add: clipboardPayload_def)
  show ?thesis
    using json_round_trip [OF plain, of repr] json_text_nonempty [OF plain, of repr] kept fields
    by (simp add: writeWorkflowClipboard_def readWorkflowClipboard_def parseWorkflowClipboardText_def
        stringifyWorkflowClipboardData_def)
qed

theorem copy_paste_round_trip_witness:
  "readWorkflowClipboard ''0.2''
     (Some (stringifyWorkflowClipboardData (\<lambda>_. [])
        \<lparr>cb_nodes = [JObj [(''id'', JStr ''n1''), (''type'', JStr ''custom''), (''data'', JObj []),
                     (''position'', JObj [(''x'', JNum (Finite 3)), (''y'', JNum (Finite (- 4)))])]],
         cb_edges = []\<rparr> ''0.1'')) =
   \<lparr>rd_nodes = [JObj [(''id'', JStr ''n1''), (''type'', JStr ''custom''), (''data'', JObj []),
                 (''position'', JObj [(''x'', JNum (Finite 3)), (''y'', JNum (Finite (- 4)))])]],
    rd_edges = [], sourceVersion = Some ''0.1'', isVersionMismatch = True\<rparr>"
proof -
  have f: "\<lfloor>3 :: real\<rfloor> = 3" "\<lfloor>- 4 :: real\<rfloor> = - 4" by simp_all
  show ?thesis
    using copy_paste_round_trip [of "\<lparr>cb_nodes = [JObj [(''id'', JStr ''n1''), (''type'', JStr ''custom''),
        (''data'', JObj []), (''position'', JObj [(''x'', JNum (Finite 3)), (''y'', JNum (Finite (- 4)))])]],
        cb_edges = []\<rparr>" "\<lambda>_. []" "''0.1''" "[]" "''0.2''"]
    by (simp add: isClipboardNodeStructurallyValid_def f)
qed

end
