(* ===== verification/Sse_Queue.thy ===== *)
theory Sse_Queue
  imports Js_Prelude
begin

text \<open>
  Reading an event stream, \<^verbatim>\<open>cli/src/http/sse.ts\<close>. Two activities share a queue: the pump reads
  chunks of the response and pushes the events that the parser finds in them; the generator yields
  events to its client and sleeps on a promise when there is nothing to do. Each rule is the code
  between two suspension points (\<^verbatim>\<open>await\<close>, \<^verbatim>\<open>yield\<close>), so the runs of \<open>sse_step\<close> are the
  interleavings of the event loop. The byte parser is a package; a chunk is the list of the events
  it completes.
\<close>

section \<open>The machine\<close>

datatype sse_error = AbortError | ReadError

datatype pump_state = PumpTop | PumpReading | PumpDone | PumpFailed sse_error

datatype generator_state =
    GenTop | GenWaiting | GenWoken | GenReturned | GenRaised sse_error | GenStopped

record 'e sse =
  sse_body :: "'e list list"
  sse_breaks :: bool
  sse_signal :: bool
  sse_readerOpen :: bool
  sse_aborted :: bool
  sse_pump :: pump_state
  sse_queue :: "'e list"
  sse_resolveNext :: bool
  sse_pendingWake :: bool
  sse_done :: bool
  sse_gen :: generator_state
  sse_yielded :: "'e list"

text \<open>\<open>breaks\<close>: the connection fails after the last chunk. \<open>signal\<close>: the caller can abort.\<close>

definition parseSSE :: "'e list list \<Rightarrow> bool \<Rightarrow> bool \<Rightarrow> 'e sse" where
  "parseSSE chunks breaks signal =
     \<lparr>sse_body = chunks, sse_breaks = breaks, sse_signal = signal, sse_readerOpen = True, sse_aborted = False,
      sse_pump = PumpTop, sse_queue = [], sse_resolveNext = False, sse_pendingWake = False, sse_done = False,
      sse_gen = GenTop, sse_yielded = []\<rparr>"

definition wake :: "'e sse \<Rightarrow> 'e sse" where
  "wake s =
     (let s1 = s\<lparr>sse_pendingWake := True\<rparr>
      in if sse_resolveNext s1 then s1\<lparr>sse_resolveNext := False, sse_gen := GenWoken\<rparr> else s1)"

definition pushEvent :: "'e \<Rightarrow> 'e sse \<Rightarrow> 'e sse" where
  "pushEvent ev s = wake (s\<lparr>sse_queue := sse_queue s @ [ev]\<rparr>)"

definition endPump :: "pump_state \<Rightarrow> 'e sse \<Rightarrow> 'e sse" where
  "endPump how s = wake (s\<lparr>sse_pump := how, sse_done := True\<rparr>)"

definition gen_over :: "generator_state \<Rightarrow> bool" where
  "gen_over g = (case g of GenReturned \<Rightarrow> True | GenRaised _ \<Rightarrow> True | GenStopped \<Rightarrow> True | _ \<Rightarrow> False)"

definition pump_over :: "pump_state \<Rightarrow> bool" where
  "pump_over p = (case p of PumpDone \<Rightarrow> True | PumpFailed _ \<Rightarrow> True | _ \<Rightarrow> False)"

inductive sse_step :: "'e sse \<Rightarrow> 'e sse \<Rightarrow> bool" where
  pump_aborted: "sse_pump s = PumpTop \<Longrightarrow> sse_aborted s \<Longrightarrow> sse_step s (endPump (PumpFailed AbortError) s)"
| pump_read: "sse_pump s = PumpTop \<Longrightarrow> \<not> sse_aborted s \<Longrightarrow> sse_step s (s\<lparr>sse_pump := PumpReading\<rparr>)"
| pump_chunk: "sse_pump s = PumpReading \<Longrightarrow> sse_readerOpen s \<Longrightarrow> sse_body s = evs # rest \<Longrightarrow>
    sse_step s (fold pushEvent evs (s\<lparr>sse_body := rest, sse_pump := PumpTop\<rparr>))"
| pump_end: "sse_pump s = PumpReading \<Longrightarrow> \<not> sse_readerOpen s \<or> sse_body s = [] \<and> \<not> sse_breaks s \<Longrightarrow>
    sse_step s (endPump PumpDone s)"
| pump_broken: "sse_pump s = PumpReading \<Longrightarrow> sse_readerOpen s \<Longrightarrow> sse_body s = [] \<Longrightarrow> sse_breaks s \<Longrightarrow>
    sse_step s (endPump (PumpFailed ReadError) s)"
| abort: "sse_signal s \<Longrightarrow> \<not> sse_aborted s \<Longrightarrow> \<not> gen_over (sse_gen s) \<Longrightarrow>
    sse_step s (s\<lparr>sse_aborted := True, sse_readerOpen := False\<rparr>)"
| gen_yield: "sse_gen s = GenTop \<Longrightarrow> sse_queue s = ev # q \<Longrightarrow>
    sse_step s (s\<lparr>sse_queue := q, sse_yielded := sse_yielded s @ [ev]\<rparr>)"
| gen_return: "sse_gen s = GenTop \<Longrightarrow> sse_queue s = [] \<Longrightarrow> sse_done s \<Longrightarrow> sse_pump s = PumpDone \<Longrightarrow>
    sse_step s (s\<lparr>sse_gen := GenReturned\<rparr>)"
| gen_raise: "sse_gen s = GenTop \<Longrightarrow> sse_queue s = [] \<Longrightarrow> sse_done s \<Longrightarrow> sse_pump s = PumpFailed e \<Longrightarrow>
    sse_step s (s\<lparr>sse_gen := GenRaised e\<rparr>)"
| gen_again: "sse_gen s = GenTop \<Longrightarrow> sse_queue s = [] \<Longrightarrow> \<not> sse_done s \<Longrightarrow> sse_pendingWake s \<Longrightarrow>
    sse_step s (s\<lparr>sse_pendingWake := False\<rparr>)"
| gen_wait: "sse_gen s = GenTop \<Longrightarrow> sse_queue s = [] \<Longrightarrow> \<not> sse_done s \<Longrightarrow> \<not> sse_pendingWake s \<Longrightarrow>
    sse_step s (s\<lparr>sse_resolveNext := True, sse_gen := GenWaiting\<rparr>)"
| gen_resume: "sse_gen s = GenWoken \<Longrightarrow> sse_step s (s\<lparr>sse_pendingWake := False, sse_gen := GenTop\<rparr>)"
| gen_stop: "sse_gen s = GenTop \<Longrightarrow> sse_yielded s \<noteq> [] \<Longrightarrow>
    sse_step s (s\<lparr>sse_gen := GenStopped, sse_readerOpen := (sse_readerOpen s \<and> sse_done s)\<rparr>)"

abbreviation sse_run :: "'e sse \<Rightarrow> 'e sse \<Rightarrow> bool" where
  "sse_run \<equiv> sse_step\<^sup>*\<^sup>*"

section \<open>Invariant\<close>

lemma wake_simps [simp]:
  "sse_body (wake s) = sse_body s" "sse_breaks (wake s) = sse_breaks s" "sse_signal (wake s) = sse_signal s"
  "sse_readerOpen (wake s) = sse_readerOpen s" "sse_aborted (wake s) = sse_aborted s"
  "sse_pump (wake s) = sse_pump s" "sse_queue (wake s) = sse_queue s" "\<not> sse_resolveNext (wake s)"
  "sse_pendingWake (wake s)" "sse_done (wake s) = sse_done s" "sse_yielded (wake s) = sse_yielded s"
  "sse_gen (wake s) = (if sse_resolveNext s then GenWoken else sse_gen s)"
  by (simp_all add: wake_def Let_def)

lemma feed_simps [simp]:
  "sse_body (fold pushEvent evs s) = sse_body s" "sse_breaks (fold pushEvent evs s) = sse_breaks s"
  "sse_signal (fold pushEvent evs s) = sse_signal s" "sse_readerOpen (fold pushEvent evs s) = sse_readerOpen s"
  "sse_aborted (fold pushEvent evs s) = sse_aborted s" "sse_pump (fold pushEvent evs s) = sse_pump s"
  "sse_done (fold pushEvent evs s) = sse_done s" "sse_yielded (fold pushEvent evs s) = sse_yielded s"
  "sse_queue (fold pushEvent evs s) = sse_queue s @ evs"
  "sse_resolveNext (fold pushEvent evs s) = (evs = [] \<and> sse_resolveNext s)"
  "sse_pendingWake (fold pushEvent evs s) = (evs \<noteq> [] \<or> sse_pendingWake s)"
  "sse_gen (fold pushEvent evs s) = (if evs \<noteq> [] \<and> sse_resolveNext s then GenWoken else sse_gen s)"
  by (induction evs arbitrary: s) (simp_all add: pushEvent_def)

text \<open>
  The generator waits only while there is nothing to yield, the pump has not ended and no wake-up is
  pending; what was yielded, queued and left unread is the stream; a closed reader has a cause.
\<close>

definition sse_inv :: "'e list list \<Rightarrow> 'e sse \<Rightarrow> bool" where
  "sse_inv chunks s =
     ((sse_resolveNext s \<longleftrightarrow> sse_gen s = GenWaiting) \<and>
      (sse_gen s = GenWaiting \<longrightarrow> sse_queue s = [] \<and> \<not> sse_done s \<and> \<not> sse_pendingWake s) \<and>
      (sse_done s \<longleftrightarrow> pump_over (sse_pump s)) \<and>
      sse_yielded s @ sse_queue s @ concat (sse_body s) = concat chunks \<and>
      (\<not> sse_readerOpen s \<longrightarrow> sse_aborted s \<or> sse_gen s = GenStopped) \<and>
      (sse_pump s = PumpDone \<longrightarrow> sse_aborted s \<or> sse_gen s = GenStopped \<or> sse_body s = [] \<and> \<not> sse_breaks s) \<and>
      (sse_pump s = PumpFailed ReadError \<longrightarrow> sse_breaks s \<and> sse_body s = []) \<and>
      (sse_pump s = PumpFailed AbortError \<longrightarrow> sse_aborted s) \<and>
      (sse_gen s = GenReturned \<longrightarrow> sse_queue s = [] \<and> sse_pump s = PumpDone) \<and>
      (\<forall>e. sse_gen s = GenRaised e \<longrightarrow> sse_queue s = [] \<and> sse_pump s = PumpFailed e))"

lemma pump_over_simps [simp]:
  "\<not> pump_over PumpTop" "\<not> pump_over PumpReading" "pump_over PumpDone" "pump_over (PumpFailed e)"
  by (simp_all add: pump_over_def)

lemma gen_over_simps [simp]:
  "\<not> gen_over GenTop" "\<not> gen_over GenWaiting" "\<not> gen_over GenWoken" "gen_over GenReturned"
  "gen_over (GenRaised e)" "gen_over GenStopped"
  by (simp_all add: gen_over_def)

lemma sse_inv_start: "sse_inv chunks (parseSSE chunks breaks signal)"
  by (simp add: sse_inv_def parseSSE_def)

lemma sse_inv_step: "sse_step s t \<Longrightarrow> sse_inv chunks s \<Longrightarrow> sse_inv chunks t"
proof (induction rule: sse_step.induct)
  case (pump_chunk s evs rest)
  then show ?case by (cases "evs = []") (auto simp: sse_inv_def)
qed (auto simp: sse_inv_def endPump_def)

lemma sse_inv_run: "sse_run s t \<Longrightarrow> sse_inv chunks s \<Longrightarrow> sse_inv chunks t"
  by (induction rule: rtranclp_induct) (auto intro: sse_inv_step)

text \<open>What no step changes.\<close>

lemma sse_const: "sse_step s t \<Longrightarrow> sse_breaks t = sse_breaks s \<and> sse_signal t = sse_signal s"
  by (induction rule: sse_step.induct) (simp_all add: endPump_def)

section \<open>Every run ends\<close>

fun pump_work :: "pump_state \<Rightarrow> nat \<Rightarrow> nat" where
  "pump_work PumpTop n = 2 * n + 2"
| "pump_work PumpReading n = 2 * n + 1"
| "pump_work _ n = 0"

fun gen_work :: "generator_state \<Rightarrow> nat" where
  "gen_work GenTop = 1"
| "gen_work GenWoken = 2"
| "gen_work _ = 0"

definition sse_work :: "'e sse \<Rightarrow> nat" where
  "sse_work s =
     5 * pump_work (sse_pump s) (length (sse_body s)) + length (sse_queue s) + length (concat (sse_body s))
     + (if sse_pendingWake s then 1 else 0) + gen_work (sse_gen s) + (if sse_aborted s then 0 else 1)"

lemma gen_work_le: "gen_work g \<le> 2"
  by (cases g) simp_all

lemma sse_step_works:
  assumes "sse_inv chunks s" and "sse_step s t"
  shows "sse_work t < sse_work s"
  using assms(2,1)
proof (induction rule: sse_step.induct)
  case (pump_chunk s evs rest)
  then show ?case using gen_work_le [of "sse_gen s"] by (auto simp: sse_work_def sse_inv_def)
qed (auto simp: sse_work_def endPump_def sse_inv_def)

lemma sse_progress:
  assumes inv: "sse_inv chunks s" and stuck: "\<nexists>t. sse_step s t"
  shows "gen_over (sse_gen s) \<and> pump_over (sse_pump s)"
proof
  show "pump_over (sse_pump s)"
  proof (cases "sse_pump s")
    case PumpTop
    then show ?thesis using stuck pump_aborted pump_read by blast
  next
    case PumpReading
    then show ?thesis
      using stuck pump_chunk [OF PumpReading] pump_end [OF PumpReading] pump_broken [OF PumpReading]
      by (cases "sse_readerOpen s"; cases "sse_body s") blast+
  qed simp_all
  then have "sse_done s" using inv by (simp add: sse_inv_def)
  show "gen_over (sse_gen s)"
  proof (cases "sse_gen s")
    case GenTop
    then show ?thesis
      using stuck gen_yield [OF GenTop] gen_return [OF GenTop _ \<open>sse_done s\<close>] gen_raise [OF GenTop _ \<open>sse_done s\<close>]
        \<open>pump_over (sse_pump s)\<close>
      by (cases "sse_queue s"; cases "sse_pump s") auto
  next
    case GenWaiting
    then show ?thesis using inv \<open>sse_done s\<close> by (simp add: sse_inv_def)
  next
    case GenWoken
    then show ?thesis using stuck gen_resume by blast
  qed simp_all
qed

lemma sse_can_end:
  assumes "sse_inv chunks s"
  shows "\<exists>t. sse_run s t \<and> (\<nexists>u. sse_step t u)"
  using assms
proof (induction "sse_work s" arbitrary: s rule: less_induct)
  case less
  show ?case
  proof (cases "\<exists>t. sse_step s t")
    case True
    then obtain t where t: "sse_step s t" by blast
    from less.hyps [OF sse_step_works [OF less.prems t] sse_inv_step [OF t less.prems]]
    show ?thesis using t by (meson converse_rtranclp_into_rtranclp)
  qed blast
qed

section \<open>Aborting\<close>

text \<open>After an abort that meets the pump in a read, the pump ends as if the stream were over.\<close>

definition quietly_closed :: "'e sse \<Rightarrow> bool" where
  "quietly_closed s = (sse_pump s \<in> {PumpReading, PumpDone} \<and> \<not> sse_readerOpen s \<and> (\<forall>e. sse_gen s \<noteq> GenRaised e))"

lemma quietly_closed_step: "sse_step s t \<Longrightarrow> quietly_closed s \<Longrightarrow> quietly_closed t"
  by (induction rule: sse_step.induct) (auto simp: quietly_closed_def endPump_def)

lemma quietly_closed_run: "sse_run s t \<Longrightarrow> quietly_closed s \<Longrightarrow> quietly_closed t"
  by (induction rule: rtranclp_induct) (auto intro: quietly_closed_step)

section \<open>Properties\<close>

text \<open>C15: every event is delivered. In every interleaving each step brings the run closer to its
  end; a run that cannot go on has ended on both sides; and unless the caller aborted or stopped
  reading, the client has then received exactly the events of the stream, in order, followed by the
  error of the connection if it broke. An end can be reached from every state.\<close>

theorem every_event_is_delivered:
  assumes "sse_run (parseSSE chunks breaks signal) s"
  shows "(\<forall>t. sse_step s t \<longrightarrow> sse_work t < sse_work s) \<and>
    (\<exists>t. sse_run s t \<and> (\<nexists>u. sse_step t u)) \<and>
    ((\<nexists>t. sse_step s t) \<longrightarrow> gen_over (sse_gen s) \<and> pump_over (sse_pump s) \<and>
       (\<not> sse_aborted s \<longrightarrow> sse_gen s \<noteq> GenStopped \<longrightarrow>
          sse_yielded s = concat chunks \<and> sse_gen s = (if breaks then GenRaised ReadError else GenReturned)))"
proof (intro conjI allI impI)
  have inv: "sse_inv chunks s" using sse_inv_run [OF assms sse_inv_start] .
  have breaks: "sse_breaks s = breaks"
    using assms
  proof (induction rule: rtranclp_induct)
    case (step s t)
    then show ?case using sse_const [of s t] by simp
  qed (simp add: parseSSE_def)
  show "sse_work t < sse_work s" if "sse_step s t" for t using sse_step_works [OF inv that] .
  show "\<exists>t. sse_run s t \<and> (\<nexists>u. sse_step t u)" by (rule sse_can_end [OF inv])
  assume stuck: "\<nexists>t. sse_step s t"
  note over = sse_progress [OF inv stuck]
  show "gen_over (sse_gen s)" "pump_over (sse_pump s)" using over by simp_all
  assume calm: "\<not> sse_aborted s" "sse_gen s \<noteq> GenStopped"
  have split: "sse_yielded s @ sse_queue s @ concat (sse_body s) = concat chunks"
    and ret: "sse_gen s = GenReturned \<Longrightarrow> sse_queue s = [] \<and> sse_body s = [] \<and> \<not> sse_breaks s"
    and raised: "\<And>e. sse_gen s = GenRaised e \<Longrightarrow> sse_queue s = [] \<and> sse_body s = [] \<and> sse_breaks s \<and> e = ReadError"
    using inv calm by (auto simp: sse_inv_def) (metis sse_error.exhaust)+
  show "sse_yielded s = concat chunks"
    using over split ret raised calm(2) by (cases "sse_gen s") auto
  show "sse_gen s = (if breaks then GenRaised ReadError else GenReturned)"
    using over ret raised calm(2) breaks by (cases "sse_gen s") auto
qed

text \<open>no wake-up is lost. In every interleaving, while the generator sleeps the queue is empty, the
  pump has not ended and the wake-up that will resume it is registered; and what the client has
  received is always a prefix of the stream.\<close>

theorem sleeping_generator_misses_nothing:
  assumes "sse_run (parseSSE chunks breaks signal) s"
  shows "(sse_gen s = GenWaiting \<longrightarrow> sse_queue s = [] \<and> \<not> sse_done s \<and> sse_resolveNext s) \<and>
    prefix (sse_yielded s) (concat chunks)"
proof -
  have "sse_inv chunks s" using sse_inv_run [OF assms sse_inv_start] .
  then show ?thesis unfolding sse_inv_def by (metis prefixI)
qed

text \<open>an abort that meets the pump waiting for a chunk is silent. No continuation raises the abort
  error, and the generator can return normally with the events received so far.\<close>

theorem abort_while_reading_is_silent:
  assumes "sse_run (parseSSE chunks breaks signal) s"
    and "sse_pump s = PumpReading" "sse_gen s = GenWaiting" "signal" "\<not> sse_aborted s"
  shows "\<exists>a. sse_step s a \<and> sse_aborted a \<and> (\<forall>t. sse_run a t \<longrightarrow> sse_gen t \<noteq> GenRaised AbortError) \<and>
    (\<exists>t. sse_run a t \<and> sse_gen t = GenReturned \<and> sse_yielded t = sse_yielded s)"
proof -
  have inv: "sse_inv chunks s" using sse_inv_run [OF assms(1) sse_inv_start] .
  have sig: "sse_signal s"
    using assms(1,4)
  proof (induction rule: rtranclp_induct)
    case (step s t)
    then show ?case using sse_const [of s t] by simp
  qed (simp add: parseSSE_def)
  define a where "a = s\<lparr>sse_aborted := True, sse_readerOpen := False\<rparr>"
  define b where "b = endPump PumpDone a"
  define c where "c = b\<lparr>sse_pendingWake := False, sse_gen := GenTop\<rparr>"
  define d where "d = c\<lparr>sse_gen := GenReturned\<rparr>"
  have w: "sse_resolveNext s" "sse_queue s = []" using inv assms(3) by (auto simp: sse_inv_def)
  have "sse_step s a" unfolding a_def by (rule abort) (use sig assms in simp_all)
  moreover have "sse_step a b" unfolding b_def by (rule pump_end) (use assms(2) in \<open>simp_all add: a_def\<close>)
  moreover have "sse_step b c" unfolding c_def by (rule gen_resume) (use w in \<open>simp add: b_def endPump_def a_def\<close>)
  moreover have "sse_step c d" unfolding d_def
    by (rule gen_return) (use w in \<open>simp_all add: c_def b_def endPump_def a_def\<close>)
  ultimately have "sse_step s a" "sse_run a d" by (auto intro: converse_rtranclp_into_rtranclp)
  moreover have "quietly_closed a" using assms(2,3) by (simp add: quietly_closed_def a_def)
  then have "\<forall>t. sse_run a t \<longrightarrow> sse_gen t \<noteq> GenRaised AbortError"
    using quietly_closed_run by (auto simp: quietly_closed_def)
  moreover have "sse_aborted a" "sse_gen d = GenReturned" "sse_yielded d = sse_yielded s"
    by (simp_all add: a_def d_def c_def b_def endPump_def)
  ultimately show ?thesis by blast
qed

text \<open>A stream of one chunk, up to the moment both sides wait.\<close>

definition sample_waiting :: "nat sse" where
  "sample_waiting = (parseSSE [[7]] False True)\<lparr>sse_pump := PumpReading, sse_resolveNext := True, sse_gen := GenWaiting\<rparr>"

lemma sample_waiting_reached: "sse_run (parseSSE [[7]] False True) sample_waiting"
proof -
  let ?s = "parseSSE [[7 :: nat]] False True"
  have "sse_step ?s (?s\<lparr>sse_pump := PumpReading\<rparr>)"
    by (rule pump_read) (simp_all add: parseSSE_def)
  moreover have "sse_step (?s\<lparr>sse_pump := PumpReading\<rparr>)
      (?s\<lparr>sse_pump := PumpReading\<rparr>\<lparr>sse_resolveNext := True, sse_gen := GenWaiting\<rparr>)"
    by (rule gen_wait) (simp_all add: parseSSE_def)
  ultimately show ?thesis unfolding sample_waiting_def by (meson converse_rtranclp_into_rtranclp rtranclp.rtrancl_refl)
qed

theorem every_event_is_delivered_witness:
  "\<exists>t. sse_run sample_waiting t \<and> (\<nexists>u. sse_step t u)"
  using every_event_is_delivered [OF sample_waiting_reached] by blast

theorem sleeping_generator_misses_nothing_witness: "sse_queue sample_waiting = []"
  using sleeping_generator_misses_nothing [OF sample_waiting_reached] by (simp add: sample_waiting_def)

theorem abort_while_reading_is_silent_witness:
  "\<exists>a. sse_step sample_waiting a \<and> (\<exists>t. sse_run a t \<and> sse_gen t = GenReturned \<and> sse_yielded t = [])"
  using abort_while_reading_is_silent [OF sample_waiting_reached]
  by (auto simp: sample_waiting_def parseSSE_def)

end
