(* ===== verification/Cli_Flags.thy ===== *)
theory Cli_Flags
  imports Json_Text
begin

text \<open>
  The argument parser of the command line client, \<^verbatim>\<open>cli/src/framework/flags.ts\<close>: flag definitions,
  the conversion of their values, and \<^verbatim>\<open>parseArgv\<close>. Records of flags keep the order of their keys.
\<close>

section \<open>Numbers from text\<close>

text \<open>\<^verbatim>\<open>Number(s)\<close>: white space around, nothing at all (zero), a radix prefix, or a signed decimal.\<close>

definition radix_digit :: "nat \<Rightarrow> char \<Rightarrow> nat option" where
  "radix_digit r c = (case hex_val c of None \<Rightarrow> None | Some d \<Rightarrow> if d < r then Some d else None)"

definition radix_number :: "nat \<Rightarrow> string \<Rightarrow> jsnum" where
  "radix_number r s =
     (if s = [] \<or> \<not> list_all (\<lambda>c. radix_digit r c \<noteq> None) s then NaN
      else Finite (real (foldl (\<lambda>n c. r * n + the (radix_digit r c)) 0 s)))"

definition decimal_number :: "string \<Rightarrow> jsnum" where
  "decimal_number s =
     (let (ip, r1) = read_digits s;
          (fp, r2) = (if startsWith r1 ''.'' then read_digits (drop 1 r1) else ([], r1))
      in if ip = [] \<and> fp = [] then NaN
         else case read_exp r2 of
           None \<Rightarrow> NaN
         | Some (e, rest) \<Rightarrow>
             if rest \<noteq> [] then NaN
             else Finite ((real (digits_val ip) + real (digits_val fp) / 10 ^ length fp) * e))"

fun negate :: "jsnum \<Rightarrow> jsnum" where
  "negate (Finite x) = Finite (- x)"
| "negate Infinity = NegInfinity"
| "negate NegInfinity = Infinity"
| "negate NaN = NaN"

definition unsigned_number :: "string \<Rightarrow> jsnum" where
  "unsigned_number s = (if s = ''Infinity'' then Infinity else decimal_number s)"

definition js_Number :: "string \<Rightarrow> jsnum" where
  "js_Number raw =
     (let s = trim raw; p = take 2 s
      in if s = [] then Finite 0
         else if p \<in> {''0x'', ''0X''} then radix_number 16 (drop 2 s)
         else if p \<in> {''0o'', ''0O''} then radix_number 8 (drop 2 s)
         else if p \<in> {''0b'', ''0B''} then radix_number 2 (drop 2 s)
         else if startsWith s ''-'' then negate (unsigned_number (drop 1 s))
         else if startsWith s ''+'' then unsigned_number (drop 1 s)
         else unsigned_number s)"

section \<open>Definitions of flags\<close>

datatype flag_type = StringFlag | BooleanFlag | IntegerFlag

datatype arg_value = VStr string | VBool bool | VNum jsnum | VList "string list"

record flag_def =
  fd_type :: flag_type
  fd_char :: "string option"
  fd_default :: "arg_value option"
  fd_multiple :: bool
  fd_options :: "string list option"

type_synonym flag_defs = "(string \<times> flag_def) list"
type_synonym parsed_flags = "(string \<times> arg_value) list"

definition stringFlag :: "string option \<Rightarrow> string option \<Rightarrow> string list option \<Rightarrow> flag_def" where
  "stringFlag ch dflt options =
     \<lparr>fd_type = StringFlag, fd_char = ch, fd_default = map_option VStr dflt, fd_multiple = False, fd_options = options\<rparr>"

definition outputFormatFlag :: "string list \<Rightarrow> string option \<Rightarrow> flag_def" where
  "outputFormatFlag options dflt = stringFlag (Some ''o'') dflt (Some options)"

definition stringRepeatedFlag :: "string option \<Rightarrow> string list option \<Rightarrow> bool option \<Rightarrow> flag_def" where
  "stringRepeatedFlag ch dflt multiple =
     \<lparr>fd_type = StringFlag, fd_char = ch, fd_default = map_option VList dflt,
      fd_multiple = (case multiple of None \<Rightarrow> True | Some b \<Rightarrow> b), fd_options = None\<rparr>"

definition booleanFlag :: "string option \<Rightarrow> bool option \<Rightarrow> flag_def" where
  "booleanFlag ch dflt =
     \<lparr>fd_type = BooleanFlag, fd_char = ch, fd_default = map_option VBool dflt, fd_multiple = False, fd_options = None\<rparr>"

definition integerFlag :: "string option \<Rightarrow> jsnum option \<Rightarrow> flag_def" where
  "integerFlag ch dflt =
     \<lparr>fd_type = IntegerFlag, fd_char = ch, fd_default = map_option VNum dflt, fd_multiple = False, fd_options = None\<rparr>"

definition GLOBAL_FLAGS :: flag_defs where
  "GLOBAL_FLAGS = [(''verbose'', booleanFlag (Some ''v'') None)]"

record command_meta =
  cm_flags :: flag_defs
  cm_args :: "(string \<times> bool) list"

text \<open>The flag of an argument definition says whether it is required.\<close>

datatype flag_error = FlagError string | UnsupportedArgValueError string flag_def string

section \<open>Parsing\<close>

definition coerceFlagValue :: "string \<Rightarrow> flag_def \<Rightarrow> flag_error + arg_value" where
  "coerceFlagValue raw df =
     (case fd_type df of
        IntegerFlag \<Rightarrow>
          (if js_Number raw = NaN then Inl (FlagError (''expected integer, got '' @ str_text raw))
           else Inr (VNum (js_Number raw)))
      | BooleanFlag \<Rightarrow>
          (if raw = ''true'' \<or> raw = ''1'' then Inr (VBool True)
           else if raw = ''false'' \<or> raw = ''0'' then Inr (VBool False)
           else Inl (FlagError (''expected boolean, got '' @ str_text raw)))
      | StringFlag \<Rightarrow> Inr (VStr raw))"

text \<open>\<^verbatim>\<open>String(value)\<close>; the text of a number is an argument.\<close>

fun js_String :: "(jsnum \<Rightarrow> string) \<Rightarrow> arg_value \<Rightarrow> string" where
  "js_String num (VStr s) = s"
| "js_String num (VBool b) = (if b then ''true'' else ''false'')"
| "js_String num (VNum n) = num n"
| "js_String num (VList xs) = join '','' xs"

definition accumulateFlagValue ::
  "(jsnum \<Rightarrow> string) \<Rightarrow> parsed_flags \<Rightarrow> string \<Rightarrow> arg_value \<Rightarrow> flag_def \<Rightarrow> parsed_flags" where
  "accumulateFlagValue num flags name value df =
     (if fd_multiple df then
        (case map_of flags name of
           Some (VList xs) \<Rightarrow> obj_set name (VList (xs @ [js_String num value])) flags
         | _ \<Rightarrow> obj_set name (VList [js_String num value]) flags)
      else obj_set name value flags)"

fun resolveByChar :: "string \<Rightarrow> flag_defs \<Rightarrow> (string \<times> flag_def) option" where
  "resolveByChar ch [] = None"
| "resolveByChar ch ((name, df) # rest) =
     (if fd_char df = Some ch then Some (name, df) else resolveByChar ch rest)"

definition validateFlagOptions :: "string \<Rightarrow> string \<Rightarrow> flag_def \<Rightarrow> flag_error option" where
  "validateFlagOptions name raw df =
     (case fd_options df of
        None \<Rightarrow> None
      | Some options \<Rightarrow> if raw \<in> set options then None else Some (UnsupportedArgValueError name df raw))"

record resolved_flag =
  rf_name :: string
  rf_def :: flag_def
  rf_label :: string
  rf_inlineRaw :: "string option"

definition resolveToken :: "string \<Rightarrow> flag_defs \<Rightarrow> flag_error + resolved_flag option" where
  "resolveToken token flags =
     (if startsWith token ''--'' then
        (let name = (case indexOf ''='' token of Some i \<Rightarrow> drop 2 (take i token) | None \<Rightarrow> drop 2 token);
             inlineRaw = (case indexOf ''='' token of Some i \<Rightarrow> Some (drop (i + 1) token) | None \<Rightarrow> None)
         in case map_of flags name of
              None \<Rightarrow> Inl (FlagError (''unknown flag: --'' @ name))
            | Some df \<Rightarrow> Inr (Some \<lparr>rf_name = name, rf_def = df, rf_label = ''--'' @ name, rf_inlineRaw = inlineRaw\<rparr>))
      else if length token = 2 then
        (let ch = drop 1 token
         in case resolveByChar ch flags of
              None \<Rightarrow> Inl (FlagError (''unknown flag: -'' @ ch))
            | Some (name, df) \<Rightarrow>
                Inr (Some \<lparr>rf_name = name, rf_def = df, rf_label = ''-'' @ ch, rf_inlineRaw = None\<rparr>))
      else Inr None)"

fun hasBooleanFlag :: "string list \<Rightarrow> string \<Rightarrow> string option \<Rightarrow> bool" where
  "hasBooleanFlag [] name ch = False"
| "hasBooleanFlag (token # argv) name ch =
     (if token = ''--'' then False
      else if token = ''--'' @ name \<or> token = ''--'' @ name @ ''=true'' \<or> token = ''--'' @ name @ ''=1'' then True
      else if (\<exists>c. ch = Some c \<and> token = ''-'' @ c) then True
      else hasBooleanFlag argv name ch)"

definition storeFlag ::
  "(jsnum \<Rightarrow> string) \<Rightarrow> resolved_flag \<Rightarrow> string \<Rightarrow> parsed_flags \<Rightarrow> flag_error + parsed_flags" where
  "storeFlag num rf raw flags =
     (case validateFlagOptions (rf_name rf) raw (rf_def rf) of
        Some e \<Rightarrow> Inl e
      | None \<Rightarrow>
          (case coerceFlagValue raw (rf_def rf) of
             Inl e \<Rightarrow> Inl e
           | Inr v \<Rightarrow> Inr (accumulateFlagValue num flags (rf_name rf) v (rf_def rf))))"

definition storeBoolean :: "resolved_flag \<Rightarrow> parsed_flags \<Rightarrow> flag_error + parsed_flags" where
  "storeBoolean rf flags =
     (case rf_inlineRaw rf of
        None \<Rightarrow> Inr (obj_set (rf_name rf) (VBool True) flags)
      | Some raw \<Rightarrow>
          (case coerceFlagValue raw (rf_def rf) of
             Inl e \<Rightarrow> Inl e
           | Inr v \<Rightarrow> Inr (obj_set (rf_name rf) v flags)))"

text \<open>The loop over \<^verbatim>\<open>argv\<close>: flags so far, positional arguments so far.\<close>

fun scanArgv ::
  "(jsnum \<Rightarrow> string) \<Rightarrow> flag_defs \<Rightarrow> parsed_flags \<Rightarrow> string list \<Rightarrow> string list \<Rightarrow> flag_error + (parsed_flags \<times> string list)"
where
  "scanArgv num defs flags pos [] = Inr (flags, pos)"
| "scanArgv num defs flags pos (token # argv) =
     (if token = ''--'' then Inr (flags, pos @ argv)
      else if \<not> startsWith token ''-'' then scanArgv num defs flags (pos @ [token]) argv
      else case resolveToken token defs of
        Inl e \<Rightarrow> Inl e
      | Inr None \<Rightarrow> scanArgv num defs flags (pos @ [token]) argv
      | Inr (Some rf) \<Rightarrow>
          (if fd_type (rf_def rf) = BooleanFlag then
             (case storeBoolean rf flags of Inl e \<Rightarrow> Inl e | Inr fl \<Rightarrow> scanArgv num defs fl pos argv)
           else case rf_inlineRaw rf of
             Some raw \<Rightarrow>
               (case storeFlag num rf raw flags of Inl e \<Rightarrow> Inl e | Inr fl \<Rightarrow> scanArgv num defs fl pos argv)
           | None \<Rightarrow>
               (case argv of
                  [] \<Rightarrow> Inl (FlagError (''flag '' @ rf_label rf @ '' expects a value''))
                | nxt # argv' \<Rightarrow>
                    if startsWith nxt ''-'' then Inl (FlagError (''flag '' @ rf_label rf @ '' expects a value''))
                    else (case storeFlag num rf nxt flags of
                            Inl e \<Rightarrow> Inl e
                          | Inr fl \<Rightarrow> scanArgv num defs fl pos argv'))))"

fun assignArgs :: "(string \<times> bool) list \<Rightarrow> string list \<Rightarrow> (string \<times> string) list \<Rightarrow> flag_error + (string \<times> string) list" where
  "assignArgs [] pos args = Inr args"
| "assignArgs ((name, req) # ds) (p # pos) args = assignArgs ds pos (obj_set name p args)"
| "assignArgs ((name, req) # ds) [] args =
     (if req then Inl (FlagError (''missing required argument: '' @ name)) else assignArgs ds [] args)"

fun applyDefaults :: "flag_defs \<Rightarrow> parsed_flags \<Rightarrow> parsed_flags" where
  "applyDefaults [] flags = flags"
| "applyDefaults ((name, df) # ds) flags =
     applyDefaults ds
       (if name \<in> fst ` set flags then flags
        else case fd_default df of None \<Rightarrow> flags | Some v \<Rightarrow> obj_set name v flags)"

record parsed =
  pa_args :: "(string \<times> string) list"
  pa_flags :: parsed_flags

definition allFlags :: "command_meta \<Rightarrow> flag_defs" where
  "allFlags meta = obj_spread (cm_flags meta) GLOBAL_FLAGS"

definition parseArgv :: "(jsnum \<Rightarrow> string) \<Rightarrow> string list \<Rightarrow> command_meta \<Rightarrow> flag_error + parsed" where
  "parseArgv num argv meta =
     (case scanArgv num (allFlags meta) [] [] argv of
        Inl e \<Rightarrow> Inl e
      | Inr (flags, positional) \<Rightarrow>
          (case assignArgs (cm_args meta) positional [] of
             Inl e \<Rightarrow> Inl e
           | Inr args \<Rightarrow> Inr \<lparr>pa_args = args, pa_flags = applyDefaults (cm_flags meta) flags\<rparr>))"

end
