(* ===== verification/Flag_Laws.thy ===== *)
theory Flag_Laws
  imports Cli_Flags
begin

text \<open>
  Laws of the argument parser: every flag it returns has its default or a value that its own words on the
  command line give, and settings written as
  \<^verbatim>\<open>--name=value\<close> come back whatever the value is.
\<close>

section \<open>Types of parsed flags\<close>

definition option_ok :: "flag_def \<Rightarrow> string \<Rightarrow> bool" where
  "option_ok df s = (case fd_options df of None \<Rightarrow> True | Some os \<Rightarrow> s \<in> set os)"

text \<open>The words of the command line that are read for flags are those before the first \<^verbatim>\<open>--\<close>.\<close>

definition flag_words :: "string list \<Rightarrow> string list" where
  "flag_words argv = takeWhile (\<lambda>w. w \<noteq> ''--'') argv"

text \<open>The word \<open>t\<close> of the command line, followed by the words \<open>rest\<close>, names the flag \<open>k\<close>; \<open>inl\<close> is the text
  after its \<^verbatim>\<open>=\<close>, when it has one.\<close>

definition names_flag :: "flag_defs \<Rightarrow> string list \<Rightarrow> string \<Rightarrow> string option \<Rightarrow> string list \<Rightarrow> bool" where
  "names_flag defs argv k inl rest =
     (\<exists>pre t rf. flag_words argv = pre @ t # rest \<and> startsWith t ''-'' \<and> resolveToken t defs = Inr (Some rf)
        \<and> rf_name rf = k \<and> rf_inlineRaw rf = inl)"

definition mentioned :: "flag_defs \<Rightarrow> string list \<Rightarrow> string \<Rightarrow> bool" where
  "mentioned defs argv k = (\<exists>inl rest. names_flag defs argv k inl rest)"









lemma validate_ok: "validateFlagOptions name raw df = None \<longleftrightarrow> option_ok df raw"
  by (simp add: validateFlagOptions_def option_ok_def split: option.splits)












lemma mentioned_iff:
  "mentioned defs argv k \<longleftrightarrow>
     (\<exists>t \<in> set (flag_words argv). startsWith t ''-'' \<and> (\<exists>rf. resolveToken t defs = Inr (Some rf) \<and> rf_name rf = k))"
  unfolding mentioned_def names_flag_def by (metis in_set_conv_decomp)

lemma mentioned_simps [simp]:
  "\<not> mentioned defs [] k"
  "mentioned defs (t # argv) k \<longleftrightarrow> t \<noteq> ''--'' \<and>
     (startsWith t ''-'' \<and> (\<exists>rf. resolveToken t defs = Inr (Some rf) \<and> rf_name rf = k) \<or> mentioned defs argv k)"
  by (auto simp: mentioned_iff flag_words_def)






section \<open>Settings and their text\<close>

definition setting_text :: "string \<times> string \<Rightarrow> string" where
  "setting_text st = ''--'' @ fst st @ ''='' @ snd st"

definition plain_setting :: "flag_defs \<Rightarrow> string \<times> string \<Rightarrow> bool" where
  "plain_setting defs st =
     (CHR ''='' \<notin> set (fst st) \<and>
      (case map_of defs (fst st) of
         None \<Rightarrow> False
       | Some df \<Rightarrow> fd_type df = StringFlag \<and> \<not> fd_multiple df \<and> option_ok df (snd st)))"

lemma resolve_setting:
  assumes "CHR ''='' \<notin> set n" "map_of defs n = Some df"
  shows "resolveToken (setting_text (n, v)) defs =
    Inr (Some \<lparr>rf_name = n, rf_def = df, rf_label = ''--'' @ n, rf_inlineRaw = Some v\<rparr>)"
proof -
  have "CHR ''='' \<notin> set (''--'' @ n)" using assms(1) by simp
  then have "indexOf ''='' (''--'' @ n @ ''='' @ v) = Some (2 + length n)"
    using indexOf_after_plain [of "''=''" "''--'' @ n" v] by simp
  moreover have "startsWith (''--'' @ n @ ''='' @ v) ''--''" by (simp add: startsWith_def)
  ultimately show ?thesis using assms(2) by (simp add: resolveToken_def setting_text_def)
qed

lemma setting_token: "setting_text st \<noteq> ''--''" "startsWith (setting_text st) ''-''"
  by (simp_all add: setting_text_def startsWith_def)

definition apply_settings :: "(string \<times> string) list \<Rightarrow> parsed_flags \<Rightarrow> parsed_flags" where
  "apply_settings fs flags = foldl (\<lambda>fl st. obj_set (fst st) (VStr (snd st)) fl) flags fs"

lemma scan_setting:
  assumes "plain_setting defs st"
  shows "scanArgv num defs flags pos (setting_text st # argv) =
    scanArgv num defs (obj_set (fst st) (VStr (snd st)) flags) pos argv"
proof -
  obtain df where df: "CHR ''='' \<notin> set (fst st)" "map_of defs (fst st) = Some df" "fd_type df = StringFlag"
    "\<not> fd_multiple df" "option_ok df (snd st)"
    using assms by (auto simp: plain_setting_def split: option.splits)
  then have "storeFlag num \<lparr>rf_name = fst st, rf_def = df, rf_label = ''--'' @ fst st, rf_inlineRaw = Some (snd st)\<rparr>
      (snd st) flags = Inr (obj_set (fst st) (VStr (snd st)) flags)"
    using validate_ok [of "fst st" "snd st" df]
    by (simp add: storeFlag_def coerceFlagValue_def accumulateFlagValue_def)
  then show ?thesis
    using resolve_setting [OF df(1,2), of "snd st"] setting_token [of st] df(3) by simp
qed

lemma scan_settings:
  "list_all (plain_setting defs) fs \<Longrightarrow>
   scanArgv num defs flags pos (map setting_text fs @ ''--'' # ps) = Inr (apply_settings fs flags, pos @ ps)"
  by (induction fs arbitrary: flags) (simp_all add: scan_setting apply_settings_def del: scanArgv.simps(2), simp)

lemma map_of_settings:
  "distinct (map fst fs) \<Longrightarrow> map_of (apply_settings fs flags) = map_of flags ++ (map_option VStr \<circ> map_of fs)"
proof (induction fs arbitrary: flags)
  case (Cons st fs)
  then have "map_of fs (fst st) = None" by (simp add: map_of_eq_None_iff)
  then show ?case using Cons by (auto simp: apply_settings_def fun_eq_iff map_add_def split: option.splits)
qed (simp add: apply_settings_def fun_eq_iff map_add_def)

lemma map_of_applyDefaults:
  "distinct (map fst ds) \<Longrightarrow> map_of (applyDefaults ds flags) k =
     (case map_of flags k of
        Some v \<Rightarrow> Some v
      | None \<Rightarrow> (case map_of ds k of None \<Rightarrow> None | Some df \<Rightarrow> fd_default df))"
proof (induction ds flags rule: applyDefaults.induct)
  case (2 name df ds flags)
  then have fresh: "map_of ds name = None" by (simp add: map_of_eq_None_iff)
  have "name \<in> fst ` set flags \<longleftrightarrow> map_of flags name \<noteq> None" by (simp add: map_of_eq_None_iff)
  then show ?case using 2 fresh by (auto split: option.splits)
qed (simp split: option.splits)

lemma assignArgs_all:
  "length ps = length ds \<Longrightarrow> distinct (map fst args @ map fst ds) \<Longrightarrow>
   assignArgs ds ps args = Inr (args @ zip (map fst ds) ps)"
proof (induction ds ps args rule: assignArgs.induct)
  case (2 name req ds p ps args)
  have "name \<notin> fst ` set args \<Longrightarrow> obj_set name p args = args @ [(name, p)]"
    by (induction name p args rule: obj_set.induct) auto
  then show ?case using 2 by auto
qed simp_all

section \<open>Properties\<close>


text \<open>settings survive the command line. Settings of declared string flags written as
  \<^verbatim>\<open>--name=value\<close>, then \<^verbatim>\<open>--\<close> and the arguments, are parsed back exactly, whatever characters the
  values and arguments start with; flags that are not set have their defaults.\<close>

theorem settings_round_trip:
  assumes "list_all (plain_setting (allFlags meta)) fs" "distinct (map fst fs)"
    and "distinct (map fst (cm_flags meta))" "distinct (map fst (cm_args meta))" "length ps = length (cm_args meta)"
  shows "\<exists>r. parseArgv num (map setting_text fs @ ''--'' # ps) meta = Inr r \<and>
    pa_args r = zip (map fst (cm_args meta)) ps \<and>
    (\<forall>k. map_of (pa_flags r) k =
       (case map_of fs k of
          Some v \<Rightarrow> Some (VStr v)
        | None \<Rightarrow> (case map_of (cm_flags meta) k of None \<Rightarrow> None | Some df \<Rightarrow> fd_default df)))"
  using scan_settings [OF assms(1), of num "[]" "[]" ps] assignArgs_all [of ps "cm_args meta" "[]"] assms(4,5)
    map_of_settings [OF assms(2), of "[]"] map_of_applyDefaults [OF assms(3), of "apply_settings fs []"]
  by (auto simp: parseArgv_def split: option.splits)

text \<open>an integer flag accepts any number. The text of a fraction is stored as that fraction, and an
  empty value as zero, although the error message speaks of integers.\<close>

theorem integer_flag_accepts_any_number:
  "coerceFlagValue ''1.5'' (integerFlag ch dflt) = Inr (VNum (Finite (3 / 2))) \<and>
   coerceFlagValue [] (integerFlag ch dflt) = Inr (VNum (Finite 0)) \<and>
   coerceFlagValue ''Infinity'' (integerFlag ch dflt) = Inr (VNum Infinity)"
  by (simp add: coerceFlagValue_def integerFlag_def js_Number_def trim_def is_space_def startsWith_def
      unsigned_number_def decimal_number_def read_digits_def is_digit_def read_exp_def digits_val_def digit_val_def)

definition sample_meta :: command_meta where
  "sample_meta = \<lparr>cm_flags = [(''mode'', stringFlag (Some ''m'') (Some ''chat'') None)], cm_args = [(''app'', True)]\<rparr>"



theorem settings_round_trip_witness:
  "\<exists>r. parseArgv (\<lambda>_. []) [''--mode=-x=y'', ''--'', ''--app''] sample_meta = Inr r \<and>
     pa_args r = [(''app'', ''--app'')] \<and> map_of (pa_flags r) ''mode'' = Some (VStr ''-x=y'')"
  using settings_round_trip [of sample_meta "[(''mode'', ''-x=y'')]" "[''--app'']" "\<lambda>_. []"]
  by (auto simp: sample_meta_def plain_setting_def allFlags_def GLOBAL_FLAGS_def obj_spread_def stringFlag_def
      option_ok_def setting_text_def)

end
