(* ===== verification/Kv_Store.thy ===== *)
theory Kv_Store
  imports Json_Laws
begin

text \<open>
  The key-value stores of the command line client, \<^verbatim>\<open>cli/src/store/store.ts\<close>. Both classes implement
  the interface \<^verbatim>\<open>Store\<close>, here the locale \<open>key_value_store\<close>: \<^verbatim>\<open>YamlStore\<close> keeps nested maps in a
  locked file and addresses them by dotted keys, \<^verbatim>\<open>KeyringBasedStore\<close> keeps one JSON text per key.
\<close>

section \<open>The interface\<close>

datatype ('k, 'v) store_write = SetKey 'k 'v | UnsetKey 'k

fun write_key :: "('k, 'v) store_write \<Rightarrow> 'k" where
  "write_key (SetKey k v) = k"
| "write_key (UnsetKey k) = k"

text \<open>The value a sequence of writes leaves at a key: the last write to it decides.\<close>

fun last_write :: "'k \<Rightarrow> ('k, 'v) store_write list \<Rightarrow> 'v option option" where
  "last_write k [] = None"
| "last_write k (w # ws) =
     (case last_write k ws of
        Some r \<Rightarrow> Some r
      | None \<Rightarrow> (if write_key w = k then Some (case w of SetKey _ v \<Rightarrow> Some v | UnsetKey _ \<Rightarrow> None) else None))"

locale key_value_store =
  fixes get :: "'s \<Rightarrow> 'k \<Rightarrow> 'v \<Rightarrow> 'v" and set_key :: "'k \<Rightarrow> 'v \<Rightarrow> 's \<Rightarrow> 's" and unset_key :: "'k \<Rightarrow> 's \<Rightarrow> 's"
    and valid :: "'s \<Rightarrow> bool" and storable :: "'v \<Rightarrow> bool" and apart :: "'k \<Rightarrow> 'k \<Rightarrow> bool"
  assumes valid_set: "valid s \<Longrightarrow> storable v \<Longrightarrow> valid (set_key k v s)"
    and valid_unset: "valid s \<Longrightarrow> valid (unset_key k s)"
    and get_set: "valid s \<Longrightarrow> storable v \<Longrightarrow> get (set_key k v s) k d = v"
    and get_set_apart: "valid s \<Longrightarrow> storable v \<Longrightarrow> apart j k \<Longrightarrow> get (set_key k v s) j d = get s j d"
    and get_unset: "valid s \<Longrightarrow> get (unset_key k s) k d = d"
    and get_unset_apart: "valid s \<Longrightarrow> apart j k \<Longrightarrow> get (unset_key k s) j d = get s j d"
begin

fun store_write :: "('k, 'v) store_write \<Rightarrow> 's \<Rightarrow> 's" where
  "store_write (SetKey k v) s = set_key k v s"
| "store_write (UnsetKey k) s = unset_key k s"

definition writable :: "'k \<Rightarrow> ('k, 'v) store_write \<Rightarrow> bool" where
  "writable k w = ((write_key w = k \<or> apart k (write_key w)) \<and> (case w of SetKey _ v \<Rightarrow> storable v | _ \<Rightarrow> True))"

lemma store_write_valid: "valid s \<Longrightarrow> writable k w \<Longrightarrow> valid (store_write w s)"
  by (cases w) (auto simp: writable_def valid_set valid_unset)

lemma store_write_get:
  "valid s \<Longrightarrow> writable k w \<Longrightarrow> get (store_write w s) k d =
     (if write_key w = k then (case w of SetKey _ v \<Rightarrow> v | UnsetKey _ \<Rightarrow> d) else get s k d)"
  by (cases w) (auto simp: writable_def get_set get_set_apart get_unset get_unset_apart)

lemma last_write_wins:
  "valid s \<Longrightarrow> list_all (writable k) ws \<Longrightarrow>
   get (fold store_write ws s) k d =
     (case last_write k ws of None \<Rightarrow> get s k d | Some None \<Rightarrow> d | Some (Some v) \<Rightarrow> v)"
proof (induction ws arbitrary: s)
  case (Cons w ws)
  then have "get (fold store_write ws (store_write w s)) k d =
      (case last_write k ws of None \<Rightarrow> get (store_write w s) k d | Some None \<Rightarrow> d | Some (Some v) \<Rightarrow> v)"
    using Cons.IH [OF store_write_valid [of s k w]] by simp
  then show ?case
    using store_write_get [of s k w d] Cons.prems by (cases w) (auto split: option.splits)
qed simp

end

section \<open>Documents\<close>

definition array_index :: "string \<Rightarrow> nat option" where
  "array_index k =
     (if k \<noteq> [] \<and> list_all is_digit k \<and> string_of_nat (digits_val k) = k then Some (digits_val k) else None)"

text \<open>\<^verbatim>\<open>current[k] = v\<close>; a property of an array that is no index is not part of its value.\<close>

fun put_prop :: "string \<Rightarrow> jsval \<Rightarrow> jsval \<Rightarrow> jsval" where
  "put_prop k v (JObj ob) = JObj (obj_set k v ob)"
| "put_prop k v (JArr vs) =
     (case array_index k of
        None \<Rightarrow> JArr vs
      | Some i \<Rightarrow> JArr ((vs @ replicate (Suc i - length vs) JUndefined)[i := v]))"
| "put_prop k v c = c"

fun del_prop :: "string \<Rightarrow> jsval \<Rightarrow> jsval" where
  "del_prop k (JObj ob) = JObj (filter (\<lambda>p. fst p \<noteq> k) ob)"
| "del_prop k (JArr vs) =
     (case array_index k of None \<Rightarrow> JArr vs | Some i \<Rightarrow> JArr (vs[i := JUndefined]))"
| "del_prop k c = c"

text \<open>The walks of \<^verbatim>\<open>doGet\<close>, \<^verbatim>\<open>doSet\<close> and \<^verbatim>\<open>doUnset\<close>. A removal that finds nothing answers \<open>None\<close>, the
  early return that leaves the file alone.\<close>

fun doc_read :: "string list \<Rightarrow> jsval \<Rightarrow> jsval" where
  "doc_read [] c = c"
| "doc_read (p # ps) c = (if is_object c then doc_read ps (js_get c p) else JUndefined)"

fun doc_write :: "string list \<Rightarrow> jsval \<Rightarrow> jsval \<Rightarrow> jsval" where
  "doc_write [] v c = c"
| "doc_write [k] v c = put_prop k v c"
| "doc_write (p # q # ps) v c =
     put_prop p (doc_write (q # ps) v (if is_object (js_get c p) then js_get c p else JObj [])) c"

fun doc_delete :: "string list \<Rightarrow> jsval \<Rightarrow> jsval option" where
  "doc_delete [] c = None"
| "doc_delete [k] c = (if k \<in> set (object_keys c) then Some (del_prop k c) else None)"
| "doc_delete (p # q # ps) c =
     (if is_object (js_get c p)
      then map_option (\<lambda>n. put_prop p n c) (doc_delete (q # ps) (js_get c p)) else None)"

definition doc_get :: "jsval \<Rightarrow> string list \<Rightarrow> jsval \<Rightarrow> jsval" where
  "doc_get data parts dflt = (let v = doc_read parts data in if nullish v then dflt else v)"

definition doc_unset :: "string list \<Rightarrow> jsval \<Rightarrow> jsval" where
  "doc_unset parts data = (case doc_delete parts data of None \<Rightarrow> data | Some d \<Rightarrow> d)"

section \<open>The file store\<close>

text \<open>
  A store object and the file behind it: \<open>rawContent\<close> and \<open>dirty\<close> are the fields of the object,
  \<open>fs_file\<close> is the content of the file (\<open>None\<close>: no such file), \<open>fs_locked\<close> says that another process
  holds a lock file that is not stale. Failures of the file system other than a missing file and a held lock are
  not modelled, so an operation either raises one of the errors below or completes.
\<close>

record file_store =
  rawContent :: "string option"
  dirty :: bool
  fs_file :: "string option"
  fs_locked :: bool

datatype store_error = ConcurrentAccessError | BadYamlFormatError string | StoreTypeError

text \<open>The YAML package: \<open>None\<close> is its exception.\<close>

record codec =
  c_load :: "string \<Rightarrow> jsval option"
  c_dump :: "jsval \<Rightarrow> string"

definition newStore :: "string option \<Rightarrow> file_store" where
  "newStore file = \<lparr>rawContent = None, dirty = False, fs_file = file, fs_locked = False\<rparr>"

definition load_file :: "file_store \<Rightarrow> file_store" where
  "load_file fs = (case fs_file fs of Some c \<Rightarrow> fs\<lparr>rawContent := Some c, dirty := False\<rparr> | None \<Rightarrow> fs)"

definition setRawContent :: "string \<Rightarrow> file_store \<Rightarrow> file_store" where
  "setRawContent content fs = fs\<lparr>dirty := (Some content \<noteq> rawContent fs), rawContent := Some content\<rparr>"

definition flush_file :: "file_store \<Rightarrow> file_store" where
  "flush_file fs =
     (if \<not> dirty fs then fs
      else (case rawContent fs of None \<Rightarrow> fs | Some c \<Rightarrow> fs\<lparr>fs_file := Some c\<rparr>)\<lparr>dirty := False\<rparr>)"

definition rm_file :: "file_store \<Rightarrow> file_store" where
  "rm_file fs = fs\<lparr>fs_file := None\<rparr>"

definition withLock ::
  "(file_store \<Rightarrow> (store_error + 'r) \<times> file_store) \<Rightarrow> file_store \<Rightarrow> (store_error + 'r) \<times> file_store" where
  "withLock body fs =
     (if fs_locked fs then (Inl ConcurrentAccessError, fs)
      else let (r, fs') = body (fs\<lparr>fs_locked := True\<rparr>) in (r, fs'\<lparr>fs_locked := False\<rparr>))"

definition loadYaml :: "codec \<Rightarrow> string option \<Rightarrow> store_error + jsval" where
  "loadYaml cd raw =
     (case raw of
        None \<Rightarrow> Inr JNull
      | Some txt \<Rightarrow>
          (case c_load cd txt of
             None \<Rightarrow> Inl (BadYamlFormatError txt)
           | Some v \<Rightarrow> Inr (if nullish v then JObj [] else v)))"

definition key_parts :: "string \<Rightarrow> string list" where
  "key_parts key = split_on (CHR ''.'') key"

text \<open>The operations of \<^verbatim>\<open>YamlStore\<close>. A document that is a scalar has no properties to assign: the
  assignment of \<^verbatim>\<open>doSet\<close>, and the \<^verbatim>\<open>in\<close> of \<^verbatim>\<open>doUnset\<close>, raise a \<^verbatim>\<open>TypeError\<close>.\<close>

definition doGet :: "codec \<Rightarrow> string \<Rightarrow> jsval \<Rightarrow> file_store \<Rightarrow> store_error + jsval" where
  "doGet cd key dflt fs =
     (case loadYaml cd (rawContent fs) of Inl e \<Rightarrow> Inl e | Inr data \<Rightarrow> Inr (doc_get data (key_parts key) dflt))"

definition doSet :: "codec \<Rightarrow> string \<Rightarrow> jsval \<Rightarrow> file_store \<Rightarrow> (store_error + unit) \<times> file_store" where
  "doSet cd key v fs =
     (case loadYaml cd (rawContent fs) of
        Inl e \<Rightarrow> (Inl e, fs)
      | Inr loaded \<Rightarrow>
          (let data = (if js_truthy loaded then loaded else JObj [])
           in if \<not> is_object data then (Inl StoreTypeError, fs)
              else (Inr (), setRawContent (c_dump cd (doc_write (key_parts key) v data)) fs)))"

definition doUnset :: "codec \<Rightarrow> string \<Rightarrow> file_store \<Rightarrow> (store_error + unit) \<times> file_store" where
  "doUnset cd key fs =
     (case loadYaml cd (rawContent fs) of
        Inl e \<Rightarrow> (Inl e, fs)
      | Inr loaded \<Rightarrow>
          (let data = (if js_truthy loaded then loaded else JObj [])
           in if \<not> is_object data \<and> length (key_parts key) = 1 then (Inl StoreTypeError, fs)
              else (case doc_delete (key_parts key) data of
                      None \<Rightarrow> (Inr (), fs)
                    | Some d \<Rightarrow> (Inr (), setRawContent (c_dump cd d) fs))))"

text \<open>An exception in the body skips the flush; the lock is released either way.\<close>

definition flush_after :: "(store_error + unit) \<times> file_store \<Rightarrow> (store_error + unit) \<times> file_store" where
  "flush_after rf = (case rf of (Inl e, fs) \<Rightarrow> (Inl e, fs) | (Inr u, fs) \<Rightarrow> (Inr u, flush_file fs))"

definition yamlGet :: "codec \<Rightarrow> string \<Rightarrow> jsval \<Rightarrow> file_store \<Rightarrow> (store_error + jsval) \<times> file_store" where
  "yamlGet cd key dflt = withLock (\<lambda>fs. let fs' = load_file fs in (doGet cd key dflt fs', fs'))"

definition yamlSet :: "codec \<Rightarrow> string \<Rightarrow> jsval \<Rightarrow> file_store \<Rightarrow> (store_error + unit) \<times> file_store" where
  "yamlSet cd key v = withLock (\<lambda>fs. flush_after (doSet cd key v (load_file fs)))"

definition yamlUnset :: "codec \<Rightarrow> string \<Rightarrow> file_store \<Rightarrow> (store_error + unit) \<times> file_store" where
  "yamlUnset cd key = withLock (\<lambda>fs. flush_after (doUnset cd key (load_file fs)))"

definition getTyped :: "codec \<Rightarrow> file_store \<Rightarrow> (store_error + jsval) \<times> file_store" where
  "getTyped cd = withLock (\<lambda>fs. let fs' = load_file fs in (loadYaml cd (rawContent fs'), fs'))"

definition setTyped :: "codec \<Rightarrow> jsval \<Rightarrow> file_store \<Rightarrow> (store_error + unit) \<times> file_store" where
  "setTyped cd data = withLock (\<lambda>fs. flush_after (Inr (), setRawContent (c_dump cd data) (load_file fs)))"

section \<open>The keyring\<close>

type_synonym keyring = "string \<rightharpoonup> string"

definition keyringGet :: "keyring \<Rightarrow> string \<Rightarrow> jsval \<Rightarrow> jsval" where
  "keyringGet ring key dflt =
     (case ring key of
        None \<Rightarrow> dflt
      | Some txt \<Rightarrow>
          if txt = [] then dflt
          else (case json_parse txt of None \<Rightarrow> dflt | Some v \<Rightarrow> v))"

definition keyringSet :: "(real \<Rightarrow> string) \<Rightarrow> string \<Rightarrow> jsval \<Rightarrow> keyring \<Rightarrow> keyring" where
  "keyringSet repr key v ring = ring(key \<mapsto> json_text repr v)"

definition keyringUnset :: "string \<Rightarrow> keyring \<Rightarrow> keyring" where
  "keyringUnset key ring = ring(key := None)"

interpretation ring_store: key_value_store keyringGet "keyringSet repr" keyringUnset "\<lambda>_. True" json_plain "(\<noteq>)" for repr
  by unfold_locales
     (auto simp: keyringGet_def keyringSet_def keyringUnset_def json_round_trip json_text_nonempty)

end
