(* ===== verification/Kv_Laws.thy ===== *)
theory Kv_Laws
  imports Kv_Store "HOL-Library.Sublist"
begin

text \<open>
  The stores of the command line client keep the contract of \<open>key_value_store\<close>: laws of nested documents under dotted
  keys, the interpretation of the locale on them, the refinement of a document by a file store, and what the cache of
  the store object does when the file is removed under it.
\<close>

section \<open>Documents of maps and scalars\<close>

fun no_arrays :: "jsval \<Rightarrow> bool" and no_array_fields :: "(string \<times> jsval) list \<Rightarrow> bool" where
  "no_arrays (JArr vs) = False"
| "no_arrays (JObj ob) = no_array_fields ob"
| "no_arrays _ = True"
| "no_array_fields [] = True"
| "no_array_fields ((k, v) # ob) = (no_arrays v \<and> no_array_fields ob)"

definition map_doc :: "jsval \<Rightarrow> bool" where
  "map_doc c = (json_plain c \<and> no_arrays c)"

definition valid_doc :: "jsval \<Rightarrow> bool" where
  "valid_doc c = (map_doc c \<and> plain_object c)"

definition storable :: "jsval \<Rightarrow> bool" where
  "storable v = (map_doc v \<and> \<not> nullish v)"

definition apart_keys :: "string \<Rightarrow> string \<Rightarrow> bool" where
  "apart_keys j k = (\<not> prefix (key_parts j) (key_parts k) \<and> \<not> prefix (key_parts k) (key_parts j))"

lemma no_array_fields_iff: "no_array_fields ob = list_all (no_arrays \<circ> snd) ob"
  by (induction ob) auto

lemma plain_fields_iff: "plain_fields ob = list_all (json_plain \<circ> snd) ob"
  by (induction ob) auto

lemma map_doc_obj: "map_doc (JObj ob) = (distinct (map fst ob) \<and> list_all (map_doc \<circ> snd) ob)"
  by (auto simp: map_doc_def no_array_fields_iff plain_fields_iff list_all_iff)

lemma valid_doc_obj [simp]: "valid_doc (JObj ob) = map_doc (JObj ob)"
  by (simp add: valid_doc_def)

lemma valid_docE: "valid_doc c \<Longrightarrow> (\<And>ob. c = JObj ob \<Longrightarrow> map_doc (JObj ob) \<Longrightarrow> thesis) \<Longrightarrow> thesis"
  by (cases c) (auto simp: valid_doc_def)

lemma list_all_obj_set: "list_all (P \<circ> snd) ob \<Longrightarrow> P v \<Longrightarrow> list_all (P \<circ> snd) (obj_set k v ob)"
  by (induction k v ob rule: obj_set.induct) auto

lemma map_doc_put: "map_doc (JObj ob) \<Longrightarrow> map_doc v \<Longrightarrow> map_doc (JObj (obj_set k v ob))"
  by (simp add: map_doc_obj distinct_obj_set list_all_obj_set)

lemma map_doc_del: "map_doc (JObj ob) \<Longrightarrow> map_doc (JObj (filter (\<lambda>p. fst p \<noteq> k) ob))"
  by (auto simp: map_doc_obj list_all_iff distinct_map_filter)

lemma map_doc_empty [simp]: "map_doc (JObj [])"
  by (simp add: map_doc_obj)

lemma child_valid: "map_doc (JObj ob) \<Longrightarrow> is_object (obj_get ob p) \<Longrightarrow> valid_doc (obj_get ob p)"
proof -
  assume ob: "map_doc (JObj ob)" and child: "is_object (obj_get ob p)"
  then obtain v where v: "map_of ob p = Some v" by (auto simp: obj_get_def split: option.splits)
  then have "map_doc v" using ob by (auto simp: map_doc_obj list_all_iff dest!: map_of_SomeD)
  then show ?thesis using v child by (cases v) (auto simp: obj_get_def map_doc_def valid_doc_def)
qed

definition sub_doc :: "jsobj \<Rightarrow> string \<Rightarrow> jsval" where
  "sub_doc ob p = (if is_object (obj_get ob p) then obj_get ob p else JObj [])"

lemma sub_doc_valid: "map_doc (JObj ob) \<Longrightarrow> valid_doc (sub_doc ob p)"
  by (simp add: sub_doc_def child_valid)

lemma doc_write_deep:
  "doc_write (p # q # ps) v (JObj ob) = JObj (obj_set p (doc_write (q # ps) v (sub_doc ob p)) ob)"
  by (simp add: sub_doc_def)

lemma get_put [simp]: "obj_get (obj_set k v ob) j = (if j = k then v else obj_get ob j)"
  by (simp add: obj_get_def)

lemma get_del [simp]: "obj_get (filter (\<lambda>p. fst p \<noteq> k) ob) j = (if j = k then JUndefined else obj_get ob j)"
  by (induction ob) (auto simp: obj_get_def)

lemma get_absent: "k \<notin> fst ` set ob \<Longrightarrow> obj_get ob k = JUndefined"
  by (simp add: obj_get_def map_of_eq_None_iff split: option.split) (metis map_of_eq_None_iff option.simps(3))

section \<open>Writing and deleting under a path\<close>

lemma read_undefined: "\<not> is_object c \<Longrightarrow> ps \<noteq> [] \<Longrightarrow> doc_read ps c = JUndefined"
  by (cases ps) auto

lemma read_empty: "ps \<noteq> [] \<Longrightarrow> doc_read ps (JObj []) = JUndefined"
  by (cases ps; cases "tl ps") (auto simp: obj_get_def)

lemma is_object_valid: "valid_doc c \<Longrightarrow> is_object c"
  by (auto elim: valid_docE)

lemma doc_write_valid: "valid_doc c \<Longrightarrow> map_doc v \<Longrightarrow> valid_doc (doc_write ps v c)"
proof (induction ps v c rule: doc_write.induct)
  case (3 p q ps v c)
  from \<open>valid_doc c\<close> obtain ob where ob: "c = JObj ob" "map_doc (JObj ob)" by (rule valid_docE)
  have sub: "(if is_object (js_get c p) then js_get c p else JObj []) = sub_doc ob p"
    using ob by (simp add: sub_doc_def)
  have "valid_doc (doc_write (q # ps) v (sub_doc ob p))"
    using 3(1) [unfolded sub] 3(3) sub_doc_valid [OF ob(2)] by blast
  then show ?case unfolding ob doc_write_deep using ob map_doc_put by (simp add: valid_doc_def)
qed (auto elim!: valid_docE intro: map_doc_put)

lemma doc_write_read: "valid_doc c \<Longrightarrow> ps \<noteq> [] \<Longrightarrow> doc_read ps (doc_write ps v c) = v"
proof (induction ps v c rule: doc_write.induct)
  case (3 p q ps v c)
  from \<open>valid_doc c\<close> obtain ob where ob: "c = JObj ob" "map_doc (JObj ob)" by (rule valid_docE)
  have sub: "(if is_object (js_get c p) then js_get c p else JObj []) = sub_doc ob p"
    using ob by (simp add: sub_doc_def)
  have "doc_read (q # ps) (doc_write (q # ps) v (sub_doc ob p)) = v"
    using 3(1) [unfolded sub] sub_doc_valid [OF ob(2)] by blast
  then show ?case unfolding ob doc_write_deep by simp
qed (auto elim: valid_docE)

lemma doc_write_apart:
  "valid_doc c \<Longrightarrow> \<not> prefix qs ps \<Longrightarrow> \<not> prefix ps qs \<Longrightarrow> doc_read qs (doc_write ps v c) = doc_read qs c"
proof (induction ps v c arbitrary: qs rule: doc_write.induct)
  case (3 p p' ps v c)
  from \<open>valid_doc c\<close> obtain ob where ob: "c = JObj ob" "map_doc (JObj ob)" by (rule valid_docE)
  have sub: "(if is_object (js_get c p) then js_get c p else JObj []) = sub_doc ob p"
    using ob by (simp add: sub_doc_def)
  obtain q qs' where qs: "qs = q # qs'" using 3 by (cases qs) auto
  show ?case
  proof (cases "q = p")
    case True
    then have apart: "qs' \<noteq> []" "\<not> prefix qs' (p' # ps)" "\<not> prefix (p' # ps) qs'" using 3 qs by auto
    have "doc_read qs' (doc_write (p' # ps) v (sub_doc ob p)) = doc_read qs' (sub_doc ob p)"
      using 3(1) [unfolded sub] apart sub_doc_valid [OF ob(2)] by blast
    also have "\<dots> = doc_read qs' (obj_get ob p)"
      using read_undefined [OF _ apart(1)] read_empty [OF apart(1)] by (simp add: sub_doc_def)
    finally show ?thesis unfolding ob doc_write_deep qs True by simp
  qed (use ob qs in simp)
next
  case (2 k v c)
  then show ?case by (cases qs) (auto elim!: valid_docE)
qed simp

lemma doc_delete_valid: "valid_doc c \<Longrightarrow> doc_delete ps c = Some d \<Longrightarrow> valid_doc d"
proof (induction ps c arbitrary: d rule: doc_delete.induct)
  case (3 p q ps c)
  from \<open>valid_doc c\<close> obtain ob where ob: "c = JObj ob" "map_doc (JObj ob)" by (rule valid_docE)
  obtain n where n: "is_object (js_get c p)" "doc_delete (q # ps) (js_get c p) = Some n" "d = put_prop p n c"
    using 3 by (auto split: if_splits)
  then have "valid_doc n" using 3(1) ob child_valid by auto
  then show ?case using n ob map_doc_put by (simp add: valid_doc_def)
qed (auto elim!: valid_docE intro: map_doc_del split: if_splits)

lemma doc_delete_read:
  "valid_doc c \<Longrightarrow> ps \<noteq> [] \<Longrightarrow> doc_read ps (case doc_delete ps c of None \<Rightarrow> c | Some d \<Rightarrow> d) = JUndefined"
proof (induction ps c rule: doc_delete.induct)
  case (3 p q ps c)
  from \<open>valid_doc c\<close> obtain ob where ob: "c = JObj ob" "map_doc (JObj ob)" by (rule valid_docE)
  show ?case
  proof (cases "is_object (obj_get ob p)")
    case True
    then show ?thesis using 3(1) ob child_valid [of ob p] by (auto split: option.splits)
  qed (use ob in simp)
next
  case (2 k c)
  then show ?case by (auto elim!: valid_docE simp: get_absent)
qed simp

lemma doc_delete_apart:
  "valid_doc c \<Longrightarrow> \<not> prefix qs ps \<Longrightarrow> \<not> prefix ps qs \<Longrightarrow> doc_delete ps c = Some d \<Longrightarrow> doc_read qs d = doc_read qs c"
proof (induction ps c arbitrary: qs d rule: doc_delete.induct)
  case (3 p p' ps c)
  from \<open>valid_doc c\<close> obtain ob where ob: "c = JObj ob" "map_doc (JObj ob)" by (rule valid_docE)
  obtain n where n: "is_object (js_get c p)" "doc_delete (p' # ps) (js_get c p) = Some n" "d = put_prop p n c"
    using 3 by (auto split: if_splits)
  obtain q qs' where qs: "qs = q # qs'" using 3 by (cases qs) auto
  show ?case
  proof (cases "q = p")
    case True
    have "doc_read qs' n = doc_read qs' (js_get c p)"
      using 3(1) [OF n(1) _ _ _ n(2), of qs'] child_valid [of ob p] ob n(1) 3(3,4) qs True by simp
    then show ?thesis using True ob qs n by simp
  qed (use ob qs n in simp)
next
  case (2 k c)
  then show ?case by (cases qs) (auto elim!: valid_docE split: if_splits)
qed simp

lemma parts_nonempty [simp]: "key_parts k \<noteq> []"
  by (simp add: key_parts_def)

lemma doc_unset_valid: "valid_doc c \<Longrightarrow> valid_doc (doc_unset ps c)"
  by (auto simp: doc_unset_def split: option.split dest: doc_delete_valid)

lemma doc_read_append: "doc_read (ps @ rs) c = doc_read rs (doc_read ps c)"
proof (induction ps c rule: doc_read.induct)
  case (2 p ps c)
  then show ?case using read_undefined [of JUndefined rs] by (cases "rs = []") auto
qed simp

lemma doc_write_above:
  assumes "valid_doc c" "prefix (key_parts j) qs"
  shows "doc_read qs (doc_write (key_parts j) v c) = doc_read (drop (length (key_parts j)) qs) v"
proof -
  obtain rs where "qs = key_parts j @ rs" using assms(2) by (auto simp: prefix_def)
  then show ?thesis using doc_write_read [OF assms(1), of "key_parts j" v] by (simp add: doc_read_append)
qed

lemma read_sub_doc: "qs \<noteq> [] \<Longrightarrow> doc_read qs (sub_doc ob p) = doc_read qs (obj_get ob p)"
  using read_undefined [of "obj_get ob p" qs] read_empty [of qs] by (simp add: sub_doc_def)

lemma doc_write_below:
  "valid_doc c \<Longrightarrow> rs \<noteq> [] \<Longrightarrow> qs \<noteq> [] \<Longrightarrow> doc_read qs (doc_write (qs @ rs) v c) =
     doc_write rs v (if is_object (doc_read qs c) then doc_read qs c else JObj [])"
proof (induction qs arbitrary: c)
  case (Cons q qs)
  from \<open>valid_doc c\<close> obtain ob where ob: "c = JObj ob" "map_doc (JObj ob)" by (rule valid_docE)
  obtain r rs' where r: "qs @ rs = r # rs'" using Cons.prems(2) by (cases "qs @ rs") auto
  have deep: "doc_write ((q # qs) @ rs) v c = JObj (obj_set q (doc_write (qs @ rs) v (sub_doc ob q)) ob)"
    unfolding ob(1) using r doc_write_deep by simp
  show ?case
  proof (cases "qs = []")
    case True
    then show ?thesis unfolding deep using ob(1) by (simp add: sub_doc_def)
  next
    case False
    then show ?thesis
      unfolding deep using Cons.IH [OF sub_doc_valid [OF ob(2)] Cons.prems(2) False] ob(1) by (simp add: read_sub_doc)
  qed
qed simp

lemma js_get_unset_deep:
  "js_get (doc_unset (p # q # ps) (JObj ob)) p =
     (if is_object (obj_get ob p) then doc_unset (q # ps) (obj_get ob p) else obj_get ob p)"
  by (simp add: doc_unset_def split: option.split)

lemma doc_unset_below:
  "valid_doc c \<Longrightarrow> rs \<noteq> [] \<Longrightarrow> qs \<noteq> [] \<Longrightarrow> doc_read qs (doc_unset (qs @ rs) c) =
     (if is_object (doc_read qs c) then doc_unset rs (doc_read qs c) else doc_read qs c)"
proof (induction qs arbitrary: c)
  case (Cons q qs)
  from \<open>valid_doc c\<close> obtain ob where ob: "c = JObj ob" "map_doc (JObj ob)" by (rule valid_docE)
  obtain r rs' where r: "qs @ rs = r # rs'" using Cons.prems(2) by (cases "qs @ rs") auto
  have obj: "is_object (doc_unset ((q # qs) @ rs) c)"
    using doc_unset_valid [OF Cons.prems(1)] by (rule is_object_valid)
  have get: "js_get (doc_unset ((q # qs) @ rs) c) q =
      (if is_object (obj_get ob q) then doc_unset (qs @ rs) (obj_get ob q) else obj_get ob q)"
    unfolding ob(1) using r js_get_unset_deep by simp
  show ?case
  proof (cases "qs = [] \<or> \<not> is_object (obj_get ob q)")
    case True
    then show ?thesis using ob(1) obj get read_undefined [of "obj_get ob q" qs] read_undefined [of JUndefined rs]
      by (cases "qs = []") auto
  next
    case False
    then show ?thesis
      using Cons.IH [OF child_valid [OF ob(2)] Cons.prems(2), of q] ob(1) obj get by simp
  qed
qed simp

lemma doc_unset_above:
  assumes "valid_doc c" "prefix (key_parts j) qs"
  shows "doc_read qs (doc_unset (key_parts j) c) = JUndefined"
proof -
  obtain rs where "qs = key_parts j @ rs" using assms(2) by (auto simp: prefix_def)
  then show ?thesis
    using doc_delete_read [OF assms(1), of "key_parts j"] read_undefined [of JUndefined rs]
    by (cases "rs = []") (simp_all add: doc_read_append doc_unset_def)
qed

interpretation doc_store: key_value_store
  "\<lambda>c k. doc_get c (key_parts k)" "\<lambda>k. doc_write (key_parts k)" "\<lambda>k. doc_unset (key_parts k)"
  valid_doc storable apart_keys
proof unfold_locales
  fix s v k j d
  assume valid: "valid_doc s"
  show "doc_get (doc_unset (key_parts k) s) (key_parts k) d = d"
    using doc_delete_read [OF valid, of "key_parts k"] by (simp add: doc_get_def doc_unset_def)
  show "valid_doc (doc_unset (key_parts k) s)" by (rule doc_unset_valid [OF valid])
  show "apart_keys j k \<Longrightarrow> doc_get (doc_unset (key_parts k) s) (key_parts j) d = doc_get s (key_parts j) d"
    using doc_delete_apart [OF valid, of "key_parts j" "key_parts k"]
    by (auto simp: doc_get_def doc_unset_def apart_keys_def split: option.split)
qed (auto simp: storable_def doc_write_valid doc_get_def doc_write_read apart_keys_def doc_write_apart)

lemma obj_set_twice: "obj_set k w (obj_set k v ob) = obj_set k w ob"
  by (induction k v ob rule: obj_set.induct) auto

lemma doc_write_twice:
  "valid_doc c \<Longrightarrow> map_doc v \<Longrightarrow> doc_write ps v (doc_write ps v c) = doc_write ps v c"
proof (induction ps v c rule: doc_write.induct)
  case (3 p q ps v c)
  from \<open>valid_doc c\<close> obtain ob where ob: "c = JObj ob" "map_doc (JObj ob)" by (rule valid_docE)
  have sub: "(if is_object (js_get c p) then js_get c p else JObj []) = sub_doc ob p"
    using ob by (simp add: sub_doc_def)
  let ?n = "doc_write (q # ps) v (sub_doc ob p)"
  have "is_object ?n" using doc_write_valid [OF sub_doc_valid [OF ob(2)] 3(3)] by (rule is_object_valid)
  then have "sub_doc (obj_set p ?n ob) p = ?n" by (simp add: sub_doc_def)
  moreover have "doc_write (q # ps) v ?n = ?n"
    using 3(1) [unfolded sub] 3(3) sub_doc_valid [OF ob(2)] by blast
  ultimately show ?case unfolding ob doc_write_deep by (simp add: obj_set_twice)
qed (auto elim!: valid_docE simp: obj_set_twice)

section \<open>The file store refines a document\<close>

text \<open>What the code relies on of the YAML package: a document it has written is read back.\<close>

definition codec_keeps_documents :: "codec \<Rightarrow> bool" where
  "codec_keeps_documents cd = (\<forall>v. valid_doc v \<longrightarrow> c_load cd (c_dump cd v) = Some v)"

definition seen_content :: "file_store \<Rightarrow> string option" where
  "seen_content fs = (case fs_file fs of Some c \<Rightarrow> Some c | None \<Rightarrow> rawContent fs)"

definition store_doc :: "codec \<Rightarrow> file_store \<Rightarrow> jsval" where
  "store_doc cd fs =
     (case seen_content fs of None \<Rightarrow> JObj [] | Some t \<Rightarrow> (case c_load cd t of None \<Rightarrow> JNull | Some v \<Rightarrow> v))"

text \<open>No other process holds the lock, the file is a document, and an object that has read or written
  its file finds it again.\<close>

definition store_ok :: "codec \<Rightarrow> file_store \<Rightarrow> bool" where
  "store_ok cd fs =
     (\<not> fs_locked fs \<and> valid_doc (store_doc cd fs) \<and> (fs_file fs = None \<longrightarrow> rawContent fs = None))"

lemma load_file_content [simp]: "rawContent (load_file fs) = seen_content fs"
  by (simp add: load_file_def seen_content_def split: option.split)

lemma load_file_keeps [simp]: "fs_file (load_file fs) = fs_file fs" "fs_locked (load_file fs) = fs_locked fs"
  by (simp_all add: load_file_def split: option.split)

lemma seen_content_locked [simp]: "seen_content (fs\<lparr>fs_locked := b\<rparr>) = seen_content fs"
  by (simp add: seen_content_def split: option.split)

lemma loaded_doc:
  assumes "valid_doc (store_doc cd fs)"
  obtains d where "loadYaml cd (seen_content fs) = Inr d" and "js_truthy d \<Longrightarrow> d = store_doc cd fs"
    and "\<not> js_truthy d \<Longrightarrow> d = JNull \<and> store_doc cd fs = JObj []"
proof (cases "seen_content fs")
  case None
  then show ?thesis using that [of JNull] by (simp add: loadYaml_def store_doc_def)
next
  case (Some t)
  then obtain v where v: "c_load cd t = Some v" using assms by (auto simp: store_doc_def valid_doc_def split: option.splits)
  then obtain ob where "v = JObj ob" using assms Some by (auto simp: store_doc_def elim: valid_docE)
  then show ?thesis using that [of v] Some v by (simp add: loadYaml_def store_doc_def)
qed

text \<open>After a write the file and the object hold the text of the new document.\<close>

definition holds_text :: "string \<Rightarrow> file_store \<Rightarrow> bool" where
  "holds_text t fs = (\<not> fs_locked fs \<and> fs_file fs = Some t \<and> rawContent fs = Some t \<and> \<not> dirty fs)"

lemma flush_holds_text:
  assumes "fs_file fs = None \<longrightarrow> rawContent fs = None"
  shows "holds_text t ((flush_file (setRawContent t (load_file (fs\<lparr>fs_locked := True\<rparr>))))\<lparr>fs_locked := False\<rparr>)"
  using assms by (auto simp: holds_text_def flush_file_def setRawContent_def load_file_def split: option.split)

lemma holds_text_ok:
  "codec_keeps_documents cd \<Longrightarrow> valid_doc d \<Longrightarrow> holds_text (c_dump cd d) fs \<Longrightarrow> store_ok cd fs \<and> store_doc cd fs = d"
  by (simp add: codec_keeps_documents_def holds_text_def store_ok_def store_doc_def seen_content_def)

lemma yamlSet_text:
  assumes "store_ok cd fs"
  shows "fst (yamlSet cd k v fs) = Inr ()"
    and "holds_text (c_dump cd (doc_write (key_parts k) v (store_doc cd fs))) (snd (yamlSet cd k v fs))"
proof -
  have ok: "\<not> fs_locked fs" "valid_doc (store_doc cd fs)" "fs_file fs = None \<longrightarrow> rawContent fs = None"
    using assms by (auto simp: store_ok_def)
  obtain d where d: "loadYaml cd (seen_content fs) = Inr d" "js_truthy d \<Longrightarrow> d = store_doc cd fs"
    "\<not> js_truthy d \<Longrightarrow> d = JNull \<and> store_doc cd fs = JObj []" 
    by (rule loaded_doc [OF ok(2)]) blast
  have "(if js_truthy d then d else JObj []) = store_doc cd fs" using d by auto
  then have "yamlSet cd k v fs = (Inr (), (flush_file (setRawContent
      (c_dump cd (doc_write (key_parts k) v (store_doc cd fs))) (load_file (fs\<lparr>fs_locked := True\<rparr>))))\<lparr>fs_locked := False\<rparr>)"
    using ok d(1) is_object_valid by (simp add: yamlSet_def withLock_def doSet_def flush_after_def)
  then show "fst (yamlSet cd k v fs) = Inr ()"
    and "holds_text (c_dump cd (doc_write (key_parts k) v (store_doc cd fs))) (snd (yamlSet cd k v fs))"
    using flush_holds_text [OF ok(3)] by simp_all
qed

lemma yamlSet_refines:
  assumes "codec_keeps_documents cd" "store_ok cd fs" "map_doc v"
  shows "fst (yamlSet cd k v fs) = Inr () \<and> store_ok cd (snd (yamlSet cd k v fs)) \<and>
    store_doc cd (snd (yamlSet cd k v fs)) = doc_write (key_parts k) v (store_doc cd fs)"
proof -
  have "valid_doc (doc_write (key_parts k) v (store_doc cd fs))"
    by (rule doc_write_valid) (use assms in \<open>simp_all add: store_ok_def\<close>)
  then show ?thesis
    using yamlSet_text [OF assms(2), of k v] holds_text_ok [OF assms(1)] by blast
qed

lemma flush_loaded:
  "fs_file fs = None \<longrightarrow> rawContent fs = None \<Longrightarrow> store_ok cd fs \<Longrightarrow>
   store_ok cd (flush_file (load_file (fs\<lparr>fs_locked := True\<rparr>))\<lparr>fs_locked := False\<rparr>) \<and>
   store_doc cd (flush_file (load_file (fs\<lparr>fs_locked := True\<rparr>))\<lparr>fs_locked := False\<rparr>) = store_doc cd fs"
  by (auto simp: store_ok_def store_doc_def seen_content_def load_file_def flush_file_def split: option.splits)

lemma yamlUnset_refines:
  assumes "codec_keeps_documents cd" "store_ok cd fs"
  shows "fst (yamlUnset cd k fs) = Inr () \<and> store_ok cd (snd (yamlUnset cd k fs)) \<and>
    store_doc cd (snd (yamlUnset cd k fs)) = doc_unset (key_parts k) (store_doc cd fs)"
proof -
  have ok: "\<not> fs_locked fs" "valid_doc (store_doc cd fs)" "fs_file fs = None \<longrightarrow> rawContent fs = None"
    using assms by (auto simp: store_ok_def)
  obtain d where d: "loadYaml cd (seen_content fs) = Inr d" "js_truthy d \<Longrightarrow> d = store_doc cd fs"
    "\<not> js_truthy d \<Longrightarrow> d = JNull \<and> store_doc cd fs = JObj []" 
    by (rule loaded_doc [OF ok(2)]) blast
  have doc: "(if js_truthy d then d else JObj []) = store_doc cd fs" using d by auto
  show ?thesis
  proof (cases "doc_delete (key_parts k) (store_doc cd fs)")
    case None
    then have "yamlUnset cd k fs = (Inr (), flush_file (load_file (fs\<lparr>fs_locked := True\<rparr>))\<lparr>fs_locked := False\<rparr>)"
      using ok d(1) doc is_object_valid by (simp add: yamlUnset_def withLock_def doUnset_def flush_after_def)
    then show ?thesis using flush_loaded [OF ok(3) assms(2)] None by (simp add: doc_unset_def)
  next
    case (Some r)
    then have "yamlUnset cd k fs = (Inr (), (flush_file (setRawContent (c_dump cd r)
        (load_file (fs\<lparr>fs_locked := True\<rparr>))))\<lparr>fs_locked := False\<rparr>)"
      using ok d(1) doc is_object_valid by (simp add: yamlUnset_def withLock_def doUnset_def flush_after_def)
    then show ?thesis
      using holds_text_ok [OF assms(1) doc_delete_valid [OF ok(2) Some] flush_holds_text [OF ok(3)]] Some
      by (simp add: doc_unset_def)
  qed
qed

lemma yamlGet_reads:
  assumes "store_ok cd fs"
  shows "fst (yamlGet cd k d fs) = Inr (doc_get (store_doc cd fs) (key_parts k) d)"
proof -
  have ok: "\<not> fs_locked fs" "valid_doc (store_doc cd fs)" using assms by (auto simp: store_ok_def)
  obtain c where c: "loadYaml cd (seen_content fs) = Inr c" "js_truthy c \<Longrightarrow> c = store_doc cd fs"
    "\<not> js_truthy c \<Longrightarrow> c = JNull \<and> store_doc cd fs = JObj []" 
    by (rule loaded_doc [OF ok(2)]) blast
  have "doc_get c (key_parts k) d = doc_get (store_doc cd fs) (key_parts k) d"
    using c read_undefined [of JNull "key_parts k"] read_empty [of "key_parts k"]
    by (cases "js_truthy c") (auto simp: doc_get_def)
  then show ?thesis using ok c(1) by (simp add: yamlGet_def withLock_def doGet_def Let_def)
qed

section \<open>Sequences of writes\<close>

definition yamlWrite :: "codec \<Rightarrow> (string, jsval) store_write \<Rightarrow> file_store \<Rightarrow> (store_error + unit) \<times> file_store" where
  "yamlWrite cd w = (case w of SetKey k v \<Rightarrow> yamlSet cd k v | UnsetKey k \<Rightarrow> yamlUnset cd k)"

fun yamlWrites :: "codec \<Rightarrow> (string, jsval) store_write list \<Rightarrow> file_store \<Rightarrow> store_error + file_store" where
  "yamlWrites cd [] fs = Inr fs"
| "yamlWrites cd (w # ws) fs =
     (case yamlWrite cd w fs of (Inl e, _) \<Rightarrow> Inl e | (Inr _, fs') \<Rightarrow> yamlWrites cd ws fs')"

definition plain_write :: "(string, jsval) store_write \<Rightarrow> bool" where
  "plain_write w = (case w of SetKey _ v \<Rightarrow> map_doc v | _ \<Rightarrow> True)"

definition clear_write :: "string \<Rightarrow> (string, jsval) store_write \<Rightarrow> bool" where
  "clear_write k w =
     ((write_key w = k \<or> apart_keys k (write_key w)) \<and> (case w of SetKey _ v \<Rightarrow> storable v | _ \<Rightarrow> True))"

text \<open>What one call leaves at the path \<open>qs\<close>, of the value \<open>old\<close> that was there. A call for the path or for a
  path above it replaces the value, a call for a path below it changes the value in place and puts an
  object where there was none, any other call leaves it.\<close>

fun written_at :: "string list \<Rightarrow> (string, jsval) store_write \<Rightarrow> jsval \<Rightarrow> jsval" where
  "written_at qs (SetKey j v) old =
     (let ps = key_parts j
      in if prefix ps qs then doc_read (drop (length ps) qs) v
         else if prefix qs ps then doc_write (drop (length qs) ps) v (if is_object old then old else JObj [])
         else old)"
| "written_at qs (UnsetKey j) old =
     (let ps = key_parts j
      in if prefix ps qs then JUndefined
         else if prefix qs ps then (if is_object old then doc_unset (drop (length qs) ps) old else old)
         else old)"

lemma written_at_write:
  assumes "valid_doc c" "plain_write w" "qs \<noteq> []"
  shows "doc_read qs (doc_store.store_write w c) = written_at qs w (doc_read qs c)"
proof (cases w)
  case (SetKey j v)
  consider "prefix (key_parts j) qs" | rs where "key_parts j = qs @ rs" "rs \<noteq> []"
    | "\<not> prefix (key_parts j) qs" "\<not> prefix qs (key_parts j)" by (metis append_Nil2 prefix_def)
  then show ?thesis
  proof cases
    case 1
    then show ?thesis using assms(1) SetKey by (simp add: doc_write_above)
  next
    case 2
    then show ?thesis using doc_write_below [OF assms(1) 2(2) assms(3)] SetKey by simp
  qed (use SetKey doc_write_apart [OF assms(1)] in simp)
next
  case (UnsetKey j)
  consider "prefix (key_parts j) qs" | rs where "key_parts j = qs @ rs" "rs \<noteq> []"
    | "\<not> prefix (key_parts j) qs" "\<not> prefix qs (key_parts j)" by (metis append_Nil2 prefix_def)
  then show ?thesis
  proof cases
    case 1
    then show ?thesis using assms(1) UnsetKey by (simp add: doc_unset_above)
  next
    case 2
    then show ?thesis using doc_unset_below [OF assms(1) 2(2) assms(3)] UnsetKey by simp
  next
    case 3
    then show ?thesis using doc_delete_apart [OF assms(1)] UnsetKey by (auto simp: doc_unset_def split: option.split)
  qed
qed

lemma store_write_plain: "valid_doc c \<Longrightarrow> plain_write w \<Longrightarrow> valid_doc (doc_store.store_write w c)"
  by (cases w) (simp_all add: plain_write_def doc_write_valid doc_unset_valid)

lemma written_at_writes:
  "valid_doc c \<Longrightarrow> list_all plain_write ws \<Longrightarrow> qs \<noteq> [] \<Longrightarrow>
   doc_read qs (fold doc_store.store_write ws c) = fold (written_at qs) ws (doc_read qs c)"
  by (induction ws arbitrary: c) (simp_all add: written_at_write store_write_plain)

lemma yamlWrite_refines:
  assumes "codec_keeps_documents cd" "store_ok cd fs" "plain_write w"
  obtains fs' where "yamlWrite cd w fs = (Inr (), fs')" and "store_ok cd fs'"
    and "store_doc cd fs' = doc_store.store_write w (store_doc cd fs)"
proof (cases w)
  case (SetKey j v)
  then have "map_doc v" using assms by (simp add: plain_write_def)
  then show ?thesis using that yamlSet_refines [OF assms(1,2), of v j] SetKey
    by (cases "yamlSet cd j v fs") (simp add: yamlWrite_def)
next
  case (UnsetKey j)
  then show ?thesis using that yamlUnset_refines [OF assms(1,2), of j]
    by (cases "yamlUnset cd j fs") (simp add: yamlWrite_def)
qed

lemma yamlWrites_refine:
  "codec_keeps_documents cd \<Longrightarrow> store_ok cd fs \<Longrightarrow> list_all plain_write ws \<Longrightarrow>
   \<exists>fs'. yamlWrites cd ws fs = Inr fs' \<and> store_ok cd fs' \<and>
     store_doc cd fs' = fold doc_store.store_write ws (store_doc cd fs)"
proof (induction ws arbitrary: fs)
  case (Cons w ws)
  then obtain fs1 where w: "yamlWrite cd w fs = (Inr (), fs1)" "store_ok cd fs1"
    "store_doc cd fs1 = doc_store.store_write w (store_doc cd fs)"
    using yamlWrite_refines [of cd fs w] by auto
  then show ?case using Cons.IH [of fs1] Cons.prems by simp
qed simp

text \<open>C17: Any sequence of \<^verbatim>\<open>set\<close> and \<^verbatim>\<open>unset\<close> calls on a \<^verbatim>\<open>YamlStore\<close> succeeds, and a later \<^verbatim>\<open>get\<close> of a key
  answers the value that these calls leave there one after the other: a call for the key or for a key above it
  replaces its value (by the part of the new value that the key names, or by nothing), a call for a key
  below it changes the value in place and replaces a scalar by an object, and a call for any other key leaves
  it; where nothing, null or undefined is left, the default is answered. In particular, when no other call is
  for a key above or below it and no null is written, the key has the value of the last call for it, or what the
  file held before. Supposed are that the YAML package reads back what it writes, that no other process holds the
  lock, and that the document in the file and the values written hold no arrays.
\<close>

theorem yaml_store_last_write_wins:
  assumes "codec_keeps_documents cd" and "store_ok cd fs" and "list_all plain_write ws"
  shows "\<exists>fs'. yamlWrites cd ws fs = Inr fs' \<and> store_ok cd fs' \<and>
    (\<forall>k d. fst (yamlGet cd k d fs') = Inr
       (let v = fold (written_at (key_parts k)) ws (doc_read (key_parts k) (store_doc cd fs)) in if nullish v then d else v)) \<and>
    (\<forall>k d. list_all (clear_write k) ws \<longrightarrow> fst (yamlGet cd k d fs') = Inr (case last_write k ws of
        None \<Rightarrow> doc_get (store_doc cd fs) (key_parts k) d | Some None \<Rightarrow> d | Some (Some v) \<Rightarrow> v))"
proof -
  have valid: "valid_doc (store_doc cd fs)" using assms(2) by (simp add: store_ok_def)
  obtain fs' where fs': "yamlWrites cd ws fs = Inr fs'" "store_ok cd fs'"
    "store_doc cd fs' = fold doc_store.store_write ws (store_doc cd fs)"
    using yamlWrites_refine [OF assms] by blast
  have "fst (yamlGet cd k d fs') = Inr (case last_write k ws of
      None \<Rightarrow> doc_get (store_doc cd fs) (key_parts k) d | Some None \<Rightarrow> d | Some (Some v) \<Rightarrow> v)"
    if "list_all (clear_write k) ws" for k d
  proof -
    have "list_all (doc_store.writable k) ws"
      using that by (simp add: doc_store.writable_def clear_write_def list_all_iff)
    then show ?thesis using yamlGet_reads [OF fs'(2)] fs'(3) doc_store.last_write_wins [OF valid, of k ws d] by simp
  qed
  then show ?thesis
    using fs' yamlGet_reads [OF fs'(2)] written_at_writes [OF valid assms(3) parts_nonempty] by (simp add: doc_get_def)
qed

definition json_codec :: codec where
  "json_codec = \<lparr>c_load = json_parse, c_dump = json_text (\<lambda>_. [])\<rparr>"

lemma json_codec_keeps: "codec_keeps_documents json_codec"
  by (simp add: codec_keeps_documents_def json_codec_def valid_doc_def map_doc_def json_round_trip)

lemma new_store_ok: "store_ok cd (newStore None)"
  by (simp add: store_ok_def newStore_def store_doc_def seen_content_def)

text \<open>The case of the tests: a scalar on the way of a deeper key gives way to an object.\<close>

theorem yaml_store_last_write_wins_witness:
  "\<exists>fs'. yamlWrites json_codec [SetKey ''user'' (JStr ''scalar''), SetKey ''user.id'' (JStr ''x''), SetKey ''a.b'' (JStr ''y'')]
      (newStore None) = Inr fs' \<and>
    fst (yamlGet json_codec ''user'' JNull fs') = Inr (JObj [(''id'', JStr ''x'')]) \<and>
    fst (yamlGet json_codec ''a.b'' JNull fs') = Inr (JStr ''y'')"
proof -
  let ?ws = "[SetKey ''user'' (JStr ''scalar''), SetKey ''user.id'' (JStr ''x''), SetKey ''a.b'' (JStr ''y'')]"
  have "list_all plain_write ?ws" by (simp add: plain_write_def map_doc_def)
  from yaml_store_last_write_wins [OF json_codec_keeps new_store_ok this]
  obtain fs' where fs': "yamlWrites json_codec ?ws (newStore None) = Inr fs'"
    and get: "\<And>k d. fst (yamlGet json_codec k d fs') = Inr (let v = fold (written_at (key_parts k)) ?ws
        (doc_read (key_parts k) (store_doc json_codec (newStore None))) in if nullish v then d else v)"
    and last: "\<And>k d. list_all (clear_write k) ?ws \<Longrightarrow> fst (yamlGet json_codec k d fs') = Inr (case last_write k ?ws of
        None \<Rightarrow> doc_get (store_doc json_codec (newStore None)) (key_parts k) d | Some None \<Rightarrow> d | Some (Some v) \<Rightarrow> v)"
    by blast
  have "fst (yamlGet json_codec ''user'' JNull fs') = Inr (JObj [(''id'', JStr ''x'')])"
    unfolding get by (simp add: key_parts_def)
  moreover have "list_all (clear_write ''a.b'') ?ws"
    by (simp add: clear_write_def apart_keys_def key_parts_def storable_def map_doc_def)
  from last [OF this, of JNull] have "fst (yamlGet json_codec ''a.b'' JNull fs') = Inr (JStr ''y'')" by simp
  ultimately show ?thesis using fs' by blast
qed

section \<open>Failing operations\<close>

lemma withLock_failed:
  assumes "\<And>f r f'. body f = (r, f') \<Longrightarrow> (\<exists>e. r = Inl e) \<Longrightarrow> fs_file f' = fs_file f"
    and "withLock body fs = (Inl e, fs')"
  shows "fs_file fs' = fs_file fs \<and> fs_locked fs' = fs_locked fs"
proof (cases "fs_locked fs")
  case False
  then obtain f' where "body (fs\<lparr>fs_locked := True\<rparr>) = (Inl e, f')" "fs' = f'\<lparr>fs_locked := False\<rparr>"
    using assms(2) by (auto simp: withLock_def split: prod.splits)
  then show ?thesis using assms(1) False by fastforce
qed (use assms(2) in \<open>simp add: withLock_def\<close>)

lemma flush_after_failed: "flush_after p = (Inl e, f') \<Longrightarrow> p = (Inl e, f')"
  by (auto simp: flush_after_def split: prod.splits sum.splits)

lemma doSet_failed: "doSet cd k v f = (Inl e, f') \<Longrightarrow> f' = f"
  by (auto simp: doSet_def Let_def split: sum.splits if_splits)

lemma doUnset_failed: "doUnset cd k f = (Inl e, f') \<Longrightarrow> f' = f"
  by (auto simp: doUnset_def Let_def split: sum.splits if_splits option.splits)

text \<open>C18: A failing \<^verbatim>\<open>set\<close> or \<^verbatim>\<open>unset\<close> of a \<^verbatim>\<open>YamlStore\<close> leaves the file and the lock as they were: with the lock
  held elsewhere it raises \<^verbatim>\<open>ConcurrentAccessError\<close> and nothing is read, a file that is no YAML is reported with
  its text and not overwritten, and the lock taken for the operation is released.
\<close>

theorem failed_write_keeps_file:
  "(fs_locked fs \<longrightarrow> yamlWrite cd w fs = (Inl ConcurrentAccessError, fs)) \<and>
   (\<not> fs_locked fs \<and> fs_file fs = Some t \<and> c_load cd t = None \<longrightarrow>
      fst (yamlWrite cd w fs) = Inl (BadYamlFormatError t)) \<and>
   (\<forall>e fs'. yamlWrite cd w fs = (Inl e, fs') \<longrightarrow> fs_file fs' = fs_file fs \<and> fs_locked fs' = fs_locked fs)"
proof (intro conjI impI allI)
  show "yamlWrite cd w fs = (Inl ConcurrentAccessError, fs)" if "fs_locked fs"
    using that by (cases w) (simp_all add: yamlWrite_def yamlSet_def yamlUnset_def withLock_def)
  show "fst (yamlWrite cd w fs) = Inl (BadYamlFormatError t)"
    if "\<not> fs_locked fs \<and> fs_file fs = Some t \<and> c_load cd t = None"
    using that by (cases w) (simp_all add: yamlWrite_def yamlSet_def yamlUnset_def withLock_def doSet_def doUnset_def
        seen_content_def loadYaml_def flush_after_def)
  fix e fs'
  assume w: "yamlWrite cd w fs = (Inl e, fs')"
  have "fs_file fs' = fs_file fs \<and> fs_locked fs' = fs_locked fs"
  proof (cases w)
    case (SetKey k v)
    with w show ?thesis unfolding yamlWrite_def yamlSet_def
      by (auto elim!: withLock_failed [rotated] dest!: flush_after_failed doSet_failed)
  next
    case (UnsetKey k)
    with w show ?thesis unfolding yamlWrite_def yamlUnset_def
      by (auto elim!: withLock_failed [rotated] dest!: flush_after_failed doUnset_failed)
  qed
  then show "fs_file fs' = fs_file fs" and "fs_locked fs' = fs_locked fs" by simp_all
qed

theorem failed_write_keeps_file_witness:
  "yamlWrite json_codec (UnsetKey ''a'') \<lparr>rawContent = None, dirty = False, fs_file = Some ''{}'', fs_locked = True\<rparr> =
     (Inl ConcurrentAccessError, \<lparr>rawContent = None, dirty = False, fs_file = Some ''{}'', fs_locked = True\<rparr>)"
  using failed_write_keeps_file [of "\<lparr>rawContent = None, dirty = False, fs_file = Some ''{}'', fs_locked = True\<rparr>" json_codec]
  by simp

section \<open>Removing the file\<close>

text \<open>\<^verbatim>\<open>rm\<close> does not reset the object: \<^verbatim>\<open>load\<close> keeps the old text when the file is gone. After a \<^verbatim>\<open>set\<close> and an
  \<^verbatim>\<open>rm\<close>, the object still answers the removed value, and the same \<^verbatim>\<open>set\<close> again finds its text unchanged
  and writes nothing: it succeeds and the file stays missing.
\<close>

theorem removed_file_is_not_rewritten:
  assumes "codec_keeps_documents cd" and "store_ok cd fs" and "storable v"
    and "gone = rm_file (snd (yamlSet cd k v fs))"
  shows "fst (yamlGet cd k d gone) = Inr v \<and>
    fst (yamlSet cd k v gone) = Inr () \<and> fs_file (snd (yamlSet cd k v gone)) = None"
proof -
  let ?doc = "doc_write (key_parts k) v (store_doc cd fs)"
  have v: "map_doc v" "\<not> nullish v" using assms(3) by (simp_all add: storable_def)
  have fs: "valid_doc (store_doc cd fs)" using assms(2) by (simp add: store_ok_def)
  have doc: "valid_doc ?doc" by (rule doc_write_valid [OF fs v(1)])
  have raw: "rawContent gone = Some (c_dump cd ?doc)" "fs_file gone = None" "\<not> fs_locked gone"
    using yamlSet_text(2) [OF assms(2), of k v] assms(4) by (simp_all add: holds_text_def rm_file_def)
  obtain ob where ob: "?doc = JObj ob" using doc by (rule valid_docE)
  have load: "loadYaml cd (seen_content gone) = Inr ?doc"
    using raw assms(1) doc ob by (simp add: seen_content_def loadYaml_def codec_keeps_documents_def)
  have "doc_get ?doc (key_parts k) d = v"
    using doc_write_read [OF fs, of "key_parts k" v] v(2) by (simp add: doc_get_def)
  then show ?thesis
    using raw load ob doc_write_twice [OF fs v(1), of "key_parts k"]
    by (simp add: yamlGet_def yamlSet_def withLock_def doGet_def doSet_def Let_def flush_after_def
        setRawContent_def flush_file_def load_file_def seen_content_def)
qed

theorem removed_file_is_not_rewritten_witness:
  "fs_file (snd (yamlSet json_codec ''a'' (JStr ''x'') (rm_file (snd (yamlSet json_codec ''a'' (JStr ''x'') (newStore None)))))) = None"
  using removed_file_is_not_rewritten [OF json_codec_keeps new_store_ok _ refl, of "JStr ''x''" "''a''" JNull]
  by (simp add: storable_def map_doc_def)

end
