(* ===== verification/Token_Store.thy ===== *)
theory Token_Store
  imports Kv_Laws
begin

text \<open>
  The credential stores of the command line client, \<^verbatim>\<open>cli/src/store/token-store.ts\<close> and the choice between them in
  \<^verbatim>\<open>cli/src/store/manager.ts\<close>. The interface \<^verbatim>\<open>TokenStore\<close> is the locale \<open>token_store\<close>, an instance of
  \<open>key_value_store\<close> keyed by a host and an e-mail address. \<^verbatim>\<open>FileTokenStore\<close> keeps one document in a \<^verbatim>\<open>YamlStore\<close>,
  \<^verbatim>\<open>KeychainTokenStore\<close> one entry of the system keyring per account.
\<close>

section \<open>The interface\<close>

locale token_store =
  fixes read_token :: "'s \<Rightarrow> string \<Rightarrow> string \<Rightarrow> string" and write_token :: "string \<Rightarrow> string \<Rightarrow> string \<Rightarrow> 's \<Rightarrow> 's"
    and remove_token :: "string \<Rightarrow> string \<Rightarrow> 's \<Rightarrow> 's" and good :: "'s \<Rightarrow> bool"
    and same_entry :: "string \<times> string \<Rightarrow> string \<times> string \<Rightarrow> bool"
  assumes good_write: "good s \<Longrightarrow> good (write_token h e b s)"
    and good_remove: "good s \<Longrightarrow> good (remove_token h e s)"
    and read_write: "good s \<Longrightarrow> read_token (write_token h e b s) h e = b"
    and read_remove: "good s \<Longrightarrow> read_token (remove_token h e s) h e = []"
    and read_write_other: "good s \<Longrightarrow> \<not> same_entry (h', e') (h, e) \<Longrightarrow> read_token (write_token h e b s) h' e' = read_token s h' e'"
    and read_remove_other: "good s \<Longrightarrow> \<not> same_entry (h', e') (h, e) \<Longrightarrow> read_token (remove_token h e s) h' e' = read_token s h' e'"

text \<open>An account without a token reads as the empty string, so a token store is a key-value store of the
  texts that are not empty.\<close>

sublocale token_store \<subseteq> accounts: key_value_store
  "\<lambda>s (h, e) d. if read_token s h e = [] then d else read_token s h e" "\<lambda>(h, e) b. write_token h e b" "\<lambda>(h, e). remove_token h e"
  good "\<lambda>b. b \<noteq> []" "\<lambda>j k. \<not> same_entry j k"
  by unfold_locales
     (auto simp: good_write good_remove read_write read_remove read_write_other read_remove_other split: prod.splits)

section \<open>Token documents\<close>

definition DOC_VERSION :: jsval where
  "DOC_VERSION = JNum (Finite 1)"

definition foreign_version :: "jsval \<Rightarrow> bool" where
  "foreign_version doc = (js_get doc ''version'' \<noteq> JUndefined \<and> js_get doc ''version'' \<noteq> DOC_VERSION)"

definition or_empty :: "jsval \<Rightarrow> jsval" where
  "or_empty v = (if nullish v then JObj [] else v)"

text \<open>Optional chaining: a property of a nullish value is \<^verbatim>\<open>undefined\<close>.\<close>

definition readTokenDoc :: "jsval \<Rightarrow> string \<Rightarrow> string \<Rightarrow> jsval" where
  "readTokenDoc doc host email =
     (if doc = JNull then JStr []
      else if foreign_version doc then JStr []
      else (let v = js_get (js_get (js_get doc ''tokens'') host) email in if nullish v then JStr [] else v))"

definition loadTokenDoc :: "jsval \<Rightarrow> jsval" where
  "loadTokenDoc doc =
     (if doc = JNull \<or> foreign_version doc then JObj [(''version'', DOC_VERSION), (''tokens'', JObj [])]
      else JObj [(''version'', DOC_VERSION), (''tokens'', or_empty (js_get doc ''tokens''))])"

text \<open>\<open>None\<close>: the \<^verbatim>\<open>TypeError\<close> of an assignment to a property of a scalar.\<close>

definition writeTokenDoc :: "string \<Rightarrow> string \<Rightarrow> string \<Rightarrow> jsval \<Rightarrow> jsval option" where
  "writeTokenDoc host email bearer doc =
     (let loaded = loadTokenDoc doc;
          tokens = js_get loaded ''tokens'';
          hostMap = or_empty (js_get tokens host)
      in if \<not> is_object hostMap \<or> \<not> is_object tokens then None
         else Some (put_prop ''tokens'' (put_prop host (put_prop email (JStr bearer) hostMap) tokens) loaded))"

datatype removal = Kept | Removed jsval | Removal_failed

definition removeTokenDoc :: "string \<Rightarrow> string \<Rightarrow> jsval \<Rightarrow> removal" where
  "removeTokenDoc host email doc =
     (if doc = JNull then Kept
      else if foreign_version doc then Kept
      else (let tokens = or_empty (js_get doc ''tokens''); hostMap = js_get tokens host
            in if hostMap = JUndefined then Kept
               else if \<not> is_object hostMap then Removal_failed
               else if email \<notin> set (object_keys hostMap) then Kept
               else (let hostMap' = del_prop email hostMap;
                         tokens' = (if object_keys hostMap' = [] then del_prop host tokens
                                    else put_prop host hostMap' tokens)
                     in Removed (JObj [(''version'', DOC_VERSION), (''tokens'', tokens')]))))"

section \<open>The file\<close>

definition fileRead :: "codec \<Rightarrow> string \<Rightarrow> string \<Rightarrow> file_store \<Rightarrow> (store_error + jsval) \<times> file_store" where
  "fileRead cd host email fs =
     (case getTyped cd fs of
        (Inl err, fs') \<Rightarrow> (Inl err, fs')
      | (Inr doc, fs') \<Rightarrow> (Inr (readTokenDoc doc host email), fs'))"

definition fileWrite :: "codec \<Rightarrow> string \<Rightarrow> string \<Rightarrow> string \<Rightarrow> file_store \<Rightarrow> (store_error + unit) \<times> file_store" where
  "fileWrite cd host email bearer fs =
     (case getTyped cd fs of
        (Inl err, fs') \<Rightarrow> (Inl err, fs')
      | (Inr doc, fs') \<Rightarrow>
          (case writeTokenDoc host email bearer doc of
             None \<Rightarrow> (Inl StoreTypeError, fs')
           | Some doc' \<Rightarrow> setTyped cd doc' fs'))"

definition fileRemove :: "codec \<Rightarrow> string \<Rightarrow> string \<Rightarrow> file_store \<Rightarrow> (store_error + unit) \<times> file_store" where
  "fileRemove cd host email fs =
     (case getTyped cd fs of
        (Inl err, fs') \<Rightarrow> (Inl err, fs')
      | (Inr doc, fs') \<Rightarrow>
          (case removeTokenDoc host email doc of
             Kept \<Rightarrow> (Inr (), fs')
           | Removal_failed \<Rightarrow> (Inl StoreTypeError, fs')
           | Removed doc' \<Rightarrow> setTyped cd doc' fs'))"

section \<open>The keyring\<close>

text \<open>The keyring of the system: its entries, and which of its operations it answers. A failing operation
  raises; only a removal swallows the failure.\<close>

record keychain =
  kc_entries :: keyring
  kc_readable :: bool
  kc_writable :: bool
  kc_deletable :: bool

datatype keychain_error = KeyringUnavailable

definition entryName :: "string \<Rightarrow> string \<Rightarrow> string" where
  "entryName host email = ''tokens.'' @ host @ ''.'' @ email"

definition keychainRead :: "keychain \<Rightarrow> string \<Rightarrow> string \<Rightarrow> keychain_error + string" where
  "keychainRead kc host email =
     (if \<not> kc_readable kc then Inl KeyringUnavailable
      else Inr (case kc_entries kc (entryName host email) of
                  None \<Rightarrow> []
                | Some raw \<Rightarrow>
                    if raw = [] then []
                    else (case json_parse raw of Some (JStr s) \<Rightarrow> s | _ \<Rightarrow> [])))"

definition keychainWrite :: "(real \<Rightarrow> string) \<Rightarrow> string \<Rightarrow> string \<Rightarrow> string \<Rightarrow> keychain \<Rightarrow> (keychain_error + unit) \<times> keychain" where
  "keychainWrite repr host email bearer kc =
     (if \<not> kc_writable kc then (Inl KeyringUnavailable, kc)
      else (Inr (), kc\<lparr>kc_entries := (kc_entries kc)(entryName host email \<mapsto> json_text repr (JStr bearer))\<rparr>))"

definition keychainRemove :: "string \<Rightarrow> string \<Rightarrow> keychain \<Rightarrow> keychain" where
  "keychainRemove host email kc =
     (if \<not> kc_deletable kc then kc else kc\<lparr>kc_entries := (kc_entries kc)(entryName host email := None)\<rparr>)"

section \<open>Choosing a store at login\<close>

datatype storage_mode = Keychain_mode | File_mode

definition PROBE_HOST :: string where "PROBE_HOST = ''__difyctl_probe__''"
definition PROBE_EMAIL :: string where "PROBE_EMAIL = ''__difyctl_probe__''"
definition PROBE_VALUE :: string where "PROBE_VALUE = ''probe-v1''"

definition detectTokenStore :: "(real \<Rightarrow> string) \<Rightarrow> bool \<Rightarrow> keychain \<Rightarrow> storage_mode \<times> keychain" where
  "detectTokenStore repr noKeyring kc =
     (if noKeyring then (File_mode, kc)
      else (case keychainWrite repr PROBE_HOST PROBE_EMAIL PROBE_VALUE kc of
              (Inl _, kc1) \<Rightarrow> (File_mode, kc1)
            | (Inr _, kc1) \<Rightarrow>
                (let kc2 = keychainRemove PROBE_HOST PROBE_EMAIL kc1
                 in (case keychainRead kc1 PROBE_HOST PROBE_EMAIL of
                       Inl _ \<Rightarrow> (File_mode, kc2)
                     | Inr got \<Rightarrow> (if got = PROBE_VALUE then Keychain_mode else File_mode, kc2)))))"

section \<open>Both stores keep the interface\<close>

lemma bearer_text [simp]: "json_parse (str_text b) = Some (JStr b)" "str_text b \<noteq> []"
  using json_round_trip [of "JStr b"] by (simp_all add: str_text_def)

definition working_keychain :: "keychain \<Rightarrow> bool" where
  "working_keychain kc = (kc_readable kc \<and> kc_writable kc \<and> kc_deletable kc)"

definition keychainToken :: "keychain \<Rightarrow> string \<Rightarrow> string \<Rightarrow> string" where
  "keychainToken kc host email = (case keychainRead kc host email of Inl _ \<Rightarrow> [] | Inr t \<Rightarrow> t)"

interpretation keychain_tokens: token_store
  keychainToken "\<lambda>h e b kc. snd (keychainWrite repr h e b kc)" keychainRemove working_keychain
  "\<lambda>(h', e') (h, e). entryName h' e' = entryName h e" for repr
  by unfold_locales
     (auto simp: keychainToken_def working_keychain_def keychainWrite_def keychainRemove_def keychainRead_def)

text \<open>The tokens of a document: none in a missing document or one of another version.\<close>

definition doc_tokens :: "jsval \<Rightarrow> jsval" where
  "doc_tokens c = (if c = JNull \<or> foreign_version c then JObj [] else or_empty (js_get c ''tokens''))"

definition make_doc :: "jsval \<Rightarrow> jsval" where
  "make_doc ts = JObj [(''version'', DOC_VERSION), (''tokens'', ts)]"

fun string_map :: "jsval \<Rightarrow> bool" where
  "string_map (JObj m) = (distinct (map fst m) \<and> list_all (\<lambda>v. str_of v \<noteq> None) (map snd m))"
| "string_map _ = False"

fun token_map :: "jsval \<Rightarrow> bool" where
  "token_map (JObj m) = (distinct (map fst m) \<and> list_all (string_map \<circ> snd) m)"
| "token_map _ = False"

definition token_doc :: "jsval \<Rightarrow> bool" where
  "token_doc c = token_map (doc_tokens c)"

definition token_at :: "jsval \<Rightarrow> string \<Rightarrow> string \<Rightarrow> string" where
  "token_at c host email = (case readTokenDoc c host email of JStr t \<Rightarrow> t | _ \<Rightarrow> [])"

definition with_token :: "string \<Rightarrow> string \<Rightarrow> string \<Rightarrow> jsval \<Rightarrow> jsval" where
  "with_token host email bearer c = (case writeTokenDoc host email bearer c of None \<Rightarrow> c | Some d \<Rightarrow> d)"

definition without_token :: "string \<Rightarrow> string \<Rightarrow> jsval \<Rightarrow> jsval" where
  "without_token host email c = (case removeTokenDoc host email c of Removed d \<Rightarrow> d | _ \<Rightarrow> c)"

lemma doc_tokens_make [simp]: "\<not> nullish ts \<Longrightarrow> doc_tokens (make_doc ts) = ts"
  by (simp add: doc_tokens_def make_doc_def foreign_version_def obj_get_def or_empty_def)

lemma loadTokenDoc_tokens: "loadTokenDoc c = make_doc (doc_tokens c)"
  by (simp add: loadTokenDoc_def make_doc_def doc_tokens_def)

lemma readTokenDoc_tokens:
  "readTokenDoc c h e = (let v = js_get (js_get (doc_tokens c) h) e in if nullish v then JStr [] else v)"
  by (cases "js_get c ''tokens''") (auto simp: readTokenDoc_def doc_tokens_def or_empty_def obj_get_def)

lemma removeTokenDoc_tokens:
  "removeTokenDoc h e c =
     (let hostMap = js_get (doc_tokens c) h
      in if hostMap = JUndefined then Kept
         else if \<not> is_object hostMap then Removal_failed
         else if e \<notin> set (object_keys hostMap) then Kept
         else Removed (make_doc (if object_keys (del_prop e hostMap) = [] then del_prop h (doc_tokens c)
                                 else put_prop h (del_prop e hostMap) (doc_tokens c))))"
  by (auto simp: removeTokenDoc_def doc_tokens_def make_doc_def obj_get_def Let_def)

lemma writeTokenDoc_tokens:
  "writeTokenDoc h e b c =
     (let tokens = doc_tokens c; hostMap = or_empty (js_get tokens h)
      in if \<not> is_object hostMap \<or> \<not> is_object tokens then None
         else Some (make_doc (put_prop h (put_prop e (JStr b) hostMap) tokens)))"
  unfolding writeTokenDoc_def loadTokenDoc_tokens
  by (simp add: make_doc_def obj_get_def Let_def)

definition token_text :: "jsval \<Rightarrow> string" where
  "token_text v = (case str_of v of Some t \<Rightarrow> t | None \<Rightarrow> [])"

lemma token_text_simps [simp]: "token_text (JStr t) = t" "token_text JUndefined = []"
  by (simp_all add: token_text_def)

lemma token_at_tokens: "token_at c h e = token_text (js_get (js_get (doc_tokens c) h) e)"
  unfolding token_at_def readTokenDoc_tokens Let_def
  by (cases "js_get (js_get (doc_tokens c) h) e") (simp_all add: token_text_def)

lemma token_mapE:
  assumes "token_map ts"
  obtains m where "ts = JObj m" "distinct (map fst m)" "\<And>h. obj_get m h = JUndefined \<or> string_map (obj_get m h)"
proof (cases ts)
  case (JObj m)
  have "obj_get m h = JUndefined \<or> string_map (obj_get m h)" for h
    using assms JObj by (auto simp: obj_get_def list_all_iff split: option.split dest!: map_of_SomeD)
  then show ?thesis using assms JObj that [of m] by simp
qed (use assms in auto)

lemma string_mapE: "string_map v \<Longrightarrow> (\<And>hm. v = JObj hm \<Longrightarrow> string_map (JObj hm) \<Longrightarrow> thesis) \<Longrightarrow> thesis"
  by (cases v) auto

lemma string_map_put: "string_map (JObj hm) \<Longrightarrow> string_map (JObj (obj_set e (JStr b) hm))"
proof -
  have "list_all (\<lambda>v. str_of v \<noteq> None) (map snd hm) \<Longrightarrow> list_all (\<lambda>v. str_of v \<noteq> None) (map snd (obj_set e (JStr b) hm))"
    by (induction hm) auto
  then show "string_map (JObj hm) \<Longrightarrow> ?thesis" by (simp add: distinct_obj_set)
qed

lemma string_map_del: "string_map (JObj hm) \<Longrightarrow> string_map (JObj (filter (\<lambda>p. fst p \<noteq> e) hm))"
  by (auto simp: list_all_iff distinct_map_filter)

lemma token_map_put: "token_map (JObj m) \<Longrightarrow> string_map v \<Longrightarrow> token_map (JObj (obj_set h v m))"
  by (simp add: distinct_obj_set list_all_obj_set)

lemma token_map_del: "token_map (JObj m) \<Longrightarrow> token_map (JObj (filter (\<lambda>p. fst p \<noteq> h) m))"
  by (auto simp: list_all_iff distinct_map_filter)

lemma written_tokens:
  assumes "token_doc c"
  obtains m hm where "doc_tokens c = JObj m" "or_empty (obj_get m h) = JObj hm" "string_map (JObj hm)"
    "token_map (JObj m)" "writeTokenDoc h e b c = Some (make_doc (JObj (obj_set h (JObj (obj_set e (JStr b) hm)) m)))"
proof -
  obtain m where m: "doc_tokens c = JObj m" "\<And>h. obj_get m h = JUndefined \<or> string_map (obj_get m h)"
    using assms unfolding token_doc_def by (rule token_mapE) blast
  have "string_map (or_empty (obj_get m h))"
    using m(2) [of h] by (cases "obj_get m h") (auto simp: or_empty_def)
  then obtain hm where hm: "or_empty (obj_get m h) = JObj hm" "string_map (JObj hm)" by (rule string_mapE)
  then show ?thesis using that [of m hm] m assms by (simp add: token_doc_def writeTokenDoc_tokens Let_def)
qed

lemma removed_tokens:
  assumes "token_doc c"
  obtains (kept) m where "doc_tokens c = JObj m" "js_get (obj_get m h) e = JUndefined" "removeTokenDoc h e c = Kept"
  | (removed) m hm m' where "doc_tokens c = JObj m" "token_map (JObj m)" "obj_get m h = JObj hm" "string_map (JObj hm)"
      "removeTokenDoc h e c = Removed (make_doc (JObj m'))"
      "m' = (if filter (\<lambda>p. fst p \<noteq> e) hm = [] then filter (\<lambda>p. fst p \<noteq> h) m
             else obj_set h (JObj (filter (\<lambda>p. fst p \<noteq> e) hm)) m)"
proof -
  obtain m where m: "doc_tokens c = JObj m" "\<And>h. obj_get m h = JUndefined \<or> string_map (obj_get m h)"
    using assms unfolding token_doc_def by (rule token_mapE) blast
  have tm: "token_map (JObj m)" using assms m(1) by (simp add: token_doc_def)
  show ?thesis
  proof (cases "obj_get m h = JUndefined")
    case True
    then show ?thesis using kept [of m] m(1) by (simp add: removeTokenDoc_tokens)
  next
    case False
    then have "string_map (obj_get m h)" using m(2) by blast
    then obtain hm where hm: "obj_get m h = JObj hm" "string_map (JObj hm)" by (rule string_mapE)
    show ?thesis
    proof (cases "e \<in> fst ` set hm")
      case True
      then show ?thesis using removed [OF m(1) tm hm _ refl] m(1) hm by (simp add: removeTokenDoc_tokens)
    next
      case False
      then show ?thesis using kept [of m] m(1) hm by (simp add: removeTokenDoc_tokens get_absent)
    qed
  qed
qed

interpretation document_tokens: token_store token_at with_token without_token token_doc "(=)"
proof unfold_locales
  fix c h e b h' e'
  assume c: "token_doc c"
  obtain m hm where w: "doc_tokens c = JObj m" "or_empty (obj_get m h) = JObj hm" "string_map (JObj hm)"
    "token_map (JObj m)" "writeTokenDoc h e b c = Some (make_doc (JObj (obj_set h (JObj (obj_set e (JStr b) hm)) m)))"
    by (rule written_tokens [OF c])
  have old: "js_get (obj_get m h) j = obj_get hm j" for j
    using w(2) by (cases "obj_get m h") (auto simp: or_empty_def obj_get_def)
  show "token_doc (with_token h e b c)"
    unfolding token_doc_def with_token_def w option.case
    using token_map_put [OF w(4) string_map_put [OF w(3)]] by simp
  show "token_at (with_token h e b c) h e = b"
    by (simp add: with_token_def token_at_tokens w)
  show "(h', e') \<noteq> (h, e) \<Longrightarrow> token_at (with_token h e b c) h' e' = token_at c h' e'"
    by (auto simp: with_token_def token_at_tokens w old)
  show "token_doc (without_token h e c)" using c
  proof (cases rule: removed_tokens [where h = h and e = e])
    case (removed m hm m')
    then have "token_map (JObj m')"
      using token_map_put [OF _ string_map_del] token_map_del by (simp del: token_map.simps string_map.simps)
    then show ?thesis using removed by (simp add: token_doc_def without_token_def)
  qed (use c in \<open>simp add: without_token_def\<close>)
  show "token_at (without_token h e c) h e = []" using c
  proof (cases rule: removed_tokens [where h = h and e = e])
    case (kept m)
    then show ?thesis by (simp add: without_token_def token_at_tokens)
  next
    case (removed m hm m')
    then show ?thesis by (simp add: without_token_def token_at_tokens)
  qed
  show "token_at (without_token h e c) h' e' = token_at c h' e'" if other: "(h', e') \<noteq> (h, e)"
    using c
  proof (cases rule: removed_tokens [where h = h and e = e])
    case (removed m hm m')
    have "filter (\<lambda>p. fst p \<noteq> e) hm = [] \<Longrightarrow> j \<noteq> e \<Longrightarrow> obj_get hm j = JUndefined" for j
      using get_del [of e hm j] by (simp add: obj_get_def)
    then show ?thesis using removed other by (auto simp: without_token_def token_at_tokens)
  qed (simp add: without_token_def)
qed

section \<open>The file store refines the token document\<close>

lemma string_map_doc: "string_map v \<Longrightarrow> map_doc v"
proof (cases v)
  case (JObj m)
  assume "string_map v"
  moreover have "str_of x \<noteq> None \<Longrightarrow> map_doc x" for x by (cases x) (simp_all add: map_doc_def)
  ultimately show ?thesis using JObj by (auto simp: map_doc_obj list_all_iff)
qed auto

lemma make_doc_valid: "token_map ts \<Longrightarrow> valid_doc (make_doc ts)"
  by (cases ts) (auto simp: make_doc_def map_doc_obj list_all_iff string_map_doc DOC_VERSION_def map_doc_def [of "JNum x" for x])

lemma getTyped_loads:
  assumes "store_ok cd fs"
  obtains d fs' where "getTyped cd fs = (Inr d, fs')" "store_ok cd fs'" "store_doc cd fs' = store_doc cd fs"
    "doc_tokens d = doc_tokens (store_doc cd fs)"
proof -
  have ok: "\<not> fs_locked fs" "valid_doc (store_doc cd fs)" using assms by (auto simp: store_ok_def)
  obtain d where d: "loadYaml cd (seen_content fs) = Inr d" "js_truthy d \<Longrightarrow> d = store_doc cd fs"
    "\<not> js_truthy d \<Longrightarrow> d = JNull \<and> store_doc cd fs = JObj []" by (rule loaded_doc [OF ok(2)]) blast
  have "doc_tokens (JObj []) = JObj []" "doc_tokens JNull = JObj []"
    by (simp_all add: doc_tokens_def foreign_version_def or_empty_def obj_get_def)
  then have "doc_tokens d = doc_tokens (store_doc cd fs)" using d by (cases "js_truthy d") auto
  then show ?thesis
    using that [of d "load_file (fs\<lparr>fs_locked := True\<rparr>)\<lparr>fs_locked := False\<rparr>"] ok d(1) assms
    by (auto simp: getTyped_def withLock_def store_ok_def store_doc_def seen_content_def load_file_def split: option.splits)
qed

lemma setTyped_stores:
  assumes "codec_keeps_documents cd" "store_ok cd fs" "valid_doc d"
  shows "fst (setTyped cd d fs) = Inr ()" "store_ok cd (snd (setTyped cd d fs))" "store_doc cd (snd (setTyped cd d fs)) = d"
    "fs_file (snd (setTyped cd d fs)) \<noteq> None"
proof -
  have ok: "\<not> fs_locked fs" "fs_file fs = None \<longrightarrow> rawContent fs = None" using assms by (auto simp: store_ok_def)
  have eq: "setTyped cd d fs = (Inr (), (flush_file (setRawContent (c_dump cd d) (load_file (fs\<lparr>fs_locked := True\<rparr>))))\<lparr>fs_locked := False\<rparr>)"
    using ok(1) by (simp add: setTyped_def withLock_def flush_after_def)
  have held: "holds_text (c_dump cd d) (snd (setTyped cd d fs))" unfolding eq using flush_holds_text [OF ok(2)] by simp
  show "fst (setTyped cd d fs) = Inr ()" by (simp add: eq)
  show "store_ok cd (snd (setTyped cd d fs))" "store_doc cd (snd (setTyped cd d fs)) = d"
    using holds_text_ok [OF assms(1,3) held] by simp_all
  show "fs_file (snd (setTyped cd d fs)) \<noteq> None" using held by (simp add: holds_text_def)
qed

lemma store_ok_same_file:
  "store_ok cd fs \<Longrightarrow> fs_file fs \<noteq> None \<Longrightarrow> fs_file gs = fs_file fs \<Longrightarrow> \<not> fs_locked gs \<Longrightarrow>
   store_ok cd gs \<and> store_doc cd gs = store_doc cd fs"
  by (auto simp: store_ok_def store_doc_def seen_content_def split: option.splits)

lemma tokens_agree:
  assumes "doc_tokens d = doc_tokens c"
  shows "token_doc d = token_doc c" and "readTokenDoc d h e = readTokenDoc c h e"
    and "writeTokenDoc h e b d = writeTokenDoc h e b c" and "removeTokenDoc h e d = removeTokenDoc h e c"
  using assms by (simp_all add: token_doc_def readTokenDoc_tokens writeTokenDoc_tokens removeTokenDoc_tokens Let_def)

lemma writeTokenDoc_valid: "token_doc c \<Longrightarrow> writeTokenDoc h e b c = Some (with_token h e b c) \<and> valid_doc (with_token h e b c)"
proof -
  assume c: "token_doc c"
  then obtain m hm where w: "string_map (JObj hm)" "token_map (JObj m)"
    "writeTokenDoc h e b c = Some (make_doc (JObj (obj_set h (JObj (obj_set e (JStr b) hm)) m)))"
    by (rule written_tokens)
  then show ?thesis
    using make_doc_valid [OF token_map_put [OF w(2) string_map_put [OF w(1)]]] by (simp add: with_token_def)
qed

definition tokenWrite ::
  "codec \<Rightarrow> (string \<times> string, string) store_write \<Rightarrow> file_store \<Rightarrow> (store_error + unit) \<times> file_store" where
  "tokenWrite cd w = (case w of SetKey (h, e) b \<Rightarrow> fileWrite cd h e b | UnsetKey (h, e) \<Rightarrow> fileRemove cd h e)"

fun tokenWrites ::
  "codec \<Rightarrow> (string \<times> string, string) store_write list \<Rightarrow> file_store \<Rightarrow> store_error + file_store" where
  "tokenWrites cd [] fs = Inr fs"
| "tokenWrites cd (w # ws) fs =
     (case tokenWrite cd w fs of (Inl err, _) \<Rightarrow> Inl err | (Inr _, fs') \<Rightarrow> tokenWrites cd ws fs')"

definition token_store_ok :: "codec \<Rightarrow> file_store \<Rightarrow> bool" where
  "token_store_ok cd fs = (store_ok cd fs \<and> token_doc (store_doc cd fs))"

lemma fileWrite_refines:
  assumes "codec_keeps_documents cd" "token_store_ok cd fs"
  obtains fs' where "fileWrite cd h e b fs = (Inr (), fs')" "token_store_ok cd fs'"
    "store_doc cd fs' = with_token h e b (store_doc cd fs)"
proof -
  have ok: "store_ok cd fs" "token_doc (store_doc cd fs)" using assms(2) by (simp_all add: token_store_ok_def)
  obtain d fs1 where d: "getTyped cd fs = (Inr d, fs1)" "store_ok cd fs1" "store_doc cd fs1 = store_doc cd fs"
    "doc_tokens d = doc_tokens (store_doc cd fs)" by (rule getTyped_loads [OF ok(1)])
  have w: "writeTokenDoc h e b d = Some (with_token h e b (store_doc cd fs))"
    "valid_doc (with_token h e b (store_doc cd fs))"
    using writeTokenDoc_valid [OF ok(2)] tokens_agree(3) [OF d(4)] by simp_all
  show ?thesis
    using that [of "snd (setTyped cd (with_token h e b (store_doc cd fs)) fs1)"] d(1) w(1)
      setTyped_stores [OF assms(1) d(2) w(2)] document_tokens.good_write [OF ok(2)]
    by (simp add: fileWrite_def token_store_ok_def prod_eq_iff)
qed

lemma fileRemove_refines:
  assumes "codec_keeps_documents cd" "token_store_ok cd fs"
  obtains fs' where "fileRemove cd h e fs = (Inr (), fs')" "token_store_ok cd fs'"
    "store_doc cd fs' = without_token h e (store_doc cd fs)"
proof -
  have ok: "store_ok cd fs" "token_doc (store_doc cd fs)" using assms(2) by (simp_all add: token_store_ok_def)
  obtain d fs1 where d: "getTyped cd fs = (Inr d, fs1)" "store_ok cd fs1" "store_doc cd fs1 = store_doc cd fs"
    "doc_tokens d = doc_tokens (store_doc cd fs)" by (rule getTyped_loads [OF ok(1)])
  note agree = tokens_agree(4) [OF d(4), of h e]
  show ?thesis using ok(2)
  proof (cases rule: removed_tokens [where h = h and e = e])
    case (kept m)
    then show ?thesis using that [of fs1] d ok agree by (simp add: fileRemove_def token_store_ok_def without_token_def)
  next
    case (removed m hm m')
    then have "token_map (JObj m')"
      using token_map_put [OF _ string_map_del] token_map_del by (simp del: token_map.simps string_map.simps)
    then have "valid_doc (make_doc (JObj m'))" by (rule make_doc_valid)
    moreover have "without_token h e (store_doc cd fs) = make_doc (JObj m')"
      using removed by (simp add: without_token_def)
    ultimately show ?thesis
      using that [of "snd (setTyped cd (make_doc (JObj m')) fs1)"] d(1) removed(5) agree
        setTyped_stores [OF assms(1) d(2)] document_tokens.good_remove [OF ok(2), of h e]
      by (simp add: fileRemove_def token_store_ok_def prod_eq_iff)
  qed
qed

lemma fileRead_reads:
  assumes "token_store_ok cd fs"
  shows "fst (fileRead cd h e fs) = Inr (JStr (token_at (store_doc cd fs) h e))"
proof -
  have ok: "store_ok cd fs" "token_doc (store_doc cd fs)" using assms by (simp_all add: token_store_ok_def)
  obtain d fs1 where d: "getTyped cd fs = (Inr d, fs1)" "doc_tokens d = doc_tokens (store_doc cd fs)"
    by (rule getTyped_loads [OF ok(1)]) blast
  obtain m where m: "doc_tokens (store_doc cd fs) = JObj m" "\<And>h. obj_get m h = JUndefined \<or> string_map (obj_get m h)"
    using ok(2) unfolding token_doc_def by (rule token_mapE) blast
  have "js_get (obj_get m h) e = JUndefined \<or> str_of (js_get (obj_get m h) e) \<noteq> None"
  proof (cases "obj_get m h = JUndefined")
    case False
    then have "string_map (obj_get m h)" using m(2) by blast
    then obtain hm where "obj_get m h = JObj hm" "string_map (JObj hm)" by (rule string_mapE)
    then show ?thesis by (auto simp: obj_get_def list_all_iff split: option.split dest!: map_of_SomeD)
  qed simp
  then have "readTokenDoc (store_doc cd fs) h e = JStr (token_at (store_doc cd fs) h e)"
    unfolding token_at_def readTokenDoc_tokens m(1)
    by (cases "js_get (obj_get m h) e") simp_all
  then show ?thesis using d(1) tokens_agree(2) [OF d(2)] by (simp add: fileRead_def)
qed

section \<open>Sequences of logins and logouts\<close>

lemma tokenWrite_refines:
  assumes "codec_keeps_documents cd" "token_store_ok cd fs"
  obtains fs' where "tokenWrite cd w fs = (Inr (), fs')" "token_store_ok cd fs'"
    "store_doc cd fs' = document_tokens.accounts.store_write w (store_doc cd fs)"
proof (cases w)
  case (SetKey k b)
  then show ?thesis using that by (cases k) (auto simp: tokenWrite_def intro: fileWrite_refines [OF assms])
next
  case (UnsetKey k)
  then show ?thesis using that by (cases k) (auto simp: tokenWrite_def intro: fileRemove_refines [OF assms])
qed

lemma tokenWrites_refine:
  "codec_keeps_documents cd \<Longrightarrow> token_store_ok cd fs \<Longrightarrow>
   \<exists>fs'. tokenWrites cd ws fs = Inr fs' \<and> token_store_ok cd fs' \<and>
     store_doc cd fs' = fold document_tokens.accounts.store_write ws (store_doc cd fs)"
proof (induction ws arbitrary: fs)
  case (Cons w ws)
  obtain fs1 where w: "tokenWrite cd w fs = (Inr (), fs1)" "token_store_ok cd fs1"
    "store_doc cd fs1 = document_tokens.accounts.store_write w (store_doc cd fs)"
    by (rule tokenWrite_refines [OF Cons.prems])
  then show ?case using Cons.IH [OF Cons.prems(1) w(2)] by simp
qed simp

text \<open>C19: A sequence of \<^verbatim>\<open>write\<close> and \<^verbatim>\<open>remove\<close> calls on a \<^verbatim>\<open>FileTokenStore\<close> for any accounts all succeed, and a
  later \<^verbatim>\<open>read\<close> returns the bearer token of the last \<^verbatim>\<open>write\<close> for that host and e-mail address, the empty string when
  the last call removed it, and else what the file held: other accounts, dots in names, emptied hosts and a file of an
  unknown version never disturb it. It supposes that the YAML package reads back what it writes and that no other
  process touches the file.
\<close>

theorem file_tokens_last_write_wins:
  assumes "codec_keeps_documents cd" and "token_store_ok cd fs"
    and "list_all (\<lambda>w. case w of SetKey _ b \<Rightarrow> b \<noteq> [] | UnsetKey _ \<Rightarrow> True) ws"
  shows "\<exists>fs'. tokenWrites cd ws fs = Inr fs' \<and> token_store_ok cd fs' \<and>
    fst (fileRead cd h e fs') = Inr (JStr (case last_write (h, e) ws of
        None \<Rightarrow> token_at (store_doc cd fs) h e | Some None \<Rightarrow> [] | Some (Some b) \<Rightarrow> b))"
proof -
  have writable: "list_all (document_tokens.accounts.writable (h, e)) ws"
    using assms(3) by (auto simp: document_tokens.accounts.writable_def list_all_iff split: store_write.splits)
  have good: "token_doc (store_doc cd fs)" using assms(2) by (simp add: token_store_ok_def)
  obtain fs' where fs': "tokenWrites cd ws fs = Inr fs'" "token_store_ok cd fs'"
    "store_doc cd fs' = fold document_tokens.accounts.store_write ws (store_doc cd fs)"
    using tokenWrites_refine [OF assms(1,2)] by blast
  have "token_at (store_doc cd fs') h e = (case last_write (h, e) ws of
      None \<Rightarrow> token_at (store_doc cd fs) h e | Some None \<Rightarrow> [] | Some (Some b) \<Rightarrow> b)"
    using document_tokens.accounts.last_write_wins [OF good writable, of "[]"] fs'(3) by (simp split: if_splits option.splits)
  then show ?thesis using fs' fileRead_reads [OF fs'(2)] by simp
qed

lemma new_token_store_ok: "token_store_ok cd (newStore None)"
  using new_store_ok by (simp add: token_store_ok_def store_doc_def seen_content_def newStore_def token_doc_def
      doc_tokens_def foreign_version_def obj_get_def or_empty_def)

theorem file_tokens_last_write_wins_witness:
  "\<exists>fs'. tokenWrites json_codec [SetKey (''a.b'', ''c'') ''t1'', SetKey (''a'', ''b.c'') ''t2''] (newStore None) = Inr fs' \<and>
    fst (fileRead json_codec ''a.b'' ''c'' fs') = Inr (JStr ''t1'')"
  using file_tokens_last_write_wins [OF json_codec_keeps new_token_store_ok,
      of "[SetKey (''a.b'', ''c'') ''t1'', SetKey (''a'', ''b.c'') ''t2'']" "''a.b''" "''c''"] by auto

text \<open>
  The keyring names an entry by joining host and e-mail address with a dot, which both may contain: for any host
  \<open>h\<close>, word \<open>w\<close> and address \<open>e\<close>, the accounts \<open>(h.w, e)\<close> and \<open>(h, w.e)\<close> share one entry. A login to the second
  overwrites the token of the first, which then reads the bearer of the other account, and a logout removes both. The
  file store keeps the two apart.
\<close>

theorem keychain_accounts_share_entry:
  assumes "working_keychain kc"
  shows "keychainRead (snd (keychainWrite repr h (w @ ''.'' @ e) b kc)) (h @ ''.'' @ w) e = Inr b \<and>
    keychainRead (keychainRemove h (w @ ''.'' @ e) kc) (h @ ''.'' @ w) e = Inr [] \<and>
    token_at (with_token h (w @ ''.'' @ e) b (make_doc (JObj []))) (h @ ''.'' @ w) e = []"
proof (intro conjI)
  have "(h @ ''.'' @ w, e) \<noteq> (h, w @ ''.'' @ e)" by simp
  then have "token_at (with_token h (w @ ''.'' @ e) b (make_doc (JObj []))) (h @ ''.'' @ w) e =
      token_at (make_doc (JObj [])) (h @ ''.'' @ w) e"
    by (rule document_tokens.read_write_other [rotated]) (simp add: token_doc_def)
  then show "token_at (with_token h (w @ ''.'' @ e) b (make_doc (JObj []))) (h @ ''.'' @ w) e = []"
    by (simp add: token_at_tokens obj_get_def)
qed (use assms in \<open>simp_all add: working_keychain_def keychainRead_def keychainWrite_def keychainRemove_def entryName_def\<close>)

theorem keychain_accounts_share_entry_witness:
  "keychainRead (snd (keychainWrite (\<lambda>_. []) ''dify'' ''ai.me'' ''B''
     \<lparr>kc_entries = Map.empty, kc_readable = True, kc_writable = True, kc_deletable = True\<rparr>)) ''dify.ai'' ''me'' = Inr ''B''"
  using keychain_accounts_share_entry [of "\<lparr>kc_entries = Map.empty, kc_readable = True, kc_writable = True, kc_deletable = True\<rparr>"
      "\<lambda>_. []" "''dify''" "''ai''" "''me''" "''B''"]
  by (simp add: working_keychain_def)

section \<open>Two processes\<close>

text \<open>C20: The lock of the token file covers the reading and the writing of one \<^verbatim>\<open>write\<close> separately. When two processes
  log in to different accounts and the second reads the file before the first has written it, both succeed and the
  file holds the second token only: the first account reads what it held before.
\<close>

theorem concurrent_logins_lose_a_token:
  assumes "codec_keeps_documents cd" and "token_store_ok cd first" and "token_store_ok cd second"
    and "fs_file first = fs_file second" and "(h, e) \<noteq> (h', e')"
    and "getTyped cd first = (Inr d, first1)" and "getTyped cd second = (Inr d', second1)"
    and "writeTokenDoc h e b d = Some w" and "writeTokenDoc h' e' b' d' = Some w'"
    and "setTyped cd w first1 = (r, first2)" and "setTyped cd w' (second1\<lparr>fs_file := fs_file first2\<rparr>) = (r', second2)"
  shows "r = Inr () \<and> r' = Inr () \<and>
    fst (fileRead cd h' e' second2) = Inr (JStr b') \<and>
    fst (fileRead cd h e second2) = Inr (JStr (token_at (store_doc cd first) h e))"
proof -
  have ok: "store_ok cd first" "store_ok cd second" "token_doc (store_doc cd first)" "token_doc (store_doc cd second)"
    using assms(2,3) by (simp_all add: token_store_ok_def)
  have same: "store_doc cd second = store_doc cd first"
    using ok(1,2) assms(4) by (auto simp: store_ok_def store_doc_def seen_content_def split: option.splits)
  have one: "store_ok cd first1" "doc_tokens d = doc_tokens (store_doc cd first)"
    using getTyped_loads [OF ok(1)] assms(6) by (metis Pair_inject sum.inject(2))+
  have two: "store_ok cd second1" "doc_tokens d' = doc_tokens (store_doc cd first)"
    using getTyped_loads [OF ok(2)] assms(7) same by (metis Pair_inject sum.inject(2))+
  have w: "w = with_token h e b (store_doc cd first)" "valid_doc w"
    using writeTokenDoc_valid [OF ok(3)] assms(8) tokens_agree(3) [OF one(2)] by auto
  have w': "w' = with_token h' e' b' (store_doc cd first)" "valid_doc w'"
    using writeTokenDoc_valid [OF ok(3)] assms(9) tokens_agree(3) [OF two(2)] by auto
  have first2: "r = Inr ()" "store_ok cd first2" "fs_file first2 \<noteq> None"
    using setTyped_stores [OF assms(1) one(1) w(2)] assms(10) by simp_all
  have "\<not> fs_locked (second1\<lparr>fs_file := fs_file first2\<rparr>)" using two(1) by (simp add: store_ok_def)
  then have "store_ok cd (second1\<lparr>fs_file := fs_file first2\<rparr>)"
    using store_ok_same_file [OF first2(2,3)] by simp
  then have second2: "r' = Inr ()" "store_ok cd second2" "store_doc cd second2 = w'"
    using setTyped_stores [OF assms(1) _ w'(2)] assms(11) by (metis fst_conv snd_conv)+
  then have "token_store_ok cd second2"
    using w'(1) document_tokens.good_write [OF ok(3)] by (simp add: token_store_ok_def)
  then show ?thesis
    using fileRead_reads [of cd second2] second2 first2(1) w'(1) assms(5) document_tokens.read_write [OF ok(3)]
      document_tokens.read_write_other [OF ok(3)] by simp
qed

theorem concurrent_logins_lose_a_token_witness:
  "fst (fileRead json_codec ''a'' ''x'' (snd (setTyped json_codec
      (make_doc (JObj [(''a'', JObj [(''y'', JStr ''2'')])]))
      ((newStore None)\<lparr>fs_file := fs_file (snd (setTyped json_codec (make_doc (JObj [(''a'', JObj [(''x'', JStr ''1'')])])) (newStore None)))\<rparr>)))) =
    Inr (JStr [])"
proof -
  let ?n = "newStore None"
  have g: "getTyped json_codec ?n = (Inr JNull, ?n)"
    by (simp add: getTyped_def withLock_def newStore_def load_file_def loadYaml_def)
  have w: "writeTokenDoc ''a'' k t JNull = Some (make_doc (JObj [(''a'', JObj [(k, JStr t)])]))" for k t
    by (simp add: writeTokenDoc_tokens doc_tokens_def or_empty_def obj_get_def)
  have "token_at (store_doc json_codec ?n) ''a'' ''x'' = []"
    by (simp add: token_at_tokens store_doc_def seen_content_def newStore_def doc_tokens_def foreign_version_def obj_get_def or_empty_def)
  then show ?thesis
    using concurrent_logins_lose_a_token [OF json_codec_keeps new_token_store_ok new_token_store_ok refl _ g g w w
        surjective_pairing surjective_pairing, of "''x''" "''y''" "''1''" "''2''"] by simp
qed

section \<open>The probe\<close>

text \<open>
  The probe at login chooses the keyring exactly when it can be written and read, unless it is switched off, and
  leaves every entry of other accounts as it was; with a keyring that deletes, nothing of the probe remains.
\<close>

theorem probe_selects_working_keyring:
  "detectTokenStore repr off kc = (mode, kc') \<Longrightarrow>
   (mode = Keychain_mode \<longleftrightarrow> \<not> off \<and> kc_writable kc \<and> kc_readable kc) \<and>
   (\<forall>n. n \<noteq> entryName PROBE_HOST PROBE_EMAIL \<longrightarrow> kc_entries kc' n = kc_entries kc n) \<and>
   (kc_deletable kc \<and> kc_entries kc (entryName PROBE_HOST PROBE_EMAIL) = None \<longrightarrow> kc' = kc)"
  by (auto simp: detectTokenStore_def keychainWrite_def keychainRead_def keychainRemove_def Let_def fun_upd_idem
      split: if_splits)

theorem probe_selects_working_keyring_witness:
  "fst (detectTokenStore (\<lambda>_. []) False \<lparr>kc_entries = Map.empty, kc_readable = False, kc_writable = True, kc_deletable = True\<rparr>) = File_mode"
  using probe_selects_working_keyring [OF surjective_pairing,
      of "\<lambda>_. []" False "\<lparr>kc_entries = Map.empty, kc_readable = False, kc_writable = True, kc_deletable = True\<rparr>"]
  by (cases "fst (detectTokenStore (\<lambda>_. []) False \<lparr>kc_entries = Map.empty, kc_readable = False, kc_writable = True, kc_deletable = True\<rparr>)") auto

end
