(* ===== verification/Chat_Tree.thy ===== *)
theory Chat_Tree
  imports Js_Prelude
begin

text \<open>
  Conversations with branches, \<^verbatim>\<open>web/app/components/base/chat/utils.ts\<close> and their use in the conversation log,
  \<^verbatim>\<open>web/app/components/app/log/list-utils.ts\<close>. \<^verbatim>\<open>buildChatItemTree\<close> shares and mutates node objects, so it is
  modelled on a heap of nodes with references; the trees it builds are read back as values (\<open>to_tree\<close>), on which
  \<^verbatim>\<open>getThreadMessages\<close> walks. Of the fields of a message those are kept that these functions read or change.
\<close>

section \<open>Messages\<close>

record log_annotation =
  la_content :: string
  la_account :: "(string \<times> string \<times> string) option"

record annotation =
  an_id :: "string option"
  an_authorName :: "string option"
  an_log :: "log_annotation option"

record chat_item =
  ci_id :: string
  ci_content :: string
  ci_isAnswer :: bool
  ci_isOpeningStatement :: bool
  ci_parentMessageId :: "string option"
  ci_annotation :: "annotation option"

definition UUID_NIL :: string where
  "UUID_NIL = ''00000000-0000-0000-0000-000000000000''"

definition isValidGeneratedAnswer :: "chat_item option \<Rightarrow> bool" where
  "isValidGeneratedAnswer x =
     (case x of
        None \<Rightarrow> False
      | Some it \<Rightarrow> ci_isAnswer it \<and> \<not> startsWith (ci_id it) ''answer-placeholder-'' \<and> \<not> ci_isOpeningStatement it)"

text \<open>The loop runs from the end of the list.\<close>

fun lastAnswerFrom :: "chat_item list \<Rightarrow> nat \<Rightarrow> chat_item option" where
  "lastAnswerFrom chatList 0 = None"
| "lastAnswerFrom chatList (Suc i) =
     (if isValidGeneratedAnswer (Some (chatList ! i)) then Some (chatList ! i) else lastAnswerFrom chatList i)"

definition getLastAnswer :: "chat_item list \<Rightarrow> chat_item option" where
  "getLastAnswer chatList = lastAnswerFrom chatList (length chatList)"

section \<open>Building the tree\<close>

record chat_node =
  cn_item :: chat_item
  cn_kids :: "nat list"
  cn_siblingIndex :: "nat option"

record chat_build =
  cb_heap :: "chat_node list"
  cb_map :: "string \<rightharpoonup> nat"
  cb_roots :: "nat list"
  cb_count :: "string \<rightharpoonup> nat"
  cb_legacy :: "nat option"

datatype chat_error = ChatTypeError

definition emptyBuild :: chat_build where
  "emptyBuild = \<lparr>cb_heap = [], cb_map = Map.empty, cb_roots = [], cb_count = Map.empty, cb_legacy = None\<rparr>"

definition push_kid :: "nat \<Rightarrow> nat \<Rightarrow> chat_node list \<Rightarrow> chat_node list" where
  "push_kid r k h = h[r := (h ! r)\<lparr>cn_kids := cn_kids (h ! r) @ [k]\<rparr>]"

definition countOf :: "(string \<rightharpoonup> nat) \<Rightarrow> string \<Rightarrow> nat" where
  "countOf cnt k = (case cnt k of None \<Rightarrow> 0 | Some n \<Rightarrow> n)"

definition isLegacy :: "chat_item \<Rightarrow> bool" where
  "isLegacy question = (ci_parentMessageId question = Some UUID_NIL)"

definition parentOf :: "chat_build \<Rightarrow> chat_item \<Rightarrow> string" where
  "parentOf st question =
     (if isLegacy question then (case cb_legacy st of None \<Rightarrow> [] | Some r \<Rightarrow> ci_id (cn_item (cb_heap st ! r)))
      else (case ci_parentMessageId question of None \<Rightarrow> [] | Some p \<Rightarrow> p))"

text \<open>One round of the loop: the nodes of a question and its answer, and the place of the question.\<close>

definition addNodes :: "chat_item \<Rightarrow> chat_item \<Rightarrow> chat_build \<Rightarrow> chat_build" where
  "addNodes question answer st =
     (let pid = parentOf st question;
          count1 = (cb_count st)(pid \<mapsto> countOf (cb_count st) pid + 1);
          q = length (cb_heap st);
          count2 = count1(ci_id question \<mapsto> 1);
          questionNode = \<lparr>cn_item = question, cn_kids = [q + 1], cn_siblingIndex = None\<rparr>;
          answerNode = \<lparr>cn_item = answer, cn_kids = [],
            cn_siblingIndex = Some (if isLegacy question then 0 else countOf count2 pid - 1)\<rparr>
      in st\<lparr>cb_heap := cb_heap st @ [questionNode, answerNode],
            cb_map := (cb_map st)(ci_id question \<mapsto> q, ci_id answer \<mapsto> q + 1),
            cb_count := count2\<rparr>)"

definition attachQuestion :: "string list \<Rightarrow> chat_item \<Rightarrow> string \<Rightarrow> nat \<Rightarrow> chat_build \<Rightarrow> chat_error + chat_build" where
  "attachQuestion ids question pid q st =
     (if isLegacy question
      then Inr ((case cb_legacy st of
                   None \<Rightarrow> st\<lparr>cb_roots := cb_roots st @ [q]\<rparr>
                 | Some r \<Rightarrow> st\<lparr>cb_heap := push_kid r q (cb_heap st)\<rparr>)\<lparr>cb_legacy := Some (q + 1)\<rparr>)
      else if pid = [] \<or> pid \<notin> set ids then Inr (st\<lparr>cb_roots := cb_roots st @ [q]\<rparr>)
      else (case cb_map st pid of
              None \<Rightarrow> Inl ChatTypeError
            | Some r \<Rightarrow> Inr (st\<lparr>cb_heap := push_kid r q (cb_heap st)\<rparr>)))"

definition addPair :: "string list \<Rightarrow> chat_item \<Rightarrow> chat_item \<Rightarrow> chat_build \<Rightarrow> chat_error + chat_build" where
  "addPair ids question answer st =
     attachQuestion ids question (parentOf st question) (length (cb_heap st)) (addNodes question answer st)"

text \<open>A question without an answer: \<^verbatim>\<open>answer.id\<close> of \<^verbatim>\<open>undefined\<close>.\<close>

fun buildPairs :: "string list \<Rightarrow> chat_item list \<Rightarrow> chat_build \<Rightarrow> chat_error + chat_build" where
  "buildPairs ids [] st = Inr st"
| "buildPairs ids [question] st = Inl ChatTypeError"
| "buildPairs ids (question # answer # rest) st =
     (case addPair ids question answer st of Inl e \<Rightarrow> Inl e | Inr st' \<Rightarrow> buildPairs ids rest st')"

definition buildHeap :: "chat_item list \<Rightarrow> chat_error + chat_build" where
  "buildHeap allMessages = buildPairs (map ci_id allMessages) allMessages emptyBuild"

section \<open>Trees as values\<close>

datatype chat_tree = ChatNode (tree_item: chat_item) (tree_sibling: "nat option") (tree_kids: "chat_tree list")

text \<open>The object at a reference with all it refers to. In the heap of a list in order, references point to later nodes
  (proved with the laws), so the guard, which makes the function total, cuts nothing; it leaves out the cycle that a
  question makes which names itself or its own answer as its parent.\<close>

function to_tree :: "chat_node list \<Rightarrow> nat \<Rightarrow> chat_tree" where
  "to_tree h r =
     ChatNode (cn_item (h ! r)) (cn_siblingIndex (h ! r))
       (map (to_tree h) (filter (\<lambda>k. r < k \<and> k < length h) (cn_kids (h ! r))))"
  by pat_completeness auto
termination by (relation "measure (\<lambda>(h, r). length h - r)") auto

definition buildChatItemTree :: "chat_item list \<Rightarrow> chat_error + chat_tree list" where
  "buildChatItemTree allMessages =
     (case buildHeap allMessages of
        Inl e \<Rightarrow> Inl e
      | Inr st \<Rightarrow> Inr (map (to_tree (cb_heap st)) (cb_roots st)))"

section \<open>The thread of a message\<close>

record thread_item =
  ti_node :: chat_tree
  ti_siblingCount :: "nat option"
  ti_prevSibling :: "string option"
  ti_nextSibling :: "string option"

definition plain_item :: "chat_tree \<Rightarrow> thread_item" where
  "plain_item n = \<lparr>ti_node = n, ti_siblingCount = None, ti_prevSibling = None, ti_nextSibling = None\<rparr>"

definition chat_id :: "chat_tree \<Rightarrow> string" where
  "chat_id n = ci_id (tree_item n)"

definition is_answer :: "chat_tree \<Rightarrow> bool" where
  "is_answer n = ci_isAnswer (tree_item n)"

text \<open>The search keeps a stack of nodes with their paths; without a target the last leaf of the last tree is the target.\<close>

definition isTarget :: "string option \<Rightarrow> chat_tree \<Rightarrow> bool \<Rightarrow> bool" where
  "isTarget target node lastOne =
     (target = Some (chat_id node) \<or> (target = None \<or> target = Some []) \<and> tree_kids node = [] \<and> lastOne)"

function findTarget :: "string option \<Rightarrow> (chat_tree \<times> chat_tree list) list \<Rightarrow> chat_tree list option" where
  "findTarget target [] = None"
| "findTarget target ((node, path) # stack) =
     (if isTarget target node (stack = []) then Some path
      else findTarget target (map (\<lambda>c. (c, path @ [c])) (tree_kids node) @ stack))"
  by pat_completeness auto

text \<open>The id of the first child of the \<open>i\<close>-th element, if it is there. Below a parent answer the element must have a
  child, otherwise \<^verbatim>\<open>children?.[0]!.id\<close> reads a property of \<^verbatim>\<open>undefined\<close>.\<close>

definition firstKidId :: "chat_tree \<Rightarrow> string option" where
  "firstKidId n = (case tree_kids n of [] \<Rightarrow> None | c # _ \<Rightarrow> Some (chat_id c))"

definition rootNeighbour :: "chat_tree list \<Rightarrow> int option \<Rightarrow> string option" where
  "rootNeighbour ts i =
     (case i of None \<Rightarrow> None | Some j \<Rightarrow> if 0 \<le> j \<and> j < int (length ts) then firstKidId (ts ! nat j) else None)"

definition kidNeighbour :: "chat_tree list \<Rightarrow> int option \<Rightarrow> chat_error + string option" where
  "kidNeighbour ts i =
     (case i of
        None \<Rightarrow> Inr None
      | Some j \<Rightarrow>
          if 0 \<le> j \<and> j < int (length ts)
          then (case firstKidId (ts ! nat j) of None \<Rightarrow> Inl ChatTypeError | Some s \<Rightarrow> Inr (Some s))
          else Inr None)"

definition showPathItem :: "chat_tree list \<Rightarrow> chat_tree list \<Rightarrow> nat \<Rightarrow> chat_error + thread_item" where
  "showPathItem tree path index =
     (let item = path ! index; i = map_option int (tree_sibling item)
      in if \<not> is_answer item then Inr (plain_item item)
         else if index < 2
         then Inr \<lparr>ti_node = item, ti_siblingCount = Some (length tree),
                   ti_prevSibling = rootNeighbour tree (map_option (\<lambda>j. j - 1) i),
                   ti_nextSibling = rootNeighbour tree (map_option (\<lambda>j. j + 1) i)\<rparr>
         else (let siblings = tree_kids (path ! (index - 2))
               in case kidNeighbour siblings (map_option (\<lambda>j. j - 1) i) of
                    Inl e \<Rightarrow> Inl e
                  | Inr prev \<Rightarrow>
                      (case kidNeighbour siblings (map_option (\<lambda>j. j + 1) i) of
                         Inl e \<Rightarrow> Inl e
                       | Inr nxt \<Rightarrow>
                           Inr \<lparr>ti_node = item, ti_siblingCount = Some (length siblings),
                                ti_prevSibling = prev, ti_nextSibling = nxt\<rparr>)))"

fun showItems :: "chat_tree list \<Rightarrow> chat_tree list \<Rightarrow> nat list \<Rightarrow> chat_error + thread_item list" where
  "showItems tree path [] = Inr []"
| "showItems tree path (i # is') =
     (case showPathItem tree path i of
        Inl e \<Rightarrow> Inl e
      | Inr x \<Rightarrow> (case showItems tree path is' of Inl e \<Rightarrow> Inl e | Inr xs \<Rightarrow> Inr (x # xs)))"

definition showPath :: "chat_tree list \<Rightarrow> chat_tree list \<Rightarrow> chat_error + thread_item list" where
  "showPath tree path = showItems tree path [0..<length path]"

text \<open>\<^verbatim>\<open>xs.at(-2)\<close>\<close>

definition secondLast :: "'a list \<Rightarrow> 'a option" where
  "secondLast xs = (if length xs < 2 then None else Some (xs ! (length xs - 2)))"

definition showLastKid :: "thread_item list \<Rightarrow> chat_tree \<Rightarrow> thread_item" where
  "showLastKid ret lastChild =
     (if \<not> is_answer lastChild then plain_item lastChild
      else (let siblings = map_option (\<lambda>p. tree_kids (ti_node p)) (secondLast ret)
            in \<lparr>ti_node = lastChild, ti_siblingCount = map_option length siblings,
                ti_prevSibling = Option.bind (Option.bind siblings secondLast) firstKidId,
                ti_nextSibling = None\<rparr>))"

text \<open>Below the target every round of the loop pops the last child of the node before.\<close>

function appendDescendants :: "chat_tree \<Rightarrow> thread_item list \<Rightarrow> thread_item list" where
  "appendDescendants node ret =
     (if tree_kids node = [] then ret
      else appendDescendants (last (tree_kids node)) (ret @ [showLastKid ret (last (tree_kids node))]))"
  by pat_completeness auto

definition getThreadMessages :: "chat_tree list \<Rightarrow> string option \<Rightarrow> chat_error + thread_item list" where
  "getThreadMessages tree targetMessageId =
     (case findTarget targetMessageId (map (\<lambda>n. (n, [n])) tree) of
        None \<Rightarrow> Inr []
      | Some path \<Rightarrow>
          (case showPath tree path of Inl e \<Rightarrow> Inl e | Inr ret \<Rightarrow> Inr (appendDescendants (last path) ret)))"

lemma kid_smaller: "c \<in> set (tree_kids n) \<Longrightarrow> size c < size n"
  by (cases n) (auto dest: size_list_estimation' [where f = size] intro: le_imp_less_Suc)

termination appendDescendants
  by (relation "measure (\<lambda>(n, _). size n)") (auto intro: kid_smaller)

declare appendDescendants.simps [simp del] to_tree.simps [simp del]

termination findTarget
proof (relation "measure (\<lambda>(_, stack). sum_list (map (\<lambda>p. size (fst p)) stack))", goal_cases)
  case (2 target node path stack)
  have "sum_list (map size (tree_kids node)) < size node"
    by (cases node) (simp add: size_list_conv_sum_list)
  then show ?case by (simp add: comp_def)
qed simp

end
