(* ===== verification/Chat_Laws.thy ===== *)
theory Chat_Laws
  imports Chat_Tree Ref_Forest
begin

text \<open>
  Laws of conversation trees: the invariant of the loop of \<^verbatim>\<open>buildChatItemTree\<close>, from which every message stands in the
  tree exactly once and every answer knows its place among its siblings, and the threads that
  \<^verbatim>\<open>getThreadMessages\<close> cuts out of a tree.
\<close>

section \<open>The loop\<close>

text \<open>What the comment of the function asks for: pairs of a question and its answer, sorted so that the parent of a
  question stands before it unless it has not been fetched.\<close>

definition parent_before :: "chat_item list \<Rightarrow> nat \<Rightarrow> bool" where
  "parent_before ms k =
     (case ci_parentMessageId (ms ! k) of
        None \<Rightarrow> True
      | Some p \<Rightarrow> p = UUID_NIL \<or> p = [] \<or> p \<notin> set (map ci_id ms) \<or> p \<in> set (map ci_id (take k ms)))"

definition chat_log_ok :: "chat_item list \<Rightarrow> bool" where
  "chat_log_ok ms =
     (even (length ms) \<and> distinct (map ci_id ms) \<and> [] \<notin> set (map ci_id ms) \<and>
      (\<forall>k<length ms. even k \<longrightarrow> parent_before ms k))"

abbreviation kids_at :: "chat_build \<Rightarrow> nat \<Rightarrow> nat list" where
  "kids_at st i \<equiv> cn_kids (cb_heap st ! i)"

definition placed :: "chat_item list \<Rightarrow> chat_build \<Rightarrow> nat \<Rightarrow> bool" where
  "placed ms st k =
     (\<not> isLegacy (ms ! k) \<longrightarrow>
      (\<forall>j<k. ci_parentMessageId (ms ! k) = Some (ci_id (ms ! j)) \<longrightarrow>
         (\<exists>s. cn_siblingIndex (cb_heap st ! Suc k) = Some s \<and> s < length (kids_at st j) \<and> kids_at st j ! s = k)))"

definition build_inv :: "chat_item list \<Rightarrow> nat \<Rightarrow> chat_build \<Rightarrow> bool" where
  "build_inv ms n st =
     (map cn_item (cb_heap st) = take n ms \<and>
      (\<forall>i<n. cb_map st (ci_id (ms ! i)) = Some i) \<and>
      (\<forall>i<n. \<forall>k\<in>set (kids_at st i). i < k \<and> k < n) \<and>
      mset (cb_roots st) + mset (concat (map cn_kids (cb_heap st))) = mset [0..<n] \<and>
      (\<forall>r. cb_legacy st = Some r \<longrightarrow> r < n) \<and>
      (\<forall>i<n. countOf (cb_count st) (ci_id (ms ! i)) = length (kids_at st i)) \<and>
      (\<forall>i. n \<le> i \<and> i < length ms \<longrightarrow> countOf (cb_count st) (ci_id (ms ! i)) = 0) \<and>
      (\<forall>k. even k \<and> k < n \<longrightarrow> placed ms st k))"

lemma build_invD:
  assumes "build_inv ms n st"
  shows "map cn_item (cb_heap st) = take n ms"
    and "\<forall>i<n. cb_map st (ci_id (ms ! i)) = Some i"
    and "\<forall>i<n. \<forall>k\<in>set (kids_at st i). i < k \<and> k < n"
    and "mset (cb_roots st) + mset (concat (map cn_kids (cb_heap st))) = mset [0..<n]"
    and "\<forall>r. cb_legacy st = Some r \<longrightarrow> r < n"
    and "\<forall>i<n. countOf (cb_count st) (ci_id (ms ! i)) = length (kids_at st i)"
    and "\<forall>i. n \<le> i \<and> i < length ms \<longrightarrow> countOf (cb_count st) (ci_id (ms ! i)) = 0"
    and "\<forall>k. even k \<and> k < n \<longrightarrow> placed ms st k"
  using assms unfolding build_inv_def by - (elim conjE, assumption)+

lemma empty_inv: "build_inv ms 0 emptyBuild"
  by (simp add: build_inv_def emptyBuild_def countOf_def)

lemma push_kid_items [simp]: "map cn_item (push_kid r k h) = map cn_item h"
proof -
  have "map cn_item (push_kid r k h) = (map cn_item h)[r := cn_item (h ! r)]" by (simp add: push_kid_def map_update)
  then show ?thesis by (simp flip: map_update)
qed

lemma push_kid_simps [simp]:
  "length (push_kid r k h) = length h"
  "r < length h \<Longrightarrow> cn_kids (push_kid r k h ! i) = (if i = r then cn_kids (h ! i) @ [k] else cn_kids (h ! i))"
  "cn_siblingIndex (push_kid r k h ! i) = cn_siblingIndex (h ! i)"
proof -
  show "cn_siblingIndex (push_kid r k h ! i) = cn_siblingIndex (h ! i)"
    by (cases "r < length h"; cases "i = r") (simp_all add: push_kid_def list_update_beyond)
qed (simp_all add: push_kid_def)

lemma push_kid_concat:
  "r < length h \<Longrightarrow> mset (concat (map cn_kids (push_kid r k h))) = add_mset k (mset (concat (map cn_kids h)))"
  by (induction h arbitrary: r) (auto simp: push_kid_def split: nat.splits)

lemma ids_apart:
  "chat_log_ok ms \<Longrightarrow> i < length ms \<Longrightarrow> j < length ms \<Longrightarrow> (ci_id (ms ! i) = ci_id (ms ! j)) = (i = j)"
  using nth_eq_iff_index_eq [of "map ci_id ms" i j] by (simp add: chat_log_ok_def)

text \<open>One round on a list that is in order: the question becomes a root or a child of an earlier node.\<close>

definition stepped :: "chat_item list \<Rightarrow> nat \<Rightarrow> chat_build \<Rightarrow> chat_build" where
  "stepped ms n st = addNodes (ms ! n) (ms ! Suc n) st"

lemma addPair_places:
  assumes "chat_log_ok ms" "build_inv ms n st" "even n" "Suc n < length ms"
  obtains (rootless) st' where "addPair (map ci_id ms) (ms ! n) (ms ! Suc n) st = Inr st'"
      "cb_heap st' = cb_heap (stepped ms n st)" "cb_map st' = cb_map (stepped ms n st)"
      "cb_count st' = cb_count (stepped ms n st)" "cb_roots st' = cb_roots st @ [n]"
      "parentOf st (ms ! n) \<notin> set (map ci_id ms)" "cb_legacy st' = cb_legacy st \<or> cb_legacy st' = Some (Suc n)"
  | (child) st' r where "addPair (map ci_id ms) (ms ! n) (ms ! Suc n) st = Inr st'" "r < n"
      "cb_heap st' = push_kid r n (cb_heap (stepped ms n st))" "cb_map st' = cb_map (stepped ms n st)"
      "cb_count st' = cb_count (stepped ms n st)" "cb_roots st' = cb_roots st"
      "parentOf st (ms ! n) = ci_id (ms ! r)" "cb_legacy st' = cb_legacy st \<or> cb_legacy st' = Some (Suc n)"
proof -
  have items: "map cn_item (cb_heap st) = take n ms" using build_invD(1) [OF assms(2)] .
  from arg_cong [OF this, of length] have len: "length (cb_heap st) = n" using assms(4) by simp
  have item: "cn_item (cb_heap st ! i) = ms ! i" if "i < n" for i
  proof -
    have "map cn_item (cb_heap st) ! i = take n ms ! i" by (simp add: items)
    then show ?thesis using that len by simp
  qed
  let ?st = "stepped ms n st" and ?q = "ms ! n"
  have maps: "cb_map ?st = (cb_map st)(ci_id ?q \<mapsto> n, ci_id (ms ! Suc n) \<mapsto> Suc n)"
    "cb_legacy ?st = cb_legacy st" "cb_roots ?st = cb_roots st"
    using len by (simp_all add: stepped_def addNodes_def Let_def)
  show ?thesis
  proof (cases "isLegacy ?q")
    case True
    show ?thesis
    proof (cases "cb_legacy st")
      case None
      then show ?thesis using rootless assms(1) True maps len
        by (simp add: addPair_def attachQuestion_def parentOf_def stepped_def chat_log_ok_def)
    next
      case (Some r)
      then have "r < n" using build_invD(5) [OF assms(2)] by blast
      then show ?thesis using child [of _ r] Some True maps len item
        by (simp add: addPair_def attachQuestion_def parentOf_def stepped_def)
    qed
  next
    case False
    show ?thesis
    proof (cases "parentOf st ?q \<in> set (map ci_id ms)")
      case True
      have "parentOf st ?q \<noteq> []" using True assms(1) unfolding chat_log_ok_def by metis
      then obtain p where p: "ci_parentMessageId ?q = Some p" "p \<noteq> []" "p \<noteq> UUID_NIL" "parentOf st ?q = p"
        using False by (auto simp: parentOf_def isLegacy_def split: option.splits)
      have "parent_before ms n" using assms(1,3,4) by (simp add: chat_log_ok_def)
      then have "p \<in> set (map ci_id (take n ms))" using p True by (simp add: parent_before_def)
      then obtain r where r: "r < n" "ci_id (ms ! r) = p" using assms(4)
        by (auto simp: in_set_conv_nth)
      have "\<forall>i<n. cb_map st (ci_id (ms ! i)) = Some i" using build_invD(2) [OF assms(2)] .
      then have "cb_map st p = Some r" using r by blast
      moreover have "p \<noteq> ci_id ?q" "p \<noteq> ci_id (ms ! Suc n)"
        using ids_apart [OF assms(1), of r n] ids_apart [OF assms(1), of r "Suc n"] r assms(4) by auto
      ultimately have "cb_map ?st p = Some r" by (simp add: maps)
      then show ?thesis using child [of _ r] False p r maps len True
        by (simp add: addPair_def attachQuestion_def stepped_def)
    next
      case outside: False
      then show ?thesis using rootless False maps len
        by (simp add: addPair_def attachQuestion_def stepped_def)
    qed
  qed
qed

lemma inv_facts:
  assumes "build_inv ms n st" "n \<le> length ms"
  shows "length (cb_heap st) = n" and "\<And>i. i < n \<Longrightarrow> cn_item (cb_heap st ! i) = ms ! i"
proof -
  have items: "map cn_item (cb_heap st) = take n ms" using build_invD(1) [OF assms(1)] .
  from arg_cong [OF this, of length] show len: "length (cb_heap st) = n" using assms(2) by simp
  fix i assume "i < n"
  moreover have "map cn_item (cb_heap st) ! i = take n ms ! i" by (simp add: items)
  ultimately show "cn_item (cb_heap st ! i) = ms ! i" using len by simp
qed

text \<open>The heap of the two new nodes.\<close>

lemma stepped_facts:
  assumes "length (cb_heap st) = n"
  shows "map cn_item (cb_heap (stepped ms n st)) = map cn_item (cb_heap st) @ [ms ! n, ms ! Suc n]"
    and "length (cb_heap (stepped ms n st)) = Suc (Suc n)"
    and "i < n \<Longrightarrow> cb_heap (stepped ms n st) ! i = cb_heap st ! i"
    and "kids_at (stepped ms n st) n = [Suc n]" and "kids_at (stepped ms n st) (Suc n) = []"
    and "mset (concat (map cn_kids (cb_heap (stepped ms n st)))) = add_mset (Suc n) (mset (concat (map cn_kids (cb_heap st))))"
    and "cb_map (stepped ms n st) = (cb_map st)(ci_id (ms ! n) \<mapsto> n, ci_id (ms ! Suc n) \<mapsto> Suc n)"
    and "cb_count (stepped ms n st) = (cb_count st)(parentOf st (ms ! n) \<mapsto> countOf (cb_count st) (parentOf st (ms ! n)) + 1,
          ci_id (ms ! n) \<mapsto> 1)"
    and "parentOf st (ms ! n) \<noteq> ci_id (ms ! n) \<Longrightarrow> \<not> isLegacy (ms ! n) \<Longrightarrow>
          cn_siblingIndex (cb_heap (stepped ms n st) ! Suc n) = Some (countOf (cb_count st) (parentOf st (ms ! n)))"
  using assms by (simp_all add: stepped_def addNodes_def Let_def nth_append countOf_def)

text \<open>The effect of one round, whichever way the question is placed.\<close>

definition round_effect :: "chat_item list \<Rightarrow> nat \<Rightarrow> chat_build \<Rightarrow> chat_build \<Rightarrow> bool" where
  "round_effect ms n st st' =
     ((\<forall>i. n \<le> i \<and> i < length ms \<longrightarrow> parentOf st (ms ! n) \<noteq> ci_id (ms ! i)) \<and>
      map cn_item (cb_heap st') = map cn_item (cb_heap (stepped ms n st)) \<and>
      (\<forall>i<n. kids_at st' i = kids_at st i @ (if parentOf st (ms ! n) = ci_id (ms ! i) then [n] else [])) \<and>
      kids_at st' n = [Suc n] \<and> kids_at st' (Suc n) = [] \<and>
      (\<forall>i. cn_siblingIndex (cb_heap st' ! i) = cn_siblingIndex (cb_heap (stepped ms n st) ! i)) \<and>
      cb_map st' = cb_map (stepped ms n st) \<and> cb_count st' = cb_count (stepped ms n st) \<and>
      mset (cb_roots st') + mset (concat (map cn_kids (cb_heap st'))) = mset [0..<n] + {#n, Suc n#} \<and>
      (cb_legacy st' = cb_legacy st \<or> cb_legacy st' = Some (Suc n)))"

lemma addPair_effect:
  assumes ok: "chat_log_ok ms" and inv: "build_inv ms n st" and n: "even n" "Suc n < length ms"
  obtains st' where "addPair (map ci_id ms) (ms ! n) (ms ! Suc n) st = Inr st'" "round_effect ms n st st'"
proof -
  have le: "n \<le> length ms" using n by simp
  note facts = inv_facts [OF inv le]
  note st = stepped_facts [where ms = ms, OF facts(1)]
  note inv' = build_invD [OF inv]
  from ok inv n show ?thesis
  proof (cases rule: addPair_places)
    case (rootless st')
    have "i < length ms \<Longrightarrow> parentOf st (ms ! n) \<noteq> ci_id (ms ! i)" for i
      using rootless(6) by auto
    then have "round_effect ms n st st'"
      using rootless(2-5,7) n inv'(4) unfolding round_effect_def by (simp add: st)
    then show ?thesis by (rule that [OF rootless(1)])
  next
    case (child st' r)
    have p: "(parentOf st (ms ! n) = ci_id (ms ! i)) = (i = r)" if "i < length ms" for i
      using child(2,7) ids_apart [OF ok, of r i] n that by auto
    have "r < length (cb_heap (stepped ms n st))" using child(2) by (simp add: st)
    note push = push_kid_simps(2) [OF this] push_kid_concat [OF this]
    have "round_effect ms n st st'"
      using child(2-6,8) n inv'(4) p unfolding round_effect_def by (simp add: st push)
    then show ?thesis by (rule that [OF child(1)])
  qed
qed

lemma round_effectD:
  assumes "round_effect ms n st st'"
  shows "\<forall>i. n \<le> i \<and> i < length ms \<longrightarrow> parentOf st (ms ! n) \<noteq> ci_id (ms ! i)"
    and "map cn_item (cb_heap st') = map cn_item (cb_heap (stepped ms n st))"
    and "\<forall>i<n. kids_at st' i = kids_at st i @ (if parentOf st (ms ! n) = ci_id (ms ! i) then [n] else [])"
    and "kids_at st' n = [Suc n]" and "kids_at st' (Suc n) = []"
    and "\<forall>i. cn_siblingIndex (cb_heap st' ! i) = cn_siblingIndex (cb_heap (stepped ms n st) ! i)"
    and "cb_map st' = cb_map (stepped ms n st)" and "cb_count st' = cb_count (stepped ms n st)"
    and "mset (cb_roots st') + mset (concat (map cn_kids (cb_heap st'))) = mset [0..<n] + {#n, Suc n#}"
    and "cb_legacy st' = cb_legacy st \<or> cb_legacy st' = Some (Suc n)"
  using assms unfolding round_effect_def by - (elim conjE, assumption)+

lemma below_two: "i < Suc (Suc n) \<Longrightarrow> (i < n \<Longrightarrow> P) \<Longrightarrow> (i = n \<Longrightarrow> P) \<Longrightarrow> (i = Suc n \<Longrightarrow> P) \<Longrightarrow> P"
  by linarith

lemma round_effect_inv:
  assumes ok: "chat_log_ok ms" and inv: "build_inv ms n st" and n: "even n" "Suc n < length ms"
    and effect: "round_effect ms n st st'"
  shows "build_inv ms (Suc (Suc n)) st'"
proof -
  have le: "n \<le> length ms" using n by simp
  note facts = inv_facts [OF inv le]
  note st = stepped_facts [where ms = ms, OF facts(1)]
  note inv' = build_invD [OF inv]
  note eff = round_effectD [OF effect]
  let ?p = "parentOf st (ms ! n)"
  have apart: "i < n \<Longrightarrow> ci_id (ms ! i) \<noteq> ci_id (ms ! n)" "i < n \<Longrightarrow> ci_id (ms ! i) \<noteq> ci_id (ms ! Suc n)"
    "ci_id (ms ! n) \<noteq> ci_id (ms ! Suc n)" "Suc n < i \<Longrightarrow> i < length ms \<Longrightarrow> ci_id (ms ! i) \<noteq> ci_id (ms ! n)" for i
    using ids_apart [OF ok] n by auto
  have "map cn_item (cb_heap st') = take (Suc (Suc n)) ms"
    using eff(2) st(1) inv'(1) n by (simp add: take_Suc_conv_app_nth)
  moreover have "\<forall>i<Suc (Suc n). cb_map st' (ci_id (ms ! i)) = Some i"
  proof (intro allI impI)
    fix i assume "i < Suc (Suc n)"
    then show "cb_map st' (ci_id (ms ! i)) = Some i"
    proof (rule below_two)
      assume "i < n"
      then show ?thesis using inv'(2) apart(1,2) [of i] by (simp add: eff(7) st(7))
    qed (use apart(3) in \<open>simp_all add: eff(7) st(7)\<close>)
  qed
  moreover have "\<forall>i<Suc (Suc n). \<forall>k\<in>set (kids_at st' i). i < k \<and> k < Suc (Suc n)"
  proof (intro allI impI)
    fix i assume "i < Suc (Suc n)"
    then show "\<forall>k\<in>set (kids_at st' i). i < k \<and> k < Suc (Suc n)"
    proof (rule below_two)
      assume "i < n"
      then have "set (kids_at st' i) \<subseteq> insert n (set (kids_at st i))" using eff(3) by auto
      moreover have "\<forall>k\<in>set (kids_at st i). i < k \<and> k < n" using inv'(3) \<open>i < n\<close> by blast
      ultimately show ?thesis using \<open>i < n\<close> by fastforce
    qed (simp_all add: eff(4,5))
  qed
  moreover have "mset (cb_roots st') + mset (concat (map cn_kids (cb_heap st'))) = mset [0..<Suc (Suc n)]"
    using eff(9) by simp
  moreover have "\<forall>r. cb_legacy st' = Some r \<longrightarrow> r < Suc (Suc n)"
    using eff(10) inv'(5) by (metis less_Suc_eq option.inject)
  moreover have "\<forall>i<Suc (Suc n). countOf (cb_count st') (ci_id (ms ! i)) = length (kids_at st' i)"
  proof (intro allI impI)
    fix i assume "i < Suc (Suc n)"
    then show "countOf (cb_count st') (ci_id (ms ! i)) = length (kids_at st' i)"
    proof (rule below_two)
      assume i: "i < n"
      then have "countOf (cb_count st) (ci_id (ms ! i)) = length (kids_at st i)" using inv'(6) by blast
      then show ?thesis using i eff(3) apart(1) [OF i] by (auto simp: eff(8) st(8) countOf_def)
    next
      assume "i = Suc n"
      moreover have "?p \<noteq> ci_id (ms ! Suc n)" "countOf (cb_count st) (ci_id (ms ! Suc n)) = 0"
        using eff(1) inv'(7) n by simp_all
      ultimately show ?thesis using apart(3) by (simp add: eff(5,8) st(8) countOf_def)
    qed (simp add: eff(4,8) st(8) countOf_def)
  qed
  moreover have "\<forall>i. Suc (Suc n) \<le> i \<and> i < length ms \<longrightarrow> countOf (cb_count st') (ci_id (ms ! i)) = 0"
  proof (intro allI impI)
    fix i assume i: "Suc (Suc n) \<le> i \<and> i < length ms"
    then have "?p \<noteq> ci_id (ms ! i)" "countOf (cb_count st) (ci_id (ms ! i)) = 0" using eff(1) inv'(7) by simp_all
    then show "countOf (cb_count st') (ci_id (ms ! i)) = 0"
      using i apart(4) [of i] by (simp add: eff(8) st(8) countOf_def)
  qed
  moreover have "\<forall>k. even k \<and> k < Suc (Suc n) \<longrightarrow> placed ms st' k"
  proof (intro allI impI)
    fix k assume k: "even k \<and> k < Suc (Suc n)"
    then have "k < n \<and> Suc k < n \<or> k = n" using n(1) by presburger
    then consider (old) "k < n" "Suc k < n" | (new) "k = n" by blast
    then show "placed ms st' k"
    proof cases
      case old
      then have "placed ms st k" using inv'(8) k by blast
      then show ?thesis using old eff(3,6) st(3) [OF old(2)] unfolding placed_def
        by (auto simp: nth_append)
    next
      case new
      show ?thesis unfolding placed_def
      proof (intro impI allI)
        fix j assume j: "\<not> isLegacy (ms ! k)" "j < k" "ci_parentMessageId (ms ! k) = Some (ci_id (ms ! j))"
        then have p: "?p = ci_id (ms ! j)" using new by (simp add: parentOf_def)
        then have "cn_siblingIndex (cb_heap st' ! Suc k) = Some (length (kids_at st j))"
          using eff(6) st(9) j(1,2) new apart(1) [of j] inv'(6) by simp
        moreover have "kids_at st' j = kids_at st j @ [k]" using eff(3) p j(2) new by simp
        ultimately show "\<exists>s. cn_siblingIndex (cb_heap st' ! Suc k) = Some s \<and> s < length (kids_at st' j) \<and> kids_at st' j ! s = k"
          by simp
      qed
    qed
  qed
  ultimately show ?thesis unfolding build_inv_def by blast
qed

lemma buildPairs_inv:
  "chat_log_ok ms \<Longrightarrow> build_inv ms n st \<Longrightarrow> even n \<Longrightarrow> n \<le> length ms \<Longrightarrow>
   \<exists>st'. buildPairs (map ci_id ms) (drop n ms) st = Inr st' \<and> build_inv ms (length ms) st'"
proof (induction "length ms - n" arbitrary: n st rule: less_induct)
  case less
  show ?case
  proof (cases "n = length ms")
    case False
    then have n: "Suc n < length ms" using less.prems by (auto simp: chat_log_ok_def) (metis Suc_lessI even_Suc le_neq_implies_less)
    then have "drop n ms = ms ! n # ms ! Suc n # drop (Suc (Suc n)) ms" by (simp add: Cons_nth_drop_Suc)
    moreover obtain st1 where st1: "addPair (map ci_id ms) (ms ! n) (ms ! Suc n) st = Inr st1" "round_effect ms n st st1"
      using addPair_effect [OF less.prems(1-3) n] by blast
    moreover have "build_inv ms (Suc (Suc n)) st1" by (rule round_effect_inv [OF less.prems(1-3) n st1(2)])
    ultimately show ?thesis using less.hyps [of "Suc (Suc n)" st1] less.prems n by simp
  qed (use less.prems in simp)
qed

lemma buildHeap_inv:
  assumes "chat_log_ok ms"
  obtains st where "buildHeap ms = Inr st" "build_inv ms (length ms) st"
  using buildPairs_inv [OF assms empty_inv] by (auto simp: buildHeap_def)

section \<open>Every message stands in the tree once\<close>

fun tree_messages :: "chat_tree \<Rightarrow> chat_item list" where
  "tree_messages (ChatNode it s ks) = it # concat (map tree_messages ks)"

definition messages_at :: "chat_node list \<Rightarrow> nat \<Rightarrow> chat_item multiset" where
  "messages_at h r = mset (tree_messages (to_tree h r))"

lemma to_tree_kids:
  "\<forall>k\<in>set (cn_kids (h ! r)). r < k \<and> k < length h \<Longrightarrow>
   to_tree h r = ChatNode (cn_item (h ! r)) (cn_siblingIndex (h ! r)) (map (to_tree h) (cn_kids (h ! r)))"
  by (subst to_tree.simps) (simp add: filter_id_conv)

lemma messages_at_kids:
  "\<forall>k\<in>set (cn_kids (h ! r)). r < k \<and> k < length h \<Longrightarrow>
   messages_at h r = {#cn_item (h ! r)#} + sum_list (map (messages_at h) (cn_kids (h ! r)))"
  by (simp add: messages_at_def [of h r] to_tree_kids mset_concat_map comp_def flip: messages_at_def)

lemma forest_messages:
  assumes "\<forall>i<length h. \<forall>k\<in>set (cn_kids (h ! i)). i < k \<and> k < length h"
    and "mset roots + mset (concat (map cn_kids h)) = mset [0..<length h]"
  shows "mset (concat (map tree_messages (map (to_tree h) roots))) = mset (map cn_item h)"
proof -
  let ?F = "messages_at h"
  have "sum_list (map ?F roots) = sum_list (map (\<lambda>i. {#cn_item (h ! i)#}) [0..<length h])"
  proof (rule forest_sum [where kids = "\<lambda>k. cn_kids (h ! k)"])
    show "?F k = {#cn_item (h ! k)#} + sum_list (map ?F (cn_kids (h ! k)))" if "k < length h" for k
      by (rule messages_at_kids) (use assms(1) that in blast)
  qed (use assms(2) in \<open>simp add: map_upt\<close>)
  also have "\<dots> = mset (map cn_item h)" unfolding sum_singles map_upt ..
  finally show ?thesis by (simp add: mset_concat_map comp_def messages_at_def [abs_def])
qed

lemma built_messages:
  assumes "chat_log_ok ms"
  shows "\<exists>trees. buildChatItemTree ms = Inr trees \<and> mset (concat (map tree_messages trees)) = mset ms"
proof -
  obtain st where st: "buildHeap ms = Inr st" "build_inv ms (length ms) st" by (rule buildHeap_inv [OF assms])
  note inv = build_invD [OF st(2)] inv_facts [OF st(2) order_refl]
  have "mset (concat (map tree_messages (map (to_tree (cb_heap st)) (cb_roots st)))) = mset (map cn_item (cb_heap st))"
    by (rule forest_messages; unfold inv(9)) (rule inv(3), rule inv(4))
  then show ?thesis using st(1) inv(1) by (simp add: buildChatItemTree_def)
qed

text \<open>C13: A chat list of question-answer pairs with distinct ids, in which the parent of a question stands before it unless it
  was not fetched, always builds a tree, and the tree holds every message of the list exactly once.
\<close>

theorem tree_holds_every_message_once:
  assumes "chat_log_ok ms"
  shows "\<exists>trees. buildChatItemTree ms = Inr trees \<and> mset (concat (map tree_messages trees)) = mset ms"
  by (rule built_messages [OF assms])

definition sample_chat :: "chat_item list" where
  "sample_chat =
     (let msg = (\<lambda>i a p. \<lparr>ci_id = i, ci_content = [], ci_isAnswer = a, ci_isOpeningStatement = False,
                          ci_parentMessageId = p, ci_annotation = None\<rparr>)
      in [msg ''q1'' False None, msg ''a1'' True (Some ''q1''), msg ''q2'' False (Some ''a1''), msg ''a2'' True (Some ''q2''),
          msg ''q3'' False (Some ''a1''), msg ''a3'' True (Some ''q3'')])"

lemma sample_chat_ok: "chat_log_ok sample_chat"
  by code_simp

theorem tree_holds_every_message_once_witness:
  "\<exists>trees. buildChatItemTree sample_chat = Inr trees \<and> mset (concat (map tree_messages trees)) = mset sample_chat"
  using tree_holds_every_message_once [OF sample_chat_ok] .

text \<open>In a tree built from such a list the number \<^verbatim>\<open>siblingIndex\<close> of an answer is the place of its question among the
  children of the parent, whatever the order in which branches grew: the buttons that switch between answers
  reach every sibling.
\<close>

theorem sibling_index_is_position:
  assumes "chat_log_ok ms" and "buildHeap ms = Inr st" and "even k" and "k < length ms" and "j < k"
    and "ci_parentMessageId (ms ! k) = Some (ci_id (ms ! j))" and "ci_id (ms ! j) \<noteq> UUID_NIL"
  shows "\<exists>s. cn_siblingIndex (cb_heap st ! Suc k) = Some s \<and>
    s < length (cn_kids (cb_heap st ! j)) \<and> cn_kids (cb_heap st ! j) ! s = k"
proof -
  obtain st' where st: "buildHeap ms = Inr st'" "build_inv ms (length ms) st'" by (rule buildHeap_inv [OF assms(1)])
  have "placed ms st' k" using build_invD(8) [OF st(2)] assms(3,4) by blast
  then show ?thesis using assms(2,5-7) st(1) by (simp add: placed_def isLegacy_def)
qed

theorem sibling_index_is_position_witness:
  "\<exists>st. buildHeap sample_chat = Inr st \<and> cn_siblingIndex (cb_heap st ! 5) = Some 1 \<and> cn_kids (cb_heap st ! 1) ! 1 = 4"
proof -
  obtain st where st: "buildHeap sample_chat = Inr st" by (rule buildHeap_inv [OF sample_chat_ok])
  have "\<exists>s. cn_siblingIndex (cb_heap st ! Suc 4) = Some s \<and>
      s < length (cn_kids (cb_heap st ! 1)) \<and> cn_kids (cb_heap st ! 1) ! s = 4"
    by (rule sibling_index_is_position [OF sample_chat_ok st]) (simp_all add: sample_chat_def UUID_NIL_def)
  moreover have "cn_kids (cb_heap st ! 1) = [2, 4]"
    using st by (auto simp: sample_chat_def buildHeap_def emptyBuild_def addPair_def attachQuestion_def addNodes_def parentOf_def
        isLegacy_def UUID_NIL_def Let_def push_kid_def)
  ultimately have "cn_siblingIndex (cb_heap st ! 5) = Some 1" by (auto simp: less_Suc_eq)
  then show ?thesis using st \<open>cn_kids (cb_heap st ! 1) = [2, 4]\<close> by simp
qed

section \<open>Threads\<close>

fun subtrees :: "chat_tree \<Rightarrow> chat_tree list" where
  "subtrees (ChatNode it s ks) = ChatNode it s ks # concat (map subtrees ks)"

lemma subtrees_kids: "set (subtrees n) = insert n (\<Union>c\<in>set (tree_kids n). set (subtrees c))"
  by (cases n) simp

lemma self_subtree [simp]: "n \<in> set (subtrees n)"
  by (cases n) simp

abbreviation child_of :: "chat_tree \<Rightarrow> chat_tree \<Rightarrow> bool" where
  "child_of n c \<equiv> c \<in> set (tree_kids n)"

definition tree_path :: "chat_tree list \<Rightarrow> chat_tree list \<Rightarrow> bool" where
  "tree_path trees ns = (ns \<noteq> [] \<and> hd ns \<in> set trees \<and> successively child_of ns)"

definition stack_ok :: "chat_tree list \<Rightarrow> (chat_tree \<times> chat_tree list) list \<Rightarrow> bool" where
  "stack_ok trees stack = (\<forall>(n, path)\<in>set stack. tree_path trees path \<and> last path = n)"

lemma tree_path_snoc: "tree_path trees ns \<Longrightarrow> child_of (last ns) c \<Longrightarrow> tree_path trees (ns @ [c])"
  by (auto simp: tree_path_def successively_append_iff)

lemma stack_ok_push:
  "stack_ok trees ((n, path) # stack) \<Longrightarrow> stack_ok trees (map (\<lambda>c. (c, path @ [c])) (tree_kids n) @ stack)"
  by (auto simp: stack_ok_def intro: tree_path_snoc)

lemma find_sound:
  "stack_ok trees stack \<Longrightarrow> findTarget target stack = Some path \<Longrightarrow>
   tree_path trees path \<and> (target = Some t \<and> t \<noteq> [] \<longrightarrow> chat_id (last path) = t)"
proof (induction target stack rule: findTarget.induct)
  case (2 target node path' stack)
  show ?case
  proof (cases "isTarget target node (stack = [])")
    case True
    then show ?thesis using 2(2,3) by (auto simp: stack_ok_def isTarget_def)
  next
    case False
    then show ?thesis using 2(1) [OF False stack_ok_push [OF 2(2)]] 2(3) by simp
  qed
qed simp

lemma find_complete:
  "findTarget target stack = None \<Longrightarrow> target = Some t \<Longrightarrow> (n, path) \<in> set stack \<Longrightarrow> m \<in> set (subtrees n) \<Longrightarrow> chat_id m \<noteq> t"
proof (induction target stack arbitrary: n path rule: findTarget.induct)
  case (2 target node path' stack)
  have no: "\<not> isTarget target node (stack = [])" using 2(2) by (auto split: if_splits)
  then have rest: "findTarget target (map (\<lambda>c. (c, path' @ [c])) (tree_kids node) @ stack) = None" using 2(2) by simp
  note IH = 2(1) [OF no rest 2(3)]
  show ?case
  proof (cases "(n, path) \<in> set stack")
    case True
    then show ?thesis using IH [of n path] 2(5) by simp
  next
    case False
    then have n: "n = node" using 2(4) by auto
    have "m \<in> insert node (\<Union>c\<in>set (tree_kids node). set (subtrees c))" using 2(5) subtrees_kids [of node] n by simp
    then consider "m = node" | c where "child_of node c" "m \<in> set (subtrees c)" by blast
    then show ?thesis
    proof cases
      case 1
      then show ?thesis using no 2(3) by (auto simp: isTarget_def)
    next
      case 2
      then show ?thesis using IH [of c "path' @ [c]"] by auto
    qed
  qed
qed simp

text \<open>The path below a node that always takes the last child.\<close>

function last_kids :: "chat_tree \<Rightarrow> chat_tree list" where
  "last_kids n = (if tree_kids n = [] then [] else last (tree_kids n) # last_kids (last (tree_kids n)))"
  by pat_completeness auto
termination by (relation "measure size") (auto intro: kid_smaller)

declare last_kids.simps [simp del]

lemma showLastKid_node [simp]: "ti_node (showLastKid ret c) = c"
  by (simp add: showLastKid_def plain_item_def Let_def)

lemma appendDescendants_nodes: "map ti_node (appendDescendants n ret) = map ti_node ret @ last_kids n"
proof (induction n arbitrary: ret rule: last_kids.induct)
  case (1 n)
  then show ?case by (subst appendDescendants.simps, subst last_kids.simps) simp
qed

lemma showPathItem_node: "showPathItem trees path i = Inr x \<Longrightarrow> ti_node x = path ! i"
  by (auto simp: showPathItem_def plain_item_def Let_def split: if_splits sum.splits)

lemma showItems_nodes: "showItems trees path is' = Inr xs \<Longrightarrow> map ti_node xs = map ((!) path) is'"
  by (induction is' arbitrary: xs) (auto split: sum.splits dest: showPathItem_node)

lemma showPath_nodes: "showPath trees path = Inr xs \<Longrightarrow> map ti_node xs = path"
  using showItems_nodes [of trees path "[0..<length path]" xs] by (simp add: showPath_def map_nth)

text \<open>Questions and answers alternate and every question is answered.\<close>

definition dialog_node :: "chat_tree \<Rightarrow> bool" where
  "dialog_node m =
     (if is_answer m then list_all (\<lambda>c. \<not> is_answer c) (tree_kids m)
      else tree_kids m \<noteq> [] \<and> list_all is_answer (tree_kids m))"

definition dialog :: "chat_tree list \<Rightarrow> bool" where
  "dialog trees = list_all dialog_node (concat (map subtrees trees))"

lemma path_subtrees:
  assumes "tree_path trees ns" "i < length ns"
  shows "ns ! i \<in> set (concat (map subtrees trees))"
  using assms(2)
proof (induction i)
  case 0
  have "ns ! 0 \<in> set trees" using assms(1) by (auto simp: tree_path_def hd_conv_nth)
  then show ?case using self_subtree [of "ns ! 0"] by (auto intro: bexI [of _ "ns ! 0"])
next
  case (Suc i)
  have sub: "m \<in> set (subtrees n) \<Longrightarrow> child_of m c \<Longrightarrow> c \<in> set (subtrees n)" for m n c
  proof (induction n rule: subtrees.induct)
    case (1 it s ks)
    from 1(2) consider "m = ChatNode it s ks" | k where "k \<in> set ks" "m \<in> set (subtrees k)" by auto
    then show ?case
    proof cases
      case 1
      then have "\<exists>x\<in>set ks. c \<in> set (subtrees x)" using \<open>child_of m c\<close> self_subtree [of c] by (auto intro: bexI [of _ c])
      then show ?thesis by simp
    next
      case 2
      then show ?thesis using 1(1) [OF 2(1,2) 1(3)] by auto
    qed
  qed
  have "child_of (ns ! i) (ns ! Suc i)"
    using assms(1) Suc.prems by (simp add: tree_path_def successively_conv_nth)
  then show ?case using Suc sub by auto
qed

lemma kidNeighbour_ok: "list_all (\<lambda>c. tree_kids c \<noteq> []) ts \<Longrightarrow> \<exists>r. kidNeighbour ts i = Inr r"
  by (auto simp: kidNeighbour_def firstKidId_def list_all_length split: option.split list.split)

lemma showPathItem_ok:
  assumes "dialog trees" "tree_path trees path" "i < length path"
  shows "\<exists>x. showPathItem trees path i = Inr x"
proof (cases "is_answer (path ! i) \<and> 2 \<le> i")
  case True
  have node: "dialog_node (path ! j)" if "j < length path" for j
    using path_subtrees [OF assms(2) that] assms(1) unfolding dialog_def list_all_iff by blast
  have step: "child_of (path ! j) (path ! Suc j)" if "Suc j < length path" for j
    using assms(2) that by (simp add: tree_path_def successively_conv_nth)
  obtain j where j: "i = Suc (Suc j)" using True by (metis Suc_le_D add_2_eq_Suc le_Suc_ex)
  have question: "\<not> is_answer (path ! Suc j)"
  proof
    assume "is_answer (path ! Suc j)"
    then have "\<not> is_answer (path ! i)"
      using node [of "Suc j"] step [of "Suc j"] assms(3) j by (simp add: dialog_node_def list_all_iff)
    then show False using True by blast
  qed
  have "is_answer (path ! j)"
  proof (rule ccontr)
    assume "\<not> is_answer (path ! j)"
    then have "is_answer (path ! Suc j)"
      using node [of j] step [of j] assms(3) j by (simp add: dialog_node_def list_all_iff)
    then show False using question by blast
  qed
  then have "is_answer (path ! (i - 2))" by (simp add: j)
  then have siblings: "\<not> is_answer c" if "child_of (path ! (i - 2)) c" for c
    using node [of "i - 2"] assms(3) that by (auto simp: dialog_node_def list_all_iff)
  have "dialog_node c" if "child_of (path ! (i - 2)) c" for c
  proof -
    have "tree_path trees (take (i - 1) path)"
      using assms(2,3) True by (auto simp: tree_path_def successively_conv_nth)
    moreover have "last (take (i - 1) path) = path ! (i - 2)"
      using assms(3) True by (subst last_conv_nth) (auto simp: numeral_2_eq_2)
    ultimately have "tree_path trees (take (i - 1) path @ [c])" using that by (auto intro: tree_path_snoc)
    from path_subtrees [OF this, of "i - 1"] have "c \<in> set (concat (map subtrees trees))"
      using assms(3) True by (simp add: nth_append)
    then show ?thesis using assms(1) unfolding dialog_def list_all_iff by blast
  qed
  then have "list_all (\<lambda>c. tree_kids c \<noteq> []) (tree_kids (path ! (i - 2)))"
    using siblings by (auto simp: list_all_iff dialog_node_def)
  then obtain a b where "kidNeighbour (tree_kids (path ! (i - 2))) (map_option (\<lambda>j. j - 1) (map_option int (tree_sibling (path ! i)))) = Inr a"
    "kidNeighbour (tree_kids (path ! (i - 2))) (map_option (\<lambda>j. j + 1) (map_option int (tree_sibling (path ! i)))) = Inr b"
    using kidNeighbour_ok by metis
  then show ?thesis using True by (simp add: showPathItem_def Let_def)
qed (auto simp: showPathItem_def Let_def)

lemma showPath_ok:
  assumes "dialog trees" "tree_path trees path"
  obtains ret where "showPath trees path = Inr ret" "map ti_node ret = path"
proof -
  have ok: "\<exists>xs. showItems trees path is' = Inr xs" if "set is' \<subseteq> {..<length path}" for is'
    using that
  proof (induction is')
    case (Cons i is')
    then obtain x xs where "showPathItem trees path i = Inr x" "showItems trees path is' = Inr xs"
      using showPathItem_ok [OF assms, of i] by auto
    then show ?case by simp
  qed simp
  have "set [0..<length path] \<subseteq> {..<length path}" by auto
  from ok [OF this] obtain ret where "showPath trees path = Inr ret" unfolding showPath_def by blast
  then show ?thesis using that showPath_nodes by blast
qed

lemma roots_stack: "stack_ok trees (map (\<lambda>n. (n, [n])) trees)"
  by (auto simp: stack_ok_def tree_path_def)

lemma last_kids_path:
  "successively child_of (n # last_kids n) \<and> tree_kids (last (n # last_kids n)) = []"
proof (induction n rule: last_kids.induct)
  case (1 n)
  show ?case
  proof (cases "tree_kids n = []")
    case False
    then have "last_kids n = last (tree_kids n) # last_kids (last (tree_kids n))" by (subst last_kids.simps) simp
    then show ?thesis using 1 [OF False] False by simp
  qed (simp add: last_kids.simps)
qed

lemma thread_exists:
  assumes "dialog trees" and "t \<noteq> []"
  shows "\<exists>ret. getThreadMessages trees (Some t) = Inr ret \<and>
    (if t \<in> chat_id ` set (concat (map subtrees trees))
     then \<exists>path m. map ti_node ret = path @ last_kids m \<and> path \<noteq> [] \<and> last path = m \<and> chat_id m = t \<and>
            tree_path trees (map ti_node ret) \<and> tree_kids (last (map ti_node ret)) = []
     else ret = [])"
proof (cases "findTarget (Some t) (map (\<lambda>n. (n, [n])) trees)")
  case None
  have "t \<notin> chat_id ` set (concat (map subtrees trees))"
  proof
    assume "t \<in> chat_id ` set (concat (map subtrees trees))"
    then obtain m n where "n \<in> set trees" "m \<in> set (subtrees n)" "chat_id m = t" by auto
    then show False using find_complete [OF None refl, of n "[n]" m] by auto
  qed
  then show ?thesis using None by (simp add: getThreadMessages_def)
next
  case (Some path)
  have path: "tree_path trees path" "chat_id (last path) = t"
    using find_sound [OF roots_stack Some, of t] assms(2) by simp_all
  then have ne: "path \<noteq> []" by (simp add: tree_path_def)
  have "last path \<in> set (concat (map subtrees trees))"
    using path_subtrees [OF path(1), of "length path - 1"] ne by (simp add: last_conv_nth)
  then have "t \<in> chat_id ` set (concat (map subtrees trees))" using path(2) by blast
  moreover obtain ret where ret: "showPath trees path = Inr ret" "map ti_node ret = path"
    by (rule showPath_ok [OF assms(1) path(1)])
  let ?r = "appendDescendants (last path) ret"
  have nodes: "map ti_node ?r = path @ last_kids (last path)" by (simp add: appendDescendants_nodes ret(2))
  have "successively child_of (path @ last_kids (last path))"
    using path(1) last_kids_path [of "last path"]
    by (cases "last_kids (last path)") (auto simp: tree_path_def successively_append_iff)
  then have "tree_path trees (map ti_node ?r)" using path(1) ne by (simp add: nodes tree_path_def)
  moreover have "tree_kids (last (map ti_node ?r)) = []"
    using last_kids_path [of "last path"] by (simp add: nodes last_append split: if_splits)
  ultimately show ?thesis
    using Some ret(1) nodes ne path(2) by (auto simp: getThreadMessages_def)
qed

text \<open>In a tree of dialogs \<^verbatim>\<open>getThreadMessages\<close> never throws. For the id of a message in the tree the thread is a
  path of the tree from a root through that message to a leaf that takes the newest child of every message from there
  on; for an id that is not in the tree it is empty.
\<close>

theorem thread_runs_through_target:
  assumes "dialog trees" and "t \<noteq> []"
  shows "\<exists>ret. getThreadMessages trees (Some t) = Inr ret \<and>
    (if t \<in> chat_id ` set (concat (map subtrees trees))
     then \<exists>path m. map ti_node ret = path @ last_kids m \<and> path \<noteq> [] \<and> last path = m \<and> chat_id m = t \<and>
            tree_path trees (map ti_node ret) \<and> tree_kids (last (map ti_node ret)) = []
     else ret = [])"
  by (rule thread_exists [OF assms])

definition sample_trees :: "chat_tree list" where
  "sample_trees = (case buildChatItemTree sample_chat of Inl _ \<Rightarrow> [] | Inr ts \<Rightarrow> ts)"

lemma sample_trees_value:
  "sample_trees =
     (let msg = (\<lambda>i a p. \<lparr>ci_id = i, ci_content = [], ci_isAnswer = a, ci_isOpeningStatement = False,
                          ci_parentMessageId = p, ci_annotation = None\<rparr>)
      in [ChatNode (msg ''q1'' False None) None
           [ChatNode (msg ''a1'' True (Some ''q1'')) (Some 0)
             [ChatNode (msg ''q2'' False (Some ''a1'')) None [ChatNode (msg ''a2'' True (Some ''q2'')) (Some 0) []],
              ChatNode (msg ''q3'' False (Some ''a1'')) None [ChatNode (msg ''a3'' True (Some ''q3'')) (Some 1) []]]]])"
  by code_simp

theorem thread_runs_through_target_witness:
  "\<exists>ret path m. getThreadMessages sample_trees (Some ''a2'') = Inr ret \<and> map ti_node ret = path @ last_kids m \<and> chat_id m = ''a2''"
proof -
  have "dialog sample_trees" "''a2'' \<in> chat_id ` set (concat (map subtrees sample_trees))"
    unfolding sample_trees_value by (simp_all add: Let_def dialog_def dialog_node_def is_answer_def chat_id_def)
  then show ?thesis using thread_runs_through_target [of sample_trees "''a2''"] by auto
qed

text \<open>Without a target the search stops at the last leaf.\<close>

lemma find_default:
  "stack \<noteq> [] \<Longrightarrow> target = None \<or> target = Some [] \<Longrightarrow> \<forall>n\<in>set (concat (map (subtrees \<circ> fst) stack)). chat_id n \<noteq> [] \<Longrightarrow>
   findTarget target stack = Some (snd (last stack) @ last_kids (fst (last stack)))"
proof (induction target stack rule: findTarget.induct)
  case (2 target node path stack)
  have id: "target \<noteq> Some (chat_id node)" using 2(3,4) self_subtree [of node] by auto
  show ?case
  proof (cases "tree_kids node = []")
    case True
    show ?thesis
    proof (cases "stack = []")
      case empty: True
      then show ?thesis using 2(3) True by (auto simp: isTarget_def last_kids.simps)
    next
      case False
      then have "\<not> isTarget target node (stack = [])" using id by (simp add: isTarget_def)
      then show ?thesis using 2(1) 2(3,4) True False by simp
    qed
  next
    case False
    then have no: "\<not> isTarget target node (stack = [])" using id by (simp add: isTarget_def)
    have below: "\<forall>n\<in>set (concat (map (subtrees \<circ> fst) (map (\<lambda>c. (c, path @ [c])) (tree_kids node) @ stack))). chat_id n \<noteq> []"
      using 2(4) subtrees_kids [of node] by auto
    have "findTarget target (map (\<lambda>c. (c, path @ [c])) (tree_kids node) @ stack) =
        Some (snd (last (map (\<lambda>c. (c, path @ [c])) (tree_kids node) @ stack)) @
          last_kids (fst (last (map (\<lambda>c. (c, path @ [c])) (tree_kids node) @ stack))))"
      by (rule 2(1) [OF no _ 2(3) below]) (use False in simp)
    moreover have "last_kids node = last (tree_kids node) # last_kids (last (tree_kids node))"
      using False by (subst last_kids.simps) simp
    ultimately show ?thesis using no False by (cases "stack = []") (simp_all add: last_map)
  qed
qed simp

text \<open>
  Without a target id the thread is the newest branch: it starts at the last root and takes the last child of every message.
\<close>

theorem default_thread_is_newest_branch:
  assumes "dialog trees" and "trees \<noteq> []" and "[] \<notin> chat_id ` set (concat (map subtrees trees))"
  shows "\<exists>ret. getThreadMessages trees None = Inr ret \<and> map ti_node ret = last trees # last_kids (last trees)"
proof -
  let ?path = "last trees # last_kids (last trees)"
  have "chat_id n \<noteq> []" if "n \<in> set (concat (map subtrees trees))" for n
    using assms(3) imageI [OF that, of chat_id] by metis
  then have found: "findTarget None (map (\<lambda>n. (n, [n])) trees) = Some ?path"
    by (subst find_default) (use assms(2) in \<open>auto simp: last_map\<close>)
  have "tree_path trees ?path" using find_sound [OF roots_stack found] by blast
  then obtain ret where ret: "showPath trees ?path = Inr ret" "map ti_node ret = ?path"
    by (rule showPath_ok [OF assms(1)])
  have "last_kids (last ?path) = []"
    using last_kids_path [of "last trees"] by (subst last_kids.simps) simp
  then show ?thesis
    using found ret appendDescendants_nodes [of "last ?path" ret] by (simp add: getThreadMessages_def)
qed

theorem default_thread_is_newest_branch_witness:
  "\<exists>ret. getThreadMessages sample_trees None = Inr ret \<and> map ti_node ret = last sample_trees # last_kids (last sample_trees)"
proof -
  have "dialog sample_trees" "sample_trees \<noteq> []" "[] \<notin> chat_id ` set (concat (map subtrees sample_trees))"
    unfolding sample_trees_value by (simp_all add: Let_def dialog_def dialog_node_def is_answer_def chat_id_def)
  then show ?thesis by (rule default_thread_is_newest_branch)
qed

section \<open>Trees that were built are dialogs\<close>

definition alternating :: "chat_item list \<Rightarrow> bool" where
  "alternating ms =
     (\<forall>i<length ms. ci_isAnswer (ms ! i) = odd i \<and>
        (even i \<longrightarrow> (\<forall>j<length ms. ci_parentMessageId (ms ! i) = Some (ci_id (ms ! j)) \<longrightarrow> odd j)))"

definition build_shape :: "nat \<Rightarrow> chat_build \<Rightarrow> bool" where
  "build_shape n st =
     ((\<forall>i<n. if even i then kids_at st i = [Suc i] else list_all even (kids_at st i)) \<and>
      (\<forall>r. cb_legacy st = Some r \<longrightarrow> odd r))"

lemma parent_odd:
  assumes ok: "chat_log_ok ms" and alt: "alternating ms" and inv: "build_inv ms n st" and shape: "build_shape n st"
    and n: "even n" "Suc n < length ms" and i: "i < n" "parentOf st (ms ! n) = ci_id (ms ! i)"
  shows "odd i"
proof (cases "isLegacy (ms ! n)")
  case True
  have ne: "ci_id (ms ! i) \<noteq> []" using ok i n by (metis chat_log_ok_def in_set_conv_nth length_map nth_map Suc_lessD less_trans)
  then obtain r where r: "cb_legacy st = Some r" using i True by (auto simp: parentOf_def split: option.splits)
  then have "r < n" "odd r" using build_invD(5) [OF inv] shape by (simp_all add: build_shape_def)
  moreover have "ci_id (ms ! r) = ci_id (ms ! i)"
    using i True r inv_facts(2) [OF inv] n \<open>r < n\<close> by (simp add: parentOf_def)
  ultimately show ?thesis using ids_apart [OF ok, of r i] i n by simp
next
  case False
  have ne: "ci_id (ms ! i) \<noteq> []" using ok i n by (metis chat_log_ok_def in_set_conv_nth length_map nth_map Suc_lessD less_trans)
  then have "ci_parentMessageId (ms ! n) = Some (ci_id (ms ! i))"
    using i False by (auto simp: parentOf_def split: option.splits)
  moreover have "n < length ms" "i < length ms" using n i by simp_all
  ultimately show ?thesis using alt n(1) unfolding alternating_def by blast
qed

lemma round_effect_shape:
  assumes "chat_log_ok ms" "alternating ms" "build_inv ms n st" "build_shape n st" "even n" "Suc n < length ms"
    and effect: "round_effect ms n st st'"
  shows "build_shape (Suc (Suc n)) st'"
proof -
  note eff = round_effectD [OF effect]
  have "if even i then kids_at st' i = [Suc i] else list_all even (kids_at st' i)" if "i < Suc (Suc n)" for i
    using that
  proof (rule below_two)
    assume i: "i < n"
    then have old: "if even i then kids_at st i = [Suc i] else list_all even (kids_at st i)"
      using assms(4) by (simp add: build_shape_def)
    show ?thesis
    proof (cases "parentOf st (ms ! n) = ci_id (ms ! i)")
      case True
      then show ?thesis using old eff(3) i parent_odd [OF assms(1-6) i True] assms(5) by simp
    qed (use old eff(3) i in simp)
  qed (use eff(4,5) assms(5) in simp_all)
  moreover have "\<forall>r. cb_legacy st' = Some r \<longrightarrow> odd r"
    using eff(10) assms(4,5) unfolding build_shape_def by (metis even_Suc option.inject)
  ultimately show ?thesis unfolding build_shape_def by blast
qed

lemma buildPairs_shape:
  "chat_log_ok ms \<Longrightarrow> alternating ms \<Longrightarrow> build_inv ms n st \<Longrightarrow> build_shape n st \<Longrightarrow> even n \<Longrightarrow> n \<le> length ms \<Longrightarrow>
   buildPairs (map ci_id ms) (drop n ms) st = Inr st' \<Longrightarrow> build_shape (length ms) st'"
proof (induction "length ms - n" arbitrary: n st rule: less_induct)
  case less
  show ?case
  proof (cases "n = length ms")
    case False
    then have n: "Suc n < length ms" using less.prems by (auto simp: chat_log_ok_def) (metis Suc_lessI even_Suc le_neq_implies_less)
    then have drop: "drop n ms = ms ! n # ms ! Suc n # drop (Suc (Suc n)) ms" by (simp add: Cons_nth_drop_Suc)
    obtain st1 where st1: "addPair (map ci_id ms) (ms ! n) (ms ! Suc n) st = Inr st1" "round_effect ms n st st1"
      using addPair_effect [OF less.prems(1,3,5) n] by blast
    have "build_inv ms (Suc (Suc n)) st1" by (rule round_effect_inv [OF less.prems(1,3,5) n st1(2)])
    moreover have "build_shape (Suc (Suc n)) st1" by (rule round_effect_shape [OF less.prems(1-5) n st1(2)])
    ultimately show ?thesis using less.hyps [of "Suc (Suc n)" st1] less.prems n st1(1) drop by simp
  qed (use less.prems in simp)
qed

lemma subtrees_to_tree:
  assumes "\<forall>i<length h. \<forall>k\<in>set (cn_kids (h ! i)). i < k \<and> k < length h"
  shows "r < length h \<Longrightarrow> m \<in> set (subtrees (to_tree h r)) \<Longrightarrow> \<exists>k<length h. m = to_tree h k"
proof (induction "length h - r" arbitrary: r rule: less_induct)
  case less
  have kids: "\<forall>k\<in>set (cn_kids (h ! r)). r < k \<and> k < length h" using assms less.prems(1) by blast
  have "m = to_tree h r \<or> (\<exists>k\<in>set (cn_kids (h ! r)). m \<in> set (subtrees (to_tree h k)))"
    using less.prems(2) to_tree_kids [OF kids] by auto
  then show ?case
  proof (elim disjE bexE)
    fix k assume k: "k \<in> set (cn_kids (h ! r))" "m \<in> set (subtrees (to_tree h k))"
    then have "r < k" "k < length h" using kids by blast+
    then show ?thesis using less.hyps [of k] k(2) by simp
  qed (use less.prems in blast)
qed

lemma tree_messages_subtrees: "set (tree_messages n) = tree_item ` set (subtrees n)"
  by (induction n rule: tree_messages.induct) auto

lemma built_dialog:
  assumes "chat_log_ok ms" "alternating ms" "buildChatItemTree ms = Inr trees"
  shows "dialog trees"
proof -
  obtain st where st: "buildHeap ms = Inr st" "build_inv ms (length ms) st" by (rule buildHeap_inv [OF assms(1)])
  have "build_shape 0 emptyBuild" by (simp add: build_shape_def emptyBuild_def)
  then have shape: "build_shape (length ms) st"
    using buildPairs_shape [OF assms(1,2) empty_inv, of st] st(1) by (simp add: buildHeap_def)
  note inv = build_invD [OF st(2)] inv_facts [OF st(2) order_refl]
  let ?h = "cb_heap st"
  have kids: "\<forall>i<length ?h. \<forall>k\<in>set (cn_kids (?h ! i)). i < k \<and> k < length ?h" unfolding inv(9) by (rule inv(3))
  have node: "dialog_node (to_tree ?h k)" if "k < length ?h" for k
  proof -
    have k: "k < length ms" using that inv(9) by simp
    have below: "\<forall>j\<in>set (cn_kids (?h ! k)). k < j \<and> j < length ?h" using kids that by blast
    have answer: "is_answer (to_tree ?h j) = odd j" if "j < length ms" for j
      using that assms(2) inv(10) by (subst to_tree.simps) (simp add: is_answer_def alternating_def)
    have "if even k then kids_at st k = [Suc k] else list_all even (kids_at st k)"
      using shape k by (simp add: build_shape_def)
    moreover have "tree_kids (to_tree ?h k) = map (to_tree ?h) (cn_kids (?h ! k))" by (simp add: to_tree_kids [OF below])
    ultimately show ?thesis using answer k below inv(9)
      by (auto simp: dialog_node_def list_all_iff split: if_splits)
  qed
  have roots: "r < length ?h" if "r \<in> set (cb_roots st)" for r
  proof -
    have "r \<in># mset (cb_roots st) + mset (concat (map cn_kids ?h))" using that by simp
    then show ?thesis unfolding inv(4) inv(9) by simp
  qed
  have "trees = map (to_tree ?h) (cb_roots st)" using assms(3) st(1) by (simp add: buildChatItemTree_def)
  have "dialog_node m" if m: "m \<in> set (concat (map subtrees trees))" for m
  proof -
    obtain r where r: "r \<in> set (cb_roots st)" "m \<in> set (subtrees (to_tree ?h r))"
      using m by (auto simp: \<open>trees = _\<close>)
    then obtain k where "k < length ?h" "m = to_tree ?h k"
      using subtrees_to_tree [OF kids roots [OF r(1)] r(2)] by blast
    then show ?thesis using node by blast
  qed
  then show ?thesis unfolding dialog_def list_all_iff by blast
qed

text \<open>C14: Every message can be opened: for a list of alternating questions and answers as above, whose questions follow
  answers, and for any message of it, the thread cut out of the built tree is a path of the tree that contains the
  message, and no thread throws.
\<close>

theorem every_message_has_a_thread:
  assumes "chat_log_ok ms" and "alternating ms" and "msg \<in> set ms"
  shows "\<exists>trees ret. buildChatItemTree ms = Inr trees \<and> getThreadMessages trees (Some (ci_id msg)) = Inr ret \<and>
    tree_path trees (map ti_node ret) \<and> msg \<in> tree_item ` set (map ti_node ret)"
proof -
  obtain trees where trees: "buildChatItemTree ms = Inr trees" "mset (concat (map tree_messages trees)) = mset ms"
    using built_messages [OF assms(1)] by blast
  have ids: "tree_item ` set (concat (map subtrees trees)) = set ms"
    using arg_cong [OF trees(2), of set_mset] tree_messages_subtrees by (simp add: image_UN)
  have ne: "ci_id msg \<noteq> []" using assms(1,3) by (auto simp: chat_log_ok_def image_iff)
  obtain m where m: "m \<in> set (concat (map subtrees trees))" "tree_item m = msg"
    using assms(3) unfolding ids [symmetric] by (rule imageE) simp
  then have "ci_id msg \<in> chat_id ` set (concat (map subtrees trees))" by (force simp: chat_id_def)
  then obtain ret path n where ret: "getThreadMessages trees (Some (ci_id msg)) = Inr ret"
    "map ti_node ret = path @ last_kids n" "path \<noteq> []" "last path = n" "chat_id n = ci_id msg" "tree_path trees (map ti_node ret)"
    using thread_exists [OF built_dialog [OF assms(1,2) trees(1)] ne] by auto
  have "n \<in> set (map ti_node ret)" using ret(2-4) by auto
  moreover have "tree_item n = msg"
  proof -
    obtain i where "i < length (map ti_node ret)" "n = map ti_node ret ! i" using calculation by (metis in_set_conv_nth)
    then have "n \<in> set (concat (map subtrees trees))" using path_subtrees [OF ret(6)] by blast
    then have "tree_item n \<in> set ms" using ids by blast
    moreover have "ci_id (tree_item n) = ci_id msg" using ret(5) by (simp add: chat_id_def)
    ultimately show ?thesis using assms(1,3) inj_onD [of ci_id "set ms"] by (auto simp: chat_log_ok_def distinct_map)
  qed
  ultimately show ?thesis using trees(1) ret(1,6) by blast
qed

lemma sample_chat_alternating: "alternating sample_chat"
proof -
  have "[0, 1, 2, 3, 4, 5] = [0..<6]" by (simp add: upt_conv_Cons)
  then have six: "(\<forall>i<(6::nat). P i) = list_all P [0, 1, 2, 3, 4, 5]" for P
    by (simp only: list_all_iff set_upt) auto
  have "length sample_chat = 6" by (simp add: sample_chat_def Let_def)
  then show ?thesis
    unfolding alternating_def by (simp add: six) (simp add: sample_chat_def Let_def)
qed

theorem every_message_has_a_thread_witness:
  "\<exists>trees ret. buildChatItemTree sample_chat = Inr trees \<and> getThreadMessages trees (Some (ci_id (sample_chat ! 3))) = Inr ret \<and>
    sample_chat ! 3 \<in> tree_item ` set (map ti_node ret)"
proof -
  have "sample_chat ! 3 \<in> set sample_chat" by (simp add: sample_chat_def Let_def)
  then show ?thesis using every_message_has_a_thread [OF sample_chat_ok sample_chat_alternating] by blast
qed

end
