(* ===== verification/Chat_Log.thy ===== *)
theory Chat_Log
  imports Chat_Laws
begin

text \<open>
  The conversation panel of the application log, \<^verbatim>\<open>web/app/components/app/log/list-utils.ts\<close>: pages of older messages are
  put before the ones already fetched, the whole list becomes a tree under the introduction, and edits of annotations
  are applied to the list shown. Formatting of messages, which fills the other fields, is not modelled.
\<close>

section \<open>Pages\<close>

definition newItemsOf :: "chat_item list \<Rightarrow> chat_item list \<Rightarrow> chat_item list" where
  "newItemsOf prevItems newItems = filter (\<lambda>item. ci_id item \<notin> ci_id ` set prevItems) newItems"

definition mergeUniqueChatItems :: "chat_item list \<Rightarrow> chat_item list \<Rightarrow> chat_item list" where
  "mergeUniqueChatItems prevItems newItems = newItemsOf prevItems newItems @ prevItems"

definition mergePaginatedChatItems :: "nat \<Rightarrow> chat_item list \<Rightarrow> chat_item list \<Rightarrow> nat \<Rightarrow> chat_item list \<times> nat" where
  "mergePaginatedChatItems maxRetryCount newItems prevItems retryCount =
     (let uniqueNewItems = newItemsOf prevItems newItems
      in if uniqueNewItems = []
         then (if retryCount < maxRetryCount \<and> length prevItems > 1 then (prevItems, retryCount + 1) else (prevItems, 0))
         else (uniqueNewItems @ prevItems, 0))"

section \<open>The thread shown\<close>

record thread_state =
  chatItemTree :: "chat_tree list"
  oldestAnswerId :: "string option"
  threadChatItems :: "thread_item list"

definition introductionNode :: "string \<Rightarrow> chat_tree list \<Rightarrow> chat_tree" where
  "introductionNode introduction trees =
     ChatNode \<lparr>ci_id = ''introduction'', ci_content = introduction, ci_isAnswer = True, ci_isOpeningStatement = True,
               ci_parentMessageId = None, ci_annotation = None\<rparr> None trees"

definition buildChatThreadState :: "chat_item list \<Rightarrow> bool \<Rightarrow> string option \<Rightarrow> chat_error + thread_state" where
  "buildChatThreadState allChatItems hasMore introduction =
     (if allChatItems = [] then Inr \<lparr>chatItemTree = [], oldestAnswerId = None, threadChatItems = []\<rparr>
      else (case buildChatItemTree allChatItems of
              Inl e \<Rightarrow> Inl e
            | Inr built \<Rightarrow>
                (let trees = (case introduction of
                                Some txt \<Rightarrow> if \<not> hasMore \<and> txt \<noteq> [] then [introductionNode txt built] else built
                              | None \<Rightarrow> built)
                 in (case getThreadMessages trees (Some (ci_id (last allChatItems))) of
                       Inl e \<Rightarrow> Inl e
                     | Inr thread \<Rightarrow>
                         Inr \<lparr>chatItemTree = trees,
                              oldestAnswerId = map_option ci_id (find ci_isAnswer allChatItems),
                              threadChatItems = thread\<rparr>))))"

definition getThreadChatItems :: "chat_tree list \<Rightarrow> string \<Rightarrow> chat_error + thread_item list" where
  "getThreadChatItems trees siblingMessageId = getThreadMessages trees (Some siblingMessageId)"

section \<open>Annotations\<close>

text \<open>\<^verbatim>\<open>index\<close> is the place of the answer in the list shown; its question stands before it.\<close>

definition map_indexed :: "(int \<Rightarrow> 'a \<Rightarrow> 'a) \<Rightarrow> 'a list \<Rightarrow> 'a list" where
  "map_indexed f xs = map (\<lambda>(i, x). f (int i) x) (enumerate 0 xs)"

definition applyAnnotationEdited :: "chat_item list \<Rightarrow> string \<Rightarrow> string \<Rightarrow> int \<Rightarrow> chat_item list" where
  "applyAnnotationEdited items query answer index =
     map_indexed (\<lambda>currentIndex item.
       if currentIndex = index - 1 then item\<lparr>ci_content := query\<rparr>
       else if currentIndex = index then
         (let old = (case ci_annotation item of Some a \<Rightarrow> a | None \<Rightarrow> \<lparr>an_id = None, an_authorName = None, an_log = None\<rparr>);
              account = Option.bind (an_log old) la_account
          in item\<lparr>ci_annotation := Some (old\<lparr>an_log := Some \<lparr>la_content = answer, la_account = account\<rparr>\<rparr>)\<rparr>)
       else item) items"

definition applyAnnotationAdded ::
  "chat_item list \<Rightarrow> string \<Rightarrow> string \<Rightarrow> string \<Rightarrow> string \<Rightarrow> int \<Rightarrow> chat_item list" where
  "applyAnnotationAdded items annotationId authorName query answer index =
     map_indexed (\<lambda>currentIndex item.
       if currentIndex = index - 1 then item\<lparr>ci_content := query\<rparr>
       else if currentIndex = index then
         item\<lparr>ci_annotation := Some \<lparr>an_id = Some annotationId, an_authorName = Some authorName,
           an_log = Some \<lparr>la_content = answer, la_account = Some ([], authorName, [])\<rparr>\<rparr>\<rparr>
       else item) items"

definition applyAnnotationRemoved :: "chat_item list \<Rightarrow> int \<Rightarrow> chat_item list" where
  "applyAnnotationRemoved items index =
     map_indexed (\<lambda>currentIndex item. if currentIndex = index then item\<lparr>ci_annotation := None\<rparr> else item) items"

definition isNearTopLoadMore :: "int \<Rightarrow> int \<Rightarrow> int \<Rightarrow> bool" where
  "isNearTopLoadMore clientHeight scrollHeight scrollTop = (\<bar>scrollTop\<bar> > scrollHeight - clientHeight - 40)"

section \<open>Laws\<close>

text \<open>A page that overlaps what is already there adds exactly its older part.\<close>

lemma overlapping_page:
  assumes "ci_id ` set overlap \<subseteq> ci_id ` set prevItems" and "ci_id ` set older \<inter> ci_id ` set prevItems = {}"
  shows "mergeUniqueChatItems prevItems (older @ overlap) = older @ prevItems"
proof -
  have "newItemsOf prevItems older = older" using assms(2) by (auto simp: newItemsOf_def filter_id_conv)
  moreover have "newItemsOf prevItems overlap = []" using assms(1) by (auto simp: newItemsOf_def filter_empty_conv)
  ultimately show ?thesis by (simp add: mergeUniqueChatItems_def newItemsOf_def)
qed

lemma merge_distinct:
  "distinct (map ci_id prevItems) \<Longrightarrow> distinct (map ci_id newItems) \<Longrightarrow>
   distinct (map ci_id (fst (mergePaginatedChatItems m newItems prevItems r)))"
  by (auto simp: mergePaginatedChatItems_def newItemsOf_def Let_def distinct_map_filter)

lemma retries_bounded: "r \<le> m \<Longrightarrow> snd (mergePaginatedChatItems m newItems prevItems r) \<le> m"
  by (simp add: mergePaginatedChatItems_def Let_def)

lemma roots_are_questions:
  assumes "chat_log_ok ms" "alternating ms" "buildChatItemTree ms = Inr trees"
  shows "list_all (\<lambda>n. \<not> is_answer n) trees"
proof -
  obtain st where st: "buildHeap ms = Inr st" "build_inv ms (length ms) st" by (rule buildHeap_inv [OF assms(1)])
  have "build_shape 0 emptyBuild" by (simp add: build_shape_def emptyBuild_def)
  then have shape: "build_shape (length ms) st"
    using buildPairs_shape [OF assms(1,2) empty_inv, of st] st(1) by (simp add: buildHeap_def)
  note inv = build_invD [OF st(2)] inv_facts [OF st(2) order_refl]
  have "even r \<and> r < length ms" if r: "r \<in> set (cb_roots st)" for r
  proof -
    have one: "count (mset (cb_roots st)) r + count (mset (concat (map cn_kids (cb_heap st)))) r = count (mset [0..<length ms]) r"
      using arg_cong [OF inv(4), of "\<lambda>M. count M r"] by simp
    have root: "0 < count (mset (cb_roots st)) r" using r by simp
    then have lt: "r < length ms" using one by (metis add_is_0 atLeastLessThan_iff bot_nat_0.not_eq_extremum count_mset_0_iff set_upt)
    moreover have "even r"
    proof (rule ccontr)
      assume "odd r"
      then obtain q where q: "r = Suc q" "even q" by (metis even_Suc odd_pos Suc_pred')
      then have "kids_at st q = [r]" using shape lt by (simp add: build_shape_def)
      moreover have "cb_heap st ! q \<in> set (cb_heap st)" using inv(9) lt q by simp
      ultimately have "r \<in> set (concat (map cn_kids (cb_heap st)))" by auto (metis list.set_intros(1))
      then have "0 < count (mset (concat (map cn_kids (cb_heap st)))) r" by (simp add: count_greater_zero_iff)
      moreover have "count (mset [0..<length ms]) r \<le> 1"
        using distinct_count_atmost_1 [of "[0..<length ms]"] by (simp split: if_splits)
      ultimately show False using one root by linarith
    qed
    ultimately show ?thesis by simp
  qed
  moreover have "\<not> is_answer (to_tree (cb_heap st) r)" if "even r" "r < length ms" for r
    using that assms(2) inv(10) by (subst to_tree.simps) (simp add: is_answer_def alternating_def)
  ultimately show ?thesis using assms(3) st(1) by (auto simp: buildChatItemTree_def list_all_iff)
qed

lemma dialog_introduction:
  "dialog trees \<Longrightarrow> list_all (\<lambda>n. \<not> is_answer n) trees \<Longrightarrow> dialog [introductionNode txt trees]"
  by (simp add: dialog_def introductionNode_def dialog_node_def is_answer_def)

lemma thread_contains:
  assumes "dialog trees" "m \<in> set (concat (map subtrees trees))" "chat_id m \<noteq> []"
    and unique: "\<And>n. n \<in> set (concat (map subtrees trees)) \<Longrightarrow> chat_id n = chat_id m \<Longrightarrow> tree_item n = tree_item m"
  obtains ret where "getThreadMessages trees (Some (chat_id m)) = Inr ret" "tree_path trees (map ti_node ret)"
    "tree_item m \<in> tree_item ` set (map ti_node ret)"
proof -
  have "chat_id m \<in> chat_id ` set (concat (map subtrees trees))" using assms(2) by blast
  then obtain ret path n where ret: "getThreadMessages trees (Some (chat_id m)) = Inr ret"
    "map ti_node ret = path @ last_kids n" "path \<noteq> []" "last path = n" "chat_id n = chat_id m" "tree_path trees (map ti_node ret)"
    using thread_exists [OF assms(1,3)] by auto
  have n: "n \<in> set (map ti_node ret)" using ret(2-4) by auto
  then obtain i where "i < length (map ti_node ret)" "n = map ti_node ret ! i" by (metis in_set_conv_nth)
  then have "n \<in> set (concat (map subtrees trees))" using path_subtrees [OF ret(6)] by blast
  then have "tree_item n = tree_item m" using unique ret(5) by blast
  then have "tree_item m \<in> tree_item ` set (map ti_node ret)" using n by (metis imageI)
  then show ?thesis using that ret(1,6) by blast
qed

text \<open>The conversation panel opens at the newest message: for a fetched list in order, with or without older pages and
  with or without an introduction, the state is built without an exception, its thread is a path of its tree that
  contains the last message of the list, and once everything is fetched the thread begins with the introduction.
\<close>

theorem conversation_opens_at_newest_message:
  assumes "chat_log_ok ms" and "alternating ms" and "ms \<noteq> []" and "ci_id (last ms) \<noteq> ''introduction''"
  shows "\<exists>s. buildChatThreadState ms hasMore introduction = Inr s \<and>
    tree_path (chatItemTree s) (map ti_node (threadChatItems s)) \<and>
    last ms \<in> tree_item ` set (map ti_node (threadChatItems s)) \<and>
    (\<forall>txt. \<not> hasMore \<and> introduction = Some txt \<and> txt \<noteq> [] \<longrightarrow>
       ci_content (tree_item (ti_node (hd (threadChatItems s)))) = txt)"
proof -
  obtain built where built: "buildChatItemTree ms = Inr built" "mset (concat (map tree_messages built)) = mset ms"
    using built_messages [OF assms(1)] by blast
  note dialog = built_dialog [OF assms(1,2) built(1)]
  let ?trees = "case introduction of
      Some txt \<Rightarrow> if \<not> hasMore \<and> txt \<noteq> [] then [introductionNode txt built] else built | None \<Rightarrow> built"
  have d: "dialog ?trees"
    using dialog dialog_introduction [OF dialog roots_are_questions [OF assms(1,2) built(1)]]
    by (simp split: option.split)
  have ids: "tree_item ` set (concat (map subtrees built)) = set ms"
    using arg_cong [OF built(2), of set_mset] tree_messages_subtrees by (simp add: image_UN)
  have "last ms \<in> tree_item ` set (concat (map subtrees built))" using assms(3) ids by simp
  then obtain m where m: "m \<in> set (concat (map subtrees built))" "tree_item m = last ms" by (rule imageE) simp
  have sub: "set (concat (map subtrees built)) \<subseteq> set (concat (map subtrees ?trees))"
    by (auto simp: introductionNode_def split: option.split)
  have unique: "tree_item n = tree_item m"
    if n: "n \<in> set (concat (map subtrees ?trees))" "chat_id n = chat_id m" for n
  proof -
    have "n \<in> set (concat (map subtrees built)) \<or> chat_id n = ''introduction''"
      using n(1) by (auto simp: introductionNode_def chat_id_def split: option.splits if_splits)
    moreover have "chat_id m \<noteq> ''introduction''" using m(2) assms(4) by (simp add: chat_id_def)
    ultimately have "tree_item n \<in> set ms" using n(2) ids by auto
    moreover have "ci_id (tree_item n) = ci_id (last ms)" using n(2) m(2) by (simp add: chat_id_def)
    moreover have "inj_on ci_id (set ms)" using assms(1) by (simp add: chat_log_ok_def distinct_map)
    ultimately show ?thesis using m(2) assms(3) by (metis inj_onD last_in_set)
  qed
  have "ci_id (last ms) \<in> set (map ci_id ms)" using last_in_set [OF assms(3)] by simp
  then have "ci_id (last ms) \<noteq> []" using assms(1) unfolding chat_log_ok_def by metis
  then have ne: "chat_id m \<noteq> []" by (simp add: chat_id_def m(2))
  have "m \<in> set (concat (map subtrees ?trees))" using m(1) sub by blast
  then obtain ret where ret: "getThreadMessages ?trees (Some (chat_id m)) = Inr ret" "tree_path ?trees (map ti_node ret)"
    "tree_item m \<in> tree_item ` set (map ti_node ret)"
    by (rule thread_contains [OF d _ ne unique])
  let ?s = "\<lparr>chatItemTree = ?trees, oldestAnswerId = map_option ci_id (find ci_isAnswer ms), threadChatItems = ret\<rparr>"
  have "buildChatThreadState ms hasMore introduction = Inr ?s"
    using assms(3) built(1) ret(1) m(2) by (simp add: buildChatThreadState_def chat_id_def Let_def)
  moreover have "ci_content (tree_item (ti_node (hd ret))) = t"
    if "\<not> hasMore \<and> introduction = Some t \<and> t \<noteq> []" for t
  proof -
    have "ti_node (hd ret) = introductionNode t built" using ret(2) that by (auto simp: tree_path_def hd_map)
    then show ?thesis by (simp add: introductionNode_def)
  qed
  moreover have "last ms \<in> tree_item ` set (map ti_node ret)" using ret(3) unfolding m(2) .
  ultimately show ?thesis
    using ret(2)
    by (intro exI [of _ ?s] conjI allI impI) (unfold thread_state.simps, blast+)
qed

theorem conversation_opens_at_newest_message_witness:
  "\<exists>s. buildChatThreadState sample_chat False (Some ''hi'') = Inr s \<and>
    ci_content (tree_item (ti_node (hd (threadChatItems s)))) = ''hi''"
proof -
  have "sample_chat \<noteq> []" "ci_id (last sample_chat) \<noteq> ''introduction''" by (simp_all add: sample_chat_def Let_def)
  from conversation_opens_at_newest_message [OF sample_chat_ok sample_chat_alternating this, of False "Some ''hi''"]
  show ?thesis by auto
qed

end
