(* ===== verification/Cli_Errors.thy ===== *)
theory Cli_Errors
  imports Json_Text
begin

text \<open>
  The errors of the command line client: \<^verbatim>\<open>cli/src/errors/\<close> (codes, exit codes, envelopes and their
  texts), \<^verbatim>\<open>http/sanitize.ts\<close> and the classification of responses in \<^verbatim>\<open>http/error-mapper.ts\<close>. The
  cause that an error carries for the debugger is left out. Bodies are the texts the client reads;
  \<^verbatim>\<open>safeParse\<close> is the check of the generated schema \<^verbatim>\<open>zErrorBody\<close>.
\<close>

section \<open>Bearer tokens in texts\<close>

text \<open>One match of \<^verbatim>\<open>/Bearer\s+([\w.~+/=-]+)/\<close> at the start of a text: what follows it.\<close>

definition bearer_char :: "char \<Rightarrow> bool" where
  "bearer_char c =
     (let n = (of_char c :: nat)
      in 48 \<le> n \<and> n \<le> 57 \<or> 65 \<le> n \<and> n \<le> 90 \<or> 97 \<le> n \<and> n \<le> 122 \<or> c \<in> set ''_.~+/=-'')"

definition bearer_match :: "string \<Rightarrow> string option" where
  "bearer_match s =
     (if \<not> startsWith s ''Bearer'' then None
      else (let r = drop 6 s; r1 = dropWhile is_space r
            in if takeWhile is_space r = [] \<or> takeWhile bearer_char r1 = [] then None
               else Some (dropWhile bearer_char r1)))"

lemma length_bearer_match: "bearer_match s = Some r \<Longrightarrow> length r < length s"
proof -
  assume "bearer_match s = Some r"
  then have r: "r = dropWhile bearer_char (dropWhile is_space (drop 6 s))" and "s \<noteq> []"
    by (auto simp: bearer_match_def Let_def startsWith_def split: if_splits)
  have "length r \<le> length (drop 6 s)"
    unfolding r using length_dropWhile_le length_dropWhile_le by (rule order_trans)
  also have "length (drop 6 s) < length s" using \<open>s \<noteq> []\<close> by (cases s) auto
  finally show ?thesis .
qed

function redactBearer :: "string \<Rightarrow> string" where
  "redactBearer [] = []"
| "redactBearer (c # s) =
     (case bearer_match (c # s) of
        Some r \<Rightarrow> ''Bearer [redacted]'' @ redactBearer r
      | None \<Rightarrow> c # redactBearer s)"
  by pat_completeness auto
termination
  by (relation "measure length") (auto dest: length_bearer_match)

section \<open>Codes\<close>

datatype error_code =
    NotLoggedIn | AuthExpired | TokenExpired | AccessDenied | ExpiredToken | VersionSkew | UnsupportedEndpoint
  | ConfigSchemaUnsupported | UsageInvalidFlag | UsageMissingArg | ConfigInvalidKey | ConfigInvalidValue
  | NetworkConnection | RateLimited | Server5xx | Server4xxOther | ClientError | Unknown | IllegalArgumentError
  | Keyring_Unavailable

fun code_text :: "error_code \<Rightarrow> string" where
  "code_text NotLoggedIn = ''not_logged_in''"
| "code_text AuthExpired = ''auth_expired''"
| "code_text TokenExpired = ''token_expired''"
| "code_text AccessDenied = ''access_denied''"
| "code_text ExpiredToken = ''expired_token''"
| "code_text VersionSkew = ''version_skew''"
| "code_text UnsupportedEndpoint = ''unsupported_endpoint''"
| "code_text ConfigSchemaUnsupported = ''config_schema_unsupported''"
| "code_text UsageInvalidFlag = ''usage_invalid_flag''"
| "code_text UsageMissingArg = ''usage_missing_arg''"
| "code_text ConfigInvalidKey = ''config_invalid_key''"
| "code_text ConfigInvalidValue = ''config_invalid_value''"
| "code_text NetworkConnection = ''network_connection''"
| "code_text RateLimited = ''rate_limited''"
| "code_text Server5xx = ''server_5xx''"
| "code_text Server4xxOther = ''server_4xx_other''"
| "code_text ClientError = ''client_error''"
| "code_text Unknown = ''unknown''"
| "code_text IllegalArgumentError = ''illegal_argument''"
| "code_text Keyring_Unavailable = ''keyring_unavailable''"

definition ExitGeneric :: nat where "ExitGeneric = 1"
definition ExitUsage :: nat where "ExitUsage = 2"
definition ExitAuth :: nat where "ExitAuth = 4"
definition ExitVersionCompat :: nat where "ExitVersionCompat = 6"
definition ExitRateLimited :: nat where "ExitRateLimited = 7"

definition CODE_TO_EXIT :: "(string \<times> nat) list" where
  "CODE_TO_EXIT =
     [(''not_logged_in'', ExitAuth), (''auth_expired'', ExitAuth), (''token_expired'', ExitAuth),
      (''access_denied'', ExitAuth), (''expired_token'', ExitAuth), (''version_skew'', ExitVersionCompat),
      (''unsupported_endpoint'', ExitVersionCompat), (''config_schema_unsupported'', ExitVersionCompat),
      (''usage_invalid_flag'', ExitUsage), (''usage_missing_arg'', ExitUsage), (''config_invalid_key'', ExitUsage),
      (''config_invalid_value'', ExitUsage), (''network_connection'', ExitGeneric),
      (''rate_limited'', ExitRateLimited), (''server_5xx'', ExitGeneric), (''server_4xx_other'', ExitGeneric),
      (''client_error'', ExitGeneric), (''unknown'', ExitGeneric), (''illegal_argument'', ExitUsage),
      (''keyring_unavailable'', ExitGeneric)]"

definition exitFor :: "string \<Rightarrow> nat" where
  "exitFor code = (case map_of CODE_TO_EXIT code of Some n \<Rightarrow> n | None \<Rightarrow> ExitGeneric)"

section \<open>The body of an error response\<close>

text \<open>A property that may be missing or \<^verbatim>\<open>null\<close> (\<^verbatim>\<open>nullish\<close> in the schema).\<close>

datatype 'a maybe = Absent | NullValue | Given 'a

fun given :: "'a maybe \<Rightarrow> 'a option" where
  "given (Given x) = Some x"
| "given _ = None"

datatype loc_part = LocKey string | LocIndex int

record error_detail =
  det_loc :: "loc_part list"
  det_msg :: string
  det_type :: string

record error_body =
  eb_code :: string
  eb_details :: "error_detail list maybe"
  eb_hint :: "string maybe"
  eb_message :: string
  eb_status :: int

fun collect_all :: "('a \<Rightarrow> 'b option) \<Rightarrow> 'a list \<Rightarrow> 'b list option" where
  "collect_all f [] = Some []"
| "collect_all f (x # xs) =
     (case f x of None \<Rightarrow> None | Some y \<Rightarrow> map_option ((#) y) (collect_all f xs))"

text \<open>\<^verbatim>\<open>z.int()\<close> takes the integers that a double holds exactly.\<close>

fun int_of_val :: "jsval \<Rightarrow> int option" where
  "int_of_val (JNum (Finite x)) =
     (if x = of_int \<lfloor>x\<rfloor> \<and> \<bar>\<lfloor>x\<rfloor>\<bar> \<le> 2 ^ 53 - 1 then Some \<lfloor>x\<rfloor> else None)"
| "int_of_val _ = None"

fun loc_of_val :: "jsval \<Rightarrow> loc_part option" where
  "loc_of_val (JStr s) = Some (LocKey s)"
| "loc_of_val v = map_option LocIndex (int_of_val v)"

fun nullish_of :: "(jsval \<Rightarrow> 'a option) \<Rightarrow> jsval \<Rightarrow> 'a maybe option" where
  "nullish_of f JUndefined = Some Absent"
| "nullish_of f JNull = Some NullValue"
| "nullish_of f v = map_option Given (f v)"

fun list_of_val :: "(jsval \<Rightarrow> 'a option) \<Rightarrow> jsval \<Rightarrow> 'a list option" where
  "list_of_val f (JArr vs) = collect_all f vs"
| "list_of_val f _ = None"

text \<open>The location of a detail has the empty list as its default.\<close>

fun zErrorDetail :: "jsval \<Rightarrow> error_detail option" where
  "zErrorDetail (JObj ob) =
     (case (if obj_get ob ''loc'' = JUndefined then Some [] else list_of_val loc_of_val (obj_get ob ''loc''),
            str_of (obj_get ob ''msg''), str_of (obj_get ob ''type'')) of
        (Some l, Some m, Some ty) \<Rightarrow> Some \<lparr>det_loc = l, det_msg = m, det_type = ty\<rparr>
      | _ \<Rightarrow> None)"
| "zErrorDetail _ = None"

fun zErrorBody :: "jsval \<Rightarrow> error_body option" where
  "zErrorBody (JObj ob) =
     (case (str_of (obj_get ob ''code''), nullish_of (list_of_val zErrorDetail) (obj_get ob ''details''),
            nullish_of str_of (obj_get ob ''hint''), str_of (obj_get ob ''message''), int_of_val (obj_get ob ''status'')) of
        (Some c, Some ds, Some h, Some m, Some st) \<Rightarrow>
          Some \<lparr>eb_code = c, eb_details = ds, eb_hint = h, eb_message = m, eb_status = st\<rparr>
      | _ \<Rightarrow> None)"
| "zErrorBody _ = None"

definition parseServerError :: "string \<Rightarrow> error_body option" where
  "parseServerError raw = (if raw = [] then None else (case json_parse raw of None \<Rightarrow> None | Some v \<Rightarrow> zErrorBody v))"

section \<open>Errors and their envelopes\<close>

text \<open>\<^verbatim>\<open>HttpClientError\<close> adds the optional facts of a request to a \<^verbatim>\<open>BaseError\<close>.\<close>

record http_facts =
  hf_status :: "int option"
  hf_method :: "string option"
  hf_url :: "string option"
  hf_raw :: "string option"
  hf_server :: "error_body option"

record api_error =
  ae_code :: error_code
  ae_message :: string
  ae_hint :: "string option"
  ae_http :: "http_facts option"

definition newError :: "error_code \<Rightarrow> string \<Rightarrow> api_error" where
  "newError c msg = \<lparr>ae_code = c, ae_message = msg, ae_hint = None, ae_http = None\<rparr>"

definition withHint :: "string \<Rightarrow> api_error \<Rightarrow> api_error" where
  "withHint h e = e\<lparr>ae_hint := Some h\<rparr>"

definition exit_code :: "api_error \<Rightarrow> nat" where
  "exit_code e = exitFor (code_text (ae_code e))"

fun loc_json :: "loc_part \<Rightarrow> jsval" where
  "loc_json (LocKey s) = JStr s"
| "loc_json (LocIndex i) = JNum (Finite (of_int i))"

definition detail_json :: "error_detail \<Rightarrow> jsval" where
  "detail_json d =
     JObj [(''loc'', JArr (map loc_json (det_loc d))), (''msg'', JStr (det_msg d)), (''type'', JStr (det_type d))]"

fun maybe_json :: "('a \<Rightarrow> jsval) \<Rightarrow> 'a maybe \<Rightarrow> jsval" where
  "maybe_json f Absent = JUndefined"
| "maybe_json f NullValue = JNull"
| "maybe_json f (Given x) = f x"

definition body_json :: "error_body \<Rightarrow> jsval" where
  "body_json b =
     JObj [(''code'', JStr (eb_code b)), (''details'', maybe_json (\<lambda>ds. JArr (map detail_json ds)) (eb_details b)),
           (''hint'', maybe_json JStr (eb_hint b)), (''message'', JStr (eb_message b)),
           (''status'', JNum (Finite (of_int (eb_status b))))]"

text \<open>The envelope keeps the fields in the order of their assignments.\<close>

record envelope =
  en_code :: string
  en_message :: string
  en_hint :: "string option"
  en_facts :: http_facts

definition no_facts :: http_facts where
  "no_facts = \<lparr>hf_status = None, hf_method = None, hf_url = None, hf_raw = None, hf_server = None\<rparr>"

definition toEnvelope :: "api_error \<Rightarrow> envelope" where
  "toEnvelope e =
     \<lparr>en_code = code_text (ae_code e), en_message = ae_message e, en_hint = ae_hint e,
      en_facts = (case ae_http e of None \<Rightarrow> no_facts | Some f \<Rightarrow> f)\<rparr>"

definition opt_field :: "string \<Rightarrow> ('a \<Rightarrow> jsval) \<Rightarrow> 'a option \<Rightarrow> jsobj" where
  "opt_field k f v = (case v of None \<Rightarrow> [] | Some x \<Rightarrow> [(k, f x)])"

definition envelope_json :: "envelope \<Rightarrow> jsval" where
  "envelope_json en =
     JObj [(''error'', JObj ([(''code'', JStr (en_code en)), (''message'', JStr (en_message en))]
       @ opt_field ''hint'' JStr (en_hint en)
       @ opt_field ''http_status'' (\<lambda>n. JNum (Finite (of_int n))) (hf_status (en_facts en))
       @ opt_field ''method'' JStr (hf_method (en_facts en))
       @ opt_field ''url'' JStr (hf_url (en_facts en))
       @ opt_field ''raw_response'' JStr (hf_raw (en_facts en))
       @ opt_field ''server'' body_json (hf_server (en_facts en))))]"

section \<open>Printing\<close>

text \<open>The verbose switch and the two colours of the terminal are arguments.\<close>

definition RAW_RESPONSE_HINT :: string where
  "RAW_RESPONSE_HINT = ''run again with -v to see the raw server response''"

definition renderEnvelope :: "bool \<Rightarrow> (real \<Rightarrow> string) \<Rightarrow> envelope \<Rightarrow> string" where
  "renderEnvelope verbose repr en =
     (case hf_raw (en_facts en) of
        None \<Rightarrow> json_text repr (envelope_json en)
      | Some raw \<Rightarrow>
          json_text repr (envelope_json
            (en\<lparr>en_facts := (en_facts en)\<lparr>hf_raw := (if verbose then Some (redactBearer raw) else None)\<rparr>\<rparr>)))"

definition nonempty :: "string option \<Rightarrow> bool" where
  "nonempty v = (v \<noteq> None \<and> v \<noteq> Some [])"

definition resolveHint :: "bool \<Rightarrow> envelope \<Rightarrow> string option" where
  "resolveHint verbose en =
     (case en_hint en of
        Some h \<Rightarrow> Some h
      | None \<Rightarrow>
          (case Option.bind (hf_server (en_facts en)) (given \<circ> eb_hint) of
             Some h \<Rightarrow> Some h
           | None \<Rightarrow>
               (if hf_server (en_facts en) = None \<and> nonempty (hf_raw (en_facts en)) \<and> \<not> verbose
                then Some RAW_RESPONSE_HINT else None)))"

fun loc_text :: "loc_part \<Rightarrow> string" where
  "loc_text (LocKey s) = s"
| "loc_text (LocIndex i) = string_of_int i"

definition detail_line :: "error_detail \<Rightarrow> string" where
  "detail_line d =
     (let l = join ''.'' (map loc_text (det_loc d))
      in ''  - '' @ (if l = [] then [] else l @ '': '') @ det_msg d @ '' ('' @ det_type d @ '')'')"

definition renderHuman :: "bool \<Rightarrow> (string \<Rightarrow> string) \<Rightarrow> (string \<Rightarrow> string) \<Rightarrow> envelope \<Rightarrow> string" where
  "renderHuman verbose magenta_ink cyan_ink en =
     (let f = en_facts en;
          header = (case hf_server f of None \<Rightarrow> en_code en | Some b \<Rightarrow> eb_code b);
          details = (case Option.bind (hf_server f) (given \<circ> eb_details) of None \<Rightarrow> [] | Some ds \<Rightarrow> ds)
      in join [CHR 0x0A]
        ([header @ '': '' @ en_message en]
         @ map detail_line details
         @ (case resolveHint verbose en of None \<Rightarrow> [] | Some h \<Rightarrow> [magenta_ink ''hint:'' @ '' '' @ cyan_ink h])
         @ (case (hf_method f, hf_url f) of (Some mt, Some u) \<Rightarrow> [''request: '' @ mt @ '' '' @ u] | _ \<Rightarrow> [])
         @ (case hf_status f of None \<Rightarrow> [] | Some n \<Rightarrow> [''http_status: '' @ string_of_int n])
         @ (case hf_raw f of
              Some raw \<Rightarrow> if verbose \<and> raw \<noteq> [] then [''raw_response: '' @ redactBearer raw] else []
            | None \<Rightarrow> [])))"

text \<open>Colours are used on a terminal unless one of two variables forbids them.\<close>

definition colorEnabled :: "(string \<Rightarrow> string option) \<Rightarrow> bool \<Rightarrow> bool" where
  "colorEnabled env isTTY =
     (if nonempty (env ''NO_COLOR'') then False
      else if nonempty (env ''DIFYCTL_NO_COLOR'') then False
      else isTTY)"

definition formatErrorForCli ::
  "bool \<Rightarrow> (real \<Rightarrow> string) \<Rightarrow> (string \<Rightarrow> string) \<Rightarrow> (string \<Rightarrow> string) \<Rightarrow> string \<Rightarrow> api_error \<Rightarrow> string" where
  "formatErrorForCli verbose repr magenta_ink cyan_ink format e =
     (if format = ''json'' then renderEnvelope verbose repr (toEnvelope e)
      else renderHuman verbose magenta_ink cyan_ink (toEnvelope e))"

section \<open>Classifying a response\<close>

record status_class =
  sc_code :: error_code
  sc_fallback :: "int \<Rightarrow> string"
  sc_hint :: "string option"
  sc_raw :: bool

definition AUTH_EXPIRED_CLASS :: status_class where
  "AUTH_EXPIRED_CLASS =
     \<lparr>sc_code = AuthExpired, sc_fallback = (\<lambda>_. ''session expired or revoked''),
      sc_hint = Some (''run '' @ [CHR 0x27] @ ''difyctl auth login'' @ [CHR 0x27] @ '' to sign in again''), sc_raw = False\<rparr>"

definition SERVER_5XX_CLASS :: status_class where
  "SERVER_5XX_CLASS =
     \<lparr>sc_code = Server5xx, sc_fallback = (\<lambda>n. ''server error (HTTP '' @ string_of_int n @ '')''), sc_hint = None, sc_raw = True\<rparr>"

definition SERVER_4XX_CLASS :: status_class where
  "SERVER_4XX_CLASS =
     \<lparr>sc_code = Server4xxOther, sc_fallback = (\<lambda>n. ''request failed (HTTP '' @ string_of_int n @ '')''), sc_hint = None, sc_raw = True\<rparr>"

definition RATE_LIMITED_CLASS :: status_class where
  "RATE_LIMITED_CLASS =
     \<lparr>sc_code = RateLimited, sc_fallback = (\<lambda>_. ''too many requests''), sc_hint = None, sc_raw = False\<rparr>"

definition ACCESS_DENIED_CLASS :: status_class where
  "ACCESS_DENIED_CLASS =
     \<lparr>sc_code = AccessDenied, sc_fallback = (\<lambda>_. ''not permitted''), sc_hint = None, sc_raw = False\<rparr>"

definition statusClass :: "int \<Rightarrow> status_class" where
  "statusClass status =
     (if status = 401 then AUTH_EXPIRED_CLASS
      else if status = 403 then ACCESS_DENIED_CLASS
      else if status = 429 then RATE_LIMITED_CLASS
      else if status \<ge> 500 then SERVER_5XX_CLASS
      else SERVER_4XX_CLASS)"

text \<open>A response: its body is \<open>None\<close> when reading it fails.\<close>

record response =
  rs_status :: int
  rs_headers :: "(string \<times> string) list"
  rs_body :: "string option"
  rs_url :: string

definition response_ok :: "response \<Rightarrow> bool" where
  "response_ok rs = (200 \<le> rs_status rs \<and> rs_status rs \<le> 299)"

definition body_text :: "response \<Rightarrow> string" where
  "body_text rs = (case rs_body rs of None \<Rightarrow> [] | Some raw \<Rightarrow> raw)"

definition classifyResponse :: "string \<Rightarrow> string \<Rightarrow> response \<Rightarrow> api_error" where
  "classifyResponse rqMethod rqUrl rs =
     (let raw = body_text rs; serverError = parseServerError raw; c = statusClass (rs_status rs)
      in \<lparr>ae_code = sc_code c,
          ae_message = (case serverError of Some b \<Rightarrow> eb_message b | None \<Rightarrow> sc_fallback c (rs_status rs)),
          ae_hint = sc_hint c,
          ae_http = Some \<lparr>hf_status = Some (rs_status rs), hf_method = Some rqMethod,
            hf_url = Some (redactBearer (if rs_url rs = [] then rqUrl else rs_url rs)),
            hf_raw = (if sc_raw c \<and> raw \<noteq> [] then Some raw else None), hf_server = serverError\<rparr>\<rparr>)"

text \<open>What a rejected \<^verbatim>\<open>fetch\<close> or a hook throws: an error of the client, another \<^verbatim>\<open>Error\<close> with its
  message, or a value with its text.\<close>

datatype thrown = ApiThrown api_error | ErrorThrown string | ValueThrown string

definition classifyTransportError :: "thrown \<Rightarrow> api_error" where
  "classifyTransportError err =
     (case err of
        ApiThrown e \<Rightarrow> e
      | ValueThrown str \<Rightarrow> newError Unknown str
      | ErrorThrown msg \<Rightarrow> newError NetworkConnection (redactBearer msg))"

end
