(* ===== verification/Http_Client.thy ===== *)
theory Http_Client
  imports Cli_Errors
begin

text \<open>
  The HTTP client of the command line client: \<^verbatim>\<open>cli/src/http/client.ts\<close> with its retry policy
  (\<^verbatim>\<open>retry.ts\<close>, \<^verbatim>\<open>rate-limit.ts\<close>), hooks (\<^verbatim>\<open>hooks.ts\<close>), bodies and URLs (\<^verbatim>\<open>body.ts\<close>, \<^verbatim>\<open>url.ts\<close>) and
  the adapter \<^verbatim>\<open>orpc.ts\<close>. The network is the argument \<open>he_net\<close>: what \<^verbatim>\<open>fetch\<close> answers to the request of
  an attempt. The clock, random numbers, the date parser and the URL parser of the platform are arguments too.
  Sleeping is the list of the waits. Durations in log events and the stack of an error are left out.
\<close>

section \<open>Requests\<close>

type_synonym headers = "(string \<times> string) list"

text \<open>Names of headers are kept in lower case; appending to a header that exists joins the values.\<close>

definition hdr_has :: "headers \<Rightarrow> string \<Rightarrow> bool" where
  "hdr_has hs k = (map_of hs (toLowerCase k) \<noteq> None)"

definition hdr_set :: "string \<Rightarrow> string \<Rightarrow> headers \<Rightarrow> headers" where
  "hdr_set k v hs = obj_set (toLowerCase k) v hs"

definition hdr_append :: "headers \<Rightarrow> string \<times> string \<Rightarrow> headers" where
  "hdr_append hs kv =
     (case map_of hs (toLowerCase (fst kv)) of
        None \<Rightarrow> hdr_set (fst kv) (snd kv) hs
      | Some v \<Rightarrow> hdr_set (fst kv) (v @ '', '' @ snd kv) hs)"

definition newHeaders :: "(string \<times> string) list \<Rightarrow> headers" where
  "newHeaders xs = foldl hdr_append [] xs"

text \<open>What a caller passes as \<^verbatim>\<open>json\<close>: data, or an object of a class or function (a buffer, a form).\<close>

record foreign =
  fo_typeof :: string
  fo_buffer :: bool
  fo_form :: bool
  fo_toJSON :: "jsval option"
  fo_text :: string

datatype json_arg = Data jsval | Foreign foreign

datatype wire_body = TextBody string | RawBody json_arg

record request =
  rq_method :: string
  rq_url :: string
  rq_headers :: headers
  rq_body :: "wire_body option"
  rq_used :: bool

section \<open>Bodies and URLs\<close>

fun isJSONSerializable :: "json_arg \<Rightarrow> bool" where
  "isJSONSerializable (Data JUndefined) = False"
| "isJSONSerializable (Data (JObj ob)) = (obj_get ob ''buffer'' = JUndefined)"
| "isJSONSerializable (Data _) = True"
| "isJSONSerializable (Foreign f) =
     (fo_typeof f = ''object'' \<and> \<not> fo_buffer f \<and> \<not> fo_form f \<and> fo_toJSON f \<noteq> None)"

fun stringify :: "(real \<Rightarrow> string) \<Rightarrow> json_arg \<Rightarrow> string option" where
  "stringify repr (Data v) = (if v = JUndefined then None else Some (json_text repr v))"
| "stringify repr (Foreign f) =
     (case fo_toJSON f of None \<Rightarrow> Some ''{}'' | Some v \<Rightarrow> if v = JUndefined then None else Some (json_text repr v))"

definition buildBody :: "(real \<Rightarrow> string) \<Rightarrow> json_arg \<Rightarrow> json_arg option \<Rightarrow> string \<Rightarrow> wire_body option \<times> string option" where
  "buildBody repr json body rqMethod =
     (let payload = (rqMethod \<noteq> ''GET'' \<and> rqMethod \<noteq> ''HEAD'')
      in if json \<noteq> Data JUndefined then
           (if \<not> payload then (None, None)
            else if isJSONSerializable json then (map_option TextBody (stringify repr json), Some ''application/json'')
            else (Some (RawBody json), None))
         else if body \<noteq> None \<and> payload then (map_option RawBody body, None)
         else (None, None))"

definition joinURL :: "string \<Rightarrow> string \<Rightarrow> string" where
  "joinURL base path =
     (if base = [] \<or> base = ''/'' then (if path = [] then ''/'' else path)
      else if path = [] \<or> path = ''/'' then base
      else (let trailing = endsWith base ''/''; leading = startsWith path ''/''
            in if trailing \<and> leading then base @ drop 1 path
               else if \<not> trailing \<and> \<not> leading then base @ ''/'' @ path
               else base @ path))"

text \<open>\<^verbatim>\<open>URLSearchParams\<close>: the form encoding of the bytes of a text.\<close>

definition utf8 :: "char \<Rightarrow> nat list" where
  "utf8 c = (let n = of_char c in if n < 128 then [n] else [192 + n div 64, 128 + n mod 64])"

definition upper_hex :: "nat \<Rightarrow> char" where
  "upper_hex d = (if d < 10 then char_of (48 + d) else char_of (55 + d))"

definition form_byte :: "nat \<Rightarrow> string" where
  "form_byte n =
     (if n = 32 then ''+''
      else if 48 \<le> n \<and> n \<le> 57 \<or> 65 \<le> n \<and> n \<le> 90 \<or> 97 \<le> n \<and> n \<le> 122 \<or> n \<in> {42, 45, 46, 95} then [char_of n]
      else [CHR ''%'', upper_hex (n div 16), upper_hex (n mod 16)])"

definition form_text :: "string \<Rightarrow> string" where
  "form_text s = concat (map form_byte (concat (map utf8 s)))"

fun param_text :: "(real \<Rightarrow> string) \<Rightarrow> jsval \<Rightarrow> string" where
  "param_text repr (JStr s) = s"
| "param_text repr (JBool b) = (if b then ''true'' else ''false'')"
| "param_text repr (JNum NaN) = ''NaN''"
| "param_text repr (JNum Infinity) = ''Infinity''"
| "param_text repr (JNum NegInfinity) = ''-Infinity''"
| "param_text repr v = json_text repr v"

definition appendSearchParams :: "(real \<Rightarrow> string) \<Rightarrow> string \<Rightarrow> (string \<times> jsval) list option \<Rightarrow> string" where
  "appendSearchParams repr url params =
     (case params of
        None \<Rightarrow> url
      | Some ps \<Rightarrow>
          (let qs = join ''&'' (map (\<lambda>(k, v). form_text k @ ''='' @ form_text (param_text repr v))
                                  (filter (\<lambda>(k, v). v \<noteq> JUndefined) ps))
           in if qs = [] then url
              else if CHR ''?'' \<in> set url then url @ ''&'' @ qs
              else url @ ''?'' @ qs))"

section \<open>The retry policy\<close>

definition RETRY_METHODS :: "string list" where
  "RETRY_METHODS = [''GET'', ''PUT'', ''DELETE'']"

definition RETRY_STATUS_CODES :: "int list" where
  "RETRY_STATUS_CODES = [408, 413, 500, 502, 503, 504]"

definition isIdempotentRetryMethod :: "string \<Rightarrow> bool" where
  "isIdempotentRetryMethod rqMethod = (rqMethod \<in> set RETRY_METHODS)"

text \<open>The target is a response or, for \<open>None\<close>, anything else.\<close>

definition shouldRetry :: "response option \<Rightarrow> string \<Rightarrow> bool" where
  "shouldRetry target rqMethod =
     (if rqMethod \<notin> set RETRY_METHODS then False
      else (case target of Some rs \<Rightarrow> rs_status rs \<in> set RETRY_STATUS_CODES | None \<Rightarrow> True))"

definition BACKOFF_BASE_MS :: int where "BACKOFF_BASE_MS = 300"
definition BACKOFF_CAP_MS :: int where "BACKOFF_CAP_MS = 30000"

definition backoffDelay :: "int \<Rightarrow> int" where
  "backoffDelay attempt =
     (if attempt \<le> 0 then 0 else min (BACKOFF_BASE_MS * 2 ^ nat (attempt - 1)) BACKOFF_CAP_MS)"

definition MAX_HONORED_WAIT_MS :: int where "MAX_HONORED_WAIT_MS = 60000"
definition RATE_LIMIT_MAX_ATTEMPTS :: int where "RATE_LIMIT_MAX_ATTEMPTS = 3"

definition bodyCode :: "string \<Rightarrow> string option" where
  "bodyCode raw =
     (case json_parse raw of
        None \<Rightarrow> None
      | Some v \<Rightarrow> if is_object v then str_of (js_get v ''code'') else None)"

definition parseRetryAfterMs :: "(string \<Rightarrow> int option) \<Rightarrow> headers \<Rightarrow> int \<Rightarrow> int option" where
  "parseRetryAfterMs dateParse hs now =
     (case map_of hs ''retry-after'' of
        None \<Rightarrow> None
      | Some header \<Rightarrow>
          (let trimmed = trim header
           in if trimmed \<noteq> [] \<and> list_all is_digit trimmed then Some (int (digits_val trimmed) * 1000)
              else (case dateParse trimmed of Some dateMs \<Rightarrow> Some (max 0 (dateMs - now)) | None \<Rightarrow> None)))"

record decision =
  dc_retryable :: bool
  dc_retryAfterMs :: "int option"

definition classifyRateLimit :: "(string \<Rightarrow> int option) \<Rightarrow> int \<Rightarrow> response \<Rightarrow> decision" where
  "classifyRateLimit dateParse now rs =
     (let retryable = (bodyCode (body_text rs) = Some ''too_many_requests'')
      in \<lparr>dc_retryable = retryable,
          dc_retryAfterMs = (if retryable then parseRetryAfterMs dateParse (rs_headers rs) now else None)\<rparr>)"

text \<open>\<^verbatim>\<open>Math.round\<close> rounds halves up.\<close>

definition jitter :: "int \<Rightarrow> real \<Rightarrow> int" where
  "jitter baseMs r = (if baseMs \<le> 0 then 0 else \<lfloor>(of_int baseMs / 2 + r * (of_int baseMs / 2)) + 1 / 2\<rfloor>)"

definition rateLimitDelayMs :: "decision \<Rightarrow> int \<Rightarrow> real \<Rightarrow> int" where
  "rateLimitDelayMs dc attempt r =
     (case dc_retryAfterMs dc of Some ms \<Rightarrow> ms | None \<Rightarrow> jitter (backoffDelay attempt) r)"

section \<open>Hooks\<close>

record resolved =
  ro_method :: string
  ro_timeoutMs :: "int option"
  ro_retryAttempts :: int
  ro_throwOnError :: bool
  ro_retryOnRateLimit :: bool

datatype log_phase = RequestPhase | ResponsePhase | RetryPhase

record log_event =
  le_phase :: log_phase
  le_method :: string
  le_url :: string
  le_status :: "int option"
  le_attempt :: "nat option"
  le_delayMs :: "int option"

text \<open>What a hook may change: the request, the response, the error, and the log. It reads the options and the attempt.\<close>

record fetch_ctx =
  cx_request :: request
  cx_response :: "response option"
  cx_error :: "thrown option"
  cx_log :: "log_event list"

type_synonym hook = "resolved \<Rightarrow> nat \<Rightarrow> fetch_ctx \<Rightarrow> fetch_ctx"

definition runHooks :: "hook list \<Rightarrow> resolved \<Rightarrow> nat \<Rightarrow> fetch_ctx \<Rightarrow> fetch_ctx" where
  "runHooks hooks ro n ctx = foldl (\<lambda>c h. h ro n c) ctx hooks"

definition default_header :: "string \<Rightarrow> string \<Rightarrow> request \<Rightarrow> request" where
  "default_header k v rq = (if hdr_has (rq_headers rq) k then rq else rq\<lparr>rq_headers := hdr_set k v (rq_headers rq)\<rparr>)"

definition setBearer :: "string \<Rightarrow> hook" where
  "setBearer bearer ro n ctx = ctx\<lparr>cx_request := default_header ''authorization'' (''Bearer '' @ bearer) (cx_request ctx)\<rparr>"

definition setUserAgent :: "string \<Rightarrow> hook" where
  "setUserAgent ua ro n ctx = ctx\<lparr>cx_request := default_header ''user-agent'' ua (cx_request ctx)\<rparr>"

definition logRequest :: hook where
  "logRequest ro n ctx =
     ctx\<lparr>cx_log := cx_log ctx @ [\<lparr>le_phase = RequestPhase, le_method = rq_method (cx_request ctx),
       le_url = redactBearer (rq_url (cx_request ctx)), le_status = None, le_attempt = None, le_delayMs = None\<rparr>]\<rparr>"

definition logResponse :: hook where
  "logResponse ro n ctx =
     (case cx_response ctx of
        None \<Rightarrow> ctx
      | Some rs \<Rightarrow>
          ctx\<lparr>cx_log := cx_log ctx @ [\<lparr>le_phase = ResponsePhase, le_method = rq_method (cx_request ctx),
            le_url = redactBearer (rq_url (cx_request ctx)), le_status = Some (rs_status rs), le_attempt = None,
            le_delayMs = None\<rparr>]\<rparr>)"

definition classifyTransport :: hook where
  "classifyTransport ro n ctx =
     (case cx_error ctx of
        None \<Rightarrow> ctx
      | Some (ApiThrown e) \<Rightarrow> ctx
      | Some err \<Rightarrow> ctx\<lparr>cx_error := Some (ApiThrown (classifyTransportError err))\<rparr>)"

section \<open>The client\<close>

definition DEFAULT_TIMEOUT_MS :: int where "DEFAULT_TIMEOUT_MS = 30000"
definition DEFAULT_RETRY_ATTEMPTS :: int where "DEFAULT_RETRY_ATTEMPTS = 3"

record hook_lists =
  hk_request :: "hook list"
  hk_response :: "hook list"
  hk_requestError :: "hook list"
  hk_responseError :: "hook list"

definition no_hooks :: hook_lists where
  "no_hooks = \<lparr>hk_request = [], hk_response = [], hk_requestError = [], hk_responseError = []\<rparr>"

record client_options =
  co_baseURL :: string
  co_bearer :: "string option"
  co_userAgent :: "string option"
  co_timeoutMs :: "int option"
  co_retryAttempts :: "int option"
  co_logger :: bool
  co_hooks :: hook_lists

record client_state =
  cs_baseURL :: string
  cs_defaultTimeoutMs :: int
  cs_defaultRetryAttempts :: int
  cs_hooks :: hook_lists
  cs_logger :: bool
  cs_originalOptions :: client_options
  cs_proxy :: bool

datatype fetch_answer = Responded response | Rejected thrown bool

record http_env =
  he_net :: "nat \<Rightarrow> request \<Rightarrow> fetch_answer"
  he_now :: "nat \<Rightarrow> int"
  he_random :: "nat \<Rightarrow> real"
  he_dateParse :: "string \<Rightarrow> int option"
  he_href :: "string \<Rightarrow> string option"
  he_verbose :: bool
  he_proxyVars :: "string \<Rightarrow> string option"
  he_userAgent :: string
  he_repr :: "real \<Rightarrow> string"

definition PROXY_ENV_KEYS :: "string list" where
  "PROXY_ENV_KEYS = [''HTTP_PROXY'', ''http_proxy'', ''HTTPS_PROXY'', ''https_proxy'']"

definition hasProxyEnv :: "(string \<Rightarrow> string option) \<Rightarrow> bool" where
  "hasProxyEnv env = list_ex (\<lambda>k. nonempty (env k)) PROXY_ENV_KEYS"

definition with_default :: "'a option \<Rightarrow> 'a \<Rightarrow> 'a" where
  "with_default v d = (case v of None \<Rightarrow> d | Some x \<Rightarrow> x)"

definition compileState :: "http_env \<Rightarrow> client_options \<Rightarrow> client_state" where
  "compileState env opts =
     (let onRequest = [setUserAgent (with_default (co_userAgent opts) (he_userAgent env))]
            @ (if nonempty (co_bearer opts) then [setBearer (the (co_bearer opts))] else [])
            @ (if co_logger opts then [logRequest] else []) @ hk_request (co_hooks opts);
          onResponse = (if co_logger opts then [logResponse] else []) @ hk_response (co_hooks opts)
      in \<lparr>cs_baseURL = co_baseURL opts, cs_defaultTimeoutMs = with_default (co_timeoutMs opts) DEFAULT_TIMEOUT_MS,
          cs_defaultRetryAttempts = with_default (co_retryAttempts opts) DEFAULT_RETRY_ATTEMPTS,
          cs_hooks = \<lparr>hk_request = onRequest, hk_response = onResponse,
            hk_requestError = [classifyTransport] @ hk_requestError (co_hooks opts),
            hk_responseError = hk_responseError (co_hooks opts)\<rparr>,
          cs_logger = co_logger opts, cs_originalOptions = opts, cs_proxy = hasProxyEnv (he_proxyVars env)\<rparr>)"

datatype abort_signal = NoSignal | UserSignal | TimeoutSignal int | AnySignal int

definition mergeSignal :: "bool \<Rightarrow> int option \<Rightarrow> abort_signal" where
  "mergeSignal user timeoutMs =
     (case timeoutMs of
        Some ms \<Rightarrow>
          (if ms > 0 then (if user then AnySignal ms else TimeoutSignal ms)
           else if user then UserSignal else NoSignal)
      | None \<Rightarrow> if user then UserSignal else NoSignal)"

definition mergeHeaders :: "(string \<times> string) list option \<Rightarrow> string option \<Rightarrow> headers" where
  "mergeHeaders input contentType =
     (let hs = newHeaders (with_default input [])
      in case contentType of
           Some ct \<Rightarrow> if hdr_has hs ''content-type'' then hs else hdr_set ''content-type'' ct hs
         | None \<Rightarrow> hs)"

record call_options =
  op_method :: "string option"
  op_headers :: "(string \<times> string) list option"
  op_json :: json_arg
  op_body :: "json_arg option"
  op_searchParams :: "(string \<times> jsval) list option"
  op_timeoutMs :: "int option"
  op_retryAttempts :: "int option"
  op_signal :: bool
  op_throwOnError :: "bool option"
  op_retryOnRateLimit :: "bool option"

definition no_options :: call_options where
  "no_options = \<lparr>op_method = None, op_headers = None, op_json = Data JUndefined, op_body = None,
     op_searchParams = None, op_timeoutMs = None, op_retryAttempts = None, op_signal = False,
     op_throwOnError = None, op_retryOnRateLimit = None\<rparr>"

record built =
  bt_request :: request
  bt_resolved :: resolved
  bt_timeoutMs :: "int option"
  bt_user :: bool

text \<open>The constructor of \<^verbatim>\<open>Request\<close> rejects what the URL parser of the platform does not accept.\<close>

definition buildRequest :: "http_env \<Rightarrow> client_state \<Rightarrow> string \<Rightarrow> call_options \<Rightarrow> bool \<Rightarrow> thrown + built" where
  "buildRequest env st path opts throwDefault =
     (let rqMethod = with_default (op_method opts) ''GET'';
          timeoutMs = (case op_timeoutMs opts of
                         Some ms \<Rightarrow> if ms > 0 then Some ms else None
                       | None \<Rightarrow> Some (cs_defaultTimeoutMs st));
          (body, contentType) = buildBody (he_repr env) (op_json opts) (op_body opts) rqMethod;
          hs = mergeHeaders (op_headers opts) contentType;
          url = appendSearchParams (he_repr env) (joinURL (cs_baseURL st) path) (op_searchParams opts)
      in case he_href env url of
           None \<Rightarrow> Inl (ErrorThrown ''Failed to parse URL'')
         | Some href \<Rightarrow> Inr
             \<lparr>bt_request = \<lparr>rq_method = rqMethod, rq_url = href, rq_headers = hs, rq_body = body, rq_used = False\<rparr>,
              bt_resolved = \<lparr>ro_method = rqMethod, ro_timeoutMs = timeoutMs,
                ro_retryAttempts = with_default (op_retryAttempts opts) (cs_defaultRetryAttempts st),
                ro_throwOnError = with_default (op_throwOnError opts) throwDefault,
                ro_retryOnRateLimit = with_default (op_retryOnRateLimit opts) False\<rparr>,
              bt_timeoutMs = timeoutMs, bt_user = op_signal opts\<rparr>)"

section \<open>The transport engine\<close>

record sent =
  sn_request :: request
  sn_signal :: abort_signal
  sn_proxy :: bool
  sn_verbose :: bool

text \<open>\<open>xc_request\<close> is the caller's request: the last attempt sends it, earlier ones send clones.\<close>

record exchange =
  xc_request :: request
  xc_sent :: "sent list"
  xc_waits :: "int list"
  xc_log :: "log_event list"

datatype attempt_result = Finished "thrown option + response" | Again

definition wait_for :: "int \<Rightarrow> exchange \<Rightarrow> exchange" where
  "wait_for delay x = (if delay > 0 then x\<lparr>xc_waits := xc_waits x @ [delay]\<rparr> else x)"

definition log_retry :: "client_state \<Rightarrow> resolved \<Rightarrow> request \<Rightarrow> nat \<Rightarrow> int option \<Rightarrow> int option \<Rightarrow> exchange \<Rightarrow> exchange" where
  "log_retry st ro rq n status delay x =
     (if cs_logger st
      then x\<lparr>xc_log := xc_log x @ [\<lparr>le_phase = RetryPhase, le_method = ro_method ro, le_url = redactBearer (rq_url rq),
        le_status = status, le_attempt = Some (n + 1), le_delayMs = delay\<rparr>]\<rparr>
      else x)"

text \<open>The end of an attempt with a response that is an error: classified, shown to the hooks, thrown or returned.\<close>

definition surface :: "client_state \<Rightarrow> resolved \<Rightarrow> nat \<Rightarrow> fetch_ctx \<Rightarrow> response \<Rightarrow> exchange \<Rightarrow> attempt_result \<times> exchange" where
  "surface st ro n ctx rs x =
     (let e = classifyResponse (rq_method (cx_request ctx)) (rq_url (cx_request ctx)) rs;
          ctx' = runHooks (hk_responseError (cs_hooks st)) ro n (ctx\<lparr>cx_error := Some (ApiThrown e)\<rparr>)
      in (Finished (if ro_throwOnError ro then Inl (cx_error ctx') else Inr rs), x\<lparr>xc_log := cx_log ctx'\<rparr>))"

definition can_retry :: "resolved \<Rightarrow> nat \<Rightarrow> bool" where
  "can_retry ro n = (int n < ro_retryAttempts ro)"

definition on_rejected ::
  "client_state \<Rightarrow> resolved \<Rightarrow> bool \<Rightarrow> nat \<Rightarrow> fetch_ctx \<Rightarrow> thrown \<Rightarrow> bool \<Rightarrow> exchange \<Rightarrow> attempt_result \<times> exchange" where
  "on_rejected st ro user n ctx err aborted x =
     (let ctx' = runHooks (hk_requestError (cs_hooks st)) ro n (ctx\<lparr>cx_error := Some err\<rparr>);
          x1 = x\<lparr>xc_log := cx_log ctx'\<rparr>
      in if \<not> (user \<and> aborted) \<and> can_retry ro n \<and> shouldRetry None (ro_method ro) then
           (Again, wait_for (backoffDelay (int n + 1)) (log_retry st ro (cx_request ctx') n None None x1))
         else (Finished (Inl (cx_error ctx')), x1))"

definition rate_limit_retry :: "resolved \<Rightarrow> nat \<Rightarrow> decision \<Rightarrow> bool" where
  "rate_limit_retry ro n dc =
     (dc_retryable dc \<and> can_retry ro n
      \<and> (case dc_retryAfterMs dc of None \<Rightarrow> True | Some ms \<Rightarrow> ms \<le> MAX_HONORED_WAIT_MS)
      \<and> (isIdempotentRetryMethod (ro_method ro) \<or> ro_method ro = ''POST'' \<and> ro_retryOnRateLimit ro))"

definition on_responded ::
  "http_env \<Rightarrow> client_state \<Rightarrow> resolved \<Rightarrow> nat \<Rightarrow> fetch_ctx \<Rightarrow> response \<Rightarrow> exchange \<Rightarrow> attempt_result \<times> exchange" where
  "on_responded env st ro n ctx rs0 x =
     (let ctx' = runHooks (hk_response (cs_hooks st)) ro n (ctx\<lparr>cx_response := Some rs0\<rparr>);
          x1 = x\<lparr>xc_log := cx_log ctx'\<rparr>
      in case cx_response ctx' of
           None \<Rightarrow> (Finished (Inl (Some (ErrorThrown ''Cannot read properties of undefined''))), x1)
         | Some rs \<Rightarrow>
             if response_ok rs then (Finished (Inr rs), x1)
             else if rs_status rs = 429 then
               (let dc = classifyRateLimit (he_dateParse env) (he_now env n) rs
                in if rate_limit_retry ro n dc then
                     (let delay = rateLimitDelayMs dc (int n + 1) (he_random env n)
                      in (Again, wait_for delay (log_retry st ro (cx_request ctx') n (Some 429) (Some delay) x1)))
                   else surface st ro n ctx' rs x1)
             else if can_retry ro n \<and> shouldRetry (Some rs) (ro_method ro) then
               (Again, wait_for (backoffDelay (int n + 1)) (log_retry st ro (cx_request ctx') n None None x1))
             else surface st ro n ctx' rs x1)"

text \<open>\<^verbatim>\<open>fetch\<close> rejects a request whose body is used up, and uses up the body of the request it sends.\<close>

definition fetch_call :: "http_env \<Rightarrow> nat \<Rightarrow> request \<Rightarrow> fetch_answer" where
  "fetch_call env n rq =
     (if rq_used rq \<and> rq_body rq \<noteq> None then Rejected (ErrorThrown ''Body is unusable'') False else he_net env n rq)"

definition attempt_once ::
  "http_env \<Rightarrow> client_state \<Rightarrow> resolved \<Rightarrow> int option \<Rightarrow> bool \<Rightarrow> nat \<Rightarrow> exchange \<Rightarrow> attempt_result \<times> exchange" where
  "attempt_once env st ro timeoutMs user n x =
     (if can_retry ro n \<and> rq_used (xc_request x) \<and> rq_body (xc_request x) \<noteq> None then
        (Finished (Inl (Some (ErrorThrown ''unusable''))), x)
      else
        (let ctx = runHooks (hk_request (cs_hooks st)) ro n
               \<lparr>cx_request = xc_request x, cx_response = None, cx_error = None, cx_log = xc_log x\<rparr>;
             rq = cx_request ctx;
             x1 = x\<lparr>xc_request := (if can_retry ro n then xc_request x else rq\<lparr>rq_used := True\<rparr>),
                    xc_sent := xc_sent x @ [\<lparr>sn_request = rq, sn_signal = mergeSignal user timeoutMs,
                      sn_proxy = cs_proxy st, sn_verbose = he_verbose env\<rparr>],
                    xc_log := cx_log ctx\<rparr>
         in case fetch_call env n rq of
              Rejected err aborted \<Rightarrow> on_rejected st ro user n ctx err aborted x1
            | Responded rs \<Rightarrow> on_responded env st ro n ctx rs x1))"

lemma again_means_budget:
  "attempt_once env st ro tmo user n x = (Again, x') \<Longrightarrow> int n < ro_retryAttempts ro"
  by (auto simp: attempt_once_def on_rejected_def on_responded_def surface_def rate_limit_retry_def can_retry_def Let_def
           split: if_splits fetch_answer.splits option.splits)

function run_attempts ::
  "http_env \<Rightarrow> client_state \<Rightarrow> resolved \<Rightarrow> int option \<Rightarrow> bool \<Rightarrow> nat \<Rightarrow> exchange \<Rightarrow> (thrown option + response) \<times> exchange" where
  "run_attempts env st ro tmo user n x =
     (case attempt_once env st ro tmo user n x of
        (Finished r, x') \<Rightarrow> (r, x')
      | (Again, x') \<Rightarrow> run_attempts env st ro tmo user (Suc n) x')"
  by pat_completeness auto
termination
  by (relation "measure (\<lambda>(env, st, ro, tmo, user, n, x). nat (ro_retryAttempts ro - int n))")
     (auto dest: again_means_budget [OF sym])

declare run_attempts.simps [simp del]

definition execute ::
  "http_env \<Rightarrow> client_state \<Rightarrow> request \<Rightarrow> resolved \<Rightarrow> int option \<Rightarrow> bool \<Rightarrow> (thrown option + response) \<times> exchange" where
  "execute env st rq ro tmo user =
     run_attempts env st ro tmo user 0 \<lparr>xc_request = rq, xc_sent = [], xc_waits = [], xc_log = []\<rparr>"

section \<open>The calls of the client\<close>

definition run_built ::
  "http_env \<Rightarrow> client_state \<Rightarrow> thrown + built \<Rightarrow> (thrown option + response) \<times> exchange option" where
  "run_built env st b =
     (case b of
        Inl err \<Rightarrow> (Inl (Some err), None)
      | Inr bt \<Rightarrow>
          (let (r, x) = execute env st (bt_request bt) (bt_resolved bt) (bt_timeoutMs bt) (bt_user bt) in (r, Some x)))"

definition parseJsonBody :: "response \<Rightarrow> thrown option + jsval" where
  "parseJsonBody rs =
     (if rs_status rs = 204 \<or> rs_status rs = 205 then Inr JUndefined
      else (case rs_body rs of
              None \<Rightarrow> Inl (Some (ErrorThrown ''terminated''))
            | Some raw \<Rightarrow>
                (if raw = [] then Inr JUndefined
                 else (case json_parse raw of
                         None \<Rightarrow> Inl (Some (ErrorThrown ''SyntaxError''))
                       | Some v \<Rightarrow> Inr v))))"

definition typedCall :: "http_env \<Rightarrow> client_state \<Rightarrow> string \<Rightarrow> string \<Rightarrow> call_options \<Rightarrow> (thrown option + jsval) \<times> exchange option" where
  "typedCall env st rqMethod path opts =
     (let (r, x) = run_built env st (buildRequest env st path (opts\<lparr>op_method := Some rqMethod\<rparr>) True)
      in (case r of Inl err \<Rightarrow> Inl err | Inr rs \<Rightarrow> parseJsonBody rs, x))"

definition rawFetch :: "http_env \<Rightarrow> client_state \<Rightarrow> string \<Rightarrow> call_options \<Rightarrow> (thrown option + response) \<times> exchange option" where
  "rawFetch env st path opts =
     run_built env st
       (buildRequest env st path (opts\<lparr>op_method := Some (with_default (op_method opts) ''GET'')\<rparr>) False)"

definition streamFetch :: "http_env \<Rightarrow> client_state \<Rightarrow> string \<Rightarrow> call_options \<Rightarrow> (thrown option + response) \<times> exchange option" where
  "streamFetch env st path opts =
     (let retries = (if op_retryOnRateLimit opts = Some True
                     then with_default (op_retryAttempts opts) RATE_LIMIT_MAX_ATTEMPTS else 0)
      in run_built env st
           (buildRequest env st path
              (opts\<lparr>op_method := Some (with_default (op_method opts) ''GET''),
                    op_retryAttempts := Some retries, op_timeoutMs := Some 0\<rparr>) False))"

definition requestFetch :: "http_env \<Rightarrow> client_state \<Rightarrow> request \<Rightarrow> (thrown option + response) \<times> exchange" where
  "requestFetch env st rq =
     execute env st rq
       \<lparr>ro_method = toUpperCase (rq_method rq), ro_timeoutMs = Some (cs_defaultTimeoutMs st),
        ro_retryAttempts = cs_defaultRetryAttempts st, ro_throwOnError = False, ro_retryOnRateLimit = False\<rparr>
       (Some (cs_defaultTimeoutMs st)) True"

text \<open>The adapter of the contract client turns every answer that is no success into the error of the client.\<close>

definition orpcFetch :: "http_env \<Rightarrow> client_state \<Rightarrow> request \<Rightarrow> thrown option + response" where
  "orpcFetch env st rq =
     (case fst (requestFetch env st rq) of
        Inl err \<Rightarrow> Inl err
      | Inr rs \<Rightarrow>
          if response_ok rs then Inr rs
          else Inl (Some (ApiThrown (classifyResponse (rq_method rq) (rq_url rq) rs))))"

definition mapOrpcError :: "thrown \<Rightarrow> api_error" where
  "mapOrpcError err =
     (case err of
        ApiThrown e \<Rightarrow> e
      | ErrorThrown msg \<Rightarrow> newError Unknown msg
      | ValueThrown str \<Rightarrow> newError Unknown str)"

end
