(* ===== verification/Http_Laws.thy ===== *)
theory Http_Laws
  imports Http_Client
begin

text \<open>
  Laws of the HTTP client. A redacted text holds no bearer token. A call without hooks of its caller
  sends the same request until the first answer that the retry policy \<open>retries\<close> does not repeat, and
  reports that answer; requests that change something on the server are sent once unless the caller
  allows to wait for a rate limit; attempts and waits are bounded whatever the hooks do.
\<close>

section \<open>Redaction\<close>

lemma bearer_char_not_space: "bearer_char c \<Longrightarrow> \<not> is_space c"
  by (auto simp: bearer_char_def is_space_def Let_def)

lemma bearer_match_iff:
  "bearer_match s \<noteq> None \<longleftrightarrow>
   (\<exists>ws d r. s = ''Bearer'' @ ws @ d # r \<and> ws \<noteq> [] \<and> list_all is_space ws \<and> bearer_char d)" (is "?L \<longleftrightarrow> ?R")
proof
  assume ?L
  then have st0: "startsWith s ''Bearer''" and ws: "takeWhile is_space (drop 6 s) \<noteq> []"
    and tok: "takeWhile bearer_char (dropWhile is_space (drop 6 s)) \<noteq> []"
    by (auto simp: bearer_match_def Let_def split: if_splits)
  have "length ''Bearer'' = 6" by simp
  then have st: "take 6 s = ''Bearer''" using st0 unfolding startsWith_def by metis
  obtain d r where d: "dropWhile is_space (drop 6 s) = d # r" "bearer_char d"
    using tok by (cases "dropWhile is_space (drop 6 s)") (auto split: if_splits)
  have "s = take 6 s @ drop 6 s" by simp
  also have "drop 6 s = takeWhile is_space (drop 6 s) @ d # r"
    by (simp flip: d(1))
  finally have "s = ''Bearer'' @ takeWhile is_space (drop 6 s) @ d # r" unfolding st .
  moreover have "list_all is_space (takeWhile is_space (drop 6 s))"
    by (auto simp: list_all_iff dest: set_takeWhileD)
  ultimately show ?R using ws d(2) by blast
next
  assume ?R
  then obtain ws d r where s: "s = ''Bearer'' @ ws @ d # r" and ws: "ws \<noteq> []" "list_all is_space ws"
    and d: "bearer_char d" by blast
  have "takeWhile is_space (ws @ d # r) = ws" "dropWhile is_space (ws @ d # r) = d # r"
    using ws(2) bearer_char_not_space [OF d] by (auto simp: list_all_iff takeWhile_append dropWhile_append)
  then show ?L using ws(1) d by (simp add: bearer_match_def s startsWith_def Let_def)
qed

lemma redactBearer_hd:
  "redactBearer s = d # r \<Longrightarrow> \<exists>u. s = d # u"
proof (induction s rule: redactBearer.induct)
  case (2 c s)
  then show ?case
    by (auto simp: bearer_match_def startsWith_def Let_def split: option.splits if_splits)
qed simp

text \<open>Redaction leaves a stretch without a capital B as it is.\<close>

lemma redactBearer_stretch:
  "redactBearer s = w @ v \<Longrightarrow> CHR ''B'' \<notin> set w \<Longrightarrow> \<exists>u. s = w @ u \<and> redactBearer u = v"
proof (induction w arbitrary: s)
  case (Cons c w)
  then obtain u where s: "s = c # u" using redactBearer_hd by (metis append_Cons)
  have "bearer_match (c # u) = None"
    using Cons.prems(2) by (auto simp: bearer_match_def startsWith_def)
  then have "redactBearer u = w @ v" using Cons.prems(1) s by simp
  then show ?case using Cons.IH [of u] Cons.prems(2) s by auto
qed simp

lemma no_match_without_B: "\<not> startsWith s ''B'' \<Longrightarrow> bearer_match s = None"
  by (cases s) (auto simp: bearer_match_def startsWith_def)

lemma redacted_word_no_match:
  "bearer_match (drop k (''Bearer [redacted]'' @ t)) = None" if "k < 17"
proof (cases "k = 0")
  case True
  have "\<not> is_space (CHR ''['')" "\<not> bearer_char (CHR ''['')" "is_space (CHR '' '')"
    by (simp_all add: is_space_def bearer_char_def)
  then show ?thesis using True by (simp add: bearer_match_def startsWith_def Let_def)
next
  case False
  then have "k \<in> set [1..<17]" using that by auto
  then have "k = 1 \<or> k = 2 \<or> k = 3 \<or> k = 4 \<or> k = 5 \<or> k = 6 \<or> k = 7 \<or> k = 8 \<or> k = 9 \<or> k = 10 \<or> k = 11
    \<or> k = 12 \<or> k = 13 \<or> k = 14 \<or> k = 15 \<or> k = 16" by (simp add: upt_rec) auto
  then have "\<not> startsWith (drop k (''Bearer [redacted]'' @ t)) ''B''"
    by (elim disjE) (simp_all add: startsWith_def)
  then show ?thesis by (rule no_match_without_B)
qed

lemma redacted_no_match: "bearer_match (drop k (redactBearer s)) = None"
proof (induction s arbitrary: k rule: redactBearer.induct)
  case 1
  then show ?case by (simp add: bearer_match_def startsWith_def)
next
  case (2 c s)
  show ?case
  proof (cases "bearer_match (c # s)")
    case None
    then have out: "redactBearer (c # s) = c # redactBearer s" by simp
    show ?thesis
    proof (cases k)
      case 0
      have False if m: "bearer_match (c # redactBearer s) \<noteq> None"
      proof -
        obtain ws d r where w: "c # redactBearer s = ''Bearer'' @ ws @ d # r" "ws \<noteq> []" "list_all is_space ws" "bearer_char d"
          using m unfolding bearer_match_iff by blast
        have "redactBearer s = (''earer'' @ ws) @ d # r" and c: "c = CHR ''B''" using w(1) by auto
        moreover have "CHR ''B'' \<notin> set (''earer'' @ ws)"
          using w(3) by (auto simp: list_all_iff is_space_def)
        ultimately obtain u where u: "s = (''earer'' @ ws) @ u" "redactBearer u = d # r"
          using redactBearer_stretch by blast
        obtain u' where "u = d # u'" using redactBearer_hd [OF u(2)] by blast
        then have "c # s = ''Bearer'' @ ws @ d # u'" using u(1) c by simp
        then have "bearer_match (c # s) \<noteq> None" unfolding bearer_match_iff using w(2-4) by blast
        then show False using None by simp
      qed
      then have "bearer_match (c # redactBearer s) = None" by blast
      then show ?thesis unfolding out using 0 by simp
    next
      case (Suc j)
      then show ?thesis using "2.IH"(1) [OF None] out by simp
    qed
  next
    case (Some r)
    then have out: "redactBearer (c # s) = ''Bearer [redacted]'' @ redactBearer r" by simp
    show ?thesis
    proof (cases "k < 17")
      case True
      show ?thesis unfolding out using True by (rule redacted_word_no_match)
    next
      case False
      then have "drop k (''Bearer [redacted]'' @ redactBearer r) = drop (k - 17) (redactBearer r)"
        by (subst drop_append) (simp add: eval_nat_numeral)
      then show ?thesis using "2.IH"(2) [OF Some] out by simp
    qed
  qed
qed

text \<open>C24: A redacted text holds no bearer token: the pattern of the redaction matches nowhere in it.\<close>

theorem redacted_text_has_no_token: "bearer_match (drop k (redactBearer s)) = None"
  by (rule redacted_no_match)

section \<open>A concrete call\<close>

text \<open>A server that is unavailable at first and then answers.\<close>

definition answer :: "int \<Rightarrow> string \<Rightarrow> response" where
  "answer status raw = \<lparr>rs_status = status, rs_headers = [], rs_body = Some raw, rs_url = ''https://h/a''\<rparr>"

definition slow_server :: http_env where
  "slow_server =
     \<lparr>he_net = (\<lambda>n rq. if n = 0 then Responded (answer 503 ''busy'') else Responded (answer 200 ''{}'')),
      he_now = (\<lambda>n. 0), he_random = (\<lambda>n. 1 / 2), he_dateParse = (\<lambda>s. None), he_href = Some, he_verbose = False,
      he_proxyVars = (\<lambda>k. None), he_userAgent = ''difyctl'', he_repr = (\<lambda>x. [])\<rparr>"

definition plain_client :: client_options where
  "plain_client = \<lparr>co_baseURL = ''https://h'', co_bearer = Some ''t'', co_userAgent = None, co_timeoutMs = None,
     co_retryAttempts = None, co_logger = True, co_hooks = no_hooks\<rparr>"

definition plain_request :: "string \<Rightarrow> request" where
  "plain_request rqMethod = \<lparr>rq_method = rqMethod, rq_url = ''https://h/a'', rq_headers = [], rq_body = None, rq_used = False\<rparr>"

definition three_tries :: "string \<Rightarrow> resolved" where
  "three_tries rqMethod = \<lparr>ro_method = rqMethod, ro_timeoutMs = None, ro_retryAttempts = 3, ro_throwOnError = True,
     ro_retryOnRateLimit = False\<rparr>"

section \<open>The retry policy\<close>

text \<open>When an answer is followed by another attempt, read off the policy: attempts are left, and the answer is
  a failure of the transport that the user did not cause, a throttle whose advised wait is short, or one of
  the statuses worth repeating; the method must be safe to repeat, or a rate limit allowed by the caller.\<close>

definition throttled :: "http_env \<Rightarrow> resolved \<Rightarrow> nat \<Rightarrow> response \<Rightarrow> bool" where
  "throttled env ro n rs =
     (bodyCode (body_text rs) = Some ''too_many_requests''
      \<and> (case parseRetryAfterMs (he_dateParse env) (rs_headers rs) (he_now env n) of None \<Rightarrow> True | Some ms \<Rightarrow> ms \<le> 60000)
      \<and> (ro_method ro \<in> {''GET'', ''PUT'', ''DELETE''} \<or> ro_method ro = ''POST'' \<and> ro_retryOnRateLimit ro))"

definition retries :: "http_env \<Rightarrow> resolved \<Rightarrow> bool \<Rightarrow> nat \<Rightarrow> fetch_answer \<Rightarrow> bool" where
  "retries env ro user n ans =
     (int n < ro_retryAttempts ro
      \<and> (case ans of
           Rejected err aborted \<Rightarrow> \<not> (user \<and> aborted) \<and> ro_method ro \<in> {''GET'', ''PUT'', ''DELETE''}
         | Responded rs \<Rightarrow>
             if rs_status rs = 429 then throttled env ro n rs
             else rs_status rs \<in> {408, 413, 500, 502, 503, 504} \<and> ro_method ro \<in> {''GET'', ''PUT'', ''DELETE''}))"

text \<open>What a settled call reports.\<close>

definition call_result :: "resolved \<Rightarrow> request \<Rightarrow> fetch_answer \<Rightarrow> thrown option + response" where
  "call_result ro rq ans =
     (case ans of
        Rejected err aborted \<Rightarrow> Inl (Some (ApiThrown (classifyTransportError err)))
      | Responded rs \<Rightarrow>
          if response_ok rs \<or> \<not> ro_throwOnError ro then Inr rs
          else Inl (Some (ApiThrown (classifyResponse (rq_method rq) (rq_url rq) rs))))"

definition prepared :: "http_env \<Rightarrow> client_options \<Rightarrow> request \<Rightarrow> request" where
  "prepared env opts rq =
     (let rq1 = default_header ''user-agent'' (with_default (co_userAgent opts) (he_userAgent env)) rq
      in if nonempty (co_bearer opts) then default_header ''authorization'' (''Bearer '' @ the (co_bearer opts)) rq1 else rq1)"

lemma rate_limit_retry_eq:
  "rate_limit_retry ro n (classifyRateLimit (he_dateParse env) (he_now env n) rs) \<longleftrightarrow>
   int n < ro_retryAttempts ro \<and> throttled env ro n rs"
  unfolding MAX_HONORED_WAIT_MS_def rate_limit_retry_def
  by (auto simp: classifyRateLimit_def throttled_def can_retry_def isIdempotentRetryMethod_def RETRY_METHODS_def Let_def)

lemma default_header_used [simp]: "rq_used (default_header k v rq) = rq_used rq"
  by (simp add: default_header_def)

lemma prepared_used [simp]: "rq_used (prepared env opts rq) = rq_used rq"
  by (simp add: prepared_def Let_def)

lemma request_hooks:
  assumes "co_hooks opts = no_hooks"
  shows "\<exists>l. runHooks (hk_request (cs_hooks (compileState env opts))) ro n ctx
     = ctx\<lparr>cx_request := prepared env opts (cx_request ctx), cx_log := l\<rparr>"
  using assms
  by (cases ctx) (auto simp: compileState_def no_hooks_def runHooks_def setUserAgent_def setBearer_def logRequest_def prepared_def Let_def)

lemma response_hooks:
  assumes "co_hooks opts = no_hooks"
  shows "\<exists>l. runHooks (hk_response (cs_hooks (compileState env opts))) ro n ctx = ctx\<lparr>cx_log := l\<rparr>"
  using assms
  by (cases ctx) (auto simp: compileState_def no_hooks_def runHooks_def logResponse_def Let_def split: option.splits)

lemma requestError_hooks:
  assumes "co_hooks opts = no_hooks" and "cx_error ctx = Some err"
  shows "runHooks (hk_requestError (cs_hooks (compileState env opts))) ro n ctx
     = ctx\<lparr>cx_error := Some (ApiThrown (classifyTransportError err))\<rparr>"
  using assms
  by (cases ctx) (auto simp: compileState_def no_hooks_def runHooks_def classifyTransport_def classifyTransportError_def Let_def
      split: thrown.splits)

lemma responseError_hooks:
  "co_hooks opts = no_hooks \<Longrightarrow> runHooks (hk_responseError (cs_hooks (compileState env opts))) ro n ctx = ctx"
  by (simp add: compileState_def no_hooks_def runHooks_def Let_def)

lemma wait_for_frame [simp]: "xc_request (wait_for d x) = xc_request x" "xc_sent (wait_for d x) = xc_sent x"
  by (simp_all add: wait_for_def)

lemma log_retry_frame [simp]:
  "xc_request (log_retry st ro rq n s d x) = xc_request x" "xc_sent (log_retry st ro rq n s d x) = xc_sent x"
  "xc_waits (log_retry st ro rq n s d x) = xc_waits x"
  by (simp_all add: log_retry_def)

text \<open>One attempt: either the policy repeats, or the call is settled.\<close>

definition sent_once :: "http_env \<Rightarrow> client_options \<Rightarrow> request \<Rightarrow> int option \<Rightarrow> bool \<Rightarrow> sent" where
  "sent_once env opts rq tmo user =
     \<lparr>sn_request = prepared env opts rq, sn_signal = mergeSignal user tmo, sn_proxy = hasProxyEnv (he_proxyVars env),
      sn_verbose = he_verbose env\<rparr>"

lemma attempt_cases:
  assumes "co_hooks opts = no_hooks" and "\<not> rq_used (xc_request x)"
    and ans_def: "ans = he_net env n (prepared env opts (xc_request x))"
  shows "\<exists>x'. xc_sent x' = xc_sent x @ [sent_once env opts (xc_request x) tmo user]
    \<and> (if retries env ro user n ans
       then attempt_once env (compileState env opts) ro tmo user n x = (Again, x') \<and> xc_request x' = xc_request x
       else attempt_once env (compileState env opts) ro tmo user n x
              = (Finished (call_result ro (prepared env opts (xc_request x)) ans), x'))"
proof -
  let ?st = "compileState env opts" and ?p = "prepared env opts (xc_request x)"
  let ?c0 = "\<lparr>cx_request = xc_request x, cx_response = None, cx_error = None, cx_log = xc_log x\<rparr>"
  obtain l where h: "runHooks (hk_request (cs_hooks ?st)) ro n ?c0 = ?c0\<lparr>cx_request := ?p, cx_log := l\<rparr>"
    using request_hooks [OF assms(1), of env ro n ?c0] by auto
  define ctx where "ctx = ?c0\<lparr>cx_request := ?p, cx_log := l\<rparr>"
  define x1 where "x1 = x\<lparr>xc_request := (if can_retry ro n then xc_request x else ?p\<lparr>rq_used := True\<rparr>),
     xc_sent := xc_sent x @ [sent_once env opts (xc_request x) tmo user], xc_log := l\<rparr>"
  have proxy: "cs_proxy ?st = hasProxyEnv (he_proxyVars env)" by (simp add: compileState_def Let_def)
  have call: "fetch_call env n ?p = ans" using assms(2) by (simp add: fetch_call_def ans_def)
  have step: "attempt_once env ?st ro tmo user n x =
     (case ans of Rejected err aborted \<Rightarrow> on_rejected ?st ro user n ctx err aborted x1
      | Responded rs \<Rightarrow> on_responded env ?st ro n ctx rs x1)"
    using assms(2)
    by (simp add: attempt_once_def h call proxy sent_once_def ctx_def x1_def Let_def cong: fetch_answer.case_cong)
  have sent1: "xc_sent x1 = xc_sent x @ [sent_once env opts (xc_request x) tmo user]" by (simp add: x1_def)
  have kept: "can_retry ro n \<Longrightarrow> xc_request x1 = xc_request x" by (simp add: x1_def)
  show ?thesis
  proof (cases ans)
    case (Rejected err aborted)
    have "runHooks (hk_requestError (cs_hooks ?st)) ro n (ctx\<lparr>cx_error := Some err\<rparr>)
        = ctx\<lparr>cx_error := Some (ApiThrown (classifyTransportError err))\<rparr>"
      by (subst requestError_hooks [OF assms(1)]) simp_all
    then show ?thesis
      using kept sent1
      by (auto simp: step Rejected on_rejected_def retries_def call_result_def can_retry_def shouldRetry_def RETRY_METHODS_def Let_def)
  next
    case (Responded rs)
    obtain l2 where r: "runHooks (hk_response (cs_hooks ?st)) ro n (ctx\<lparr>cx_response := Some rs\<rparr>)
        = ctx\<lparr>cx_response := Some rs, cx_log := l2\<rparr>"
      using response_hooks [OF assms(1), of env ro n "ctx\<lparr>cx_response := Some rs\<rparr>"] by auto
    have surf: "surface ?st ro n c rs y =
        (Finished (if ro_throwOnError ro
           then Inl (Some (ApiThrown (classifyResponse (rq_method (cx_request c)) (rq_url (cx_request c)) rs))) else Inr rs),
         y\<lparr>xc_log := cx_log c\<rparr>)" for c y
      by (simp add: surface_def responseError_hooks [OF assms(1)] Let_def)
    have req: "cx_request ctx = ?p" by (simp add: ctx_def)
    show ?thesis
      using kept sent1
      by (auto simp: step Responded on_responded_def r surf req rate_limit_retry_eq retries_def call_result_def can_retry_def
            response_ok_def shouldRetry_def RETRY_METHODS_def RETRY_STATUS_CODES_def Let_def)
  qed
qed

lemma run_attempts_settles:
  assumes "co_hooks opts = no_hooks" and "\<not> rq_used (xc_request x)"
    and p_def: "p = prepared env opts (xc_request x)"
  shows "\<exists>k x'. run_attempts env (compileState env opts) ro tmo user n x = (call_result ro p (he_net env (n + k) p), x')
    \<and> xc_sent x' = xc_sent x @ replicate (Suc k) (sent_once env opts (xc_request x) tmo user)
    \<and> (\<forall>j < k. retries env ro user (n + j) (he_net env (n + j) p))
    \<and> \<not> retries env ro user (n + k) (he_net env (n + k) p)"
  using assms(2) unfolding p_def
proof (induction "nat (ro_retryAttempts ro - int n)" arbitrary: n x rule: less_induct)
  case less
  let ?p = "prepared env opts (xc_request x)" and ?s = "sent_once env opts (xc_request x) tmo user"
  obtain x' where sent: "xc_sent x' = xc_sent x @ [?s]"
    and step: "if retries env ro user n (he_net env n ?p)
       then attempt_once env (compileState env opts) ro tmo user n x = (Again, x') \<and> xc_request x' = xc_request x
       else attempt_once env (compileState env opts) ro tmo user n x = (Finished (call_result ro ?p (he_net env n ?p)), x')"
    using attempt_cases [OF assms(1) less.prems refl] by blast
  show ?case
  proof (cases "retries env ro user n (he_net env n ?p)")
    case False
    then have run: "run_attempts env (compileState env opts) ro tmo user n x = (call_result ro ?p (he_net env n ?p), x')"
      using step by (subst run_attempts.simps) simp
    show ?thesis
      by (rule exI [of _ 0], rule exI [of _ x']) (use run sent False in simp)
  next
    case True
    then have again: "attempt_once env (compileState env opts) ro tmo user n x = (Again, x')"
      and same: "xc_request x' = xc_request x" using step by simp_all
    have "nat (ro_retryAttempts ro - int (Suc n)) < nat (ro_retryAttempts ro - int n)"
      using again_means_budget [OF again] by linarith
    then obtain k x'' where run: "run_attempts env (compileState env opts) ro tmo user (Suc n) x'
          = (call_result ro ?p (he_net env (Suc n + k) ?p), x'')"
      and sent': "xc_sent x'' = xc_sent x' @ replicate (Suc k) ?s"
      and before: "\<forall>j < k. retries env ro user (Suc n + j) (he_net env (Suc n + j) ?p)"
      and stop: "\<not> retries env ro user (Suc n + k) (he_net env (Suc n + k) ?p)"
      using less.hyps [of "Suc n" x'] less.prems unfolding same by blast
    have all: "\<forall>j < Suc k. retries env ro user (n + j) (he_net env (n + j) ?p)"
    proof (intro allI impI)
      fix j assume "j < Suc k"
      then show "retries env ro user (n + j) (he_net env (n + j) ?p)"
        using True before by (cases j) auto
    qed
    have "run_attempts env (compileState env opts) ro tmo user n x = (call_result ro ?p (he_net env (n + Suc k) ?p), x'')"
      using run by (subst run_attempts.simps) (simp add: again)
    moreover have "xc_sent x'' = xc_sent x @ replicate (Suc (Suc k)) ?s" using sent sent' by simp
    ultimately show ?thesis using all stop by (metis add_Suc_shift)
  qed
qed

text \<open>C21: A call sends its request unchanged (same headers, same unread body, a fresh time limit each time)
  until the first answer the retry policy does not repeat, and reports exactly that answer.\<close>

theorem call_replays_until_settled:
  assumes "co_hooks opts = no_hooks" and "\<not> rq_used rq"
  shows "\<exists>k x. execute env (compileState env opts) rq ro tmo user
      = (call_result ro (prepared env opts rq) (he_net env k (prepared env opts rq)), x)
    \<and> xc_sent x = replicate (Suc k) \<lparr>sn_request = prepared env opts rq, sn_signal = mergeSignal user tmo,
        sn_proxy = hasProxyEnv (he_proxyVars env), sn_verbose = he_verbose env\<rparr>
    \<and> (\<forall>j < k. retries env ro user j (he_net env j (prepared env opts rq)))
    \<and> \<not> retries env ro user k (he_net env k (prepared env opts rq))"
  using run_attempts_settles
    [OF assms(1) _ refl, of "\<lparr>xc_request = rq, xc_sent = [], xc_waits = [], xc_log = []\<rparr>" env ro tmo user 0] assms(2)
  by (simp add: execute_def sent_once_def)

lemma call_replays_until_settled_witness:
  "\<exists>k x. execute slow_server (compileState slow_server plain_client) (plain_request ''GET'') (three_tries ''GET'') None False
      = (call_result (three_tries ''GET'') (prepared slow_server plain_client (plain_request ''GET''))
           (he_net slow_server k (prepared slow_server plain_client (plain_request ''GET''))), x)
    \<and> length (xc_sent x) = Suc k \<and> k = 1"
proof -
  let ?p = "prepared slow_server plain_client (plain_request ''GET'')"
  obtain k x where k: "execute slow_server (compileState slow_server plain_client) (plain_request ''GET'') (three_tries ''GET'') None False
      = (call_result (three_tries ''GET'') ?p (he_net slow_server k ?p), x)"
      "length (xc_sent x) = Suc k"
      "\<forall>j < k. retries slow_server (three_tries ''GET'') False j (he_net slow_server j ?p)"
      "\<not> retries slow_server (three_tries ''GET'') False k (he_net slow_server k ?p)"
    using call_replays_until_settled [of plain_client "plain_request ''GET''" slow_server "three_tries ''GET''" None False]
    by (force simp: plain_client_def plain_request_def)
  have "k \<noteq> 0" using k(4) by (intro notI) (simp add: retries_def slow_server_def answer_def three_tries_def)
  moreover have "\<not> 1 < k" using k(3) by (auto simp: retries_def slow_server_def answer_def)
  ultimately have "k = 1" by simp
  then show ?thesis using k(1,2) by blast
qed

section \<open>Requests that are not repeated\<close>

text \<open>For every hook and every network. Waits are collected along the way.\<close>

definition safe_random :: "http_env \<Rightarrow> bool" where
  "safe_random env = (\<forall>n. 0 \<le> he_random env n \<and> he_random env n < 1)"

lemma backoffDelay_bounds: "0 \<le> backoffDelay n" "backoffDelay n \<le> 30000"
  by (auto simp: backoffDelay_def BACKOFF_BASE_MS_def BACKOFF_CAP_MS_def)

lemma jitter_bounds:
  assumes "0 \<le> r" "r < 1"
  shows "jitter d r \<le> max 0 d"
proof (cases "d \<le> 0")
  case False
  then have "r * (of_int d / 2) < of_int d / 2" using assms by (simp add: mult_less_cancel_right1)
  then have "(of_int d / 2 + r * (of_int d / 2)) + 1 / 2 < of_int d + (1 :: real)" by simp
  then have "\<lfloor>(of_int d / 2 + r * (of_int d / 2)) + 1 / 2\<rfloor> \<le> d" unfolding floor_le_iff .
  then show ?thesis using False by (simp add: jitter_def)
qed (simp add: jitter_def)

lemma rate_limit_delay_bound:
  assumes "rate_limit_retry ro n dc" and "safe_random env"
  shows "rateLimitDelayMs dc (int n + 1) (he_random env n) \<le> 60000"
proof (cases "dc_retryAfterMs dc")
  case None
  have "jitter (backoffDelay (int n + 1)) (he_random env n) \<le> max 0 (backoffDelay (int n + 1))"
    using assms(2) by (intro jitter_bounds) (auto simp: safe_random_def)
  then show ?thesis using None backoffDelay_bounds [of "int n + 1"] by (simp add: rateLimitDelayMs_def)
next
  case (Some ms)
  then show ?thesis using assms(1) by (simp add: rate_limit_retry_def rateLimitDelayMs_def MAX_HONORED_WAIT_MS_def)
qed

lemma attempt_trace:
  assumes "attempt_once env st ro tmo user n x = (r, x')" and "safe_random env"
  shows "length (xc_sent x') \<le> Suc (length (xc_sent x))
    \<and> (xc_waits x' = xc_waits x \<or> (\<exists>d. r = Again \<and> xc_waits x' = xc_waits x @ [d] \<and> 0 < d \<and> d \<le> 60000))"
proof -
  have wait: "xc_waits (wait_for d y) = (if d > 0 then xc_waits y @ [d] else xc_waits y)" for d y
    by (simp add: wait_for_def)
  have short: "backoffDelay m \<le> 60000" for m using backoffDelay_bounds(2) [of m] by simp
  show ?thesis
    using assms(1) rate_limit_delay_bound [OF _ assms(2), of ro n]
    by (auto simp: attempt_once_def on_rejected_def on_responded_def surface_def wait short Let_def
        split: if_splits fetch_answer.splits option.splits)
qed

lemma run_trace:
  assumes "safe_random env"
  shows "length (xc_sent (snd (run_attempts env st ro tmo user n x)))
      \<le> length (xc_sent x) + Suc (nat (ro_retryAttempts ro - int n))
    \<and> (\<exists>ws. xc_waits (snd (run_attempts env st ro tmo user n x)) = xc_waits x @ ws
        \<and> length ws \<le> nat (ro_retryAttempts ro - int n) \<and> (\<forall>w \<in> set ws. 0 < w \<and> w \<le> 60000))"
proof (induction "nat (ro_retryAttempts ro - int n)" arbitrary: n x rule: less_induct)
  case less
  obtain r x' where a: "attempt_once env st ro tmo user n x = (r, x')" by fastforce
  note trace = attempt_trace [OF a assms]
  show ?case
  proof (cases r)
    case (Finished q)
    then have "run_attempts env st ro tmo user n x = (q, x')" using a by (subst run_attempts.simps) simp
    then show ?thesis using trace Finished by auto
  next
    case Again
    then have run: "run_attempts env st ro tmo user n x = run_attempts env st ro tmo user (Suc n) x'"
      using a by (subst run_attempts.simps) simp
    have budget: "int n < ro_retryAttempts ro" using again_means_budget a Again by blast
    then have less': "nat (ro_retryAttempts ro - int n) = Suc (nat (ro_retryAttempts ro - int (Suc n)))" by simp
    obtain ws where IH: "length (xc_sent (snd (run_attempts env st ro tmo user (Suc n) x')))
          \<le> length (xc_sent x') + Suc (nat (ro_retryAttempts ro - int (Suc n)))"
        "xc_waits (snd (run_attempts env st ro tmo user (Suc n) x')) = xc_waits x' @ ws"
        "length ws \<le> nat (ro_retryAttempts ro - int (Suc n))" "\<forall>w \<in> set ws. 0 < w \<and> w \<le> 60000"
      using less.hyps [of "Suc n" x'] less' by auto
    obtain w1 where w1: "xc_waits x' = xc_waits x @ w1" "length w1 \<le> 1" "\<forall>w \<in> set w1. 0 < w \<and> w \<le> 60000"
      using trace by (cases "xc_waits x' = xc_waits x") fastforce+
    have sent: "length (xc_sent (snd (run_attempts env st ro tmo user n x)))
        \<le> length (xc_sent x) + Suc (nat (ro_retryAttempts ro - int n))"
      unfolding run less' using IH(1) trace by linarith
    have "xc_waits (snd (run_attempts env st ro tmo user n x)) = xc_waits x @ (w1 @ ws)"
      unfolding run using IH(2) w1(1) by simp
    moreover have "length (w1 @ ws) \<le> nat (ro_retryAttempts ro - int n)"
      using w1(2) IH(3) less' by simp
    moreover have "\<forall>w \<in> set (w1 @ ws). 0 < w \<and> w \<le> 60000" using w1(3) IH(4) by auto
    ultimately show ?thesis using sent by blast
  qed
qed

lemma sum_list_bound: "\<forall>w \<in> set ws. w \<le> (b :: int) \<Longrightarrow> sum_list ws \<le> b * int (length ws)"
  by (induction ws) (auto simp: algebra_simps)

text \<open>C22: Whatever the network answers and the hooks do, a call makes at most one attempt more than its budget,
  no wait between attempts exceeds a minute, and all waits together stay within a minute per retry.\<close>

theorem call_is_bounded:
  assumes "safe_random env" and "0 \<le> ro_retryAttempts ro"
  shows "int (length (xc_sent (snd (execute env st rq ro tmo user)))) \<le> ro_retryAttempts ro + 1
    \<and> (\<forall>w \<in> set (xc_waits (snd (execute env st rq ro tmo user))). 0 < w \<and> w \<le> 60000)
    \<and> sum_list (xc_waits (snd (execute env st rq ro tmo user))) \<le> 60000 * ro_retryAttempts ro"
proof -
  obtain ws where t: "length (xc_sent (snd (execute env st rq ro tmo user))) \<le> Suc (nat (ro_retryAttempts ro))"
      "xc_waits (snd (execute env st rq ro tmo user)) = ws" "length ws \<le> nat (ro_retryAttempts ro)"
      "\<forall>w \<in> set ws. 0 < w \<and> w \<le> 60000"
    using run_trace [OF assms(1), of st ro tmo user 0 "\<lparr>xc_request = rq, xc_sent = [], xc_waits = [], xc_log = []\<rparr>"]
    by (auto simp: execute_def)
  have "sum_list ws \<le> 60000 * int (length ws)" using t(4) by (intro sum_list_bound) auto
  also have "\<dots> \<le> 60000 * ro_retryAttempts ro" using t(3) assms(2) by simp
  finally show ?thesis using t assms(2) by auto
qed

lemma call_is_bounded_witness:
  "int (length (xc_sent (snd (execute slow_server (compileState slow_server plain_client) (plain_request ''GET'')
     (three_tries ''GET'') None False)))) \<le> 4"
  using call_is_bounded [of slow_server "three_tries ''GET''" "compileState slow_server plain_client" "plain_request ''GET''" None False]
  by (simp add: safe_random_def slow_server_def three_tries_def)

text \<open>C23: A request that is neither safe to repeat nor a POST whose caller allows waiting for a rate limit is
  sent once, whatever the network answers and the hooks do.\<close>

theorem unsafe_request_is_sent_once:
  assumes "ro_method ro \<notin> {''GET'', ''PUT'', ''DELETE''}" and "\<not> (ro_method ro = ''POST'' \<and> ro_retryOnRateLimit ro)"
    and "\<not> rq_used rq"
  shows "length (xc_sent (snd (execute env st rq ro tmo user))) = 1"
proof -
  let ?x = "\<lparr>xc_request = rq, xc_sent = [], xc_waits = [], xc_log = []\<rparr>"
  obtain r x' where a: "attempt_once env st ro tmo user 0 ?x = (r, x')" by fastforce
  have frame: "xc_sent (snd (surface st ro n c rs y)) = xc_sent y" for n c rs y
    by (simp add: surface_def Let_def)
  have "length (xc_sent x') = 1 \<and> r \<noteq> Again"
    using a assms frame [of 0]
    by (auto simp: attempt_once_def on_rejected_def on_responded_def surface_def rate_limit_retry_def shouldRetry_def
        isIdempotentRetryMethod_def RETRY_METHODS_def Let_def split: if_splits fetch_answer.splits option.splits)
  then obtain q where "run_attempts env st ro tmo user 0 ?x = (q, x')"
    using a by (cases r) (simp_all add: run_attempts.simps)
  then show ?thesis using \<open>length (xc_sent x') = 1 \<and> r \<noteq> Again\<close> by (simp add: execute_def)
qed

lemma unsafe_request_is_sent_once_witness:
  "length (xc_sent (snd (execute slow_server (compileState slow_server plain_client) (plain_request ''PATCH'')
     (three_tries ''PATCH'') None False))) = 1"
  using unsafe_request_is_sent_once [of "three_tries ''PATCH''" "plain_request ''PATCH''" slow_server
     "compileState slow_server plain_client" None False]
  by (simp add: three_tries_def plain_request_def)

text \<open>A plain object with a property \<^verbatim>\<open>buffer\<close> is taken for a binary buffer and handed to the transport as it is.\<close>

lemma buffer_property_is_not_serialized:
  "buildBody repr (Data (JObj [(''buffer'', JStr ''x'')])) None ''POST'' = (Some (RawBody (Data (JObj [(''buffer'', JStr ''x'')]))), None)"
  by (simp add: buildBody_def obj_get_def)

end
