(* ===== verification/Device_Flow.thy ===== *)
theory Device_Flow
  imports Http_Client
begin

text \<open>
  Waiting for a device to be authorised: \<^verbatim>\<open>cli/src/api/oauth-device.ts\<close> and
  \<^verbatim>\<open>cli/src/commands/auth/login/device-flow.ts\<close>. What the transport answers to the polls is a sequence
  indexed by their number, what \<^verbatim>\<open>isCancelled\<close> answers one indexed by the number of checks; sleeping
  is the list of the waits. The loop has no bound, so it is a partial function: \<open>None\<close> means that it never returns.
\<close>

section \<open>The two requests\<close>

definition DEFAULT_CLIENT_ID :: string where "DEFAULT_CLIENT_ID = ''difyctl''"

record code_response =
  cr_device_code :: string
  cr_user_code :: string
  cr_verification_uri :: string
  cr_expires_in :: int
  cr_interval :: int

datatype poll_result = Pending | SlowDown | Expired | Denied | Retry5xx | Approved jsval

definition versionSkew :: api_error where
  "versionSkew =
     \<lparr>ae_code = UnsupportedEndpoint, ae_message = ''this Dify host does not implement the OAuth device flow'',
      ae_hint = None, ae_http = Some (no_facts\<lparr>hf_status := Some 404\<rparr>)\<rparr>"

definition requestBody :: "string option \<Rightarrow> string \<Rightarrow> string \<Rightarrow> json_arg" where
  "requestBody clientId field v =
     Data (JObj [(''client_id'', JStr (with_default clientId DEFAULT_CLIENT_ID)), (field, JStr v)])"

text \<open>The answer of \<^verbatim>\<open>oauth/device/code\<close>.\<close>

definition requestCode :: "string \<Rightarrow> (thrown option + response) \<Rightarrow> thrown option + jsval" where
  "requestCode label reply =
     (if label = [] then Inl (Some (ApiThrown (newError UsageMissingArg ''device_label is required'')))
      else (case reply of
              Inl err \<Rightarrow> Inl err
            | Inr rs \<Rightarrow>
                if rs_status rs = 404 then Inl (Some (ApiThrown versionSkew))
                else if \<not> response_ok rs then
                  Inl (Some (ApiThrown
                    \<lparr>ae_code = Server4xxOther, ae_message = ''device/code: HTTP '' @ string_of_int (rs_status rs),
                     ae_hint = None, ae_http = Some (no_facts\<lparr>hf_status := Some (rs_status rs)\<rparr>)\<rparr>))
                else (case json_parse (body_text rs) of
                        None \<Rightarrow> Inl (Some (ErrorThrown ''SyntaxError''))
                      | Some v \<Rightarrow> Inr v)))"

definition POLL_ERROR_TO_STATUS :: "(string \<times> poll_result) list" where
  "POLL_ERROR_TO_STATUS =
     [(''authorization_pending'', Pending), (''slow_down'', SlowDown), (''expired_token'', Expired), (''access_denied'', Denied)]"

text \<open>The answer of \<^verbatim>\<open>oauth/device/token\<close>; \<open>syn\<close> is the text of a syntax error. A body that is the
  literal \<^verbatim>\<open>null\<close> has no property to read.\<close>

definition readPoll :: "int \<Rightarrow> jsval \<Rightarrow> thrown option + poll_result" where
  "readPoll status payload =
     (if nullish payload then Inl (Some (ErrorThrown ''Cannot read properties of null''))
      else (case js_get payload ''error'' of
              JStr (c # cs) \<Rightarrow>
                (case map_of POLL_ERROR_TO_STATUS (c # cs) of
                   None \<Rightarrow> Inl (Some (ApiThrown (newError Unknown (''unknown poll error '' @ in_quotes (c # cs)))))
                 | Some r \<Rightarrow> Inr r)
            | _ \<Rightarrow>
                (case js_get payload ''token'' of
                   JStr (t # ts) \<Rightarrow> Inr (Approved payload)
                 | _ \<Rightarrow> Inl (Some (ApiThrown (newError Unknown
                     (''poll: '' @ string_of_int status @ '' with no OAuth envelope'')))))))"

definition pollOnce :: "(string \<Rightarrow> string) \<Rightarrow> string \<Rightarrow> (thrown option + response) \<Rightarrow> thrown option + poll_result" where
  "pollOnce syn deviceCode reply =
     (if deviceCode = [] then Inl (Some (ApiThrown (newError UsageMissingArg ''device_code is required'')))
      else (case reply of
              Inl err \<Rightarrow> Inl err
            | Inr rs \<Rightarrow>
                if rs_status rs = 404 then Inl (Some (ApiThrown versionSkew))
                else if rs_status rs \<ge> 500 then Inr Retry5xx
                else (case rs_body rs of
                        None \<Rightarrow> Inl (Some (ApiThrown (newError Unknown (''decode poll response: '' @ syn []))))
                      | Some raw \<Rightarrow>
                          (if raw = [] then readPoll (rs_status rs) (JObj [])
                           else (case json_parse raw of
                                   None \<Rightarrow> Inl (Some (ApiThrown (newError Unknown (''decode poll response: '' @ syn raw))))
                                 | Some v \<Rightarrow> readPoll (rs_status rs) v)))))"

section \<open>Polling\<close>

definition DEFAULT_INTERVAL_MS :: int where "DEFAULT_INTERVAL_MS = 5000"
definition MAX_INTERVAL_MS :: int where "MAX_INTERVAL_MS = 60000"
definition POLL_RETRY_ATTEMPTS :: nat where "POLL_RETRY_ATTEMPTS = 5"
definition POLL_RETRY_INITIAL_MS :: int where "POLL_RETRY_INITIAL_MS = 1000"
definition POLL_RETRY_CAP_MS :: int where "POLL_RETRY_CAP_MS = 16000"

definition expired_error :: thrown where
  "expired_error = ApiThrown (newError ExpiredToken ''code expired before authorization'')"

text \<open>The progress of a wait: polls made, checks of the clock made, and the waits.\<close>

record wait_state =
  wt_polls :: nat
  wt_checks :: nat
  wt_sleeps :: "int list"

record wait_env =
  we_poll :: "nat \<Rightarrow> thrown option + poll_result"
  we_cancelled :: "nat \<Rightarrow> bool"

definition sleepMs :: "int \<Rightarrow> wait_state \<Rightarrow> wait_state" where
  "sleepMs ms w = w\<lparr>wt_sleeps := wt_sleeps w @ [ms]\<rparr>"

function poll_attempt :: "wait_env \<Rightarrow> nat \<Rightarrow> int \<Rightarrow> wait_state \<Rightarrow> (thrown option + poll_result) \<times> wait_state" where
  "poll_attempt env attempt backoff w =
     (if attempt > POLL_RETRY_ATTEMPTS then (Inr Retry5xx, w)
      else (let w1 = w\<lparr>wt_polls := Suc (wt_polls w)\<rparr>
            in case we_poll env (wt_polls w) of
                 Inl err \<Rightarrow> (Inl err, w1)
               | Inr r \<Rightarrow>
                   if r \<noteq> Retry5xx then (Inr r, w1)
                   else if attempt = POLL_RETRY_ATTEMPTS then (Inr Retry5xx, w1)
                   else poll_attempt env (Suc attempt) (min (backoff * 2) POLL_RETRY_CAP_MS) (sleepMs backoff w1)))"
  by pat_completeness auto
termination
  by (relation "measure (\<lambda>(env, attempt, backoff, w). Suc POLL_RETRY_ATTEMPTS - attempt)") auto

declare poll_attempt.simps [simp del]

definition pollWithRetry :: "wait_env \<Rightarrow> wait_state \<Rightarrow> (thrown option + poll_result) \<times> wait_state" where
  "pollWithRetry env w = poll_attempt env 1 POLL_RETRY_INITIAL_MS w"

definition check_clock :: "wait_env \<Rightarrow> wait_state \<Rightarrow> bool \<times> wait_state" where
  "check_clock env w = (we_cancelled env (wt_checks w), w\<lparr>wt_checks := Suc (wt_checks w)\<rparr>)"

text \<open>What the answer of a poll decides: the call ends, or the loop goes on with an interval.\<close>

definition on_poll :: "poll_result \<Rightarrow> int \<Rightarrow> (thrown option + jsval) + int" where
  "on_poll r interval =
     (case r of
        Approved s \<Rightarrow> Inl (Inr s)
      | Pending \<Rightarrow> Inr interval
      | SlowDown \<Rightarrow> Inr (min (interval * 2) MAX_INTERVAL_MS)
      | Expired \<Rightarrow> Inl (Inl (Some expired_error))
      | Denied \<Rightarrow> Inl (Inl (Some (ApiThrown (newError AccessDenied ''authorization denied''))))
      | Retry5xx \<Rightarrow> Inl (Inl (Some (ApiThrown (newError Server5xx ''device-flow poll unavailable after retries'')))))"

partial_function (option) await_loop ::
  "wait_env \<Rightarrow> int \<Rightarrow> wait_state \<Rightarrow> ((thrown option + jsval) \<times> wait_state) option" where
  "await_loop env interval w =
     (let (stop, w1) = check_clock env w
      in if stop then Some (Inl (Some expired_error), w1)
         else (case pollWithRetry env w1 of
                 (Inl err, w2) \<Rightarrow> Some (Inl err, w2)
               | (Inr r, w2) \<Rightarrow>
                   (case on_poll r interval of
                      Inl res \<Rightarrow> Some (res, w2)
                    | Inr interval' \<Rightarrow>
                        (let (stop', w3) = check_clock env (sleepMs interval' w2)
                         in if stop' then Some (Inl (Some expired_error), w3)
                            else await_loop env interval' w3))))"

definition base_interval :: "code_response \<Rightarrow> int" where
  "base_interval code = (if cr_interval code > 0 then cr_interval code * 1000 else DEFAULT_INTERVAL_MS)"

definition awaitAuthorization :: "wait_env \<Rightarrow> code_response \<Rightarrow> ((thrown option + jsval) \<times> wait_state) option" where
  "awaitAuthorization env code =
     (if cr_device_code code = [] then Some (Inl (Some expired_error), \<lparr>wt_polls = 0, wt_checks = 0, wt_sleeps = []\<rparr>)
      else await_loop env (base_interval code) \<lparr>wt_polls = 0, wt_checks = 0, wt_sleeps = []\<rparr>)"

text \<open>The clock of the program never reports a cancellation.\<close>

definition realClock :: "nat \<Rightarrow> bool" where
  "realClock n = False"

section \<open>What a wait does\<close>

text \<open>One round: the polls of \<open>pollWithRetry\<close>, at most five.\<close>

lemma poll_attempt_bounds:
  assumes "poll_attempt env a b w = (r, w')"
  shows "wt_checks w' = wt_checks w \<and> wt_polls w' \<le> wt_polls w + (Suc POLL_RETRY_ATTEMPTS - a)"
  using assms
proof (induction env a b w rule: poll_attempt.induct)
  case (1 env a b w)
  show ?case
  proof (cases "a \<le> POLL_RETRY_ATTEMPTS \<and> we_poll env (wt_polls w) = Inr Retry5xx \<and> a \<noteq> POLL_RETRY_ATTEMPTS")
    case True
    then have "poll_attempt env (Suc a) (min (b * 2) POLL_RETRY_CAP_MS) (sleepMs b (w\<lparr>wt_polls := Suc (wt_polls w)\<rparr>)) = (r, w')"
      using "1.prems" by (subst (asm) poll_attempt.simps) simp
    then show ?thesis using "1.IH" [OF _ refl _ _ _, of Retry5xx] True by (fastforce simp: sleepMs_def)
  next
    case False
    then show ?thesis using "1.prems"
      by (subst (asm) poll_attempt.simps) (auto simp: Let_def split: if_splits sum.splits)
  qed
qed

lemma pollWithRetry_first:
  "we_poll env (wt_polls w) = Inr r \<Longrightarrow> r \<noteq> Retry5xx \<Longrightarrow>
   pollWithRetry env w = (Inr r, w\<lparr>wt_polls := Suc (wt_polls w)\<rparr>)"
  unfolding pollWithRetry_def by (subst poll_attempt.simps) (simp add: POLL_RETRY_ATTEMPTS_def)

definition waiting :: "poll_result \<Rightarrow> bool" where
  "waiting r = (r = Pending \<or> r = SlowDown)"

definition next_interval :: "poll_result \<Rightarrow> int \<Rightarrow> int" where
  "next_interval r i = (if r = SlowDown then min (i * 2) MAX_INTERVAL_MS else i)"

lemma on_poll_waiting: "waiting r \<Longrightarrow> on_poll r i = Inr (next_interval r i)"
  by (auto simp: waiting_def on_poll_def next_interval_def)

text \<open>A round that ends with another round: one poll, one wait, two checks.\<close>

lemma await_round:
  assumes "we_poll env (wt_polls w) = Inr r" "waiting r"
    and "\<not> we_cancelled env (wt_checks w)" "\<not> we_cancelled env (Suc (wt_checks w))"
  shows "await_loop env i w = await_loop env (next_interval r i)
     \<lparr>wt_polls = Suc (wt_polls w), wt_checks = Suc (Suc (wt_checks w)), wt_sleeps = wt_sleeps w @ [next_interval r i]\<rparr>"
proof -
  have "r \<noteq> Retry5xx" using assms(2) by (auto simp: waiting_def)
  then have poll: "pollWithRetry env (w\<lparr>wt_checks := Suc (wt_checks w)\<rparr>)
      = (Inr r, w\<lparr>wt_checks := Suc (wt_checks w), wt_polls := Suc (wt_polls w)\<rparr>)"
    using pollWithRetry_first [of env "w\<lparr>wt_checks := Suc (wt_checks w)\<rparr>" r] assms(1) by simp
  show ?thesis
    by (subst await_loop.simps)
       (cases w, use assms(3,4) poll in \<open>simp add: check_clock_def on_poll_waiting [OF assms(2)] sleepMs_def\<close>)
qed

lemma await_settles:
  assumes "\<forall>j. \<not> we_cancelled env j"
    and "\<forall>j < k. \<exists>r. we_poll env (wt_polls w + j) = Inr r \<and> waiting r"
    and "we_poll env (wt_polls w + k) = Inr (Approved s)"
  shows "\<exists>w'. await_loop env i w = Some (Inr s, w') \<and> wt_polls w' = wt_polls w + Suc k
    \<and> length (wt_sleeps w') = length (wt_sleeps w) + k"
  using assms(2,3)
proof (induction k arbitrary: i w)
  case 0
  then have "pollWithRetry env (w\<lparr>wt_checks := Suc (wt_checks w)\<rparr>)
      = (Inr (Approved s), w\<lparr>wt_checks := Suc (wt_checks w), wt_polls := Suc (wt_polls w)\<rparr>)"
    using pollWithRetry_first [of env "w\<lparr>wt_checks := Suc (wt_checks w)\<rparr>" "Approved s"] by simp
  then show ?case
    using assms(1) by (subst await_loop.simps) (simp add: check_clock_def on_poll_def)
next
  case (Suc k)
  obtain r where r: "we_poll env (wt_polls w) = Inr r" "waiting r"
    using Suc.prems(1) by (metis add_0_right zero_less_Suc)
  let ?w = "\<lparr>wt_polls = Suc (wt_polls w), wt_checks = Suc (Suc (wt_checks w)), wt_sleeps = wt_sleeps w @ [next_interval r i]\<rparr>"
  have step: "await_loop env i w = await_loop env (next_interval r i) ?w"
    by (rule await_round [OF r]) (use assms(1) in simp_all)
  have wait: "\<forall>j < k. \<exists>r. we_poll env (wt_polls ?w + j) = Inr r \<and> waiting r"
  proof (intro allI impI)
    fix j assume "j < k"
    then have "Suc j < Suc k" by simp
    then show "\<exists>r. we_poll env (wt_polls ?w + j) = Inr r \<and> waiting r"
      using Suc.prems(1) [THEN spec, of "Suc j"] by simp
  qed
  have "we_poll env (wt_polls ?w + k) = Inr (Approved s)" using Suc.prems(2) by simp
  from Suc.IH [OF wait this, of "next_interval r i"] show ?case unfolding step by simp
qed

text \<open>C25: When the user approves after any number of pending polls, the wait returns the grant after exactly
  that many polls and one wait between two polls.\<close>

theorem approval_is_returned:
  assumes "cr_device_code code \<noteq> []" and "\<forall>j. \<not> we_cancelled env j"
    and "\<forall>j < k. \<exists>r. we_poll env j = Inr r \<and> waiting r" and "we_poll env k = Inr (Approved s)"
  shows "\<exists>w. awaitAuthorization env code = Some (Inr s, w) \<and> wt_polls w = Suc k \<and> length (wt_sleeps w) = k"
  using await_settles [OF assms(2), of k "\<lparr>wt_polls = 0, wt_checks = 0, wt_sleeps = []\<rparr>" s "base_interval code"] assms
  by (auto simp: awaitAuthorization_def)

text \<open>A server that answers \<open>pending\<close> twice and then grants.\<close>

definition two_pending :: wait_env where
  "two_pending = \<lparr>we_poll = (\<lambda>k. if k < 2 then Inr Pending else Inr (Approved (JObj []))), we_cancelled = realClock\<rparr>"

definition demo_code :: code_response where
  "demo_code = \<lparr>cr_device_code = ''d'', cr_user_code = ''u'', cr_verification_uri = ''https://h'', cr_expires_in = 1, cr_interval = 5\<rparr>"

lemma approval_is_returned_witness:
  "\<exists>w. awaitAuthorization two_pending demo_code = Some (Inr (JObj []), w) \<and> wt_polls w = Suc 2 \<and> length (wt_sleeps w) = 2"
  by (rule approval_is_returned) (auto simp: demo_code_def two_pending_def realClock_def waiting_def)

text \<open>C26: With the clock of the program, a server that only answers \<open>pending\<close> keeps the client waiting for
  ever: the lifetime of the code, which the server has announced, is not looked at.\<close>

theorem pending_server_is_polled_forever:
  assumes "we_cancelled env = realClock" and "\<forall>k. we_poll env k = Inr Pending" and "cr_device_code code \<noteq> []"
  shows "awaitAuthorization env code = None"
proof -
  have never: "env' \<noteq> env" if "await_loop env' i w = Some y" for env' i w y
  proof (rule await_loop.raw_induct [where P = "\<lambda>env' i w y. env' \<noteq> env", OF _ that])
    fix f :: "wait_env \<Rightarrow> int \<Rightarrow> wait_state \<Rightarrow> ((thrown option + jsval) \<times> wait_state) option" and env' i w y
    assume IH: "\<And>env' i w y. f env' i w = Some y \<Longrightarrow> env' \<noteq> env"
      and body: "(let (stop, w1) = check_clock env' w
        in if stop then Some (Inl (Some expired_error), w1)
           else (case pollWithRetry env' w1 of
                   (Inl err, w2) \<Rightarrow> Some (Inl err, w2)
                 | (Inr r, w2) \<Rightarrow>
                     (case on_poll r i of
                        Inl res \<Rightarrow> Some (res, w2)
                      | Inr interval' \<Rightarrow>
                          (let (stop', w3) = check_clock env' (sleepMs interval' w2)
                           in if stop' then Some (Inl (Some expired_error), w3) else f env' interval' w3)))) = Some y"
    show "env' \<noteq> env"
    proof
      assume env: "env' = env"
      have "pollWithRetry env (w\<lparr>wt_checks := Suc (wt_checks w)\<rparr>)
          = (Inr Pending, w\<lparr>wt_checks := Suc (wt_checks w), wt_polls := Suc (wt_polls w)\<rparr>)"
        using pollWithRetry_first [of env "w\<lparr>wt_checks := Suc (wt_checks w)\<rparr>" Pending] assms(2) by simp
      then have "\<exists>w3. f env i w3 = Some y"
        using body assms(1) unfolding env by (auto simp: check_clock_def on_poll_def realClock_def)
      then show False using IH by blast
    qed
  qed
  then show ?thesis
    using assms(3) by (cases "awaitAuthorization env code") (fastforce simp: awaitAuthorization_def)+
qed

lemma pending_server_is_polled_forever_witness:
  "awaitAuthorization \<lparr>we_poll = (\<lambda>k. Inr Pending), we_cancelled = realClock\<rparr> demo_code = None"
  by (rule pending_server_is_polled_forever) (simp_all add: demo_code_def)

text \<open>A request to slow down shortens an interval of more than a minute.\<close>

lemma slow_down_speeds_up:
  "60000 < interval \<Longrightarrow> on_poll SlowDown interval = Inr 60000"
  by (simp add: on_poll_def MAX_INTERVAL_MS_def)

lemma slow_down_speeds_up_witness: "on_poll SlowDown 120000 = Inr 60000"
  by (rule slow_down_speeds_up) simp

end
