(* ===== verification/Accounts.thy ===== *)
theory Accounts
  imports Token_Store Device_Flow
begin

text \<open>
  The accounts of the command line client: the registry \<^verbatim>\<open>cli/src/auth/hosts.ts\<close> with its schema, and the
  commands that change it: \<^verbatim>\<open>auth login\<close>, \<^verbatim>\<open>auth logout\<close>, \<^verbatim>\<open>use host\<close>, \<^verbatim>\<open>use account\<close>,
  \<^verbatim>\<open>use workspace\<close>, \<^verbatim>\<open>auth devices revoke\<close>, \<^verbatim>\<open>auth list\<close>. Records of hosts and accounts keep the order
  of their keys. What interactive pickers and the server answer are arguments; printing is left out.
\<close>

section \<open>The registry\<close>

record account =
  acc_id :: "string option"
  acc_email :: string
  acc_name :: string

record workspace_ref =
  ws_id :: string
  ws_name :: string
  ws_role :: string

record subject_ref =
  sub_email :: string
  sub_issuer :: string

record account_context =
  ctx_account :: account
  ctx_workspace :: "workspace_ref option"
  ctx_token_id :: "string option"
  ctx_expires :: "string option"
  ctx_subject :: "subject_ref option"

record host_entry =
  ent_scheme :: "string option"
  ent_current :: "string option"
  ent_accounts :: "(string \<times> account_context) list"

record registry =
  reg_storage :: storage_mode
  reg_current :: "string option"
  reg_hosts :: "(string \<times> host_entry) list"

record active_context =
  act_host :: string
  act_email :: string
  act_ctx :: account_context
  act_scheme :: "string option"

definition del_key :: "string \<Rightarrow> (string \<times> 'v) list \<Rightarrow> (string \<times> 'v) list" where
  "del_key k xs = filter (\<lambda>p. fst p \<noteq> k) xs"

definition notLoggedInError :: "string option \<Rightarrow> api_error" where
  "notLoggedInError hint =
     \<lparr>ae_code = NotLoggedIn, ae_message = ''not logged in'',
      ae_hint = Some (with_default hint (''run '' @ [CHR 0x27] @ ''difyctl auth login'' @ [CHR 0x27])), ae_http = None\<rparr>"

definition empty_registry :: "storage_mode \<Rightarrow> registry" where
  "empty_registry mode = \<lparr>reg_storage = mode, reg_current = None, reg_hosts = []\<rparr>"

definition resolveActive :: "registry \<Rightarrow> active_context option" where
  "resolveActive reg =
     (case reg_current reg of
        None \<Rightarrow> None
      | Some host \<Rightarrow>
          if host = [] then None
          else (case map_of (reg_hosts reg) host of
                  None \<Rightarrow> None
                | Some entry \<Rightarrow>
                    (case ent_current entry of
                       None \<Rightarrow> None
                     | Some email \<Rightarrow>
                         if email = [] then None
                         else (case map_of (ent_accounts entry) email of
                                 None \<Rightarrow> None
                               | Some ctx \<Rightarrow> Some \<lparr>act_host = host, act_email = email, act_ctx = ctx, act_scheme = ent_scheme entry\<rparr>))))"

definition requireActive :: "string option \<Rightarrow> registry \<Rightarrow> api_error + active_context" where
  "requireActive hint reg =
     (case resolveActive reg of None \<Rightarrow> Inl (notLoggedInError hint) | Some a \<Rightarrow> Inr a)"

definition fresh_entry :: host_entry where
  "fresh_entry = \<lparr>ent_scheme = None, ent_current = None, ent_accounts = []\<rparr>"

definition set_hosts :: "(string \<times> host_entry) list \<Rightarrow> registry \<Rightarrow> registry" where
  "set_hosts hs reg = reg\<lparr>reg_hosts := hs\<rparr>"

definition upsert :: "string \<Rightarrow> string \<Rightarrow> account_context \<Rightarrow> registry \<Rightarrow> registry" where
  "upsert host email ctx reg =
     (let entry = with_default (map_of (reg_hosts reg) host) fresh_entry
      in set_hosts (obj_set host (entry\<lparr>ent_accounts := obj_set email ctx (ent_accounts entry)\<rparr>) (reg_hosts reg)) reg)"

definition remove :: "string \<Rightarrow> string \<Rightarrow> registry \<Rightarrow> registry" where
  "remove host email reg =
     (case map_of (reg_hosts reg) host of
        None \<Rightarrow> reg
      | Some entry \<Rightarrow>
          (let wasActive = (ent_current entry = Some email);
               accounts = del_key email (ent_accounts entry);
               entry' = entry\<lparr>ent_accounts := accounts, ent_current := (if wasActive then None else ent_current entry)\<rparr>
           in if accounts = [] then
                (set_hosts (del_key host (reg_hosts reg)) reg)
                  \<lparr>reg_current := (if reg_current reg = Some host then None else reg_current reg)\<rparr>
              else
                (set_hosts (obj_set host entry' (reg_hosts reg)) reg)
                  \<lparr>reg_current := (if wasActive \<and> reg_current reg = Some host then None else reg_current reg)\<rparr>))"

definition setHost :: "string \<Rightarrow> registry \<Rightarrow> registry" where
  "setHost host reg = reg\<lparr>reg_current := Some host\<rparr>"

definition setAccount :: "string \<Rightarrow> registry \<Rightarrow> registry" where
  "setAccount email reg =
     (case reg_current reg of
        None \<Rightarrow> reg
      | Some host \<Rightarrow>
          (case map_of (reg_hosts reg) host of
             None \<Rightarrow> reg
           | Some entry \<Rightarrow> set_hosts (obj_set host (entry\<lparr>ent_current := Some email\<rparr>) (reg_hosts reg)) reg))"

definition setScheme :: "string \<Rightarrow> string \<Rightarrow> registry \<Rightarrow> registry" where
  "setScheme host scheme reg =
     (case map_of (reg_hosts reg) host of
        None \<Rightarrow> reg
      | Some entry \<Rightarrow> set_hosts (obj_set host (entry\<lparr>ent_scheme := Some scheme\<rparr>) (reg_hosts reg)) reg)"

definition activate :: "string \<Rightarrow> string \<Rightarrow> account_context \<Rightarrow> registry \<Rightarrow> registry" where
  "activate host email ctx reg = setAccount email (setHost host (upsert host email ctx reg))"

section \<open>The registry as a document\<close>

fun mode_text :: "storage_mode \<Rightarrow> string" where
  "mode_text Keychain_mode = ''keychain''"
| "mode_text File_mode = ''file''"

definition str_field :: "string \<Rightarrow> string option \<Rightarrow> jsobj" where
  "str_field k v = opt_field k JStr v"

definition account_json :: "account \<Rightarrow> jsval" where
  "account_json a = JObj (str_field ''id'' (acc_id a) @ [(''email'', JStr (acc_email a)), (''name'', JStr (acc_name a))])"

definition workspace_json :: "workspace_ref \<Rightarrow> jsval" where
  "workspace_json w = JObj [(''id'', JStr (ws_id w)), (''name'', JStr (ws_name w)), (''role'', JStr (ws_role w))]"

definition subject_json :: "subject_ref \<Rightarrow> jsval" where
  "subject_json s = JObj [(''email'', JStr (sub_email s)), (''issuer'', JStr (sub_issuer s))]"

definition context_json :: "account_context \<Rightarrow> jsval" where
  "context_json c =
     JObj ([(''account'', account_json (ctx_account c))] @ opt_field ''workspace'' workspace_json (ctx_workspace c)
       @ str_field ''token_id'' (ctx_token_id c) @ str_field ''token_expires_at'' (ctx_expires c)
       @ opt_field ''external_subject'' subject_json (ctx_subject c))"

definition record_json :: "('a \<Rightarrow> jsval) \<Rightarrow> (string \<times> 'a) list \<Rightarrow> jsval" where
  "record_json f xs = JObj (map (\<lambda>(k, v). (k, f v)) xs)"

definition entry_json :: "host_entry \<Rightarrow> jsval" where
  "entry_json e =
     JObj (str_field ''scheme'' (ent_scheme e) @ str_field ''current_account'' (ent_current e)
       @ [(''accounts'', record_json context_json (ent_accounts e))])"

definition registry_json :: "registry \<Rightarrow> jsval" where
  "registry_json reg =
     JObj ([(''token_storage'', JStr (mode_text (reg_storage reg)))] @ str_field ''current_host'' (reg_current reg)
       @ [(''hosts'', record_json entry_json (reg_hosts reg))])"

text \<open>The schema: \<open>None\<close> is its exception. An optional text, a text with a default, a record.\<close>

fun z_optional :: "(jsval \<Rightarrow> 'a option) \<Rightarrow> jsval \<Rightarrow> 'a option option" where
  "z_optional f JUndefined = Some None"
| "z_optional f v = map_option Some (f v)"

definition z_default :: "'a \<Rightarrow> (jsval \<Rightarrow> 'a option) \<Rightarrow> jsval \<Rightarrow> 'a option" where
  "z_default d f v = (if v = JUndefined then Some d else f v)"

fun z_record :: "(jsval \<Rightarrow> 'a option) \<Rightarrow> jsval \<Rightarrow> (string \<times> 'a) list option" where
  "z_record f (JObj ob) = collect_all (\<lambda>(k, v). map_option (Pair k) (f v)) ob"
| "z_record f _ = None"

fun z_mode :: "jsval \<Rightarrow> storage_mode option" where
  "z_mode (JStr s) = (if s = ''keychain'' then Some Keychain_mode else if s = ''file'' then Some File_mode else None)"
| "z_mode _ = None"

fun AccountSchema :: "jsval \<Rightarrow> account option" where
  "AccountSchema (JObj ob) =
     (case (z_optional str_of (obj_get ob ''id''), z_default [] str_of (obj_get ob ''email''), z_default [] str_of (obj_get ob ''name'')) of
        (Some i, Some e, Some n) \<Rightarrow> Some \<lparr>acc_id = i, acc_email = e, acc_name = n\<rparr>
      | _ \<Rightarrow> None)"
| "AccountSchema _ = None"

fun WorkspaceSchema :: "jsval \<Rightarrow> workspace_ref option" where
  "WorkspaceSchema (JObj ob) =
     (case (str_of (obj_get ob ''id''), str_of (obj_get ob ''name''), str_of (obj_get ob ''role'')) of
        (Some i, Some n, Some r) \<Rightarrow> Some \<lparr>ws_id = i, ws_name = n, ws_role = r\<rparr>
      | _ \<Rightarrow> None)"
| "WorkspaceSchema _ = None"

fun ExternalSubjectSchema :: "jsval \<Rightarrow> subject_ref option" where
  "ExternalSubjectSchema (JObj ob) =
     (case (str_of (obj_get ob ''email''), str_of (obj_get ob ''issuer'')) of
        (Some e, Some i) \<Rightarrow> Some \<lparr>sub_email = e, sub_issuer = i\<rparr>
      | _ \<Rightarrow> None)"
| "ExternalSubjectSchema _ = None"

fun AccountContextSchema :: "jsval \<Rightarrow> account_context option" where
  "AccountContextSchema (JObj ob) =
     (case (AccountSchema (obj_get ob ''account''), z_optional WorkspaceSchema (obj_get ob ''workspace''),
            z_optional str_of (obj_get ob ''token_id''), z_optional str_of (obj_get ob ''token_expires_at''),
            z_optional ExternalSubjectSchema (obj_get ob ''external_subject'')) of
        (Some a, Some w, Some ti, Some te, Some s) \<Rightarrow>
          Some \<lparr>ctx_account = a, ctx_workspace = w, ctx_token_id = ti, ctx_expires = te, ctx_subject = s\<rparr>
      | _ \<Rightarrow> None)"
| "AccountContextSchema _ = None"

fun HostEntrySchema :: "jsval \<Rightarrow> host_entry option" where
  "HostEntrySchema (JObj ob) =
     (case (z_optional str_of (obj_get ob ''scheme''), z_optional str_of (obj_get ob ''current_account''),
            z_default [] (z_record AccountContextSchema) (obj_get ob ''accounts'')) of
        (Some s, Some c, Some xs) \<Rightarrow> Some \<lparr>ent_scheme = s, ent_current = c, ent_accounts = xs\<rparr>
      | _ \<Rightarrow> None)"
| "HostEntrySchema _ = None"

fun RegistrySchema :: "jsval \<Rightarrow> registry option" where
  "RegistrySchema (JObj ob) =
     (case (z_default File_mode z_mode (obj_get ob ''token_storage''), z_optional str_of (obj_get ob ''current_host''),
            z_default [] (z_record HostEntrySchema) (obj_get ob ''hosts'')) of
        (Some md, Some c, Some hs) \<Rightarrow> Some \<lparr>reg_storage = md, reg_current = c, reg_hosts = hs\<rparr>
      | _ \<Rightarrow> None)"
| "RegistrySchema _ = None"

datatype registry_error = StoreFailed store_error | SchemaFailed

definition loadRegistry :: "codec \<Rightarrow> file_store \<Rightarrow> (registry_error + registry) \<times> file_store" where
  "loadRegistry cd fs =
     (case getTyped cd fs of
        (Inl err, fs') \<Rightarrow> (Inl (StoreFailed err), fs')
      | (Inr doc, fs') \<Rightarrow>
          (if doc = JNull then Inr (empty_registry File_mode)
           else (case RegistrySchema doc of None \<Rightarrow> Inl SchemaFailed | Some reg \<Rightarrow> Inr reg), fs'))"

text \<open>What the schema returns for the data of the object is the data itself, so \<^verbatim>\<open>save\<close> stores its document.\<close>

definition saveRegistry :: "codec \<Rightarrow> registry \<Rightarrow> file_store \<Rightarrow> (store_error + unit) \<times> file_store" where
  "saveRegistry cd reg fs = setTyped cd (registry_json reg) fs"

section \<open>Commands\<close>

text \<open>A token store: the operations may fail. \<^verbatim>\<open>ops\<close> is chosen by the storage mode of the registry.\<close>

record 's token_ops =
  tk_read :: "string \<Rightarrow> string \<Rightarrow> 's \<Rightarrow> api_error + string"
  tk_write :: "string \<Rightarrow> string \<Rightarrow> string \<Rightarrow> 's \<Rightarrow> api_error + 's"
  tk_remove :: "string \<Rightarrow> string \<Rightarrow> 's \<Rightarrow> api_error + 's"

text \<open>The state behind the commands: the saved registry and one token store per mode.\<close>

record 's cli_state =
  st_registry :: registry
  st_tokens :: "storage_mode \<Rightarrow> 's"

definition save :: "registry \<Rightarrow> 's cli_state \<Rightarrow> 's cli_state" where
  "save reg st = st\<lparr>st_registry := reg\<rparr>"

text \<open>\<^verbatim>\<open>forget\<close>: the removal of the token is best-effort.\<close>

definition forget :: "'s token_ops \<Rightarrow> active_context \<Rightarrow> registry \<Rightarrow> storage_mode \<Rightarrow> 's cli_state \<Rightarrow> 's cli_state" where
  "forget ops active reg mode st =
     (let st1 = (case tk_remove ops (act_host active) (act_email active) (st_tokens st mode) of
                   Inl err \<Rightarrow> st
                 | Inr s' \<Rightarrow> st\<lparr>st_tokens := (st_tokens st)(mode := s')\<rparr>)
      in save (remove (act_host active) (act_email active) reg) st1)"

definition runUseHost :: "string option \<Rightarrow> bool \<Rightarrow> (string list \<Rightarrow> api_error + string) \<Rightarrow> 's cli_state \<Rightarrow> (api_error + unit) \<times> 's cli_state" where
  "runUseHost arg isErrTTY pick st =
     (let reg = st_registry st; hosts = map fst (reg_hosts reg)
      in if hosts = [] then (Inl (notLoggedInError None), st)
         else (case (case arg of
                       Some h \<Rightarrow> Inr h
                     | None \<Rightarrow>
                         (if \<not> isErrTTY
                          then Inl (newError UsageMissingArg (''--domain is required (no TTY); known hosts: '' @ join '', '' hosts))
                          else pick hosts)) of
                 Inl err \<Rightarrow> (Inl err, st)
               | Inr target \<Rightarrow>
                   if target \<notin> set hosts
                   then (Inl (newError UsageInvalidFlag
                          (''unknown host '' @ in_quotes target @ ''; known hosts: '' @ join '', '' hosts)), st)
                   else (Inr (), save (setHost target reg) st)))"

definition USE_HOST_HINT :: string where
  "USE_HOST_HINT = ''run '' @ [CHR 0x27] @ ''difyctl use host'' @ [CHR 0x27] @ '' or '' @ [CHR 0x27] @ ''difyctl auth login'' @ [CHR 0x27]"

definition runUseAccount ::
  "'s token_ops \<Rightarrow> string option \<Rightarrow> bool \<Rightarrow> (string list \<Rightarrow> api_error + string) \<Rightarrow> 's cli_state \<Rightarrow> (api_error + unit) \<times> 's cli_state" where
  "runUseAccount ops arg isErrTTY pick st =
     (let reg = st_registry st
      in case reg_current reg of
           None \<Rightarrow> (Inl (notLoggedInError (Some USE_HOST_HINT)), st)
         | Some host \<Rightarrow>
             (case map_of (reg_hosts reg) host of
                None \<Rightarrow> (Inl (notLoggedInError (Some USE_HOST_HINT)), st)
              | Some entry \<Rightarrow>
                  (let emails = map fst (ent_accounts entry)
                   in case (case arg of
                              Some e \<Rightarrow> Inr e
                            | None \<Rightarrow>
                                (if \<not> isErrTTY
                                 then Inl (newError UsageMissingArg
                                        (''--email is required (no TTY); known accounts on '' @ host @ '': '' @ join '', '' emails))
                                 else pick emails)) of
                        Inl err \<Rightarrow> (Inl err, st)
                      | Inr target \<Rightarrow>
                          if target \<notin> set emails
                          then (Inl (newError UsageInvalidFlag
                                 (''unknown account '' @ in_quotes target @ '' on '' @ host @ ''; known: '' @ join '', '' emails)), st)
                          else (case tk_read ops host target (st_tokens st (reg_storage reg)) of
                                  Inl err \<Rightarrow> (Inl err, st)
                                | Inr bearer \<Rightarrow>
                                    if bearer = []
                                    then (Inl (withHint (''run '' @ [CHR 0x27] @ ''difyctl auth login --host '' @ host @ [CHR 0x27])
                                           (newError NotLoggedIn (''no credential stored for '' @ target @ '' on '' @ host))), st)
                                    else (Inr (), save (setAccount target reg) st)))))"

definition REVOCABLE_PREFIXES :: "string list" where
  "REVOCABLE_PREFIXES = [''dfoa_'', ''dfoe_'']"

definition revokeAllowed :: "string \<Rightarrow> bool" where
  "revokeAllowed bearer = list_ex (startsWith bearer) REVOCABLE_PREFIXES"

text \<open>Logging out: the answer says whether the server is asked to revoke the token. What it answers only
  decides about a warning.\<close>

definition runLogout :: "'s token_ops \<Rightarrow> bool \<Rightarrow> 's cli_state \<Rightarrow> (api_error + bool) \<times> 's cli_state" where
  "runLogout ops hasHttp st =
     (let reg = st_registry st
      in case requireActive None reg of
           Inl err \<Rightarrow> (Inl err, st)
         | Inr active \<Rightarrow>
             (let bearer = (case tk_read ops (act_host active) (act_email active) (st_tokens st (reg_storage reg)) of
                              Inl err \<Rightarrow> [] | Inr b \<Rightarrow> b)
              in (Inr (bearer \<noteq> [] \<and> revokeAllowed bearer \<and> hasHttp), forget ops active reg (reg_storage reg) st)))"

text \<open>Switching the workspace: the server answers first.\<close>

definition runUseWorkspace :: "(api_error + workspace_ref) \<Rightarrow> 's cli_state \<Rightarrow> (api_error + unit) \<times> 's cli_state" where
  "runUseWorkspace switched st =
     (let reg = st_registry st
      in case requireActive None reg of
           Inl err \<Rightarrow> (Inl err, st)
         | Inr active \<Rightarrow>
             (case switched of
                Inl err \<Rightarrow> (Inl err, st)
              | Inr w \<Rightarrow>
                  (Inr (), save (upsert (act_host active) (act_email active) ((act_ctx active)\<lparr>ctx_workspace := Some w\<rparr>) reg) st)))"

section \<open>Sessions on the server\<close>

record session_row =
  se_id :: string
  se_label :: string

record session_page =
  sp_data :: "session_row list"
  sp_more :: bool

definition MAX_PAGES :: nat where "MAX_PAGES = 100"

text \<open>All pages, at most a hundred.\<close>

function list_pages :: "(nat \<Rightarrow> api_error + session_page) \<Rightarrow> nat \<Rightarrow> session_row list \<Rightarrow> api_error + session_row list" where
  "list_pages pages page out =
     (if page > MAX_PAGES then Inr out
      else (case pages page of
              Inl err \<Rightarrow> Inl err
            | Inr env \<Rightarrow>
                if \<not> sp_more env then Inr (out @ sp_data env)
                else list_pages pages (Suc page) (out @ sp_data env)))"
  by pat_completeness auto
termination by (relation "measure (\<lambda>(pages, page, out). Suc MAX_PAGES - page)") auto

declare list_pages.simps [simp del]

definition listAllSessions :: "(nat \<Rightarrow> api_error + session_page) \<Rightarrow> api_error + session_row list" where
  "listAllSessions pages = list_pages pages 1 []"

record picked =
  pk_ids :: "string list"
  pk_selfHit :: bool

definition pick_one :: "string \<Rightarrow> session_row \<Rightarrow> picked" where
  "pick_one currentId r = \<lparr>pk_ids = [se_id r], pk_selfHit = (se_id r = currentId)\<rparr>"

definition ambiguous :: "string \<Rightarrow> session_row list \<Rightarrow> api_error" where
  "ambiguous target rows =
     newError UsageInvalidFlag
       (in_quotes target @ '' matches multiple sessions: ''
        @ join '', '' (map (\<lambda>r. se_label r @ '' ('' @ se_id r @ '')'') rows) @ ''; pass an exact id to disambiguate'')"

definition containsText :: "string \<Rightarrow> string \<Rightarrow> bool" where
  "containsText needle s = (indexOf needle s \<noteq> None)"

definition pickTargets :: "session_row list \<Rightarrow> string option \<Rightarrow> bool \<Rightarrow> string \<Rightarrow> api_error + picked" where
  "pickTargets rows tgt all currentId =
     (if all then
        Inr \<lparr>pk_ids = map se_id (filter (\<lambda>r. se_id r \<noteq> currentId) rows), pk_selfHit = False\<rparr>
      else
        (let target = with_default tgt [];
             byLabel = filter (\<lambda>r. se_label r = target) rows
         in if length byLabel > 1 then Inl (ambiguous target byLabel)
            else (case byLabel of
                    r # _ \<Rightarrow> Inr (pick_one currentId r)
                  | [] \<Rightarrow>
                      (case find (\<lambda>r. se_id r = target) rows of
                         Some r \<Rightarrow> Inr (pick_one currentId r)
                       | None \<Rightarrow>
                           (let bySub = filter (\<lambda>r. containsText (toLowerCase target) (toLowerCase (se_label r))) rows
                            in if length bySub > 1 then Inl (ambiguous target bySub)
                               else (case bySub of
                                       r # _ \<Rightarrow> Inr (pick_one currentId r)
                                     | [] \<Rightarrow> Inl (newError UsageMissingArg (''no session matches '' @ in_quotes target))))))))"

text \<open>The result lists the sessions asked to be revoked; an error of the server ends the command.\<close>

fun revoke_all :: "(string \<Rightarrow> api_error option) \<Rightarrow> string list \<Rightarrow> api_error option" where
  "revoke_all revoke [] = None"
| "revoke_all revoke (i # is) = (case revoke i of Some err \<Rightarrow> Some err | None \<Rightarrow> revoke_all revoke is)"

definition runDevicesRevoke ::
  "'s token_ops \<Rightarrow> (nat \<Rightarrow> api_error + session_page) \<Rightarrow> (string \<Rightarrow> api_error option) \<Rightarrow> string option \<Rightarrow> bool \<Rightarrow> bool
   \<Rightarrow> bool \<Rightarrow> bool \<Rightarrow> 's cli_state \<Rightarrow> (api_error + string list) \<times> 's cli_state" where
  "runDevicesRevoke ops pages revoke tgt all yes isErrTTY confirmed st =
     (let reg = st_registry st
      in case requireActive None reg of
           Inl err \<Rightarrow> (Inl err, st)
         | Inr active \<Rightarrow>
             if \<not> all \<and> \<not> nonempty tgt then
               (Inl (withHint (''see '' @ [CHR 0x27] @ ''difyctl auth devices list'' @ [CHR 0x27])
                  (newError UsageMissingArg ''specify a device label / id, or pass --all'')), st)
             else (case listAllSessions pages of
                     Inl err \<Rightarrow> (Inl err, st)
                   | Inr rows \<Rightarrow>
                       (case pickTargets rows tgt all (with_default (ctx_token_id (act_ctx active)) []) of
                          Inl err \<Rightarrow> (Inl err, st)
                        | Inr p \<Rightarrow>
                            if pk_ids p = [] then (Inr [], st)
                            else if \<not> yes \<and> isErrTTY \<and> \<not> confirmed then
                              (Inl (withHint ''pass --yes to skip confirmation'' (newError UsageMissingArg ''aborted by user'')), st)
                            else (case revoke_all revoke (pk_ids p) of
                                    Some err \<Rightarrow> (Inl err, st)
                                  | None \<Rightarrow>
                                      (Inr (pk_ids p),
                                       if pk_selfHit p then forget ops active reg (reg_storage reg) st else st)))))"

section \<open>Listing\<close>

record context_row =
  cr_host :: string
  cr_email :: string
  cr_name :: string
  cr_active :: bool

definition runAuthList :: "registry \<Rightarrow> context_row list" where
  "runAuthList reg =
     concat (map (\<lambda>(host, entry).
       map (\<lambda>(email, ctx). \<lparr>cr_host = host, cr_email = email, cr_name = acc_name (ctx_account ctx),
              cr_active = (reg_current reg = Some host \<and> ent_current entry = Some email)\<rparr>) (ent_accounts entry))
       (reg_hosts reg))"

section \<open>Logging in\<close>

text \<open>URLs as the platform parses them; \<open>u_text\<close> is the text of the URL with a given path.\<close>

record url_parts =
  u_protocol :: string
  u_host :: string
  u_pathname :: string
  u_text :: "string \<Rightarrow> string"

definition DEFAULT_HOST :: string where "DEFAULT_HOST = ''https://cloud.dify.ai''"

definition strip_slashes :: "string \<Rightarrow> string" where
  "strip_slashes s = rev (dropWhile (\<lambda>c. c = CHR ''/'') (rev s))"

definition openAPIBase :: "string \<Rightarrow> string" where
  "openAPIBase host = strip_slashes host @ ''/openapi/v1/''"

definition only_https :: api_error where
  "only_https = withHint ''add --insecure to allow http:// (local-dev only; user_code/device_code travel plaintext)''
     (newError UsageInvalidFlag ''only https:// hosts are accepted'')"

definition resolveHost :: "(string \<Rightarrow> url_parts option) \<Rightarrow> string \<Rightarrow> bool \<Rightarrow> api_error + string" where
  "resolveHost parseURL given_host insecure =
     (let raw1 = (if trim given_host = [] then DEFAULT_HOST else trim given_host);
          raw = (if containsText ''://'' raw1 then raw1 else ''https://'' @ raw1)
      in case parseURL raw of
           None \<Rightarrow> Inl (newError UsageInvalidFlag ''host parse: Invalid URL'')
         | Some u \<Rightarrow>
             if u_protocol u \<noteq> ''https:'' \<and> \<not> (insecure \<and> u_protocol u = ''http:'') then Inl only_https
             else (let out = u_text u (strip_slashes (u_pathname u))
                   in Inr (if endsWith out ''/'' then butlast out else out)))"

definition hostWithScheme :: "string \<Rightarrow> string option \<Rightarrow> string" where
  "hostWithScheme host scheme =
     (if containsText ''://'' host then host
      else (if \<not> nonempty scheme then ''https'' else the scheme) @ ''://'' @ host)"

definition bareHost :: "(string \<Rightarrow> url_parts option) \<Rightarrow> string \<Rightarrow> string" where
  "bareHost parseURL raw =
     (case parseURL raw of None \<Rightarrow> raw | Some u \<Rightarrow> if u_host u \<noteq> [] then u_host u else raw)"

definition drop_colon :: "string \<Rightarrow> string" where
  "drop_colon s = remove1 (CHR '':'') s"

definition validateVerificationURI :: "(string \<Rightarrow> url_parts option) \<Rightarrow> string \<Rightarrow> bool \<Rightarrow> api_error option" where
  "validateVerificationURI parseURL raw insecure =
     (case parseURL (trim raw) of
        None \<Rightarrow> Some (newError Unknown (''server returned invalid verification_uri '' @ in_quotes raw))
      | Some u \<Rightarrow>
          if u_protocol u \<noteq> ''https:'' \<and> \<not> (insecure \<and> u_protocol u = ''http:'') then
            Some (withHint ''expected https:// (use --insecure to allow http:// on local-dev hosts)''
              (newError Unknown (''server returned verification_uri with unsupported scheme '' @ in_quotes (drop_colon (u_protocol u)))))
          else if u_host u = [] then
            Some (newError Unknown (''server returned verification_uri without host: '' @ in_quotes raw))
          else None)"

datatype open_decision = AutoOpen | SkipSSH | SkipHeadlessLinux | SkipNoTTY | SkipUserOptOut

record browser_env =
  be_getEnv :: "string \<Rightarrow> string option"
  be_linux :: bool
  be_outTTY :: bool
  be_errTTY :: bool

definition decideOpen :: "browser_env \<Rightarrow> bool \<Rightarrow> open_decision" where
  "decideOpen env optOut =
     (if optOut then SkipUserOptOut
      else if nonempty (be_getEnv env ''SSH_CONNECTION'') \<or> nonempty (be_getEnv env ''SSH_TTY'') then SkipSSH
      else if be_linux env \<and> \<not> nonempty (be_getEnv env ''DISPLAY'') \<and> \<not> nonempty (be_getEnv env ''WAYLAND_DISPLAY'')
        then SkipHeadlessLinux
      else if \<not> be_outTTY env \<or> \<not> be_errTTY env then SkipNoTTY
      else AutoOpen)"

record poll_success =
  ps_token :: string
  ps_subject_email :: "string option"
  ps_subject_issuer :: "string option"
  ps_account :: "(string \<times> string \<times> string) option"
  ps_workspaces :: "workspace_ref list option"
  ps_default_workspace :: "string option"
  ps_token_id :: "string option"

definition findDefaultWorkspace :: "poll_success \<Rightarrow> workspace_ref option" where
  "findDefaultWorkspace s =
     (if \<not> nonempty (ps_default_workspace s) then None
      else Option.bind (ps_workspaces s) (find (\<lambda>w. Some (ws_id w) = ps_default_workspace s)))"

definition accountEmail :: "poll_success \<Rightarrow> api_error + string" where
  "accountEmail s =
     (let e = (case ps_account s of Some (i, em, n) \<Rightarrow> em | None \<Rightarrow> []);
          email = (if e \<noteq> [] then e else with_default (ps_subject_email s) [])
      in if email = [] then
           Inl (withHint ''this Dify instance returned no email for the signed-in subject''
             (newError NotLoggedIn ''account has no email; cannot store credential''))
         else Inr email)"

definition contextFromSuccess :: "poll_success \<Rightarrow> account_context" where
  "contextFromSuccess s =
     \<lparr>ctx_account = (case ps_account s of
          Some (i, em, n) \<Rightarrow> \<lparr>acc_id = Some i, acc_email = em, acc_name = n\<rparr>
        | None \<Rightarrow> \<lparr>acc_id = Some [], acc_email = [], acc_name = []\<rparr>),
      ctx_workspace = findDefaultWorkspace s, ctx_token_id = ps_token_id s, ctx_expires = None,
      ctx_subject = (if nonempty (ps_subject_email s) \<and> (case ps_account s of None \<Rightarrow> True | Some (i, em, n) \<Rightarrow> i = [])
         then Some \<lparr>sub_email = the (ps_subject_email s), sub_issuer = with_default (ps_subject_issuer s) []\<rparr> else None)\<rparr>"

definition applyScheme :: "(string \<Rightarrow> url_parts option) \<Rightarrow> string \<Rightarrow> string \<Rightarrow> registry \<Rightarrow> registry" where
  "applyScheme parseURL display host reg =
     (case parseURL host of
        None \<Rightarrow> reg
      | Some u \<Rightarrow> if u_protocol u \<noteq> ''https:'' then setScheme display (drop_colon (u_protocol u)) reg else reg)"

text \<open>The host of a login; \<open>prompted\<close> is what the prompt returns.\<close>

definition resolveLoginHost ::
  "(string \<Rightarrow> url_parts option) \<Rightarrow> string option \<Rightarrow> bool \<Rightarrow> bool \<Rightarrow> (api_error + string) \<Rightarrow> api_error + string" where
  "resolveLoginHost parseURL arg insecure isErrTTY prompted =
     (let raw = trim (with_default arg [])
      in if raw \<noteq> [] then resolveHost parseURL raw insecure
         else if \<not> isErrTTY then
           Inl (withHint (''pass the host explicitly, e.g. '' @ [CHR 0x27] @ ''difyctl auth login --host cloud.dify.ai'' @ [CHR 0x27])
             (newError UsageMissingArg ''--host is required (no TTY)''))
         else prompted)"

text \<open>The end of a login, after the grant: the token is written to the store that was detected, then the
  account becomes the active one.\<close>

definition finish_login ::
  "(string \<Rightarrow> url_parts option) \<Rightarrow> 's token_ops \<Rightarrow> storage_mode \<Rightarrow> string \<Rightarrow> poll_success \<Rightarrow> 's cli_state \<Rightarrow> (api_error + unit) \<times> 's cli_state" where
  "finish_login parseURL ops mode host s st =
     (let display = bareHost parseURL host
      in case accountEmail s of
           Inl err \<Rightarrow> (Inl err, st)
         | Inr email \<Rightarrow>
             (case tk_write ops display email (ps_token s) (st_tokens st mode) of
                Inl err \<Rightarrow> (Inl err, st)
              | Inr s' \<Rightarrow>
                  (let st1 = st\<lparr>st_tokens := (st_tokens st)(mode := s')\<rparr>;
                       reg = activate display email (contextFromSuccess s) ((st_registry st1)\<lparr>reg_storage := mode\<rparr>)
                   in (Inr (), save (applyScheme parseURL display host reg) st1))))"

text \<open>The whole login. The casts of answers of the server to their declared types, the answers themselves and the
  clock of the wait are arguments; \<open>None\<close> means that the wait never ends.\<close>

record login_env =
  lo_parseURL :: "string \<Rightarrow> url_parts option"
  lo_codeReply :: "string \<Rightarrow> thrown option + response"
  lo_asCode :: "jsval \<Rightarrow> code_response"
  lo_wait :: wait_env
  lo_asSuccess :: "jsval \<Rightarrow> poll_success"
  lo_hostname :: string

record login_options =
  lg_host :: "string option"
  lg_insecure :: bool
  lg_deviceLabel :: "string option"
  lg_isErrTTY :: bool
  lg_prompted :: "api_error + string"

definition defaultDeviceLabel :: "string \<Rightarrow> string" where
  "defaultDeviceLabel hostname = ''difyctl on '' @ (if hostname \<noteq> [] then hostname else ''unknown-host'')"

definition runLogin ::
  "login_env \<Rightarrow> 's token_ops \<Rightarrow> storage_mode \<Rightarrow> login_options \<Rightarrow> 's cli_state \<Rightarrow> ((thrown option + unit) \<times> 's cli_state) option" where
  "runLogin env ops mode opts st =
     (case resolveLoginHost (lo_parseURL env) (lg_host opts) (lg_insecure opts) (lg_isErrTTY opts) (lg_prompted opts) of
        Inl err \<Rightarrow> Some (Inl (Some (ApiThrown err)), st)
      | Inr host \<Rightarrow>
          (case requestCode (with_default (lg_deviceLabel opts) (defaultDeviceLabel (lo_hostname env))) (lo_codeReply env host) of
             Inl err \<Rightarrow> Some (Inl err, st)
           | Inr v \<Rightarrow>
               (let code = lo_asCode env v
                in case validateVerificationURI (lo_parseURL env) (cr_verification_uri code) (lg_insecure opts) of
                     Some err \<Rightarrow> Some (Inl (Some (ApiThrown err)), st)
                   | None \<Rightarrow>
                       (case awaitAuthorization (lo_wait env) code of
                          None \<Rightarrow> None
                        | Some (Inl err, w) \<Rightarrow> Some (Inl err, st)
                        | Some (Inr grant, w) \<Rightarrow>
                            (case finish_login (lo_parseURL env) ops mode host (lo_asSuccess env grant) st of
                               (Inl err, st') \<Rightarrow> Some (Inl (Some (ApiThrown err)), st')
                             | (Inr u, st') \<Rightarrow> Some (Inr (), st'))))))"

end
