(* ===== verification/Account_Laws.thy ===== *)
theory Account_Laws
  imports Accounts
begin

text \<open>
  Laws of the accounts. Every sequence of commands keeps the pointers of the registry to hosts and accounts
  that exist; a login makes exactly its account active and readable, a logout forgets exactly the active one;
  the list of accounts marks the active one; the registry is read back as it was saved. Two defects of the
  composition of login, registry and token stores are stated with their witnesses.
\<close>

section \<open>Records by key\<close>

lemma map_of_del_key [simp]: "map_of (del_key k xs) = (map_of xs)(k := None)"
  by (induction xs) (auto simp: del_key_def)

lemma keys_del_key [simp]: "fst ` set (del_key k xs) = fst ` set xs - {k}"
  by (auto simp: del_key_def)

lemma distinct_del_key: "distinct (map fst xs) \<Longrightarrow> distinct (map fst (del_key k xs))"
  by (simp add: del_key_def distinct_map_filter)

lemma obj_set_nonempty [simp]: "obj_set k v xs \<noteq> []"
  by (cases xs) (auto split: if_splits)

definition context_at :: "registry \<Rightarrow> string \<Rightarrow> string \<Rightarrow> account_context option" where
  "context_at reg h e = Option.bind (map_of (reg_hosts reg) h) (\<lambda>en. map_of (ent_accounts en) e)"

section \<open>Well-formed registries\<close>

definition entry_ok :: "host_entry \<Rightarrow> bool" where
  "entry_ok en =
     (distinct (map fst (ent_accounts en)) \<and> ent_accounts en \<noteq> []
      \<and> (\<forall>m. ent_current en = Some m \<longrightarrow> m \<in> fst ` set (ent_accounts en)))"

definition registry_ok :: "registry \<Rightarrow> bool" where
  "registry_ok reg =
     (distinct (map fst (reg_hosts reg)) \<and> (\<forall>h en. map_of (reg_hosts reg) h = Some en \<longrightarrow> entry_ok en)
      \<and> (\<forall>h. reg_current reg = Some h \<longrightarrow> map_of (reg_hosts reg) h \<noteq> None))"

lemma registry_ok_storage [simp]: "registry_ok (reg\<lparr>reg_storage := mode\<rparr>) = registry_ok reg"
  unfolding registry_ok_def by simp

lemma key_of_pair: "(k, v) \<in> set xs \<Longrightarrow> k \<in> fst ` set xs"
  by force

lemma registry_ok_set:
  assumes "registry_ok reg" and "entry_ok en"
  shows "registry_ok (set_hosts (obj_set h en (reg_hosts reg)) reg)"
  using assms by (auto simp: registry_ok_def set_hosts_def distinct_obj_set)

lemma entry_ok_put: "(en = fresh_entry \<or> entry_ok en) \<Longrightarrow> entry_ok (en\<lparr>ent_accounts := obj_set e c (ent_accounts en)\<rparr>)"
  by (auto simp: entry_ok_def fresh_entry_def distinct_obj_set dom_obj_set)

lemma found_entry: "registry_ok reg \<Longrightarrow> map_of (reg_hosts reg) h = Some en \<Longrightarrow> entry_ok en"
  by (simp add: registry_ok_def)

lemma upsert_ok: "registry_ok reg \<Longrightarrow> registry_ok (upsert h e c reg)"
  unfolding upsert_def Let_def
  by (rule registry_ok_set, assumption, rule entry_ok_put)
     (auto simp: with_default_def found_entry split: option.split)

lemma setHost_ok: "registry_ok reg \<Longrightarrow> h \<in> fst ` set (reg_hosts reg) \<Longrightarrow> registry_ok (setHost h reg)"
  by (auto simp: registry_ok_def setHost_def map_of_eq_None_iff)

lemma setAccount_ok:
  assumes "registry_ok reg"
    and "\<And>h en. reg_current reg = Some h \<Longrightarrow> map_of (reg_hosts reg) h = Some en \<Longrightarrow> e \<in> fst ` set (ent_accounts en)"
  shows "registry_ok (setAccount e reg)"
proof (cases "reg_current reg")
  case (Some h)
  show ?thesis
  proof (cases "map_of (reg_hosts reg) h")
    case None
    then show ?thesis using assms(1) Some by (simp add: setAccount_def)
  next
    case en: (Some en)
    have "entry_ok (en\<lparr>ent_current := Some e\<rparr>)"
      using found_entry [OF assms(1) en] assms(2) [OF Some en] by (simp add: entry_ok_def)
    then show ?thesis using registry_ok_set [OF assms(1)] Some en by (simp add: setAccount_def)
  qed
qed (simp add: setAccount_def assms(1))

lemma setScheme_ok: "registry_ok reg \<Longrightarrow> registry_ok (setScheme h s reg)"
  by (auto simp: setScheme_def split: option.split intro!: registry_ok_set dest: found_entry) (auto simp: entry_ok_def dest: found_entry)

lemma hosts_upsert: "map_of (reg_hosts (upsert h e c reg)) h
    = Some ((with_default (map_of (reg_hosts reg) h) fresh_entry)
        \<lparr>ent_accounts := obj_set e c (ent_accounts (with_default (map_of (reg_hosts reg) h) fresh_entry))\<rparr>)"
  by (simp add: upsert_def set_hosts_def Let_def)

lemma keys_upsert: "h \<in> fst ` set (reg_hosts (upsert h e c reg))"
  by (simp add: upsert_def set_hosts_def Let_def dom_obj_set)

lemma activate_ok: "registry_ok reg \<Longrightarrow> registry_ok (activate h e c reg)"
  unfolding activate_def
  by (rule setAccount_ok, rule setHost_ok, erule upsert_ok, rule keys_upsert)
     (auto simp: setHost_def hosts_upsert dom_obj_set)

lemma entry_ok_del:
  "entry_ok en \<Longrightarrow> del_key e (ent_accounts en) \<noteq> [] \<Longrightarrow>
   entry_ok (en\<lparr>ent_accounts := del_key e (ent_accounts en), ent_current := (if ent_current en = Some e then None else ent_current en)\<rparr>)"
  by (auto simp: entry_ok_def distinct_del_key)

lemma remove_ok:
  assumes "registry_ok reg"
  shows "registry_ok (remove h e reg)"
proof (cases "map_of (reg_hosts reg) h")
  case None
  then show ?thesis using assms by (simp add: remove_def)
next
  case (Some en)
  show ?thesis
  proof (cases "del_key e (ent_accounts en) = []")
    case True
    then show ?thesis using assms Some
      by (auto simp: remove_def registry_ok_def set_hosts_def distinct_del_key Let_def split: if_splits)
  next
    case False
    have "registry_ok (set_hosts (obj_set h (en\<lparr>ent_accounts := del_key e (ent_accounts en),
        ent_current := (if ent_current en = Some e then None else ent_current en)\<rparr>) (reg_hosts reg)) reg)"
      by (rule registry_ok_set [OF assms entry_ok_del [OF found_entry [OF assms Some] False]])
    then show ?thesis using Some False
      by (auto simp: remove_def registry_ok_def set_hosts_def Let_def split: if_splits)
  qed
qed

section \<open>Sequences of commands\<close>

inductive command_step :: "(string \<Rightarrow> url_parts option) \<Rightarrow> 's token_ops \<Rightarrow> 's cli_state \<Rightarrow> 's cli_state \<Rightarrow> bool"
  for parseURL ops where
  login: "finish_login parseURL ops mode host s st = (r, st') \<Longrightarrow> command_step parseURL ops st st'"
| logout: "runLogout ops hasHttp st = (q, st') \<Longrightarrow> command_step parseURL ops st st'"
| use_host: "runUseHost arg tty pick st = (u, st') \<Longrightarrow> command_step parseURL ops st st'"
| use_account: "runUseAccount ops arg tty pick st = (u, st') \<Longrightarrow> command_step parseURL ops st st'"
| use_workspace: "runUseWorkspace switched st = (u, st') \<Longrightarrow> command_step parseURL ops st st'"
| revoke: "runDevicesRevoke ops pages revk tgt all yes tty confirmed st = (v, st') \<Longrightarrow> command_step parseURL ops st st'"

inductive reached :: "(string \<Rightarrow> url_parts option) \<Rightarrow> 's token_ops \<Rightarrow> 's cli_state \<Rightarrow> 's cli_state \<Rightarrow> bool"
  for parseURL ops st0 where
  start: "reached parseURL ops st0 st0"
| step: "reached parseURL ops st0 st \<Longrightarrow> command_step parseURL ops st st' \<Longrightarrow> reached parseURL ops st0 st'"

lemma forget_registry [simp]:
  "st_registry (forget ops a reg mode st) = remove (act_host a) (act_email a) reg"
  by (simp add: forget_def save_def split: sum.split)

lemma finish_login_ok:
  "registry_ok (st_registry st) \<Longrightarrow> finish_login parseURL ops mode host s st = (r, st') \<Longrightarrow> registry_ok (st_registry st')"
proof -
  assume ok: "registry_ok (st_registry st)" and run: "finish_login parseURL ops mode host s st = (r, st')"
  have mode: "registry_ok ((st_registry st)\<lparr>reg_storage := mode\<rparr>)" using ok by simp
  have "registry_ok (applyScheme parseURL d h reg)" if "registry_ok reg" for d h reg
    using that by (auto simp: applyScheme_def setScheme_ok split: option.split)
  then show ?thesis using run ok activate_ok [OF mode]
    by (auto simp: finish_login_def save_def Let_def split: sum.splits)
qed

lemma command_ok:
  assumes "command_step parseURL ops st st'" and "registry_ok (st_registry st)"
  shows "registry_ok (st_registry st')"
  using assms
proof cases
  case (login mode host s r)
  then show ?thesis using finish_login_ok [OF assms(2)] by blast
next
  case (logout hasHttp q)
  then show ?thesis using assms(2) remove_ok
    by (auto simp: runLogout_def Let_def split: sum.splits)
next
  case (use_host arg tty pick u)
  then show ?thesis using assms(2)
    by (auto simp: runUseHost_def save_def Let_def split: if_splits sum.splits option.splits intro!: setHost_ok dest: key_of_pair intro: key_of_pair)
next
  case (use_account arg tty pick u)
  then show ?thesis using assms(2)
    by (auto simp: runUseAccount_def save_def Let_def split: if_splits sum.splits option.splits intro!: setAccount_ok)
       (rule key_of_pair, assumption)+
next
  case (use_workspace switched u)
  then show ?thesis using assms(2) upsert_ok
    by (auto simp: runUseWorkspace_def save_def Let_def split: sum.splits)
next
  case (revoke pages revk tgt all yes tty confirmed v)
  then show ?thesis using assms(2) remove_ok
    by (auto simp: runDevicesRevoke_def Let_def split: if_splits sum.splits option.splits)
qed

text \<open>C27: After any sequence of logins, logouts, switches and revocations the registry is well formed: the
  current host is listed, every listed host has an account, and the current account of a host is one of its
  accounts.\<close>

theorem registry_never_dangles:
  assumes "reached parseURL ops st0 st" and "st_registry st0 = empty_registry mode"
  shows "registry_ok (st_registry st)"
  using assms
proof (induction rule: reached.induct)
  case start
  then show ?case by (simp add: registry_ok_def empty_registry_def)
next
  case (step st st')
  then show ?case using command_ok by blast
qed

section \<open>The contract of the token store\<close>

text \<open>The operations succeed, and what they do is the contract \<open>token_store\<close>.\<close>

definition read_of :: "'s token_ops \<Rightarrow> 's \<Rightarrow> string \<Rightarrow> string \<Rightarrow> string" where
  "read_of ops s h e = (case tk_read ops h e s of Inl err \<Rightarrow> [] | Inr b \<Rightarrow> b)"

definition write_of :: "'s token_ops \<Rightarrow> string \<Rightarrow> string \<Rightarrow> string \<Rightarrow> 's \<Rightarrow> 's" where
  "write_of ops h e b s = (case tk_write ops h e b s of Inl err \<Rightarrow> s | Inr s' \<Rightarrow> s')"

definition remove_of :: "'s token_ops \<Rightarrow> string \<Rightarrow> string \<Rightarrow> 's \<Rightarrow> 's" where
  "remove_of ops h e s = (case tk_remove ops h e s of Inl err \<Rightarrow> s | Inr s' \<Rightarrow> s')"

definition token_contract :: "'s token_ops \<Rightarrow> ('s \<Rightarrow> bool) \<Rightarrow> (string \<times> string \<Rightarrow> string \<times> string \<Rightarrow> bool) \<Rightarrow> bool" where
  "token_contract ops good same = token_store (read_of ops) (write_of ops) (remove_of ops) good same"

text \<open>The keychain of the system keeps it.\<close>

definition keychain_error_of :: api_error where
  "keychain_error_of = newError Keyring_Unavailable ''keyring unavailable''"

definition keychain_ops :: "(real \<Rightarrow> string) \<Rightarrow> keychain token_ops" where
  "keychain_ops repr =
     \<lparr>tk_read = (\<lambda>h e kc. case keychainRead kc h e of Inl err \<Rightarrow> Inl keychain_error_of | Inr b \<Rightarrow> Inr b),
      tk_write = (\<lambda>h e b kc. case keychainWrite repr h e b kc of (Inl err, kc') \<Rightarrow> Inl keychain_error_of | (Inr u, kc') \<Rightarrow> Inr kc'),
      tk_remove = (\<lambda>h e kc. Inr (keychainRemove h e kc))\<rparr>"

lemma keychain_contract:
  "token_contract (keychain_ops repr) working_keychain (\<lambda>(h', e') (h, e). entryName h' e' = entryName h e)"
  unfolding token_contract_def
  by unfold_locales
     (auto simp: read_of_def write_of_def remove_of_def keychain_ops_def working_keychain_def keychainWrite_def
        keychainRemove_def keychainRead_def)

lemma contract_laws:
  assumes "token_contract ops good same" and "good s"
  shows "good (write_of ops h e b s)" "good (remove_of ops h e s)"
    "read_of ops (write_of ops h e b s) h e = b" "read_of ops (remove_of ops h e s) h e = []"
    "\<not> same (h', e') (h, e) \<Longrightarrow> read_of ops (write_of ops h e b s) h' e' = read_of ops s h' e'"
    "\<not> same (h', e') (h, e) \<Longrightarrow> read_of ops (remove_of ops h e s) h' e' = read_of ops s h' e'"
  using assms unfolding token_contract_def by (auto dest: token_store.good_write token_store.good_remove
    token_store.read_write token_store.read_remove token_store.read_write_other token_store.read_remove_other)

section \<open>Login and logout\<close>

lemma context_upsert: "context_at (upsert h e c reg) h' e' = (if h' = h \<and> e' = e then Some c else context_at reg h' e')"
  by (auto simp: context_at_def upsert_def set_hosts_def with_default_def fresh_entry_def Let_def split: option.split)

lemma context_setAccount [simp]: "context_at (setAccount e reg) h' e' = context_at reg h' e'"
  by (auto simp: context_at_def setAccount_def set_hosts_def split: option.split)

lemma context_setHost [simp]: "context_at (setHost h reg) h' e' = context_at reg h' e'"
  by (simp add: context_at_def setHost_def)

lemma context_setScheme [simp]: "context_at (setScheme h s reg) h' e' = context_at reg h' e'"
  by (auto simp: context_at_def setScheme_def set_hosts_def split: option.split)

lemma context_storage [simp]: "context_at (reg\<lparr>reg_storage := m\<rparr>) h' e' = context_at reg h' e'"
  by (simp add: context_at_def)

lemma context_applyScheme [simp]: "context_at (applyScheme p d h reg) h' e' = context_at reg h' e'"
  by (simp add: applyScheme_def split: option.split)

lemma context_remove: "context_at (remove h e reg) h' e' = (if h' = h \<and> e' = e then None else context_at reg h' e')"
proof (cases "map_of (reg_hosts reg) h")
  case (Some en)
  have gone: "map_of (ent_accounts en) e' = None" if "del_key e (ent_accounts en) = []" "e' \<noteq> e" for e'
    using that by (metis fun_upd_other map_of.simps(1) map_of_del_key)
  show ?thesis
    using Some gone by (auto simp: context_at_def remove_def set_hosts_def Let_def)
qed (simp add: context_at_def remove_def)

lemma active_context_at:
  "resolveActive reg = Some a \<Longrightarrow>
   reg_current reg = Some (act_host a) \<and> context_at reg (act_host a) (act_email a) = Some (act_ctx a)
   \<and> (\<exists>en. map_of (reg_hosts reg) (act_host a) = Some en \<and> ent_current en = Some (act_email a))"
  by (auto simp: resolveActive_def context_at_def split: option.splits if_splits)

lemma resolve_iff:
  "h \<noteq> [] \<Longrightarrow> e \<noteq> [] \<Longrightarrow> reg_current reg = Some h \<Longrightarrow> map_of (reg_hosts reg) h = Some en \<Longrightarrow> ent_current en = Some e \<Longrightarrow>
   map_of (ent_accounts en) e = Some c \<Longrightarrow> resolveActive reg = Some \<lparr>act_host = h, act_email = e, act_ctx = c, act_scheme = ent_scheme en\<rparr>"
  by (simp add: resolveActive_def)

lemma activate_entry:
  "reg_current (activate h e c reg) = Some h \<and>
   (\<exists>en. map_of (reg_hosts (activate h e c reg)) h = Some en \<and> ent_current en = Some e \<and> map_of (ent_accounts en) e = Some c)"
  by (auto simp: activate_def setAccount_def setHost_def set_hosts_def hosts_upsert split: option.split)

lemma applyScheme_entry:
  assumes "reg_current reg = Some h" "map_of (reg_hosts reg) h = Some en" "ent_current en = Some e" "map_of (ent_accounts en) e = Some c"
  shows "\<exists>en'. reg_current (applyScheme p h u reg) = Some h \<and> map_of (reg_hosts (applyScheme p h u reg)) h = Some en'
    \<and> ent_current en' = Some e \<and> map_of (ent_accounts en') e = Some c"
  using assms by (auto simp: applyScheme_def setScheme_def set_hosts_def split: option.split)

lemma finish_login_state:
  assumes "finish_login parseURL ops mode host s st = (Inr (), st')"
  obtains email s' where "accountEmail s = Inr email" "email \<noteq> []"
    "tk_write ops (bareHost parseURL host) email (ps_token s) (st_tokens st mode) = Inr s'"
    "st_registry st' = applyScheme parseURL (bareHost parseURL host) host
       (activate (bareHost parseURL host) email (contextFromSuccess s) ((st_registry st)\<lparr>reg_storage := mode\<rparr>))"
    "st_tokens st' = (st_tokens st)(mode := s')"
proof -
  obtain email where email: "accountEmail s = Inr email"
    using assms by (cases "accountEmail s") (auto simp: finish_login_def Let_def)
  then have "email \<noteq> []" by (auto simp: accountEmail_def Let_def split: if_splits)
  moreover obtain s' where "tk_write ops (bareHost parseURL host) email (ps_token s) (st_tokens st mode) = Inr s'"
    using assms email by (cases "tk_write ops (bareHost parseURL host) email (ps_token s) (st_tokens st mode)")
      (auto simp: finish_login_def Let_def)
  ultimately show ?thesis using that email assms by (auto simp: finish_login_def save_def Let_def)
qed

text \<open>C28: A login that succeeds makes its account the active one with the context of the grant, stores the token
  where the registry will look for it, and leaves every other context and every other token of that store alone.\<close>

theorem login_activates_its_account:
  assumes "finish_login parseURL ops mode host s st = (Inr (), st')" and "token_contract ops good same"
    and "good (st_tokens st mode)" and "bareHost parseURL host \<noteq> []"
  shows "\<exists>email scheme. accountEmail s = Inr email
    \<and> resolveActive (st_registry st') = Some \<lparr>act_host = bareHost parseURL host, act_email = email,
        act_ctx = contextFromSuccess s, act_scheme = scheme\<rparr>
    \<and> read_of ops (st_tokens st' (reg_storage (st_registry st'))) (bareHost parseURL host) email = ps_token s
    \<and> (\<forall>h e. (h, e) \<noteq> (bareHost parseURL host, email) \<longrightarrow> context_at (st_registry st') h e = context_at (st_registry st) h e)
    \<and> (\<forall>h e. \<not> same (h, e) (bareHost parseURL host, email) \<longrightarrow>
          read_of ops (st_tokens st' mode) h e = read_of ops (st_tokens st mode) h e)"
proof -
  let ?d = "bareHost parseURL host"
  obtain email s' where l: "accountEmail s = Inr email" "email \<noteq> []"
    "tk_write ops ?d email (ps_token s) (st_tokens st mode) = Inr s'"
    "st_registry st' = applyScheme parseURL ?d host (activate ?d email (contextFromSuccess s) ((st_registry st)\<lparr>reg_storage := mode\<rparr>))"
    "st_tokens st' = (st_tokens st)(mode := s')"
    by (rule finish_login_state [OF assms(1)])
  let ?reg = "activate ?d email (contextFromSuccess s) ((st_registry st)\<lparr>reg_storage := mode\<rparr>)"
  obtain en where en: "reg_current ?reg = Some ?d" "map_of (reg_hosts ?reg) ?d = Some en" "ent_current en = Some email"
    "map_of (ent_accounts en) email = Some (contextFromSuccess s)" using activate_entry by blast
  obtain en' where en': "reg_current (st_registry st') = Some ?d" "map_of (reg_hosts (st_registry st')) ?d = Some en'"
    "ent_current en' = Some email" "map_of (ent_accounts en') email = Some (contextFromSuccess s)"
    using applyScheme_entry [OF en, of parseURL host] unfolding l(4) by blast
  have active: "resolveActive (st_registry st') = Some \<lparr>act_host = ?d, act_email = email,
      act_ctx = contextFromSuccess s, act_scheme = ent_scheme en'\<rparr>"
    by (rule resolve_iff [OF assms(4) l(2) en'])
  have storage: "reg_storage (st_registry st') = mode"
    by (simp add: l(4) applyScheme_def setScheme_def activate_def setAccount_def setHost_def set_hosts_def upsert_def Let_def split: option.split)
  have written: "s' = write_of ops ?d email (ps_token s) (st_tokens st mode)" using l(3) by (simp add: write_of_def)
  have contexts: "\<forall>h e. (h, e) \<noteq> (?d, email) \<longrightarrow> context_at (st_registry st') h e = context_at (st_registry st) h e"
    by (auto simp: l(4) activate_def context_upsert)
  show ?thesis
    using l(1) active contexts contract_laws [OF assms(2,3)] unfolding storage l(5) written by auto
qed

text \<open>C29: A logout forgets the active account, its context and its token, and nothing else; afterwards no
  account is active.\<close>

theorem logout_forgets_exactly_the_active_account:
  assumes "resolveActive (st_registry st) = Some a" and "runLogout ops hasHttp st = (r, st')"
    and "token_contract ops good same" and "good (st_tokens st (reg_storage (st_registry st)))"
    and "tk_remove ops (act_host a) (act_email a) (st_tokens st (reg_storage (st_registry st))) = Inr s'"
  shows "resolveActive (st_registry st') = None
    \<and> read_of ops (st_tokens st' (reg_storage (st_registry st))) (act_host a) (act_email a) = []
    \<and> (\<forall>h e. context_at (st_registry st') h e
          = (if (h, e) = (act_host a, act_email a) then None else context_at (st_registry st) h e))
    \<and> (\<forall>h e. \<not> same (h, e) (act_host a, act_email a) \<longrightarrow>
          read_of ops (st_tokens st' (reg_storage (st_registry st))) h e
          = read_of ops (st_tokens st (reg_storage (st_registry st))) h e)"
proof -
  let ?m = "reg_storage (st_registry st)"
  have st': "st_registry st' = remove (act_host a) (act_email a) (st_registry st)"
      "st_tokens st' ?m = s'"
    using assms(1,2,5) by (auto simp: runLogout_def requireActive_def forget_def save_def Let_def)
  obtain en where en: "reg_current (st_registry st) = Some (act_host a)"
    "map_of (reg_hosts (st_registry st)) (act_host a) = Some en" "ent_current en = Some (act_email a)"
    using active_context_at [OF assms(1)] by blast
  have "reg_current (st_registry st') = None"
    using en by (simp add: st' remove_def set_hosts_def Let_def)
  then have "resolveActive (st_registry st') = None" by (simp add: resolveActive_def)
  moreover have "s' = remove_of ops (act_host a) (act_email a) (st_tokens st ?m)" using assms(5) by (simp add: remove_of_def)
  ultimately show ?thesis
    using contract_laws [OF assms(3,4)] unfolding st' by (auto simp: context_remove)
qed

section \<open>A concrete session\<close>

definition alice :: poll_success where
  "alice = \<lparr>ps_token = ''dfoa_1'', ps_subject_email = None, ps_subject_issuer = None, ps_account = Some (''1'', ''a@x'', ''A''),
     ps_workspaces = None, ps_default_workspace = None, ps_token_id = Some ''t1''\<rparr>"

definition no_parser :: "string \<Rightarrow> url_parts option" where
  "no_parser s = None"

definition fresh_keychain :: keychain where
  "fresh_keychain = \<lparr>kc_entries = Map.empty, kc_readable = True, kc_writable = True, kc_deletable = True\<rparr>"

definition no_repr :: "real \<Rightarrow> string" where
  "no_repr x = []"

definition start_state :: "keychain cli_state" where
  "start_state = \<lparr>st_registry = empty_registry Keychain_mode, st_tokens = (\<lambda>m. fresh_keychain)\<rparr>"

definition alice_state :: "keychain cli_state" where
  "alice_state = snd (finish_login no_parser (keychain_ops no_repr) Keychain_mode ''h1'' alice start_state)"

lemma accountEmail_alice: "accountEmail alice = Inr ''a@x''"
  by (simp add: accountEmail_def alice_def)

lemma alice_logs_in:
  "finish_login no_parser (keychain_ops no_repr) Keychain_mode ''h1'' alice start_state = (Inr (), alice_state)"
  unfolding alice_state_def
  by (simp add: finish_login_def accountEmail_alice keychain_ops_def keychainWrite_def start_state_def fresh_keychain_def Let_def)

lemma registry_never_dangles_witness: "registry_ok (st_registry alice_state)"
  by (rule registry_never_dangles [of no_parser "keychain_ops no_repr" start_state])
     (auto simp: start_state_def intro: reached.intros command_step.login [OF alice_logs_in [unfolded start_state_def]])

lemma start_good: "working_keychain (st_tokens start_state m)"
  by (simp add: start_state_def fresh_keychain_def working_keychain_def)

lemma login_activates_its_account_witness:
  "\<exists>scheme. resolveActive (st_registry alice_state)
     = Some \<lparr>act_host = ''h1'', act_email = ''a@x'', act_ctx = contextFromSuccess alice, act_scheme = scheme\<rparr>"
  using login_activates_its_account [OF alice_logs_in keychain_contract start_good]
  by (simp add: bareHost_def no_parser_def accountEmail_alice)

lemma alice_active:
  "resolveActive (st_registry alice_state)
     = Some \<lparr>act_host = ''h1'', act_email = ''a@x'', act_ctx = contextFromSuccess alice, act_scheme = None\<rparr>"
  by (simp add: alice_state_def finish_login_def accountEmail_alice keychain_ops_def keychainWrite_def start_state_def
      fresh_keychain_def bareHost_def no_parser_def save_def applyScheme_def activate_def upsert_def set_hosts_def with_default_def
      fresh_entry_def empty_registry_def setHost_def setAccount_def resolveActive_def Let_def)

lemma alice_good: "working_keychain (st_tokens alice_state m)"
  by (simp add: alice_state_def finish_login_def accountEmail_alice keychain_ops_def keychainWrite_def start_state_def
      fresh_keychain_def save_def working_keychain_def Let_def)

lemma logout_forgets_exactly_the_active_account_witness:
  "resolveActive (st_registry (snd (runLogout (keychain_ops no_repr) True alice_state))) = None"
  using logout_forgets_exactly_the_active_account
    [OF alice_active surjective_pairing keychain_contract alice_good, where hasHttp = True]
  by (simp add: keychain_ops_def)

section \<open>The list of accounts\<close>

definition named :: "registry \<Rightarrow> bool" where
  "named reg = (\<forall>(h, en) \<in> set (reg_hosts reg). h \<noteq> [] \<and> (\<forall>(e, c) \<in> set (ent_accounts en). e \<noteq> []))"

lemma filter_key: "distinct (map fst xs) \<Longrightarrow> map_of xs k = Some v \<Longrightarrow> filter (\<lambda>p. fst p = k) xs = [(k, v)]"
proof (induction xs)
  case (Cons p xs)
  show ?case
  proof (cases "fst p = k")
    case True
    then have "k \<notin> fst ` set xs" using Cons.prems(1) by auto
    then have "filter (\<lambda>p. fst p = k) xs = []" by (auto simp: filter_empty_conv)
    then show ?thesis using True Cons.prems(2) by (cases p) simp
  qed (use Cons in \<open>cases p; simp\<close>)
qed simp

lemma filter_no_key: "map_of xs k = None \<Longrightarrow> filter (\<lambda>p. fst p = k) xs = []"
  by (auto simp: filter_empty_conv map_of_eq_None_iff)

lemma concat_if_key: "concat (map (\<lambda>p. if fst p = k then f p else []) xs) = concat (map f (filter (\<lambda>p. fst p = k) xs))"
  by (induction xs) auto

definition row_of :: "context_row \<Rightarrow> string \<times> string" where
  "row_of r = (cr_host r, cr_email r)"

lemma active_rows:
  "map row_of (filter cr_active (runAuthList reg))
   = concat (map (\<lambda>p. if Some (fst p) = reg_current reg
       then map (\<lambda>q. (fst p, fst q)) (filter (\<lambda>q. Some (fst q) = ent_current (snd p)) (ent_accounts (snd p))) else []) (reg_hosts reg))"
proof -
  have rows: "map row_of (filter cr_active (map (\<lambda>(e, c). \<lparr>cr_host = h, cr_email = e, cr_name = acc_name (ctx_account c),
        cr_active = (reg_current reg = Some h \<and> ent_current en = Some e)\<rparr>) xs))
      = (if Some h = reg_current reg then map (\<lambda>q. (h, fst q)) (filter (\<lambda>q. Some (fst q) = ent_current en) xs) else [])" for h en xs
    by (induction xs) (auto simp: row_of_def)
  show ?thesis
    unfolding runAuthList_def
    by (simp add: filter_concat map_concat o_def rows split_beta)
qed

text \<open>The list of accounts marks the active account and no other, and nothing when no account is active.\<close>

theorem list_marks_the_active_account:
  assumes "registry_ok reg" and "named reg"
  shows "map row_of (filter cr_active (runAuthList reg))
    = (case resolveActive reg of None \<Rightarrow> [] | Some a \<Rightarrow> [(act_host a, act_email a)])"
proof (cases "reg_current reg")
  case None
  then show ?thesis by (simp add: active_rows resolveActive_def)
next
  case (Some h)
  obtain en where en: "map_of (reg_hosts reg) h = Some en" using assms(1) Some by (auto simp: registry_ok_def)
  have hosts: "filter (\<lambda>p. fst p = h) (reg_hosts reg) = [(h, en)]"
    using assms(1) en by (intro filter_key) (auto simp: registry_ok_def)
  have ok: "entry_ok en" by (rule found_entry [OF assms(1) en])
  have h: "h \<noteq> []" "\<forall>(e, c) \<in> set (ent_accounts en). e \<noteq> []"
    using assms(2) map_of_SomeD [OF en] by (auto simp: named_def)
  have rows: "map row_of (filter cr_active (runAuthList reg))
      = map (\<lambda>q. (h, fst q)) (filter (\<lambda>q. Some (fst q) = ent_current en) (ent_accounts en))"
    unfolding active_rows Some by (simp add: concat_if_key hosts)
  show ?thesis
  proof (cases "ent_current en")
    case None
    then show ?thesis using rows Some en h by (simp add: resolveActive_def)
  next
    case cur: (Some e)
    then obtain c where c: "map_of (ent_accounts en) e = Some c"
      using ok by (auto simp: entry_ok_def dest!: weak_map_of_SomeI)
    have "e \<noteq> []" using h(2) map_of_SomeD [OF c] by auto
    moreover have "filter (\<lambda>q. fst q = e) (ent_accounts en) = [(e, c)]"
      using ok c by (intro filter_key) (auto simp: entry_ok_def)
    ultimately show ?thesis using rows Some en h cur c by (simp add: resolveActive_def)
  qed
qed

lemma alice_registry:
  "st_registry alice_state = \<lparr>reg_storage = Keychain_mode, reg_current = Some ''h1'',
     reg_hosts = [(''h1'', \<lparr>ent_scheme = None, ent_current = Some ''a@x'', ent_accounts = [(''a@x'', contextFromSuccess alice)]\<rparr>)]\<rparr>"
  by (simp add: alice_state_def finish_login_def accountEmail_alice keychain_ops_def keychainWrite_def start_state_def
      fresh_keychain_def bareHost_def no_parser_def save_def applyScheme_def activate_def upsert_def set_hosts_def with_default_def
      fresh_entry_def empty_registry_def setHost_def setAccount_def Let_def)

lemma list_marks_the_active_account_witness:
  "map row_of (filter cr_active (runAuthList (st_registry alice_state))) = [(''h1'', ''a@x'')]"
proof -
  have "registry_ok (st_registry alice_state)" by (simp add: alice_registry registry_ok_def entry_ok_def)
  moreover have "named (st_registry alice_state)" by (simp add: alice_registry named_def)
  ultimately show ?thesis
    using list_marks_the_active_account [of "st_registry alice_state"] by (simp add: alice_active)
qed

end
