(* ===== verification/Account_File.thy ===== *)
theory Account_File
  imports Account_Laws
begin

text \<open>
  The file of the accounts, the revocation of sessions, and two defects: a login into another token store makes the
  accounts of earlier logins unusable, and a login over \<^verbatim>\<open>https\<close> keeps the scheme \<^verbatim>\<open>http\<close> of an earlier one.
\<close>

section \<open>Saving and loading\<close>

lemma z_optional_field [simp]:
  "z_optional f (case v of None \<Rightarrow> JUndefined | Some x \<Rightarrow> g x) = (case v of None \<Rightarrow> Some None | Some x \<Rightarrow> z_optional f (g x))"
  by (simp split: option.split)

lemma z_optional_str [simp]: "z_optional str_of (JStr s) = Some (Some s)"
  by simp

lemma collect_all_map: "\<forall>x \<in> set xs. f (g x) = Some (h x) \<Longrightarrow> collect_all f (map g xs) = Some (map h xs)"
  by (induction xs) auto

lemma z_record_json:
  assumes "\<And>v. f (g v) = Some v"
  shows "z_record f (record_json g xs) = Some xs"
proof -
  have "collect_all (\<lambda>(k, v). map_option (Pair k) (f v)) (map (\<lambda>(k, v). (k, g v)) xs) = Some (map (\<lambda>p. p) xs)"
    by (rule collect_all_map) (auto simp: assms)
  then show ?thesis by (simp add: record_json_def)
qed

lemma account_parsed: "AccountSchema (account_json a) = Some a"
  by (cases a; cases "acc_id a") (simp_all add: account_json_def str_field_def opt_field_def obj_get_def z_default_def)

lemma workspace_parsed: "WorkspaceSchema (workspace_json w) = Some w"
  by (cases w) (simp add: workspace_json_def obj_get_def)

lemma subject_parsed: "ExternalSubjectSchema (subject_json s) = Some s"
  by (cases s) (simp add: subject_json_def obj_get_def)

lemma z_optional_some: "f v = Some x \<Longrightarrow> v \<noteq> JUndefined \<Longrightarrow> z_optional f v = Some (Some x)"
  by (cases v) auto

lemma context_parsed: "AccountContextSchema (context_json c) = Some c"
proof -
  have "z_optional WorkspaceSchema (workspace_json w) = Some (Some w)" for w
    using z_optional_some [of WorkspaceSchema "workspace_json w" w] workspace_parsed [of w] by (simp add: workspace_json_def)
  moreover have "z_optional ExternalSubjectSchema (subject_json s) = Some (Some s)" for s
    using z_optional_some [of ExternalSubjectSchema "subject_json s" s] subject_parsed [of s] by (simp add: subject_json_def)
  ultimately show ?thesis
    by (cases c; cases "ctx_workspace c"; cases "ctx_token_id c"; cases "ctx_expires c"; cases "ctx_subject c")
       (simp_all add: context_json_def str_field_def opt_field_def obj_get_def account_parsed)
qed

lemma entry_parsed: "HostEntrySchema (entry_json e) = Some e"
proof -
  have "z_record AccountContextSchema (record_json context_json xs) = Some xs" for xs
    by (rule z_record_json) (rule context_parsed)
  moreover have "record_json context_json xs \<noteq> JUndefined" for xs by (simp add: record_json_def)
  ultimately show ?thesis
    by (cases e; cases "ent_scheme e"; cases "ent_current e")
       (simp_all add: entry_json_def str_field_def opt_field_def obj_get_def z_default_def)
qed

lemma registry_parsed: "RegistrySchema (registry_json reg) = Some reg"
proof -
  have "z_record HostEntrySchema (record_json entry_json xs) = Some xs" for xs
    by (rule z_record_json) (rule entry_parsed)
  moreover have "record_json entry_json xs \<noteq> JUndefined" for xs by (simp add: record_json_def)
  moreover have "z_mode (JStr (mode_text m)) = Some m" for m by (cases m) simp_all
  ultimately show ?thesis
    by (cases reg; cases "reg_current reg")
       (simp_all add: registry_json_def str_field_def opt_field_def obj_get_def z_default_def)
qed

text \<open>The document is one of maps and scalars.\<close>

definition unique_keys :: "registry \<Rightarrow> bool" where
  "unique_keys reg =
     (distinct (map fst (reg_hosts reg)) \<and> (\<forall>(h, en) \<in> set (reg_hosts reg). distinct (map fst (ent_accounts en))))"

lemma map_doc_str [simp]: "map_doc (JStr s)"
  by (simp add: map_doc_def)

lemma map_doc_record:
  "distinct (map fst xs) \<Longrightarrow> \<forall>(k, v) \<in> set xs. map_doc (f v) \<Longrightarrow> map_doc (record_json f xs)"
  by (auto simp: record_json_def map_doc_obj list_all_iff o_def split_beta)

lemma map_doc_context: "map_doc (context_json c)"
  by (auto simp: context_json_def str_field_def opt_field_def account_json_def workspace_json_def subject_json_def map_doc_obj
      split: option.split)

lemma map_doc_entry: "distinct (map fst (ent_accounts e)) \<Longrightarrow> map_doc (entry_json e)"
  using map_doc_record [of "ent_accounts e" context_json] map_doc_context
  by (auto simp: entry_json_def str_field_def opt_field_def map_doc_obj split: option.split)

lemma valid_registry: "unique_keys reg \<Longrightarrow> valid_doc (registry_json reg)"
proof -
  assume u: "unique_keys reg"
  have "map_doc (record_json entry_json (reg_hosts reg))"
    using u by (intro map_doc_record) (auto simp: unique_keys_def intro!: map_doc_entry)
  then show ?thesis
    by (auto simp: registry_json_def str_field_def opt_field_def map_doc_obj split: option.split)
qed

lemma ok_unique_keys: "registry_ok reg \<Longrightarrow> unique_keys reg"
  by (auto simp: registry_ok_def unique_keys_def entry_ok_def)

lemma getTyped_exact:
  assumes "store_ok cd fs" and "store_doc cd fs = JObj ob" and "ob \<noteq> []"
  shows "fst (getTyped cd fs) = Inr (JObj ob)"
proof -
  have "\<not> fs_locked fs" "valid_doc (store_doc cd fs)" using assms(1) by (auto simp: store_ok_def)
  moreover obtain d where "loadYaml cd (seen_content fs) = Inr d" "js_truthy d \<Longrightarrow> d = store_doc cd fs"
    "\<not> js_truthy d \<Longrightarrow> d = JNull \<and> store_doc cd fs = JObj []"
    by (rule loaded_doc [OF calculation(2)]) blast
  ultimately show ?thesis using assms(2,3) by (auto simp: getTyped_def withLock_def)
qed

text \<open>C30: A registry whose hosts and accounts are listed once is read back from its file as it was saved, given
  that the YAML package reads the documents it writes.\<close>

theorem saved_registry_is_loaded:
  assumes "codec_keeps_documents cd" and "store_ok cd fs" and "registry_ok reg"
  shows "fst (loadRegistry cd (snd (saveRegistry cd reg fs))) = Inr reg"
proof -
  note stored = setTyped_stores [OF assms(1,2) valid_registry [OF ok_unique_keys [OF assms(3)]]]
  obtain ob where ob: "registry_json reg = JObj ob" "ob \<noteq> []" by (simp add: registry_json_def)
  have "fst (getTyped cd (snd (saveRegistry cd reg fs))) = Inr (registry_json reg)"
    using getTyped_exact [OF stored(2)] stored(3) ob unfolding saveRegistry_def by simp
  then obtain fs' where "getTyped cd (snd (saveRegistry cd reg fs)) = (Inr (registry_json reg), fs')"
    by (cases "getTyped cd (snd (saveRegistry cd reg fs))") simp
  moreover have "registry_json reg \<noteq> JNull" using ob by simp
  ultimately show ?thesis by (simp add: loadRegistry_def registry_parsed)
qed

lemma saved_registry_is_loaded_witness:
  "fst (loadRegistry json_codec (snd (saveRegistry json_codec (st_registry alice_state) (newStore None)))) = Inr (st_registry alice_state)"
  by (rule saved_registry_is_loaded [OF json_codec_keeps new_store_ok])
     (simp add: alice_registry registry_ok_def entry_ok_def)

section \<open>Revoking sessions\<close>

lemma find_set: "find P xs = Some x \<Longrightarrow> x \<in> set xs \<and> P x"
  by (induction xs) (auto split: if_splits)

lemma filter_head: "filter P xs = r # rs \<Longrightarrow> r \<in> set xs \<and> P r"
proof -
  assume "filter P xs = r # rs"
  then have "r \<in> set (filter P xs)" by simp
  then show ?thesis by simp
qed

text \<open>A revocation by name picks one session of the list, and the local account is forgotten exactly when
  that session is the caller's own; with \<^verbatim>\<open>--all\<close> every other session is picked and the own one is spared.\<close>

theorem revocation_picks_what_it_should:
  assumes "pickTargets rows tgt all currentId = Inr p"
  shows "(all \<longrightarrow> pk_ids p = map se_id (filter (\<lambda>r. se_id r \<noteq> currentId) rows) \<and> \<not> pk_selfHit p \<and> currentId \<notin> set (pk_ids p))
    \<and> (\<not> all \<longrightarrow> (\<exists>r \<in> set rows. pk_ids p = [se_id r] \<and> (pk_selfHit p \<longleftrightarrow> currentId \<in> set (pk_ids p))
          \<and> (se_label r = with_default tgt [] \<or> se_id r = with_default tgt []
             \<or> containsText (toLowerCase (with_default tgt [])) (toLowerCase (se_label r)))))"
  using assms
  by (auto simp: pickTargets_def pick_one_def Let_def split: if_splits list.splits option.splits dest!: filter_head find_set)
     metis+

lemma revocation_picks_what_it_should_witness:
  "\<exists>r \<in> set [\<lparr>se_id = ''1'', se_label = ''mac''\<rparr>, \<lparr>se_id = ''2'', se_label = ''pc''\<rparr>]. se_id r = ''2''"
proof -
  have pick: "pickTargets [\<lparr>se_id = ''1'', se_label = ''mac''\<rparr>, \<lparr>se_id = ''2'', se_label = ''pc''\<rparr>] (Some ''pc'') False ''1''
      = Inr \<lparr>pk_ids = [''2''], pk_selfHit = False\<rparr>"
    by (simp add: pickTargets_def pick_one_def with_default_def)
  show ?thesis using revocation_picks_what_it_should [OF pick] by simp
qed

text \<open>A registry without the identifier of its session: \<^verbatim>\<open>--all\<close> revokes the own session too and keeps the
  local account.\<close>

lemma revoke_all_without_session_id:
  assumes "\<forall>r \<in> set rows. se_id r \<noteq> []"
  shows "pickTargets rows tgt True [] = Inr \<lparr>pk_ids = map se_id rows, pk_selfHit = False\<rparr>"
proof -
  have "filter (\<lambda>r. se_id r \<noteq> []) rows = rows" using assms by (simp add: filter_id_conv)
  then show ?thesis by (simp add: pickTargets_def)
qed

text \<open>The walk over the pages ends after a hundred and collects them in order.\<close>

lemma list_pages_collects:
  assumes "\<forall>i. pages i = Inr (pg i)" and "\<forall>i. n \<le> i \<and> i < n + k \<longrightarrow> sp_more (pg i)" and "\<not> sp_more (pg (n + k))" and "n + k \<le> MAX_PAGES"
  shows "list_pages pages n out = Inr (out @ concat (map (sp_data \<circ> pg) [n..<n + Suc k]))"
  using assms(2-)
proof (induction k arbitrary: n out)
  case 0
  then show ?case using assms(1) by (subst list_pages.simps) simp
next
  case (Suc k)
  have more: "sp_more (pg n)" using Suc.prems(1) by simp
  have rest: "\<forall>i. Suc n \<le> i \<and> i < Suc n + k \<longrightarrow> sp_more (pg i)" using Suc.prems(1) by simp
  have "list_pages pages n out = list_pages pages (Suc n) (out @ sp_data (pg n))"
    using assms(1) more Suc.prems(3) by (subst list_pages.simps) simp
  also have "\<dots> = Inr ((out @ sp_data (pg n)) @ concat (map (sp_data \<circ> pg) [Suc n..<Suc n + Suc k]))"
    by (rule Suc.IH [OF rest]) (use Suc.prems(2,3) in simp_all)
  finally show ?case by (simp add: upt_conv_Cons o_def del: upt_Suc)
qed

section \<open>Two defects\<close>

text \<open>C31: A login that ends in another token store than the one in use makes the accounts of earlier logins
  unusable: their tokens stay in the old store, but the registry now points to the new one.\<close>

theorem login_with_other_store_strands_accounts:
  assumes "finish_login parseURL ops mode host s st = (Inr (), st')" and "token_contract ops good same"
    and "good (st_tokens st mode)" and "mode \<noteq> reg_storage (st_registry st)"
    and "accountEmail s = Inr email" and "context_at (st_registry st) (bareHost parseURL host) e = Some c"
    and "\<not> same (bareHost parseURL host, e) (bareHost parseURL host, email)" and "e \<noteq> email"
    and "read_of ops (st_tokens st mode) (bareHost parseURL host) e = []"
    and "\<forall>h e s. good s \<longrightarrow> (\<exists>b. tk_read ops h e s = Inr b)"
  shows "\<exists>err. runUseAccount ops (Some e) tty pick st' = (Inl err, st') \<and> ae_code err = NotLoggedIn
    \<and> read_of ops (st_tokens st' (reg_storage (st_registry st))) (bareHost parseURL host) e
      = read_of ops (st_tokens st (reg_storage (st_registry st))) (bareHost parseURL host) e"
proof -
  let ?d = "bareHost parseURL host"
  obtain email' s' where l: "accountEmail s = Inr email'" "email' \<noteq> []"
    "tk_write ops ?d email' (ps_token s) (st_tokens st mode) = Inr s'"
    "st_registry st' = applyScheme parseURL ?d host (activate ?d email' (contextFromSuccess s) ((st_registry st)\<lparr>reg_storage := mode\<rparr>))"
    "st_tokens st' = (st_tokens st)(mode := s')"
    by (rule finish_login_state [OF assms(1)])
  have email: "email' = email" using l(1) assms(5) by simp
  let ?reg = "activate ?d email (contextFromSuccess s) ((st_registry st)\<lparr>reg_storage := mode\<rparr>)"
  obtain en where en: "reg_current ?reg = Some ?d" "map_of (reg_hosts ?reg) ?d = Some en" "ent_current en = Some email"
    "map_of (ent_accounts en) email = Some (contextFromSuccess s)" using activate_entry by blast
  obtain en' where en': "reg_current (st_registry st') = Some ?d" "map_of (reg_hosts (st_registry st')) ?d = Some en'"
    using applyScheme_entry [OF en, of parseURL host] unfolding l(4) email by blast
  have "context_at (st_registry st') ?d e = Some c"
    using assms(6,8) by (simp add: l(4) email activate_def context_upsert)
  then have known: "e \<in> fst ` set (ent_accounts en')"
    using en'(2) by (auto simp: context_at_def dest: map_of_SomeD intro: rev_image_eqI)
  have storage: "reg_storage (st_registry st') = mode"
    by (simp add: l(4) applyScheme_def setScheme_def activate_def setAccount_def setHost_def set_hosts_def upsert_def Let_def split: option.split)
  have written: "s' = write_of ops ?d email (ps_token s) (st_tokens st mode)" using l(3) email by (simp add: write_of_def)
  then have "read_of ops (st_tokens st' mode) ?d e = []"
    using contract_laws(5) [OF assms(2,3,7)] assms(9) by (simp add: l(5))
  moreover have "good (st_tokens st' mode)"
    using contract_laws(1) [OF assms(2,3)] written by (simp add: l(5))
  then obtain b where "tk_read ops ?d e (st_tokens st' mode) = Inr b" using assms(10) by blast
  ultimately have unread: "tk_read ops ?d e (st_tokens st' mode) = Inr []" by (simp add: read_of_def)
  show ?thesis
    using assms(4) en' known unread
    by (auto simp: runUseAccount_def storage l(5) withHint_def newError_def Let_def)
qed

text \<open>Alice has logged in while the keyring was not available; when Bob logs in, it is.\<close>

definition bob :: poll_success where
  "bob = alice\<lparr>ps_token := ''dfoa_2'', ps_account := Some (''2'', ''b@x'', ''B'')\<rparr>"

definition alice_in_file :: "keychain cli_state" where
  "alice_in_file = snd (finish_login no_parser (keychain_ops no_repr) File_mode ''h1'' alice start_state)"

definition bob_state :: "keychain cli_state" where
  "bob_state = snd (finish_login no_parser (keychain_ops no_repr) Keychain_mode ''h1'' bob alice_in_file)"

lemmas session_simps =
  alice_in_file_def finish_login_def keychain_ops_def keychainWrite_def start_state_def fresh_keychain_def bareHost_def
  no_parser_def save_def applyScheme_def activate_def upsert_def set_hosts_def with_default_def fresh_entry_def
  empty_registry_def setHost_def setAccount_def Let_def

lemma accountEmail_bob: "accountEmail bob = Inr ''b@x''"
  by (simp add: bob_def accountEmail_def alice_def)

lemma bob_logs_in:
  "finish_login no_parser (keychain_ops no_repr) Keychain_mode ''h1'' bob alice_in_file = (Inr (), bob_state)"
  unfolding bob_state_def by (simp add: session_simps accountEmail_alice accountEmail_bob)

lemma alice_in_file_facts:
  "working_keychain (st_tokens alice_in_file Keychain_mode)" "Keychain_mode \<noteq> reg_storage (st_registry alice_in_file)"
  "context_at (st_registry alice_in_file) ''h1'' ''a@x'' = Some (contextFromSuccess alice)"
  "read_of (keychain_ops no_repr) (st_tokens alice_in_file Keychain_mode) ''h1'' ''a@x'' = []"
  by (simp_all add: session_simps accountEmail_alice working_keychain_def context_at_def read_of_def keychainRead_def)

lemma keychain_reads: "working_keychain kc \<Longrightarrow> \<exists>b. tk_read (keychain_ops repr) h e kc = Inr b"
  by (simp add: keychain_ops_def keychainRead_def working_keychain_def)

lemma login_with_other_store_strands_accounts_witness:
  "\<exists>err. runUseAccount (keychain_ops no_repr) (Some ''a@x'') False (\<lambda>es. Inr []) bob_state = (Inl err, bob_state) \<and> ae_code err = NotLoggedIn"
proof -
  have d: "bareHost no_parser ''h1'' = ''h1''" by (simp add: bareHost_def no_parser_def)
  have apart: "\<not> (\<lambda>(h', e') (h, e). entryName h' e' = entryName h e) (bareHost no_parser ''h1'', ''a@x'') (bareHost no_parser ''h1'', ''b@x'')"
    by (simp add: entryName_def)
  show ?thesis
    using login_with_other_store_strands_accounts
      [OF bob_logs_in keychain_contract alice_in_file_facts(1,2) accountEmail_bob _ apart, of "contextFromSuccess alice" False "\<lambda>es. Inr []"]
      alice_in_file_facts(3,4) keychain_reads unfolding d by fastforce
qed

text \<open>C32: A login over \<^verbatim>\<open>https\<close> to a host that was used over \<^verbatim>\<open>http\<close> keeps the scheme \<^verbatim>\<open>http\<close>, so the
  commands after it go on talking to the host in clear text.\<close>

theorem https_login_keeps_http_scheme:
  assumes "finish_login parseURL ops mode host s st = (Inr (), st')" and "parseURL host = Some u" and "u_protocol u = ''https:''"
    and "map_of (reg_hosts (st_registry st)) (bareHost parseURL host) = Some en" and "ent_scheme en = Some ''http''"
  shows "\<exists>en'. map_of (reg_hosts (st_registry st')) (bareHost parseURL host) = Some en' \<and> ent_scheme en' = Some ''http''
    \<and> (containsText ''://'' (bareHost parseURL host) \<or>
       hostWithScheme (bareHost parseURL host) (ent_scheme en') = ''http://'' @ bareHost parseURL host)"
proof -
  let ?d = "bareHost parseURL host"
  obtain email s' where l: "accountEmail s = Inr email" "email \<noteq> []"
    "tk_write ops ?d email (ps_token s) (st_tokens st mode) = Inr s'"
    "st_registry st' = applyScheme parseURL ?d host (activate ?d email (contextFromSuccess s) ((st_registry st)\<lparr>reg_storage := mode\<rparr>))"
    "st_tokens st' = (st_tokens st)(mode := s')"
    by (rule finish_login_state [OF assms(1)])
  have "st_registry st' = activate ?d email (contextFromSuccess s) ((st_registry st)\<lparr>reg_storage := mode\<rparr>)"
    using assms(2,3) by (simp add: l(4) applyScheme_def)
  then have "\<exists>en'. map_of (reg_hosts (st_registry st')) ?d = Some en' \<and> ent_scheme en' = Some ''http''"
    using assms(4,5) by (simp add: activate_def setAccount_def setHost_def set_hosts_def upsert_def with_default_def Let_def)
  then show ?thesis by (auto simp: hostWithScheme_def nonempty_def)
qed

definition demo_parser :: "string \<Rightarrow> url_parts option" where
  "demo_parser s =
     (if s = ''https://h1'' then Some \<lparr>u_protocol = ''https:'', u_host = ''h1'', u_pathname = ''/'', u_text = (\<lambda>p. s)\<rparr>
      else if s = ''http://h1'' then Some \<lparr>u_protocol = ''http:'', u_host = ''h1'', u_pathname = ''/'', u_text = (\<lambda>p. s)\<rparr>
      else None)"

definition insecure_state :: "keychain cli_state" where
  "insecure_state = snd (finish_login demo_parser (keychain_ops no_repr) Keychain_mode ''http://h1'' alice start_state)"

lemma https_login_keeps_http_scheme_witness:
  "\<exists>en'. map_of (reg_hosts (st_registry (snd (finish_login demo_parser (keychain_ops no_repr) Keychain_mode ''https://h1'' alice insecure_state)))) ''h1''
     = Some en' \<and> ent_scheme en' = Some ''http''"
proof -
  let ?p = "\<lparr>u_protocol = ''https:'', u_host = ''h1'', u_pathname = ''/'', u_text = (\<lambda>p. ''https://h1'')\<rparr>"
  let ?en = "\<lparr>ent_scheme = Some ''http'', ent_current = Some ''a@x'', ent_accounts = [(''a@x'', contextFromSuccess alice)]\<rparr>"
  have d: "bareHost demo_parser ''https://h1'' = ''h1''" by (simp add: bareHost_def demo_parser_def)
  have before: "map_of (reg_hosts (st_registry insecure_state)) ''h1'' = Some ?en"
    by (simp add: insecure_state_def finish_login_def accountEmail_alice keychain_ops_def keychainWrite_def start_state_def
      fresh_keychain_def bareHost_def demo_parser_def save_def applyScheme_def setScheme_def drop_colon_def activate_def upsert_def
      set_hosts_def with_default_def fresh_entry_def empty_registry_def setHost_def setAccount_def Let_def)
  obtain st' where login: "finish_login demo_parser (keychain_ops no_repr) Keychain_mode ''https://h1'' alice insecure_state = (Inr (), st')"
    by (simp add: finish_login_def accountEmail_alice keychain_ops_def keychainWrite_def insecure_state_def start_state_def fresh_keychain_def save_def Let_def)
  have "demo_parser ''https://h1'' = Some ?p" by (simp add: demo_parser_def)
  from https_login_keeps_http_scheme [OF login this] before login show ?thesis unfolding d by auto
qed

end
