(* ===== verification/Command_Tree.thy ===== *)
theory Command_Tree
  imports Cli_Flags
begin

text \<open>
  The command tree of the command line client, \<^verbatim>\<open>cli/src/framework/registry.ts\<close>: finding the command of a
  command line, and the suggestions when there is none. Records of nodes keep the order of their keys. The
  comparison of texts by the locale is an argument. A command is what its class declares (\<^verbatim>\<open>command.ts\<close>).
\<close>

section \<open>The tree\<close>

record command =
  cmd_description :: "string option"
  cmd_flags :: "(string \<times> flag_def \<times> string) list"
  cmd_args :: "(string \<times> bool \<times> string) list"
  cmd_examples :: "string list"
  cmd_hidden :: bool
  cmd_deprecated :: "string option"
  cmd_effect :: "string option"
  cmd_guide :: string

datatype command_node = CommandNode (nd_command: "command option") (nd_subs: "(string \<times> command_node) list")

type_synonym command_tree = "(string \<times> command_node) list"

definition buildPath :: "string list \<Rightarrow> string" where
  "buildPath parts = join '' '' parts"

definition is_flag :: "string \<Rightarrow> bool" where
  "is_flag token = startsWith token ''-''"

section \<open>Finding a command\<close>

text \<open>\<open>nodes\<close> is the table the next token is looked up in, \<open>found\<close> the last command on the way.\<close>

fun resolve_from ::
  "command_tree \<Rightarrow> string list \<Rightarrow> (command \<times> string list) option \<Rightarrow> string list \<Rightarrow> (command \<times> string list) option" where
  "resolve_from nodes path found [] = found"
| "resolve_from nodes path found (token # rest) =
     (if is_flag token then found
      else (case map_of nodes token of
              None \<Rightarrow> found
            | Some node \<Rightarrow>
                (let path' = path @ [token]
                 in case nd_command node of
                      None \<Rightarrow> resolve_from (nd_subs node) path' found rest
                    | Some c \<Rightarrow>
                        (case rest of
                           [] \<Rightarrow> Some (c, path')
                         | nextToken # _ \<Rightarrow>
                             if is_flag nextToken \<or> nextToken \<notin> fst ` set (nd_subs node) then Some (c, path')
                             else resolve_from (nd_subs node) path' (Some (c, path')) rest))))"

definition resolveCommand :: "command_tree \<Rightarrow> string list \<Rightarrow> (command \<times> string list) option" where
  "resolveCommand tree argv = resolve_from tree [] None argv"

section \<open>Spelling\<close>

definition nth_or0 :: "nat list \<Rightarrow> nat \<Rightarrow> nat" where
  "nth_or0 xs j = (if j < length xs then xs ! j else 0)"

definition edit_cell :: "string \<Rightarrow> string \<Rightarrow> nat \<Rightarrow> nat list \<Rightarrow> nat list \<Rightarrow> nat \<Rightarrow> nat" where
  "edit_cell a b i prev cur j =
     (if a ! (i - 1) = b ! (j - 1) then nth_or0 prev (j - 1)
      else 1 + min (nth_or0 prev j) (min (nth_or0 cur (j - 1)) (nth_or0 prev (j - 1))))"

definition edit_row :: "string \<Rightarrow> string \<Rightarrow> nat list \<Rightarrow> nat \<Rightarrow> nat list" where
  "edit_row a b prev i = foldl (\<lambda>cur j. cur @ [edit_cell a b i prev cur j]) [i] [1..<length b + 1]"

definition editDistance :: "string \<Rightarrow> string \<Rightarrow> nat" where
  "editDistance a b = nth_or0 (foldl (edit_row a b) [0..<length b + 1] [1..<length a + 1]) (length b)"

definition relThreshold :: "string \<Rightarrow> nat" where
  "relThreshold token = (if length token \<le> 3 then 1 else 2)"

section \<open>Suggestions\<close>

definition visible :: "command option \<Rightarrow> string list \<Rightarrow> (command \<times> string list) list" where
  "visible c path = (case c of Some cmd \<Rightarrow> if \<not> cmd_hidden cmd then [(cmd, path)] else [] | None \<Rightarrow> [])"

fun walk :: "string list \<Rightarrow> command_node \<Rightarrow> (command \<times> string list) list"
  and walk_all :: "string list \<Rightarrow> command_tree \<Rightarrow> (command \<times> string list) list" where
  "walk path (CommandNode c subs) = visible c path @ walk_all path subs"
| "walk_all path [] = []"
| "walk_all path ((k, child) # rest) = walk (path @ [k]) child @ walk_all path rest"

definition collectCommands :: "command_tree \<Rightarrow> (command \<times> string list) list" where
  "collectCommands tree = walk_all [] tree"

fun positionalTokens :: "string list \<Rightarrow> string list" where
  "positionalTokens [] = []"
| "positionalTokens (t # ts) = (if is_flag t then [] else t # positionalTokens ts)"

text \<open>The loop over the segments keeps the best total so far.\<close>

definition better :: "nat option \<Rightarrow> nat \<Rightarrow> nat option" where
  "better best n = (case best of None \<Rightarrow> Some n | Some b \<Rightarrow> if n < b then Some n else best)"

fun minSubsequenceCost :: "string list \<Rightarrow> string list \<Rightarrow> nat option" where
  "minSubsequenceCost [] segments = Some 0"
| "minSubsequenceCost (token # rest) segments =
     foldl (\<lambda>best i.
       (let cost = editDistance token (segments ! i)
        in if cost > relThreshold token then best
           else (case minSubsequenceCost rest (drop (i + 1) segments) of
                   None \<Rightarrow> best
                 | Some tail \<Rightarrow> better best (cost + tail))))
       None [0..<length segments]"

record scored_command =
  sd_path :: string
  sd_score :: real
  sd_spelling :: nat
  sd_depth :: nat

definition OMIT_PENALTY :: real where "OMIT_PENALTY = 3 / 2"
definition MAX_SCORE :: real where "MAX_SCORE = 3"

definition score_command :: "string list \<Rightarrow> string list \<Rightarrow> scored_command option" where
  "score_command tokens path =
     (let lastToken = last tokens; leaf = (if path = [] then [] else last path);
          leafCost = editDistance lastToken leaf
      in if leafCost > relThreshold lastToken then None
         else (case minSubsequenceCost (butlast tokens) (butlast path) of
                 None \<Rightarrow> None
               | Some prefixCost \<Rightarrow>
                   (let spelling = leafCost + prefixCost;
                        score = real spelling + OMIT_PENALTY * (real (length path) - real (length tokens))
                    in if score \<ge> MAX_SCORE then None
                       else Some \<lparr>sd_path = buildPath path, sd_score = score, sd_spelling = spelling, sd_depth = length path\<rparr>)))"

text \<open>A stable sort by score, then depth, then path.\<close>

definition scored_before :: "(string \<Rightarrow> string \<Rightarrow> int) \<Rightarrow> scored_command \<Rightarrow> scored_command \<Rightarrow> bool" where
  "scored_before localeCompare x y =
     (if sd_score x \<noteq> sd_score y then sd_score x < sd_score y
      else if sd_depth x \<noteq> sd_depth y then sd_depth x < sd_depth y
      else localeCompare (sd_path x) (sd_path y) \<le> 0)"

fun insert_by :: "('a \<Rightarrow> 'a \<Rightarrow> bool) \<Rightarrow> 'a \<Rightarrow> 'a list \<Rightarrow> 'a list" where
  "insert_by le x [] = [x]"
| "insert_by le x (y # ys) = (if le x y then x # y # ys else y # insert_by le x ys)"

definition sort_by :: "('a \<Rightarrow> 'a \<Rightarrow> bool) \<Rightarrow> 'a list \<Rightarrow> 'a list" where
  "sort_by le xs = foldr (insert_by le) xs []"

definition scoreFallback :: "(string \<Rightarrow> string \<Rightarrow> int) \<Rightarrow> command_tree \<Rightarrow> string list \<Rightarrow> string list" where
  "scoreFallback localeCompare tree tokens =
     (if tokens = [] then []
      else (let scored = sort_by (scored_before localeCompare)
                  (List.map_filter (\<lambda>(c, path). score_command tokens path) (collectCommands tree))
            in if scored = [] then []
               else (let tied = filter (\<lambda>x. sd_score x = sd_score (hd scored)) scored
                     in if length tied \<ge> 2 \<and> list_all (\<lambda>x. sd_spelling x = 0) tied then []
                        else map sd_path scored)))"

function traverse :: "command_tree \<Rightarrow> string list \<Rightarrow> string list \<Rightarrow> string list" where
  "traverse nodes [] path = []"
| "traverse nodes (token # rest) path =
     (if is_flag token then []
      else concat (map (\<lambda>(key, node).
        if editDistance token key \<le> 1 then
          (let newPath = path @ [key]
           in if rest = [] \<or> is_flag (hd rest) \<or> nd_subs node = []
              then map (\<lambda>(c, p). buildPath p) (walk newPath node)
              else traverse (nd_subs node) rest newPath)
        else []) nodes))"
  by pat_completeness auto
termination by (relation "measure (\<lambda>(nodes, tokens, path). length tokens)") auto

definition findSuggestions :: "(string \<Rightarrow> string \<Rightarrow> int) \<Rightarrow> command_tree \<Rightarrow> string list \<Rightarrow> string list" where
  "findSuggestions localeCompare tree argv =
     (let results = traverse tree argv []
      in if results \<noteq> [] then results else scoreFallback localeCompare tree (positionalTokens argv))"

end
