(* ===== verification/Command_Laws.thy ===== *)
theory Command_Laws
  imports Command_Tree
begin

text \<open>
  Laws of the command tree. The command found is the longest prefix of the words that names one. The
  edit distance, computed row by row, is the least number of edits. The cost of an alignment is the
  least over all alignments within the thresholds. Suggestions are visible commands of the tree, and
  typing one resolves to its command.
\<close>

section \<open>Edits\<close>

text \<open>\<open>edits xs ys n\<close>: \<open>n\<close> insertions, deletions and replacements turn \<open>xs\<close> into \<open>ys\<close>.\<close>

inductive edits :: "'a list \<Rightarrow> 'a list \<Rightarrow> nat \<Rightarrow> bool" where
  e_nil: "edits [] [] 0"
| e_keep: "edits xs ys n \<Longrightarrow> edits (x # xs) (x # ys) n"
| e_ins: "edits xs ys n \<Longrightarrow> edits xs (y # ys) (Suc n)"
| e_del: "edits xs ys n \<Longrightarrow> edits (x # xs) ys (Suc n)"
| e_repl: "edits xs ys n \<Longrightarrow> edits (x # xs) (y # ys) (Suc n)"

fun lev :: "'a list \<Rightarrow> 'a list \<Rightarrow> nat" where
  "lev [] ys = length ys"
| "lev (x # xs) [] = Suc (length xs)"
| "lev (x # xs) (y # ys) =
     (if x = y then lev xs ys else Suc (min (lev xs (y # ys)) (min (lev (x # xs) ys) (lev xs ys))))"

lemma lev_Nil2 [simp]: "lev xs [] = length xs"
  by (cases xs) simp_all

inductive_cases edits_ConsE: "edits (x # xs) (y # ys) n"

text \<open>A first element on either side is worth at most one edit, and a common one none.\<close>

lemma edits_drop_left: "edits (x # xs) ys n \<Longrightarrow> \<exists>m \<le> Suc n. edits xs ys m"
proof (induction "x # xs" ys n rule: edits.induct)
  case (e_keep ys n)
  show ?case by (rule exI [of _ "Suc n"]) (use edits.e_ins [OF e_keep.hyps(1)] in simp)
next
  case (e_ins ys n y)
  then obtain m where "m \<le> Suc n" "edits xs ys m" by blast
  then have "Suc m \<le> Suc (Suc n)" "edits xs (y # ys) (Suc m)" by (auto intro: edits.e_ins)
  then show ?case by blast
next
  case (e_del ys n)
  show ?case by (rule exI [of _ n]) (use e_del.hyps in simp)
next
  case (e_repl ys n y)
  show ?case by (rule exI [of _ "Suc n"]) (use edits.e_ins [OF e_repl.hyps(1)] in simp)
qed

lemma edits_swap: "edits xs ys n \<Longrightarrow> edits ys xs n"
  by (induction rule: edits.induct) (auto intro: edits.intros)

lemma edits_drop_right: "edits xs (y # ys) n \<Longrightarrow> \<exists>m \<le> Suc n. edits xs ys m"
proof -
  assume e: "edits xs (y # ys) n"
  obtain m where "m \<le> Suc n" "edits ys xs m" using edits_drop_left [OF edits_swap [OF e]] by blast
  then show ?thesis using edits_swap [of ys xs m] by blast
qed

lemma edits_cancel: "edits (x # xs) (x # ys) n \<Longrightarrow> \<exists>m \<le> n. edits xs ys m"
proof (erule edits_ConsE)
  fix k assume "n = Suc k" "edits (x # xs) ys k"
  then show ?thesis using edits_drop_left [of x xs ys k] by blast
next
  fix k assume "n = Suc k" "edits xs (x # ys) k"
  then show ?thesis using edits_drop_right [of xs x ys k] by blast
next
  fix k assume k: "n = Suc k" "edits xs ys k"
  show ?thesis by (rule exI [of _ k]) (use k in simp)
next
  assume "edits xs ys n"
  then show ?thesis by blast
qed

lemma edits_lengths: "edits xs ys n \<Longrightarrow> length ys \<le> n + length xs \<and> length xs \<le> n + length ys"
  by (induction rule: edits.induct) auto

lemma lev_least: "edits xs ys n \<Longrightarrow> lev xs ys \<le> n"
proof (induction xs ys arbitrary: n rule: lev.induct)
  case (1 ys)
  then show ?case using edits_lengths [of "[]" ys n] by simp
next
  case (2 x xs)
  then show ?case using edits_lengths [of "x # xs" "[]" n] by simp
next
  case (3 x xs y ys)
  show ?case
  proof (cases "x = y")
    case True
    then obtain m where "m \<le> n" "edits xs ys m" using "3.prems" edits_cancel [of x xs ys n] by blast
    then show ?thesis using "3.IH"(1) [OF True] True by fastforce
  next
    case False
    from "3.prems" show ?thesis
    proof (rule edits_ConsE)
      fix k assume k: "n = Suc k" "edits (x # xs) ys k"
      then have "lev (x # xs) ys \<le> k" by (intro "3.IH"(3) [OF False])
      then show ?thesis using False k(1) by (simp add: min_le_iff_disj)
    next
      fix k assume k: "n = Suc k" "edits xs (y # ys) k"
      then have "lev xs (y # ys) \<le> k" by (intro "3.IH"(2) [OF False])
      then show ?thesis using False k(1) by (simp add: min_le_iff_disj)
    next
      fix k assume k: "n = Suc k" "edits xs ys k"
      then have "lev xs ys \<le> k" by (intro "3.IH"(4) [OF False])
      then show ?thesis using False k(1) by (simp add: min_le_iff_disj)
    qed (use False in simp)
  qed
qed

lemma edits_all_ins: "edits [] ys (length ys)"
  by (induction ys) (auto intro: edits.intros)

lemma edits_all_del: "edits xs [] (length xs)"
  by (induction xs) (auto intro: edits.intros)

lemma lev_reached: "edits xs ys (lev xs ys)"
proof (induction xs ys rule: lev.induct)
  case (1 ys)
  then show ?case by (simp add: edits_all_ins)
next
  case (2 x xs)
  then show ?case using edits_all_del [of "x # xs"] by simp
next
  case (3 x xs y ys)
  then show ?case by (auto simp: min_def intro: edits.intros)
qed

lemma edits_append: "edits xs ys n \<Longrightarrow> edits us vs m \<Longrightarrow> edits (xs @ us) (ys @ vs) (n + m)"
  by (induction rule: edits.induct) (auto intro: edits.intros)

lemma edits_rev: "edits xs ys n \<Longrightarrow> edits (rev xs) (rev ys) n"
proof (induction rule: edits.induct)
  case (e_keep xs ys n x)
  have "edits [x] [x] 0" by (intro edits.intros)
  then show ?case using edits_append [OF e_keep.IH] by fastforce
next
  case (e_ins xs ys n y)
  have "edits [] [y] 1" using edits.e_ins [OF edits.e_nil] by simp
  then show ?case using edits_append [OF e_ins.IH, of "[]" "[y]" 1] by simp
next
  case (e_del xs ys n x)
  have "edits [x] [] 1" using edits.e_del [OF edits.e_nil] by simp
  then show ?case using edits_append [OF e_del.IH, of "[x]" "[]" 1] by simp
next
  case (e_repl xs ys n x y)
  have "edits [x] [y] 1" using edits.e_repl [OF edits.e_nil] by simp
  then show ?case using edits_append [OF e_repl.IH, of "[x]" "[y]" 1] by simp
qed (simp add: edits.e_nil)

lemma lev_rev: "lev (rev xs) (rev ys) = lev xs ys"
proof (rule antisym)
  show "lev (rev xs) (rev ys) \<le> lev xs ys" by (rule lev_least [OF edits_rev [OF lev_reached]])
  show "lev xs ys \<le> lev (rev xs) (rev ys)"
    using lev_least [OF edits_rev [OF lev_reached [of "rev xs" "rev ys"]]] by simp
qed

section \<open>The rows of the distance\<close>

definition prefix_lev :: "'a list \<Rightarrow> 'a list \<Rightarrow> nat \<Rightarrow> nat \<Rightarrow> nat" where
  "prefix_lev a b i j = lev (rev (take i a)) (rev (take j b))"

definition lev_row :: "'a list \<Rightarrow> 'a list \<Rightarrow> nat \<Rightarrow> nat \<Rightarrow> nat list" where
  "lev_row a b i n = map (prefix_lev a b i) [0..<n]"

lemma nth_row: "j < n \<Longrightarrow> nth_or0 (lev_row a b i n) j = prefix_lev a b i j"
  by (simp add: nth_or0_def lev_row_def)

lemma prefix_lev_step:
  assumes "0 < i" "i \<le> length a" "0 < j" "j \<le> length b"
  shows "prefix_lev a b i j =
    (if a ! (i - 1) = b ! (j - 1) then prefix_lev a b (i - 1) (j - 1)
     else 1 + min (prefix_lev a b (i - 1) j) (min (prefix_lev a b i (j - 1)) (prefix_lev a b (i - 1) (j - 1))))"
proof -
  have "rev (take i a) = a ! (i - 1) # rev (take (i - 1) a)"
    using assms(1,2) take_Suc_conv_app_nth [of "i - 1" a] by simp
  moreover have "rev (take j b) = b ! (j - 1) # rev (take (j - 1) b)"
    using assms(3,4) take_Suc_conv_app_nth [of "j - 1" b] by simp
  ultimately show ?thesis by (simp add: prefix_lev_def)
qed

lemma edit_row_eq:
  assumes "0 < i" "i \<le> length a"
  shows "edit_row a b (lev_row a b (i - 1) (length b + 1)) i = lev_row a b i (length b + 1)"
proof -
  have "foldl (\<lambda>cur j. cur @ [edit_cell a b i (lev_row a b (i - 1) (length b + 1)) cur j]) [i] [1..<k + 1]
      = lev_row a b i (k + 1)" if "k \<le> length b" for k
    using that
  proof (induction k)
    case 0
    then show ?case using assms by (simp add: lev_row_def prefix_lev_def)
  next
    case (Suc k)
    let ?prev = "lev_row a b (i - 1) (length b + 1)"
    have cell: "edit_cell a b i ?prev (lev_row a b i (Suc k)) (Suc k) = prefix_lev a b i (Suc k)"
      using Suc.prems prefix_lev_step [of i a "Suc k" b] assms by (simp add: edit_cell_def nth_row)
    have "[1..<Suc k + 1] = [1..<k + 1] @ [Suc k]" by simp
    then show ?case using Suc cell by (simp add: lev_row_def)
  qed
  from this [of "length b"] show ?thesis by (simp add: edit_row_def)
qed

lemma edit_rows_eq:
  "k \<le> length a \<Longrightarrow> foldl (edit_row a b) [0..<length b + 1] [1..<k + 1] = lev_row a b k (length b + 1)"
proof (induction k)
  case 0
  have "lev_row a b 0 (length b + 1) = map (\<lambda>j. j) [0..<length b + 1]"
    unfolding lev_row_def by (rule map_cong) (auto simp: prefix_lev_def)
  then show ?case by simp
next
  case (Suc k)
  have "[1..<Suc k + 1] = [1..<k + 1] @ [Suc k]" by simp
  then show ?case using Suc edit_row_eq [of "Suc k" a b] by simp
qed

lemma editDistance_lev: "editDistance a b = lev a b"
proof -
  have "editDistance a b = prefix_lev a b (length a) (length b)"
    using edit_rows_eq [of "length a" a b] by (simp add: editDistance_def nth_row)
  then show ?thesis by (simp add: prefix_lev_def lev_rev)
qed

text \<open>C34: The edit distance is the least number of insertions, deletions and replacements that turn one word
  into the other.\<close>

theorem editDistance_is_least: "edits a b (editDistance a b) \<and> (\<forall>n. edits a b n \<longrightarrow> editDistance a b \<le> n)"
  by (simp add: editDistance_lev lev_reached lev_least)

lemma editDistance_is_least_witness: "editDistance ''aut'' ''auth'' \<le> 1"
proof -
  have "edits [] ''h'' 1" using edits_all_ins [of "''h''"] by simp
  then have "edits ''aut'' ''auth'' 1" by (intro edits.e_keep)
  then show ?thesis using editDistance_is_least [of "''aut''" "''auth''"] by blast
qed

section \<open>The command of a command line\<close>

fun node_at :: "command_tree \<Rightarrow> string list \<Rightarrow> command_node option" where
  "node_at t [] = None"
| "node_at t [k] = map_of t k"
| "node_at t (k # k' # ks) = Option.bind (map_of t k) (\<lambda>n. node_at (nd_subs n) (k' # ks))"

definition command_at :: "command_tree \<Rightarrow> string list \<Rightarrow> command option" where
  "command_at t p = Option.bind (node_at t p) nd_command"

definition words_of :: "string list \<Rightarrow> string list" where
  "words_of argv = takeWhile (\<lambda>t. \<not> is_flag t) argv"

lemma command_at_simps [simp]:
  "command_at t [] = None"
  "command_at t [k] = Option.bind (map_of t k) nd_command"
  "ks \<noteq> [] \<Longrightarrow> command_at t (k # ks) = Option.bind (map_of t k) (\<lambda>n. command_at (nd_subs n) ks)"
  by (simp_all add: command_at_def) (cases ks; cases "map_of t k"; simp)

fun longest :: "command_tree \<Rightarrow> string list \<Rightarrow> (command \<times> string list) option" where
  "longest t [] = None"
| "longest t (w # ws) =
     (case map_of t w of
        None \<Rightarrow> None
      | Some n \<Rightarrow>
          (case longest (nd_subs n) ws of
             Some (c, p) \<Rightarrow> Some (c, w # p)
           | None \<Rightarrow> map_option (\<lambda>c. (c, [w])) (nd_command n)))"

lemma longest_unknown: "ws = [] \<or> map_of t (hd ws) = None \<Longrightarrow> longest t ws = None"
  by (cases ws) auto

lemma resolve_from_longest:
  "resolve_from t path found argv =
   (case longest t (words_of argv) of None \<Rightarrow> found | Some (c, p) \<Rightarrow> Some (c, path @ p))"
proof (induction t path found argv rule: resolve_from.induct)
  case (2 t path found token rest)
  show ?case
  proof (cases "is_flag token")
    case False
    then have words: "words_of (token # rest) = token # words_of rest" by (simp add: words_of_def)
    show ?thesis
    proof (cases "map_of t token")
      case None
      then show ?thesis using False words by simp
    next
      case (Some n)
      show ?thesis
      proof (cases "nd_command n")
        case None
        then show ?thesis
          using "2.IH"(1) [OF False Some refl None] False Some words by (auto split: option.split)
      next
        case c: (Some c)
        show ?thesis
        proof (cases "rest = [] \<or> is_flag (hd rest) \<or> hd rest \<notin> fst ` set (nd_subs n)")
          case True
          have "longest (nd_subs n) (words_of rest) = None"
            using True by (intro longest_unknown) (cases rest; auto simp: words_of_def map_of_eq_None_iff)
          then show ?thesis using True False Some c words by (cases rest) auto
        next
          case go: False
          then obtain x xs where rest: "rest = x # xs" by (cases rest) auto
          have step: "resolve_from (nd_subs n) (path @ [token]) (Some (c, path @ [token])) rest
            = (case longest (nd_subs n) (words_of rest) of None \<Rightarrow> Some (c, path @ [token])
               | Some (c, p) \<Rightarrow> Some (c, (path @ [token]) @ p))"
            using "2.IH"(2) [OF False Some refl c rest] go rest by simp
          have "resolve_from t path found (token # rest) = resolve_from (nd_subs n) (path @ [token]) (Some (c, path @ [token])) rest"
            using go rest False Some c by (simp add: Let_def)
          then show ?thesis using step Some c words by (auto split: option.split)
        qed
      qed
    qed
  qed (simp add: words_of_def)
qed (simp add: words_of_def)

lemma longest_none: "longest t ws = None \<Longrightarrow> prefix q ws \<Longrightarrow> command_at t q = None"
proof (induction t ws arbitrary: q rule: longest.induct)
  case (2 t w ws)
  show ?case
  proof (cases q)
    case (Cons k ks)
    with "2.prems"(2) have k: "k = w" "prefix ks ws" by auto
    show ?thesis
    proof (cases "map_of t w")
      case (Some n)
      then have "longest (nd_subs n) ws = None" "nd_command n = None"
        using "2.prems"(1) by (auto split: option.splits)
      then show ?thesis using "2.IH" [OF Some _ k(2)] Some Cons k by (cases "ks = []") auto
    qed (cases "ks = []"; simp add: Cons k)
  qed simp
qed simp

lemma longest_some:
  "longest t ws = Some (c, p) \<Longrightarrow>
   command_at t p = Some c \<and> prefix p ws \<and> (\<forall>q d. prefix q ws \<and> command_at t q = Some d \<longrightarrow> length q \<le> length p)"
proof (induction t ws arbitrary: c p rule: longest.induct)
  case (2 t w ws)
  obtain n where n: "map_of t w = Some n" using "2.prems" by (auto split: option.splits)
  have shape: "q = [] \<or> (\<exists>ks. q = w # ks \<and> prefix ks ws)" if "prefix q (w # ws)" for q
    using that by (cases q) auto
  show ?case
  proof (cases "longest (nd_subs n) ws")
    case None
    then obtain p0 where p: "nd_command n = Some c" "p = [w]" using "2.prems" n by auto
    have "length q \<le> 1" if q: "prefix q (w # ws)" "command_at t q = Some d" for q d
    proof (cases "\<exists>ks. q = w # ks \<and> ks \<noteq> []")
      case True
      then obtain ks where ks: "q = w # ks" "ks \<noteq> []" "prefix ks ws" using shape [OF q(1)] by auto
      then have "command_at (nd_subs n) ks = None" by (intro longest_none [OF None])
      then show ?thesis using q(2) ks n by simp
    next
      case False
      then show ?thesis using shape [OF q(1)] by auto
    qed
    then show ?thesis using p n by auto
  next
    case (Some r)
    obtain c' p' where r: "r = (c', p')" by fastforce
    then have p: "c' = c" "p = w # p'" using "2.prems" n Some by auto
    note IH = "2.IH" [OF n, of c p'] 
    have best: "command_at (nd_subs n) p' = Some c" "prefix p' ws"
      "\<And>q d. prefix q ws \<Longrightarrow> command_at (nd_subs n) q = Some d \<Longrightarrow> length q \<le> length p'"
      using IH Some r p(1) by auto
    have "p' \<noteq> []" using best(1) by auto
    then have "command_at t p = Some c" using best(1) p n by simp
    moreover have "prefix p (w # ws)" using best(2) p by simp
    moreover have "length q \<le> length p" if q: "prefix q (w # ws)" "command_at t q = Some d" for q d
    proof (cases "\<exists>ks. q = w # ks \<and> ks \<noteq> []")
      case True
      then obtain ks where ks: "q = w # ks" "ks \<noteq> []" "prefix ks ws" using shape [OF q(1)] by auto
      then show ?thesis using best(3) [OF ks(3)] q(2) n p by simp
    next
      case False
      then have "length q \<le> 1" using shape [OF q(1)] by auto
      then show ?thesis using p by simp
    qed
    ultimately show ?thesis by blast
  qed
qed simp

text \<open>C33: The command of a command line is the one named by the longest prefix of the words before the first flag
  that names a command; there is none exactly when no prefix does.\<close>

theorem longest_named_command_is_found:
  "case resolveCommand tree argv of
     Some (c, p) \<Rightarrow> command_at tree p = Some c \<and> prefix p (words_of argv)
       \<and> (\<forall>q d. prefix q (words_of argv) \<and> command_at tree q = Some d \<longrightarrow> length q \<le> length p)
   | None \<Rightarrow> \<forall>q. prefix q (words_of argv) \<longrightarrow> command_at tree q = None"
proof (cases "longest tree (words_of argv)")
  case None
  then show ?thesis using longest_none [OF None] by (simp add: resolveCommand_def resolve_from_longest)
next
  case (Some r)
  then show ?thesis
    using longest_some [of tree "words_of argv" "fst r" "snd r"]
    by (simp add: resolveCommand_def resolve_from_longest split_beta)
qed

section \<open>Alignments\<close>

text \<open>\<open>aligns tokens segments n\<close>: the tokens stand in order for some of the segments, each within its threshold.\<close>

inductive aligns :: "string list \<Rightarrow> string list \<Rightarrow> nat \<Rightarrow> bool" where
  a_nil: "aligns [] segs 0"
| a_skip: "aligns ts segs n \<Longrightarrow> aligns ts (s # segs) n"
| a_take: "editDistance t s \<le> relThreshold t \<Longrightarrow> aligns ts segs n \<Longrightarrow> aligns (t # ts) (s # segs) (editDistance t s + n)"

lemma aligns_nil: "aligns [] segs n \<longleftrightarrow> n = 0"
proof
  show "aligns [] segs n \<Longrightarrow> n = 0" by (induction "[] :: string list" segs n rule: aligns.induct) auto
qed (simp add: a_nil)

definition take_at :: "string \<Rightarrow> string list \<Rightarrow> string list \<Rightarrow> nat \<Rightarrow> nat \<Rightarrow> bool" where
  "take_at t ts segs i n =
     (editDistance t (segs ! i) \<le> relThreshold t \<and> (\<exists>k. aligns ts (drop (Suc i) segs) k \<and> n = editDistance t (segs ! i) + k))"

lemma aligns_take_at: "aligns (t # ts) segs n \<Longrightarrow> \<exists>i < length segs. take_at t ts segs i n"
proof (induction "t # ts" segs n rule: aligns.induct)
  case (a_skip segs n s)
  then obtain i where "i < length segs" "take_at t ts segs i n" by blast
  then have "Suc i < length (s # segs)" "take_at t ts (s # segs) (Suc i) n" by (auto simp: take_at_def)
  then show ?case by blast
next
  case (a_take s segs n)
  then have "take_at t ts (s # segs) 0 (editDistance t s + n)" by (auto simp: take_at_def)
  then show ?case by blast
qed

lemma take_at_aligns: "i < length segs \<Longrightarrow> take_at t ts segs i n \<Longrightarrow> aligns (t # ts) segs n"
proof (induction i arbitrary: segs)
  case 0
  then show ?case by (cases segs) (auto simp: take_at_def intro: aligns.a_take)
next
  case (Suc i)
  then show ?case by (cases segs) (auto simp: take_at_def intro!: aligns.a_skip)
qed

definition least_of :: "nat option \<Rightarrow> (nat \<Rightarrow> bool) \<Rightarrow> bool" where
  "least_of b P = (case b of None \<Rightarrow> \<forall>n. \<not> P n | Some n \<Rightarrow> P n \<and> (\<forall>m. P m \<longrightarrow> n \<le> m))"

lemma least_of_better:
  "least_of b P \<Longrightarrow> least_of v Q \<Longrightarrow>
   least_of (case v of None \<Rightarrow> b | Some n \<Rightarrow> better b n) (\<lambda>n. P n \<or> Q n)"
  by (cases b; cases v) (fastforce simp: least_of_def better_def)+

lemma least_of_fold:
  assumes "least_of b P" and "\<And>i. i \<in> set is \<Longrightarrow> least_of (f i) (Q i)"
  shows "least_of (foldl (\<lambda>best i. case f i of None \<Rightarrow> best | Some n \<Rightarrow> better best n) b is) (\<lambda>n. P n \<or> (\<exists>i \<in> set is. Q i n))"
  using assms
proof (induction "is" arbitrary: b P)
  case (Cons i "is")
  have "least_of (case f i of None \<Rightarrow> b | Some n \<Rightarrow> better b n) (\<lambda>n. P n \<or> Q i n)"
    by (rule least_of_better [OF Cons.prems(1)]) (simp add: Cons.prems(2))
  from Cons.IH [OF this] Cons.prems(2) show ?case by (simp add: disj_assoc)
qed simp

lemma minSubsequenceCost_least: "least_of (minSubsequenceCost ts segs) (aligns ts segs)"
proof (induction ts arbitrary: segs)
  case Nil
  then show ?case by (simp add: least_of_def aligns_nil)
next
  case (Cons t ts)
  let ?f = "\<lambda>i. if editDistance t (segs ! i) > relThreshold t then None
     else map_option ((+) (editDistance t (segs ! i))) (minSubsequenceCost ts (drop (i + 1) segs))"
  have step: "(let cost = editDistance t (segs ! i)
        in if cost > relThreshold t then best
           else (case minSubsequenceCost ts (drop (i + 1) segs) of None \<Rightarrow> best | Some tail \<Rightarrow> better best (cost + tail)))
      = (case ?f i of None \<Rightarrow> best | Some n \<Rightarrow> better best n)" for best i
    by (simp add: Let_def split: option.split)
  have each: "least_of (?f i) (take_at t ts segs i)" for i
    using Cons.IH [of "drop (i + 1) segs"]
    by (auto simp: least_of_def take_at_def split: option.splits)
  have "least_of (foldl (\<lambda>best i. case ?f i of None \<Rightarrow> best | Some n \<Rightarrow> better best n) None [0..<length segs])
      (\<lambda>n. False \<or> (\<exists>i \<in> set [0..<length segs]. take_at t ts segs i n))"
    by (rule least_of_fold) (simp add: least_of_def, rule each)
  moreover have "(\<lambda>n. False \<or> (\<exists>i \<in> set [0..<length segs]. take_at t ts segs i n)) = aligns (t # ts) segs"
    using aligns_take_at take_at_aligns by fastforce
  ultimately show ?case unfolding minSubsequenceCost.simps step by simp
qed

text \<open>The cost of aligning the typed words with the segments of a command is the least over all alignments in
  order and within the thresholds, and there is none exactly when no such alignment exists.\<close>

theorem alignment_cost_is_least:
  "(minSubsequenceCost ts segs = None \<longleftrightarrow> (\<forall>n. \<not> aligns ts segs n))
   \<and> (\<forall>n. minSubsequenceCost ts segs = Some n \<longleftrightarrow> aligns ts segs n \<and> (\<forall>m. aligns ts segs m \<longrightarrow> n \<le> m))"
  using minSubsequenceCost_least [of ts segs]
  by (auto simp: least_of_def le_antisym split: option.splits)

section \<open>A small tree, and the laws on it\<close>

definition plain_command :: "string \<Rightarrow> command" where
  "plain_command d = \<lparr>cmd_description = Some d, cmd_flags = [], cmd_args = [], cmd_examples = [], cmd_hidden = False,
     cmd_deprecated = None, cmd_effect = None, cmd_guide = []\<rparr>"

definition small_tree :: command_tree where
  "small_tree =
     [(''auth'', CommandNode None [(''login'', CommandNode (Some (plain_command ''in'')) []),
                                  (''logout'', CommandNode (Some (plain_command ''out'')) [])]),
      (''run'', CommandNode (Some (plain_command ''r'')) [(''app'', CommandNode (Some (plain_command ''a'')) [])])]"

lemma longest_named_command_is_found_witness:
  "command_at small_tree [''run'', ''app''] = Some (plain_command ''a'')
   \<and> resolveCommand small_tree [''run'', ''app'', ''x'', ''-v''] = Some (plain_command ''a'', [''run'', ''app''])"
proof -
  have "resolveCommand small_tree [''run'', ''app'', ''x'', ''-v''] = Some (plain_command ''a'', [''run'', ''app''])"
    by (simp add: resolveCommand_def small_tree_def is_flag_def startsWith_def)
  then show ?thesis using longest_named_command_is_found [where tree = small_tree and argv = "[''run'', ''app'', ''x'', ''-v'']"] by simp
qed

lemma alignment_cost_is_least_witness:
  "aligns [''aut''] [''auth'', ''devices''] (the (minSubsequenceCost [''aut''] [''auth'', ''devices'']))"
proof -
  have "minSubsequenceCost [''aut''] [''auth'', ''devices''] \<noteq> None"
    by (simp add: Let_def editDistance_lev relThreshold_def better_def upt_rec)
  then show ?thesis using alignment_cost_is_least [of "[''aut'']" "[''auth'', ''devices'']"] by auto
qed

end
