(* ===== verification/Command_Suggest.thy ===== *)
theory Command_Suggest
  imports Command_Laws
begin

text \<open>
  Laws of the suggestions.
\<close>

section \<open>Suggestions are commands\<close>

text \<open>Keys are distinct words: no flag, no space, not empty.\<close>

fun tree_ok :: "command_tree \<Rightarrow> bool" and node_ok :: "command_node \<Rightarrow> bool" where
  "tree_ok [] = True"
| "tree_ok ((k, n) # t) =
     (k \<noteq> [] \<and> CHR '' '' \<notin> set k \<and> \<not> is_flag k \<and> k \<notin> fst ` set t \<and> node_ok n \<and> tree_ok t)"
| "node_ok (CommandNode c subs) = tree_ok subs"

definition word_ok :: "string \<Rightarrow> bool" where
  "word_ok k = (k \<noteq> [] \<and> CHR '' '' \<notin> set k \<and> \<not> is_flag k)"

lemma tree_ok_lookup: "tree_ok t \<Longrightarrow> (k, n) \<in> set t \<Longrightarrow> map_of t k = Some n \<and> word_ok k \<and> node_ok n"
  by (induction t) (force simp: word_ok_def)+

lemma node_ok_subs: "node_ok n = tree_ok (nd_subs n)"
  by (cases n) simp

lemma walk_all_members: "walk_all path t = concat (map (\<lambda>(k, n). walk (path @ [k]) n) t)"
  by (induction t) auto

lemma walk_finds:
  "(c, p) \<in> set (walk path n) \<Longrightarrow> node_ok n \<Longrightarrow>
     \<exists>q. p = path @ q \<and> \<not> cmd_hidden c \<and> list_all word_ok q \<and> (if q = [] then nd_command n = Some c else command_at (nd_subs n) q = Some c)"
  "(c, p) \<in> set (walk_all path t) \<Longrightarrow> tree_ok t \<Longrightarrow>
     \<exists>q. p = path @ q \<and> \<not> cmd_hidden c \<and> list_all word_ok q \<and> command_at t q = Some c"
proof (induction path n and path t arbitrary: c p and c p rule: walk_walk_all.induct)
  case (1 path cm subs)
  show ?case
  proof (cases "(c, p) \<in> set (visible cm path)")
    case True
    then have "p = path \<and> \<not> cmd_hidden c \<and> cm = Some c" by (auto simp: visible_def split: option.splits if_splits)
    then show ?thesis by (intro exI [of _ "[]"]) simp
  next
    case False
    then obtain q where q: "p = path @ q" "\<not> cmd_hidden c" "list_all word_ok q" "command_at subs q = Some c"
      using "1.IH" [of c p] "1.prems" by auto
    then have "q \<noteq> []" by auto
    then show ?thesis using q by (intro exI [of _ q]) simp
  qed
next
  case (3 path k child rest)
  show ?case
  proof (cases "(c, p) \<in> set (walk (path @ [k]) child)")
    case True
    then obtain q where q: "p = path @ [k] @ q" "\<not> cmd_hidden c" "list_all word_ok q"
      "if q = [] then nd_command child = Some c else command_at (nd_subs child) q = Some c"
      using "3.IH"(1) [of c p] "3.prems"(2) by auto
    then have "command_at ((k, child) # rest) (k # q) = Some c" by (cases "q = []") auto
    then show ?thesis using q "3.prems"(2) by (intro exI [of _ "k # q"]) (auto simp: word_ok_def [of k])
  next
    case False
    then obtain q where q: "p = path @ q" "\<not> cmd_hidden c" "list_all word_ok q" "command_at rest q = Some c"
      using "3.IH"(2) [of c p] "3.prems" by auto
    obtain x xs where x: "q = x # xs" using q(4) by (cases q) auto
    have "x \<in> fst ` set rest"
      using q(4) unfolding x by (cases "xs = []") (auto simp: bind_eq_Some_conv dest!: map_of_SomeD intro: rev_image_eqI)
    then have "x \<noteq> k" using "3.prems"(2) by auto
    then have "command_at ((k, child) # rest) q = Some c" using q(4) unfolding x by (cases "xs = []") auto
    then show ?thesis using q by blast
  qed
qed simp

lemma collected_resolves:
  assumes "(c, p) \<in> set (collectCommands tree)" and "tree_ok tree"
  shows "\<not> cmd_hidden c \<and> resolveCommand tree p = Some (c, p) \<and> p \<noteq> [] \<and> list_all word_ok p"
proof -
  obtain q where q: "p = [] @ q" "\<not> cmd_hidden c" "list_all word_ok q" "command_at tree q = Some c"
    using walk_finds(2) [of c p "[]" tree] assms by (auto simp: collectCommands_def)
  have words: "words_of p = p" using q(1,3) by (simp add: words_of_def takeWhile_eq_all_conv list_all_iff word_ok_def)
  have named: "command_at tree p = Some c" using q by simp
  have "longest tree p \<noteq> None"
  proof
    assume "longest tree p = None"
    from longest_none [OF this, of p] named show False by simp
  qed
  then obtain d r where l: "longest tree p = Some (d, r)" by (cases "longest tree p") auto
  from longest_some [OF l] have "command_at tree r = Some d" "prefix r p" "length p \<le> length r"
    using named by auto
  then have "r = p" by (auto simp: prefix_def)
  then have "resolveCommand tree p = Some (c, p)"
    using l longest_some [OF l] named by (simp add: resolveCommand_def resolve_from_longest words)
  then show ?thesis using q named by auto
qed

lemma walk_subs: "set (walk_all path (nd_subs n)) \<subseteq> set (walk path n)"
  by (cases n) auto

lemma in_concat_mapE:
  assumes "x \<in> set (concat (map f xs))"
  obtains y where "y \<in> set xs" "x \<in> set (f y)"
  using assms by auto

lemma traverse_collected:
  "s \<in> set (traverse nodes tokens path) \<Longrightarrow> \<exists>(c, p) \<in> set (walk_all path nodes). s = buildPath p"
proof (induction nodes tokens path rule: traverse.induct)
  case (2 nodes token rest path)
  have flag: "\<not> is_flag token" using "2.prems" by (auto split: if_splits)
  let ?g = "\<lambda>key n. if editDistance token key \<le> 1
     then (if rest = [] \<or> is_flag (hd rest) \<or> nd_subs n = []
           then map (\<lambda>(c, p). buildPath p) (walk (path @ [key]) n) else traverse (nd_subs n) rest (path @ [key]))
     else []"
  have "s \<in> set (concat (map (\<lambda>(key, n). ?g key n) nodes))"
    using "2.prems" flag by (simp only: traverse.simps Let_def if_False)
  then obtain y where y: "y \<in> set nodes" "s \<in> set (case y of (key, n) \<Rightarrow> ?g key n)"
    by (rule in_concat_mapE)
  obtain key n where "y = (key, n)" by fastforce
  then have "(key, n) \<in> set nodes" and "s \<in> set (?g key n)" using y by simp_all
  then have kn: "(key, n) \<in> set nodes" "editDistance token key \<le> 1"
    "s \<in> set (if rest = [] \<or> is_flag (hd rest) \<or> nd_subs n = []
       then map (\<lambda>(c, p). buildPath p) (walk (path @ [key]) n) else traverse (nd_subs n) rest (path @ [key]))"
    by (cases "editDistance token key \<le> 1"; simp)+
  have "\<exists>(c, p) \<in> set (walk (path @ [key]) n). s = buildPath p"
  proof (cases "rest = [] \<or> is_flag (hd rest) \<or> nd_subs n = []")
    case True
    then show ?thesis using kn(3) by auto
  next
    case False
    then have "s \<in> set (traverse (nd_subs n) rest (path @ [key]))" using kn(3) by simp
    from "2.IH" [OF flag kn(1) refl kn(2) refl False this] show ?thesis using walk_subs by fastforce
  qed
  then show ?case unfolding walk_all_members using kn(1) by fastforce
qed simp

lemma set_insert_by [simp]: "set (insert_by le x xs) = insert x (set xs)"
  by (induction xs) auto

lemma set_sort_by [simp]: "set (sort_by le xs) = set xs"
  by (induction xs) (auto simp: sort_by_def)

lemma fallback_collected:
  "s \<in> set (scoreFallback le tree tokens) \<Longrightarrow> \<exists>(c, p) \<in> set (collectCommands tree). s = buildPath p"
proof -
  assume "s \<in> set (scoreFallback le tree tokens)"
  then obtain x where "x \<in> set (List.map_filter (\<lambda>(c, path). score_command tokens path) (collectCommands tree))" "s = sd_path x"
    by (auto simp: scoreFallback_def Let_def split: if_splits)
  then show ?thesis
    by (force simp: List.map_filter_def score_command_def Let_def split: if_splits option.splits)
qed

text \<open>C35: Every suggestion is a visible command of the tree, and typing it, word by word, runs that command.\<close>

theorem suggestions_are_runnable:
  assumes "tree_ok tree" and "s \<in> set (findSuggestions localeCompare tree argv)"
  shows "\<exists>c. \<not> cmd_hidden c \<and> resolveCommand tree (split_on (CHR '' '') s) = Some (c, split_on (CHR '' '') s)"
proof -
  have "\<exists>(c, p) \<in> set (collectCommands tree). s = buildPath p"
    using assms(2) traverse_collected [of s tree argv "[]"] fallback_collected
    by (auto simp: findSuggestions_def Let_def collectCommands_def split: if_splits)
  then obtain c p where p: "(c, p) \<in> set (collectCommands tree)" "s = buildPath p" by blast
  note found = collected_resolves [OF p(1) assms(1)]
  have "\<forall>x \<in> set p. CHR '' '' \<notin> set x" using found by (auto simp: list_all_iff word_ok_def)
  then have "split_on (CHR '' '') s = p" using found unfolding p(2) buildPath_def by (intro split_on_join) auto
  then show ?thesis using found by auto
qed

lemma suggestions_are_runnable_witness:
  "\<exists>c. \<not> cmd_hidden c \<and> resolveCommand small_tree (split_on (CHR '' '') ''auth login'') = Some (c, split_on (CHR '' '') ''auth login'')"
proof -
  have "''auth login'' \<in> set (findSuggestions (\<lambda>a b. 0) small_tree [''aut'', ''login''])"
    by (simp add: findSuggestions_def small_tree_def editDistance_lev is_flag_def startsWith_def buildPath_def visible_def plain_command_def)
  moreover have "tree_ok small_tree" by (simp add: small_tree_def is_flag_def startsWith_def)
  ultimately show ?thesis using suggestions_are_runnable [of small_tree "''auth login''" "\<lambda>a b. 0" "[''aut'', ''login'']"] by simp
qed

section \<open>Scores\<close>

lemma aligns_length: "aligns ts segs n \<Longrightarrow> length ts \<le> length segs"
  by (induction rule: aligns.induct) auto

text \<open>Below the maximum a score determines the spelling cost and the number of omitted words, as the source claims.\<close>

lemma score_shape:
  assumes "score_command tokens path = Some x" and "path \<noteq> []" and "tokens \<noteq> []"
  obtains k where "length path = length tokens + k" and "sd_score x = real (sd_spelling x) + 3 / 2 * real k" and "sd_score x < 3"
proof -
  obtain pc where pc: "minSubsequenceCost (butlast tokens) (butlast path) = Some pc"
    and x: "sd_score x = real (sd_spelling x) + 3 / 2 * (real (length path) - real (length tokens))" "sd_score x < 3"
    using assms(1) by (auto simp: score_command_def OMIT_PENALTY_def MAX_SCORE_def Let_def split: if_splits option.splits)
  have "aligns (butlast tokens) (butlast path) pc"
    using minSubsequenceCost_least [of "butlast tokens" "butlast path"] pc by (simp add: least_of_def)
  from aligns_length [OF this] have "length tokens - 1 \<le> length path - 1" by simp
  moreover have "0 < length path" "0 < length tokens" using assms(2,3) by simp_all
  ultimately have "length tokens \<le> length path" by linarith
  then obtain k where "length path = length tokens + k" using le_Suc_ex by blast
  then show ?thesis using that x by simp
qed

lemma score_decomposes:
  assumes "real s + 3 / 2 * real k = real s' + 3 / 2 * real k'" and "real s + 3 / 2 * real k < 3"
  shows "s = s' \<and> k = k'"
proof -
  have "real (2 * s + 3 * k) = real (2 * s' + 3 * k')" "real (2 * s + 3 * k) < 6" using assms by simp_all
  then have eq: "2 * s + 3 * k = 2 * s' + 3 * k'" "2 * s + 3 * k < 6" by linarith+
  then have "k = 0 \<or> k = 1" "k' = 0 \<or> k' = 1" by linarith+
  moreover have "\<not> (2 * s = 2 * s' + (3 :: nat))" "\<not> (2 * s + 3 = 2 * s' + (0 :: nat))" by presburger+
  ultimately show ?thesis using eq(1) by auto
qed

end
