(* ===== verification/Node_Editing.thy ===== *)
theory Node_Editing
  imports Edge_Editing
begin

text \<open>
  Selecting, deleting, disconnecting and copying nodes (\<^verbatim>\<open>workflow/hooks/use-nodes-interactions.ts\<close>), on the
  state of the edge editor and the parts of the workflow store that these handlers use. The metadata of
  the node kinds and \<^verbatim>\<open>getConnectedEdges\<close> of the package reactflow are fields of the parameter
  \<open>node_env\<close>; its field \<open>nv_stack\<close> is the depth of calls that the stack holds: deleting a container calls
  itself for the children and then for the container again, and answers \<open>RangeError\<close> when it nests deeper.
\<close>

section \<open>State\<close>

record node_meta =
  mt_isUndeletable :: bool
  mt_isSingleton :: bool

record node_env =
  nv_meta :: "BlockEnum \<Rightarrow> node_meta option"
  getConnectedEdges :: "string \<Rightarrow> edge list \<Rightarrow> edge list"
  nv_stack :: nat

text \<open>Documented behaviour of \<^verbatim>\<open>getConnectedEdges([node], edges)\<close>: the edges with an end at the node.\<close>

definition node_env_ok :: "node_env \<Rightarrow> bool" where
  "node_env_ok V \<longleftrightarrow> (\<forall>i es. getConnectedEdges V i es = filter (\<lambda>e. e_source e = i \<or> e_target e = i) es)"

text \<open>The dialog that asks before a container is deleted, with what its closure \<^verbatim>\<open>onConfirm\<close> captured.\<close>

record confirm_dialog =
  cd_kind :: BlockEnum
  cd_nodeId :: string
  cd_children :: "string list"

record rag_variable =
  rv_belong_to_node_id :: string
  rv_variable :: string

datatype handle_type = SourceHandle | TargetHandle

record connecting_payload =
  cp_nodeId :: string
  cp_nodeType :: BlockEnum
  cp_handleType :: handle_type
  cp_handleId :: "string option"

record node_editor =
  ne_canvas :: edit_store
  ne_showConfirm :: "confirm_dialog option"
  ne_ragPipelineVariables :: "rag_variable list option"
  ne_clearedVars :: "string list"
  ne_connectingNodePayload :: "connecting_payload option"
  ne_clipboardData :: "(node list \<times> edge list) option"
  ne_initShowLastRunTab :: bool

definition on_canvas :: "(edit_store \<Rightarrow> edit_store) \<Rightarrow> node_editor \<Rightarrow> node_editor" where
  "on_canvas f s = s\<lparr>ne_canvas := f (ne_canvas s)\<rparr>"

section \<open>Selecting\<close>

definition handleNodeSelect :: "node_env \<Rightarrow> string \<Rightarrow> bool \<Rightarrow> bool \<Rightarrow> node_editor \<Rightarrow> node_editor" where
  "handleNodeSelect V nodeId cancelSelection initShowLastRunTab s =
     (let connectedIds = map e_id (getConnectedEdges V nodeId (es_edges (ne_canvas s))) in
      on_canvas (\<lambda>c. c\<lparr>
          es_nodes := map (\<lambda>n. let sel = (n_id n = nodeId \<and> \<not> cancelSelection) in
              (with_data (\<lambda>d. d\<lparr>d_selected := sel\<rparr>) n)\<lparr>n_selected := sel\<rparr>) (es_nodes c),
          es_edges := map (\<lambda>e. with_edge_data (\<lambda>d. d\<lparr>ed_connectedNodeIsSelected :=
              (e_id e \<in> set connectedIds \<and> \<not> cancelSelection)\<rparr>) e) (es_edges c)\<rparr>)
        (if initShowLastRunTab then s\<lparr>ne_initShowLastRunTab := True\<rparr> else s))"

text \<open>A click, in comment mode or not, on a link of a note or not.\<close>

definition handleNodeClick :: "node_env \<Rightarrow> bool \<Rightarrow> bool \<Rightarrow> node \<Rightarrow> node_editor \<Rightarrow> node_editor" where
  "handleNodeClick V commentMode onLink n s =
     (if commentMode then s
      else if n_type n = Some CUSTOM_NOTE_NODE \<and> onLink then s
      else if n_type n = Some CUSTOM_ITERATION_START_NODE then s
      else if n_type n = Some CUSTOM_LOOP_START_NODE then s
      else if d_type (n_data n) = DataSourceEmpty then s
      else handleNodeSelect V (n_id n) False False s)"

definition handleNodesCancelSelected :: "node_editor \<Rightarrow> node_editor" where
  "handleNodesCancelSelected =
     on_canvas (\<lambda>c. c\<lparr>es_nodes := map (with_data (\<lambda>d. d\<lparr>d_selected := False\<rparr>)) (es_nodes c)\<rparr>)"

definition handleNodeContextMenu :: "node_env \<Rightarrow> node \<Rightarrow> node_editor \<Rightarrow> node_editor" where
  "handleNodeContextMenu V n s =
     (if n_type n = Some CUSTOM_NOTE_NODE \<or> n_type n = Some CUSTOM_ITERATION_START_NODE then s
      else if n_type n = Some CUSTOM_NOTE_NODE \<or> n_type n = Some CUSTOM_LOOP_START_NODE then s
      else handleNodeSelect V (n_id n) True False
        (on_canvas (\<lambda>c. c\<lparr>es_contextMenuTarget := Some (NodeTarget (n_id n))\<rparr>) s))"

section \<open>Starting a connection\<close>

definition handleNodeConnectStart ::
  "string option \<Rightarrow> handle_type option \<Rightarrow> string option \<Rightarrow> node_editor \<Rightarrow> node_editor outcome" where
  "handleNodeConnectStart nodeId handleType handleId s =
     (if getNodesReadOnly (ne_canvas s) then Ok s
      else case (nodeId, handleType) of
        (Some i, Some h) \<Rightarrow>
          if i = [] then Ok s
          else (case find (\<lambda>n. n_id n = i) (es_nodes (ne_canvas s)) of
              None \<Rightarrow> Threw TypeError s
            | Some n \<Rightarrow>
                if n_type n = Some CUSTOM_NOTE_NODE then Ok s
                else if d_type (n_data n) \<in> {VariableAggregator, VariableAssigner} \<and> h = TargetHandle then Ok s
                else Ok (s\<lparr>ne_connectingNodePayload := Some \<lparr>cp_nodeId = i, cp_nodeType = d_type (n_data n),
                       cp_handleType = h, cp_handleId = handleId\<rparr>\<rparr>))
      | _ \<Rightarrow> Ok s)"

section \<open>Disconnecting\<close>

text \<open>Removing the connected edges, as deleting and disconnecting a node both do.\<close>

definition withoutEdges :: "edge list \<Rightarrow> edge list \<Rightarrow> edge list" where
  "withoutEdges gone es = filter (\<lambda>e. \<not> (\<exists>c \<in> set gone. e_id c = e_id e)) es"

definition handleNodeDisconnect :: "node_env \<Rightarrow> string \<Rightarrow> node_editor \<Rightarrow> node_editor outcome" where
  "handleNodeDisconnect V nodeId s =
     (if getNodesReadOnly (ne_canvas s) then Ok s
      else case find (\<lambda>n. n_id n = nodeId) (es_nodes (ne_canvas s)) of
        None \<Rightarrow> Threw TypeError s
      | Some currentNode \<Rightarrow>
          (let connectedEdges = getConnectedEdges V (n_id currentNode) (es_edges (ne_canvas s)) in
           Ok (on_canvas (\<lambda>c. emit [SyncDraft, SaveHistory ''EdgeDelete'' None]
             (c\<lparr>es_nodes := applyConnectedHandleNodeData (es_nodes c) (map (Pair RemoveEdge) connectedEdges),
                es_edges := withoutEdges connectedEdges (es_edges c)\<rparr>)) s)))"

section \<open>Deleting\<close>

definition isUndeletable :: "node_env \<Rightarrow> node \<Rightarrow> bool" where
  "isUndeletable V n =
     (case nv_meta V (getNodeCatalogType (n_data n)) of None \<Rightarrow> False | Some m \<Rightarrow> mt_isUndeletable m)"

definition isContainerKind :: "node \<Rightarrow> bool" where
  "isContainerKind n = (d_type (n_data n) = Iteration \<or> d_type (n_data n) = Loop)"

definition containerChildren :: "node list \<Rightarrow> node \<Rightarrow> node list" where
  "containerChildren ns n = (if isContainerKind n then filter (\<lambda>c. n_parentId c = Some (n_id n)) ns else [])"

text \<open>The variables of the pipeline that belong to a deleted data source go with it.\<close>

definition dropRagVariables :: "node \<Rightarrow> node_editor \<Rightarrow> node_editor" where
  "dropRagVariables n s =
     (if d_type (n_data n) = DataSource
      then s\<lparr>ne_ragPipelineVariables :=
        map_option (filter (\<lambda>v. rv_belong_to_node_id v \<noteq> n_id n)) (ne_ragPipelineVariables s)\<rparr>
      else s)"

definition dropChild :: "string \<Rightarrow> node_data \<Rightarrow> node_data" where
  "dropChild nodeId d = d\<lparr>d_children := map_option (filter (\<lambda>c. fst c \<noteq> nodeId)) (d_children d)\<rparr>"

definition removeNode :: "node_env \<Rightarrow> string \<Rightarrow> node \<Rightarrow> edit_store \<Rightarrow> edit_store" where
  "removeNode V nodeId currentNode c =
     (let connectedEdges = getConnectedEdges V nodeId (es_edges c);
          newNodes = map (\<lambda>n. if Some (n_id n) = n_parentId currentNode then with_data (dropChild nodeId) n else n)
            (applyConnectedHandleNodeData (es_nodes c) (map (Pair RemoveEdge) connectedEdges))
      in emit [SyncDraft,
               SaveHistory (if n_type currentNode = Some CUSTOM_NOTE_NODE then ''NoteDelete'' else ''NodeDelete'')
                 (Some (n_id currentNode))]
           (c\<lparr>es_nodes := splice newNodes (findIndex (\<lambda>n. n_id n = nodeId) (es_nodes c)) 1 [],
              es_edges := withoutEdges connectedEdges (es_edges c)\<rparr>))"

fun nodeDelete :: "node_env \<Rightarrow> nat \<Rightarrow> string \<Rightarrow> node_editor \<Rightarrow> node_editor outcome"
  and nodeDeleteEach :: "node_env \<Rightarrow> nat \<Rightarrow> string list \<Rightarrow> node_editor \<Rightarrow> node_editor outcome" where
  "nodeDelete V 0 nodeId s = Threw RangeError s"
| "nodeDelete V (Suc k) nodeId s =
     (if getNodesReadOnly (ne_canvas s) then Ok s
      else case find (\<lambda>n. n_id n = nodeId) (es_nodes (ne_canvas s)) of
        None \<Rightarrow> Ok s
      | Some currentNode \<Rightarrow>
          if isUndeletable V currentNode then Ok s
          else (let s1 = s\<lparr>ne_clearedVars := ne_clearedVars s @ [nodeId]\<rparr>;
                    children = containerChildren (es_nodes (ne_canvas s)) currentNode in
            if children \<noteq> [] \<and> d_isBundled (n_data currentNode)
            then andThen (nodeDeleteEach V k (map n_id children) s1) (\<lambda>t. nodeDelete V k nodeId t)
            else if length children = 1
            then andThen (nodeDelete V k (n_id (hd children)) s1) (\<lambda>t. nodeDelete V k nodeId t)
            else if children \<noteq> [] \<and> ne_showConfirm s1 = None
            then Ok (s1\<lparr>ne_showConfirm := Some \<lparr>cd_kind = d_type (n_data currentNode), cd_nodeId = nodeId,
                   cd_children = map n_id children\<rparr>\<rparr>)
            else Ok (on_canvas (removeNode V nodeId currentNode) (dropRagVariables currentNode s1))))"
| "nodeDeleteEach V k [] s = Ok s"
| "nodeDeleteEach V k (i # is) s = andThen (nodeDelete V k i s) (\<lambda>t. nodeDeleteEach V k is t)"

definition handleNodeDelete :: "node_env \<Rightarrow> string \<Rightarrow> node_editor \<Rightarrow> node_editor outcome" where
  "handleNodeDelete V = nodeDelete V (nv_stack V)"

text \<open>The button of the dialog, and closing it without an answer.\<close>

definition onConfirm :: "node_env \<Rightarrow> node_editor \<Rightarrow> node_editor outcome" where
  "onConfirm V s =
     (case ne_showConfirm s of
        None \<Rightarrow> Ok s
      | Some d \<Rightarrow>
          andThen (nodeDeleteEach V (nv_stack V) (cd_children d) s) (\<lambda>t.
          andThen (handleNodeDelete V (cd_nodeId d) t) (\<lambda>u.
            Ok ((on_canvas (emit [SyncDraft]) u)\<lparr>ne_showConfirm := None\<rparr>))))"

definition handleNodesDelete :: "node_env \<Rightarrow> node_editor \<Rightarrow> node_editor outcome" where
  "handleNodesDelete V s =
     (if getNodesReadOnly (ne_canvas s) then Ok s
      else (let bundledNodes = filter (\<lambda>n. d_isBundled (n_data n)) (es_nodes (ne_canvas s)) in
        if bundledNodes \<noteq> [] then nodeDeleteEach V (nv_stack V) (map n_id bundledNodes) s
        else if \<exists>e \<in> set (es_edges (ne_canvas s)). e_selected e then Ok s
        else case find (\<lambda>n. d_selected (n_data n)) (es_nodes (ne_canvas s)) of
          None \<Rightarrow> Ok s
        | Some selectedNode \<Rightarrow> handleNodeDelete V (n_id selectedNode) s))"

section \<open>Copying\<close>

definition isNodeCopyable :: "node_env \<Rightarrow> node \<Rightarrow> bool" where
  "isNodeCopyable V n =
     (if n_type n = Some CUSTOM_ITERATION_START_NODE \<or> n_type n = Some CUSTOM_LOOP_START_NODE then False
      else if d_type (n_data n) \<in> {Start, LoopEnd, KnowledgeBase, DataSourceEmpty} then False
      else if n_type n = Some CUSTOM_NOTE_NODE then True
      else case nv_meta V (getNodeCatalogType (n_data n)) of
          None \<Rightarrow> False
        | Some m \<Rightarrow> \<not> mt_isSingleton m)"

definition nodesToCopy :: "node_env \<Rightarrow> string option \<Rightarrow> node list \<Rightarrow> node list" where
  "nodesToCopy V nodeId ns =
     (if nonempty_opt nodeId
      then (case find (\<lambda>n. Some (n_id n) = nodeId \<and> isNodeCopyable V n) ns of None \<Rightarrow> [] | Some n \<Rightarrow> [n])
      else (let bundledNodes = filter (\<lambda>n. d_isBundled (n_data n) \<and> isNodeCopyable V n
                  \<and> (n_type n = Some CUSTOM_NOTE_NODE
                     \<or> d_isInIteration (n_data n) \<noteq> Some True \<and> d_isInLoop (n_data n) \<noteq> Some True)) ns in
        if bundledNodes \<noteq> [] then bundledNodes
        else filter (\<lambda>n. d_selected (n_data n) \<and> isNodeCopyable V n) ns))"

text \<open>
  The walk over the children of copied containers. The state is the map of copied nodes, in insertion
  order, and the queue; a child enters each of them at most once.
\<close>

definition copyChild ::
  "string \<Rightarrow> node \<Rightarrow> (string \<times> node) list \<times> string list \<Rightarrow> (string \<times> node) list \<times> string list" where
  "copyChild p n cq =
     (if n_parentId n \<noteq> Some p \<or> map_of (fst cq) (n_id n) \<noteq> None then cq
      else (fst cq @ [(n_id n, n)], if isContainerKind n then snd cq @ [n_id n] else snd cq))"

definition copyChildren ::
  "node list \<Rightarrow> string \<Rightarrow> (string \<times> node) list \<times> string list \<Rightarrow> (string \<times> node) list \<times> string list" where
  "copyChildren ns p cq = fold (copyChild p) ns cq"

definition uncopied :: "node list \<Rightarrow> (string \<times> node) list \<Rightarrow> string set" where
  "uncopied ns copied = node_ids ns - fst ` set copied"

lemma fst_set_None: "map_of m k = None \<longleftrightarrow> k \<notin> fst ` set m"
  by (simp add: map_of_eq_None_iff)

lemma copyChildren_measure:
  assumes "copyChildren ms p (c, q) = (c', q')" and "set ms \<subseteq> set ns"
  shows "length q' + card (uncopied ns c') \<le> length q + card (uncopied ns c)"
  using assms unfolding copyChildren_def
proof (induction ms arbitrary: c q)
  case (Cons n ms)
  obtain d r where d: "copyChild p n (c, q) = (d, r)" by (cases "copyChild p n (c, q)")
  have "length r + card (uncopied ns d) \<le> length q + card (uncopied ns c)"
  proof (cases "n_parentId n \<noteq> Some p \<or> map_of c (n_id n) \<noteq> None")
    case False
    then have "n_id n \<in> uncopied ns c" using Cons.prems(2) by (simp add: uncopied_def node_ids_def fst_set_None)
    moreover have "uncopied ns d = uncopied ns c - {n_id n}" using d False by (auto simp: copyChild_def uncopied_def)
    moreover have "finite (uncopied ns c)" by (simp add: uncopied_def node_ids_def)
    ultimately have "card (uncopied ns c) = Suc (card (uncopied ns d))" by (metis card_Suc_Diff1)
    then show ?thesis using d False by (auto simp: copyChild_def split: if_splits)
  qed (use d in \<open>auto simp: copyChild_def\<close>)
  moreover have "length q' + card (uncopied ns c') \<le> length r + card (uncopied ns d)"
    using Cons.IH [of d r] Cons.prems d by simp
  ultimately show ?case by simp
qed simp

function copyLoop :: "node list \<Rightarrow> (string \<times> node) list \<Rightarrow> string list \<Rightarrow> (string \<times> node) list" where
  "copyLoop ns copied [] = copied"
| "copyLoop ns copied (p # queue) =
     (case copyChildren ns p (copied, queue) of (c, q) \<Rightarrow> copyLoop ns c q)"
  by pat_completeness auto
termination
proof (relation "measure (\<lambda>(ns, c, q). length q + card (uncopied ns c))", goal_cases)
  case (2 ns copied p queue c q)
  from 2 have eq: "copyChildren ns p (copied, queue) = (c, q)" by (rule sym)
  show ?case using copyChildren_measure [OF eq subset_refl] eq by simp
qed simp

definition copied_of :: "node list \<Rightarrow> node list \<Rightarrow> (string \<times> node) list" where
  "copied_of ns chosen =
     copyLoop ns (foldl (\<lambda>m n. obj_set (n_id n) n m) [] chosen) (map n_id (filter isContainerKind chosen))"

text \<open>The same data goes to the store and to the system clipboard, whose failure is ignored.\<close>

definition handleNodesCopy :: "node_env \<Rightarrow> string option \<Rightarrow> node_editor \<Rightarrow> node_editor" where
  "handleNodesCopy V nodeId s =
     (if getNodesReadOnly (ne_canvas s) then s
      else (let chosen = nodesToCopy V nodeId (es_nodes (ne_canvas s)) in
        if chosen = [] then s
        else (let copiedNodes = map snd (copied_of (es_nodes (ne_canvas s)) chosen);
                  copiedNodeIds = map n_id copiedNodes in
          s\<lparr>ne_clipboardData := Some (copiedNodes,
              filter (\<lambda>e. e_source e \<in> set copiedNodeIds \<and> e_target e \<in> set copiedNodeIds)
                (es_edges (ne_canvas s)))\<rparr>)))"

section \<open>The hook as a machine\<close>

datatype node_op =
    SelectNode string bool bool
  | ClickNode bool bool node
  | CancelSelected
  | NodeContextMenu node
  | ConnectStart "string option" "handle_type option" "string option"
  | Disconnect string
  | DeleteNode string
  | DeleteNodes
  | ConfirmDelete
  | DismissDialog
  | CopyNodes "string option"
  | EdgeOp edit_op

definition map_outcome :: "('a \<Rightarrow> 'b) \<Rightarrow> 'a outcome \<Rightarrow> 'b outcome" where
  "map_outcome f m = (case m of Ok a \<Rightarrow> Ok (f a) | Threw e a \<Rightarrow> Threw e (f a))"

fun useNodesInteractions :: "node_env \<Rightarrow> node_editor \<Rightarrow> node_op \<Rightarrow> node_editor outcome" where
  "useNodesInteractions V s (SelectNode i c b) = Ok (handleNodeSelect V i c b s)"
| "useNodesInteractions V s (ClickNode b l n) = Ok (handleNodeClick V b l n s)"
| "useNodesInteractions V s CancelSelected = Ok (handleNodesCancelSelected s)"
| "useNodesInteractions V s (NodeContextMenu n) = Ok (handleNodeContextMenu V n s)"
| "useNodesInteractions V s (ConnectStart i h hid) = handleNodeConnectStart i h hid s"
| "useNodesInteractions V s (Disconnect i) = handleNodeDisconnect V i s"
| "useNodesInteractions V s (DeleteNode i) = handleNodeDelete V i s"
| "useNodesInteractions V s DeleteNodes = handleNodesDelete V s"
| "useNodesInteractions V s ConfirmDelete = onConfirm V s"
| "useNodesInteractions V s DismissDialog = Ok (s\<lparr>ne_showConfirm := None\<rparr>)"
| "useNodesInteractions V s (CopyNodes i) = Ok (handleNodesCopy V i s)"
| "useNodesInteractions V s (EdgeOp x) =
     map_outcome (\<lambda>c. s\<lparr>ne_canvas := c\<rparr>) (useEdgesInteractions (ne_canvas s) x)"

end
