(* ===== verification/Node_Laws.thy ===== *)
theory Node_Laws
  imports Node_Editing Edge_Laws
begin

text \<open>
  Laws of node editing. Deleting and disconnecting keep the handle caches in agreement with the edges and
  leave no edge without its nodes; a deletion takes exactly the node, or the container with its children,
  and the edges at them; deleting a group takes what its deletable nodes take, one after the other.
\<close>

section \<open>What is left when nodes are removed\<close>

text \<open>What a deletion keeps of the nodes that it leaves: all but the caches and the list of children.\<close>

definition node_kept :: "node \<Rightarrow> _ \<times> bool" where
  "node_kept n = (node_shape n, d_isBundled (n_data n))"

definition removed :: "string set \<Rightarrow> edit_store \<Rightarrow> edit_store \<Rightarrow> bool" where
  "removed D c c' \<longleftrightarrow>
     map node_kept (es_nodes c') = map node_kept (filter (\<lambda>n. n_id n \<notin> D) (es_nodes c))
   \<and> es_edges c' = filter (\<lambda>e. e_source e \<notin> D \<and> e_target e \<notin> D) (es_edges c)
   \<and> getNodesReadOnly c' = getNodesReadOnly c"

lemma kept_id: "fst (fst (node_kept n)) = n_id n"
  by (simp add: node_kept_def node_shape_def)

lemma kept_filter:
  "map node_kept (filter (\<lambda>n. n_id n \<notin> D) ns) = filter (\<lambda>x. fst (fst x) \<notin> D) (map node_kept ns)"
  by (simp add: filter_map comp_def kept_id)

lemma removed_empty: "removed {} c c"
  by (simp add: removed_def)

lemma removed_comp:
  assumes "removed D a b" and "removed E b c"
  shows "removed (D \<union> E) a c"
  using assms unfolding removed_def kept_filter by (auto intro!: filter_cong)

lemma removed_ids:
  assumes "removed D c c'"
  shows "map n_id (es_nodes c') = filter (\<lambda>i. i \<notin> D) (map n_id (es_nodes c))"
proof -
  have "map (fst \<circ> fst) (map node_kept (es_nodes c')) = map (fst \<circ> fst) (map node_kept (filter (\<lambda>n. n_id n \<notin> D) (es_nodes c)))"
    using assms by (simp only: removed_def)
  then show ?thesis by (simp add: kept_id comp_def filter_map)
qed

text \<open>A node that is left is a node from before, and the other way round.\<close>

lemma removed_node:
  assumes "removed D c c'" and "n' \<in> set (es_nodes c')"
  shows "\<exists>n \<in> set (es_nodes c). n_id n \<notin> D \<and> node_kept n' = node_kept n"
proof -
  have "node_kept n' \<in> set (map node_kept (es_nodes c'))" using assms(2) by simp
  then show ?thesis using assms(1) unfolding removed_def by auto
qed

lemma removed_node_back:
  assumes "removed D c c'" and "n \<in> set (es_nodes c)" and "n_id n \<notin> D"
  shows "\<exists>n' \<in> set (es_nodes c'). node_kept n' = node_kept n"
proof -
  have "node_kept n \<in> set (map node_kept (filter (\<lambda>n. n_id n \<notin> D) (es_nodes c)))" using assms(2,3) by auto
  then have "node_kept n \<in> set (map node_kept (es_nodes c'))" using assms(1) by (simp only: removed_def)
  then show ?thesis by auto
qed

lemma remove_first_filter:
  "distinct (map g xs) \<Longrightarrow> remove_first (\<lambda>x. g x = k) xs = filter (\<lambda>x. g x \<noteq> k) xs"
  by (induction xs) (auto simp: image_iff intro!: filter_True [symmetric])

lemma findIndex_keys:
  "map g xs = map g ys \<Longrightarrow> findIndex (\<lambda>x. g x = k) xs = findIndex (\<lambda>x. g x = k) ys"
proof (induction xs arbitrary: ys)
  case (Cons x xs)
  then show ?case by (cases ys) (auto simp: Let_def)
qed simp

lemma withoutEdges_filter:
  assumes "distinct (map e_id es)"
  shows "withoutEdges (filter P es) es = filter (\<lambda>e. \<not> P e) es"
proof -
  have "inj_on e_id (set es)" using assms by (simp add: distinct_map)
  then show ?thesis unfolding withoutEdges_def by (intro filter_cong) (auto dest: inj_onD)
qed

lemma kept_connectedNode [simp]: "node_kept (connectedNode ns cs n) = node_kept n"
  by (simp add: connectedNode_def setHandleIds_def node_kept_def node_shape_with_data split: option.split)

lemma kept_dropChild [simp]: "node_kept (with_data (dropChild i) n) = node_kept n"
  by (simp add: dropChild_def node_kept_def node_shape_with_data)

lemma readOnly_frame [simp]:
  "getNodesReadOnly (emit fx c) = getNodesReadOnly c"
  "getNodesReadOnly (c\<lparr>es_nodes := ns, es_edges := es\<rparr>) = getNodesReadOnly c"
  "getNodesReadOnly (c\<lparr>es_contextMenuTarget := m\<rparr>) = getNodesReadOnly c"
  by (simp_all add: getNodesReadOnly_def emit_def)

section \<open>Removing one node\<close>

definition touches :: "string \<Rightarrow> edge \<Rightarrow> bool" where
  "touches i e = (e_source e = i \<or> e_target e = i)"

lemma connected_filter: "node_env_ok V \<Longrightarrow> getConnectedEdges V i es = filter (touches i) es"
  by (simp add: node_env_ok_def touches_def [abs_def])

definition left_node :: "string \<Rightarrow> node \<Rightarrow> edit_store \<Rightarrow> node \<Rightarrow> node" where
  "left_node i cur c n =
     (let m = connectedNode (es_nodes c) (map (Pair RemoveEdge) (filter (touches i) (es_edges c))) n in
      if Some (n_id m) = n_parentId cur then with_data (dropChild i) m else m)"

lemma left_node_simps [simp]:
  "n_id (left_node i cur c n) = n_id n" "node_kept (left_node i cur c n) = node_kept n"
  "handle_ids_of (left_node i cur c n) =
     handle_ids_of (connectedNode (es_nodes c) (map (Pair RemoveEdge) (filter (touches i) (es_edges c))) n)"
  by (simp_all add: left_node_def handle_ids_of_def dropChild_def Let_def)

lemma removeNode_nodes:
  assumes V: "node_env_ok V" and "distinct (map n_id (es_nodes c))" and "\<exists>n \<in> set (es_nodes c). n_id n = i"
  shows "es_nodes (removeNode V i cur c) = map (left_node i cur c) (filter (\<lambda>n. n_id n \<noteq> i) (es_nodes c))"
proof -
  let ?ns = "map (left_node i cur c) (es_nodes c)"
  have ids: "map n_id ?ns = map n_id (es_nodes c)" by (simp add: comp_def)
  have "es_nodes (removeNode V i cur c) = splice ?ns (findIndex (\<lambda>n. n_id n = i) ?ns) 1 []"
    using findIndex_keys [OF ids]
    by (simp add: removeNode_def Let_def connected_filter [OF V] applyConnected_map left_node_def [abs_def] comp_def)
  also have "\<dots> = remove_first (\<lambda>n. n_id n = i) ?ns"
    using assms(3) by (intro splice_findIndex_hit) auto
  also have "\<dots> = filter (\<lambda>n. n_id n \<noteq> i) ?ns"
    using assms(2) ids by (intro remove_first_filter) (simp only:)
  finally show ?thesis by (simp add: filter_map comp_def)
qed

lemma removeNode_edges:
  assumes "node_env_ok V" and "distinct (map e_id (es_edges c))"
  shows "es_edges (removeNode V i cur c) = filter (\<lambda>e. \<not> touches i e) (es_edges c)"
  using withoutEdges_filter [OF assms(2)] by (simp add: removeNode_def Let_def connected_filter [OF assms(1)])

lemma removeNode_removed:
  assumes "node_env_ok V" and "distinct (map n_id (es_nodes c))" and "distinct (map e_id (es_edges c))"
    and "\<exists>n \<in> set (es_nodes c). n_id n = i"
  shows "removed {i} c (removeNode V i cur c)"
proof -
  have "getNodesReadOnly (removeNode V i cur c) = getNodesReadOnly c" by (simp add: removeNode_def Let_def)
  then show ?thesis
    using removeNode_nodes [OF assms(1,2,4)] removeNode_edges [OF assms(1,3)]
    by (auto simp: removed_def comp_def touches_def intro!: filter_cong)
qed

section \<open>The invariant of node editing\<close>

text \<open>Every edge joins nodes of the canvas.\<close>

definition anchored :: "edit_store \<Rightarrow> bool" where
  "anchored c \<longleftrightarrow> (\<forall>e \<in> set (es_edges c). e_source e \<in> node_ids (es_nodes c) \<and> e_target e \<in> node_ids (es_nodes c))"

text \<open>A canvas is a graph when its nodes have ids of their own and no edge dangles. The invariant of the
  editor asks in addition for ids of their own for the edges, for handles at both ends, and for caches that
  agree with the edges.\<close>

definition graph_ok :: "edit_store \<Rightarrow> bool" where
  "graph_ok c \<longleftrightarrow> distinct (map n_id (es_nodes c)) \<and> anchored c"

definition node_inv :: "edit_store \<Rightarrow> bool" where
  "node_inv c \<longleftrightarrow> edit_inv c \<and> anchored c \<and> distinct (map e_id (es_edges c))"

lemma node_ids_map: "map n_id ns = map n_id ms \<Longrightarrow> node_ids ns = node_ids ms"
  unfolding node_ids_def by (metis list.set_map)

lemma removed_anchored:
  assumes "removed D c c'" and "anchored c"
  shows "anchored c'"
proof -
  have "node_ids (es_nodes c') = {i \<in> node_ids (es_nodes c). i \<notin> D}"
    using arg_cong [OF removed_ids [OF assms(1)], of set] by (auto simp: node_ids_def)
  then show ?thesis using assms unfolding removed_def anchored_def by auto
qed

text \<open>Dropping the connected edges and updating the caches.\<close>

lemma edges_dropped_match:
  assumes inv: "edit_inv c"
  shows "handles_match
      (applyConnectedHandleNodeData (es_nodes c) (map (Pair RemoveEdge) (filter P (es_edges c))))
      (filter (\<lambda>e. \<not> P e) (es_edges c))"
proof -
  have "handles_match (applyConnectedHandleNodeData (es_nodes c)
      (map (Pair RemoveEdge) (filter P (es_edges c)) @ map (Pair AddEdge) []))
      (filter (\<lambda>e. \<not> P e) (es_edges c))"
    by (rule changes_keep_match [where es = "es_edges c" and keep = "filter (\<lambda>e. \<not> P e) (es_edges c)"])
      (use inv ends_filter_split [of "es_edges c" P] in \<open>auto simp: edit_inv_def\<close>)
  then show ?thesis by simp
qed

lemma withoutEdges_subset: "set (withoutEdges gone es) \<subseteq> set es - set gone"
  by (auto simp: withoutEdges_def)

lemma removeNode_graph:
  assumes V: "node_env_ok V" and g: "graph_ok c" and ex: "\<exists>n \<in> set (es_nodes c). n_id n = i"
  shows "graph_ok (removeNode V i cur c)"
proof -
  have d: "distinct (map n_id (es_nodes c))" and a: "anchored c" using g by (simp_all add: graph_ok_def)
  have ids: "map n_id (es_nodes (removeNode V i cur c)) = filter (\<lambda>j. j \<noteq> i) (map n_id (es_nodes c))"
    by (simp add: removeNode_nodes [OF V d ex] comp_def filter_map)
  have "node_ids (es_nodes (removeNode V i cur c)) = {j \<in> node_ids (es_nodes c). j \<noteq> i}"
    using arg_cong [OF ids, of set] by (auto simp: node_ids_def)
  moreover have "e \<in> set (es_edges c) \<and> \<not> touches i e" if "e \<in> set (es_edges (removeNode V i cur c))" for e
    using that withoutEdges_subset [of "filter (touches i) (es_edges c)" "es_edges c"]
    by (auto simp: removeNode_def Let_def connected_filter [OF V])
  ultimately have "anchored (removeNode V i cur c)" using a by (auto simp: anchored_def touches_def)
  then show ?thesis using d by (simp add: graph_ok_def ids)
qed

lemma removeNode_inv:
  assumes V: "node_env_ok V" and inv: "node_inv c" and ex: "\<exists>n \<in> set (es_nodes c). n_id n = i"
  shows "node_inv (removeNode V i cur c)"
proof -
  have dn: "distinct (map n_id (es_nodes c))" and e: "edit_inv c" and a: "anchored c"
    and d: "distinct (map e_id (es_edges c))"
    using inv by (simp_all add: node_inv_def edit_inv_def)
  note rem = removeNode_removed [OF V dn d ex, of cur]
  note ns = removeNode_nodes [OF V dn ex, of cur] and es = removeNode_edges [OF V d, of i cur]
  have "handles_match (es_nodes (removeNode V i cur c)) (es_edges (removeNode V i cur c))"
    using edges_dropped_match [OF e, of "touches i"]
    by (auto simp: ns es handles_match_def applyConnected_map)
  moreover have "distinct (map n_id (es_nodes (removeNode V i cur c)))"
    using removed_ids [OF rem] dn by simp
  moreover have "\<forall>e \<in> set (es_edges (removeNode V i cur c)). has_handles e"
    using e by (auto simp: es edit_inv_def)
  ultimately show ?thesis
    using removed_anchored [OF rem a] d by (simp add: node_inv_def edit_inv_def es distinct_map_filter)
qed

section \<open>Deletions as a whole\<close>

lemma andThen_keeps:
  "Q (stateOf m) \<Longrightarrow> (\<And>t. m = Ok t \<Longrightarrow> Q t \<Longrightarrow> Q (stateOf (f t))) \<Longrightarrow> Q (stateOf (andThen m f))"
  by (cases m) auto

lemma dropRagVariables_frame [simp]:
  "ne_canvas (dropRagVariables n s) = ne_canvas s" "ne_showConfirm (dropRagVariables n s) = ne_showConfirm s"
  by (simp_all add: dropRagVariables_def)

lemma nodeDelete_keeps:
  assumes "\<And>c i cur. P c \<Longrightarrow> \<exists>n \<in> set (es_nodes c). n_id n = i \<Longrightarrow> P (removeNode V i cur c)"
  shows "P (ne_canvas s) \<Longrightarrow> P (ne_canvas (stateOf (nodeDelete V k i s)))"
    and "P (ne_canvas s) \<Longrightarrow> P (ne_canvas (stateOf (nodeDeleteEach V k is s)))"
proof -
  let ?Q = "\<lambda>s. P (ne_canvas s)"
  have each: "(\<And>i s. ?Q s \<Longrightarrow> ?Q (stateOf (nodeDelete V k i s))) \<Longrightarrow> ?Q s \<Longrightarrow> ?Q (stateOf (nodeDeleteEach V k is s))"
    for k "is" s
    by (induction "is" arbitrary: s) (auto intro!: andThen_keeps [where Q = ?Q])
  have one: "?Q s \<Longrightarrow> ?Q (stateOf (nodeDelete V k i s))" for s k i
  proof (induction k arbitrary: i s)
    case (Suc k)
    have rm: "?Q (on_canvas (removeNode V i n) (dropRagVariables n s'))"
      if "find (\<lambda>n. n_id n = i) (es_nodes (ne_canvas s)) = Some n" "ne_canvas s' = ne_canvas s" for n s'
      using assms [of "ne_canvas s" i n] Suc.prems that find_SomeD [OF that(1)] by (auto simp: on_canvas_def)
    show ?case
      using Suc.prems rm
      by (auto simp: Let_def split: option.split intro!: andThen_keeps [where Q = ?Q] each [OF Suc.IH] Suc.IH)
  qed simp
  show "?Q s \<Longrightarrow> ?Q (stateOf (nodeDelete V k i s))" by (rule one)
  show "?Q s \<Longrightarrow> ?Q (stateOf (nodeDeleteEach V k is s))" by (rule each [OF one])
qed

text \<open>The canvas is open for changes, and nodes and edges have ids of their own.\<close>

definition canvas_open :: "edit_store \<Rightarrow> bool" where
  "canvas_open c \<longleftrightarrow> distinct (map n_id (es_nodes c)) \<and> distinct (map e_id (es_edges c)) \<and> \<not> getNodesReadOnly c"

lemma removed_open: "removed D c c' \<Longrightarrow> canvas_open c \<Longrightarrow> canvas_open c'"
  using removed_ids [of D c c'] by (auto simp: canvas_open_def removed_def distinct_map_filter)

definition gone :: "string set \<Rightarrow> node_editor \<Rightarrow> node_editor outcome \<Rightarrow> bool" where
  "gone D s r \<longleftrightarrow> (\<exists>t. r = Ok t \<and> removed D (ne_canvas s) (ne_canvas t) \<and> ne_showConfirm t = ne_showConfirm s)"

lemma gone_andThen:
  assumes "gone D s m" and "\<And>t. m = Ok t \<Longrightarrow> removed D (ne_canvas s) (ne_canvas t) \<Longrightarrow> gone E t (f t)"
  shows "gone (D \<union> E) s (andThen m f)"
proof -
  obtain t where t: "m = Ok t" "removed D (ne_canvas s) (ne_canvas t)" "ne_showConfirm t = ne_showConfirm s"
    using assms(1) unfolding gone_def by blast
  obtain u where "f t = Ok u" "removed E (ne_canvas t) (ne_canvas u)" "ne_showConfirm u = ne_showConfirm t"
    using assms(2) [OF t(1,2)] unfolding gone_def by blast
  with t show ?thesis unfolding gone_def by (auto intro: removed_comp)
qed

lemma gone_clear: "gone D (s\<lparr>ne_clearedVars := v\<rparr>) r = gone D s r"
  by (simp add: gone_def)

text \<open>A node without children inside goes alone; an absent one is no error, one that may not be deleted stays.\<close>

lemma delete_bare:
  assumes V: "node_env_ok V" and o: "canvas_open (ne_canvas s)" and n: "n \<in> set (es_nodes (ne_canvas s))"
    and "\<not> isUndeletable V n" and "containerChildren (es_nodes (ne_canvas s)) n = []"
  shows "gone {n_id n} s (nodeDelete V (Suc k) (n_id n) s)"
proof -
  have d: "distinct (map n_id (es_nodes (ne_canvas s)))" "distinct (map e_id (es_edges (ne_canvas s)))"
    "\<not> getNodesReadOnly (ne_canvas s)" using o by (simp_all add: canvas_open_def)
  have "removed {n_id n} (ne_canvas s) (removeNode V (n_id n) n (ne_canvas s))"
    using n by (intro removeNode_removed [OF V d(1,2)]) auto
  then show ?thesis
    using d(3) assms(4,5) by (simp add: find_by_id [OF d(1) n] Let_def gone_def on_canvas_def)
qed

lemma delete_absent: "i \<notin> node_ids (es_nodes (ne_canvas s)) \<Longrightarrow> gone {} s (nodeDelete V (Suc k) i s)"
proof -
  assume "i \<notin> node_ids (es_nodes (ne_canvas s))"
  then have "find (\<lambda>n. n_id n = i) (es_nodes (ne_canvas s)) = None" by (auto simp: find_None_iff node_ids_def)
  then show ?thesis by (simp add: gone_def removed_empty)
qed

lemma delete_undeletable:
  assumes o: "canvas_open (ne_canvas s)" and n: "n \<in> set (es_nodes (ne_canvas s))" and "isUndeletable V n"
  shows "gone {} s (nodeDelete V (Suc k) (n_id n) s)"
proof -
  have "distinct (map n_id (es_nodes (ne_canvas s)))" using o by (simp add: canvas_open_def)
  then show ?thesis using assms(3) by (simp add: find_by_id [OF _ n] gone_def removed_empty)
qed

declare nodeDelete.simps [simp del]

section \<open>Containers go with their children\<close>

definition leaf :: "node_env \<Rightarrow> node \<Rightarrow> bool" where
  "leaf V n \<longleftrightarrow> \<not> isUndeletable V n \<and> \<not> isContainerKind n"

text \<open>A deletable node that holds only deletable nodes that hold none.\<close>

definition flat_unit :: "node_env \<Rightarrow> edit_store \<Rightarrow> node \<Rightarrow> bool" where
  "flat_unit V c n \<longleftrightarrow> \<not> isUndeletable V n \<and> (\<forall>m \<in> set (containerChildren (es_nodes c) n). leaf V m)"

definition takes :: "edit_store \<Rightarrow> node \<Rightarrow> string set" where
  "takes c n = insert (n_id n) (n_id ` set (containerChildren (es_nodes c) n))"

lemma kept_same:
  assumes "node_kept n' = node_kept n"
  shows "n_id n' = n_id n" and "n_parentId n' = n_parentId n" and "isContainerKind n' = isContainerKind n"
    and "isUndeletable V n' = isUndeletable V n" and "leaf V n' = leaf V n"
    and "d_isBundled (n_data n') = d_isBundled (n_data n)"
proof -
  show *: "n_id n' = n_id n" "n_parentId n' = n_parentId n" "isContainerKind n' = isContainerKind n"
    "d_isBundled (n_data n') = d_isBundled (n_data n)"
    using assms by (auto simp: node_kept_def node_shape_def isContainerKind_def)
  show u: "isUndeletable V n' = isUndeletable V n"
    using assms by (auto simp: node_kept_def node_shape_def isUndeletable_def getNodeCatalogType_def isAgentV2NodeData_def)
  show "leaf V n' = leaf V n" by (simp add: leaf_def u *)
qed

lemma children_iff:
  "m \<in> set (containerChildren ns n) \<longleftrightarrow> isContainerKind n \<and> m \<in> set ns \<and> n_parentId m = Some (n_id n)"
  by (auto simp: containerChildren_def)

lemma removed_child:
  assumes r: "removed D c c'" and k: "node_kept n' = node_kept n" and m': "m' \<in> set (containerChildren (es_nodes c') n')"
  shows "\<exists>m \<in> set (containerChildren (es_nodes c) n). n_id m \<notin> D \<and> node_kept m' = node_kept m"
proof -
  have *: "isContainerKind n" "m' \<in> set (es_nodes c')" "n_parentId m' = Some (n_id n)"
    using m' kept_same [OF k] by (auto simp: children_iff)
  obtain m where m: "m \<in> set (es_nodes c)" "n_id m \<notin> D" "node_kept m' = node_kept m"
    using removed_node [OF r *(2)] by blast
  then show ?thesis using * kept_same(2) [OF m(3)] by (auto simp: children_iff intro!: bexI [of _ m])
qed

lemma delete_leaves:
  assumes V: "node_env_ok V"
  shows "canvas_open (ne_canvas s) \<Longrightarrow> distinct is \<Longrightarrow>
    \<forall>i \<in> set is. \<exists>n \<in> set (es_nodes (ne_canvas s)). n_id n = i \<and> leaf V n \<Longrightarrow>
    gone (set is) s (nodeDeleteEach V (Suc k) is s)"
proof (induction "is" arbitrary: s)
  case (Cons i "is")
  obtain n where n: "n \<in> set (es_nodes (ne_canvas s))" "n_id n = i" "leaf V n" using Cons.prems(3) by auto
  have one: "gone {i} s (nodeDelete V (Suc k) i s)"
    using delete_bare [OF V Cons.prems(1) n(1)] n(2,3) by (simp add: leaf_def containerChildren_def)
  have "gone ({i} \<union> set is) s (andThen (nodeDelete V (Suc k) i s) (\<lambda>t. nodeDeleteEach V (Suc k) is t))"
  proof (rule gone_andThen [OF one], rule Cons.IH)
    fix t :: node_editor assume r: "removed {i} (ne_canvas s) (ne_canvas t)"
    show "canvas_open (ne_canvas t)" by (rule removed_open [OF r Cons.prems(1)])
    show "\<forall>j \<in> set is. \<exists>n \<in> set (es_nodes (ne_canvas t)). n_id n = j \<and> leaf V n"
    proof
      fix j assume j: "j \<in> set is"
      then obtain m where m: "m \<in> set (es_nodes (ne_canvas s))" "n_id m = j" "leaf V m" using Cons.prems(3) by auto
      have "n_id m \<notin> {i}" using j m(2) Cons.prems(2) by auto
      then obtain m' where m': "m' \<in> set (es_nodes (ne_canvas t))" "node_kept m' = node_kept m"
        using removed_node_back [OF r m(1)] by blast
      then show "\<exists>n \<in> set (es_nodes (ne_canvas t)). n_id n = j \<and> leaf V n"
        using m m'(1) kept_same [OF m'(2)] by auto
    qed
  qed (use Cons.prems in simp)
  then show ?case by (simp)
qed (simp add: gone_def removed_empty)

text \<open>After its children the container itself goes.\<close>

lemma delete_after_children:
  assumes V: "node_env_ok V" and o: "canvas_open (ne_canvas s)" and n: "n \<in> set (es_nodes (ne_canvas s))"
    and u: "flat_unit V (ne_canvas s) n"
    and D: "D = n_id ` set (containerChildren (es_nodes (ne_canvas s)) n)" and nD: "n_id n \<notin> D"
    and g: "gone D s m"
  shows "gone (takes (ne_canvas s) n) s (andThen m (\<lambda>t. nodeDelete V (Suc k) (n_id n) t))"
proof -
  have "gone (D \<union> {n_id n}) s (andThen m (\<lambda>t. nodeDelete V (Suc k) (n_id n) t))"
  proof (rule gone_andThen [OF g])
    fix t :: node_editor assume r: "removed D (ne_canvas s) (ne_canvas t)"
    obtain n' where n': "n' \<in> set (es_nodes (ne_canvas t))" "node_kept n' = node_kept n"
      using removed_node_back [OF r n nD] by blast
    have "containerChildren (es_nodes (ne_canvas t)) n' = []"
    proof (rule ccontr)
      assume "containerChildren (es_nodes (ne_canvas t)) n' \<noteq> []"
      then obtain m' where "m' \<in> set (containerChildren (es_nodes (ne_canvas t)) n')"
        by (cases "containerChildren (es_nodes (ne_canvas t)) n'") auto
      then show False using removed_child [OF r n'(2)] by (auto simp: D)
    qed
    moreover have "\<not> isUndeletable V n'" using u kept_same(4) [OF n'(2)] by (simp add: flat_unit_def)
    ultimately show "gone {n_id n} t (nodeDelete V (Suc k) (n_id n) t)"
      using delete_bare [OF V removed_open [OF r o] n'(1)] kept_same(1) [OF n'(2)] by (simp)
  qed
  then show ?thesis by (simp add: takes_def D Un_commute)
qed

lemma own_child:
  assumes "distinct (map n_id ns)" and "n \<in> set ns" and "\<forall>m \<in> set (containerChildren ns n). leaf V m"
  shows "n_id n \<notin> n_id ` set (containerChildren ns n)"
proof
  assume "n_id n \<in> n_id ` set (containerChildren ns n)"
  then obtain m where m: "m \<in> set (containerChildren ns n)" "n_id m = n_id n" by auto
  then have "m = n" using same_id [OF assms(1) _ assms(2)] by (simp add: children_iff)
  then show False using m assms(3) by (auto simp: children_iff leaf_def)
qed

lemma delete_children:
  assumes V: "node_env_ok V" and o: "canvas_open (ne_canvas s)" and u: "flat_unit V (ne_canvas s) n"
  shows "gone (n_id ` set (containerChildren (es_nodes (ne_canvas s)) n)) s
    (nodeDeleteEach V (Suc k) (map n_id (containerChildren (es_nodes (ne_canvas s)) n)) s)"
proof -
  let ?cs = "containerChildren (es_nodes (ne_canvas s)) n"
  have "distinct (map n_id ?cs)" using o by (simp add: canvas_open_def containerChildren_def distinct_map_filter)
  moreover have "\<forall>i \<in> set (map n_id ?cs). \<exists>m \<in> set (es_nodes (ne_canvas s)). n_id m = i \<and> leaf V m"
    using u by (auto simp: flat_unit_def children_iff)
  ultimately show ?thesis using delete_leaves [OF V o, of "map n_id ?cs" k] by simp
qed

lemma delete_unit:
  assumes V: "node_env_ok V" and o: "canvas_open (ne_canvas s)" and n: "n \<in> set (es_nodes (ne_canvas s))"
    and u: "flat_unit V (ne_canvas s) n"
    and b: "d_isBundled (n_data n) \<or> length (containerChildren (es_nodes (ne_canvas s)) n) \<le> 1"
  shows "gone (takes (ne_canvas s) n) s (nodeDelete V (Suc (Suc k)) (n_id n) s)"
proof -
  let ?cs = "containerChildren (es_nodes (ne_canvas s)) n" and ?c = "ne_canvas s"
  let ?s = "s\<lparr>ne_clearedVars := ne_clearedVars s @ [n_id n]\<rparr>"
  have d: "distinct (map n_id (es_nodes ?c))" and ro: "\<not> getNodesReadOnly ?c" using o by (auto simp: canvas_open_def)
  have un: "\<not> isUndeletable V n" using u by (simp add: flat_unit_def)
  have nD: "n_id n \<notin> n_id ` set ?cs" using u by (intro own_child [OF d n, where V = V]) (simp add: flat_unit_def)
  show ?thesis
  proof (cases "?cs = []")
    case True
    then show ?thesis using delete_bare [OF V o n un] by (simp add: takes_def)
  next
    case False
    have after: "gone D ?s m \<Longrightarrow> D = n_id ` set ?cs \<Longrightarrow>
        gone (takes ?c n) s (andThen m (\<lambda>t. nodeDelete V (Suc k) (n_id n) t))" for D m
      using delete_after_children [OF V o n u _ nD, of m k] by (simp add: gone_clear)
    have cs: "gone (n_id ` set ?cs) ?s (nodeDeleteEach V (Suc k) (map n_id ?cs) ?s)"
      using delete_children [OF V, of ?s n k] o u by simp
    have eq: "nodeDelete V (Suc (Suc k)) (n_id n) s =
      (if d_isBundled (n_data n)
       then andThen (nodeDeleteEach V (Suc k) (map n_id ?cs) ?s) (\<lambda>t. nodeDelete V (Suc k) (n_id n) t)
       else andThen (nodeDelete V (Suc k) (n_id (hd ?cs)) ?s) (\<lambda>t. nodeDelete V (Suc k) (n_id n) t))"
      using b False ro un
      by (subst nodeDelete.simps) (auto simp: find_by_id [OF d n] Let_def le_Suc_eq)
    show ?thesis
    proof (cases "d_isBundled (n_data n)")
      case True
      then show ?thesis using after [OF cs] unfolding eq by simp
    next
      case nb: False
      then obtain m where m: "?cs = [m]" using b False by (cases ?cs) auto
      have "nodeDeleteEach V (Suc k) (map n_id ?cs) ?s = nodeDelete V (Suc k) (n_id m) ?s"
        by (cases "nodeDelete V (Suc k) (n_id m) ?s") (simp_all add: m)
      then have "gone (n_id ` set ?cs) ?s (nodeDelete V (Suc k) (n_id (hd ?cs)) ?s)" using cs by (simp add: m)
      from after [OF this refl] show ?thesis using nb unfolding eq by (simp only: if_False)
    qed
  qed
qed

section \<open>Deleting a selection\<close>

text \<open>What goes with a selected node: nothing when it may not be deleted.\<close>

definition goes :: "node_env \<Rightarrow> edit_store \<Rightarrow> node \<Rightarrow> string set" where
  "goes V c n = (if isUndeletable V n then {} else takes c n)"

definition taken :: "node_env \<Rightarrow> edit_store \<Rightarrow> string \<Rightarrow> string set" where
  "taken V c i = \<Union> (goes V c ` {n \<in> set (es_nodes c). n_id n = i})"

lemma taken_iff:
  "j \<in> taken V c i \<longleftrightarrow> (\<exists>n \<in> set (es_nodes c). n_id n = i \<and> \<not> isUndeletable V n \<and> j \<in> takes c n)"
  by (auto simp: taken_def goes_def)

lemma taken_after:
  assumes r: "removed D c c'" and "i \<notin> D"
  shows "D \<union> taken V c' i = D \<union> taken V c i"
proof (intro equalityI subsetI)
  fix j assume "j \<in> D \<union> taken V c' i"
  moreover have "j \<in> D \<union> taken V c i" if t: "j \<in> taken V c' i"
  proof -
    obtain n' where n': "n' \<in> set (es_nodes c')" "n_id n' = i" "\<not> isUndeletable V n'" "j \<in> takes c' n'"
      using t unfolding taken_iff by blast
    obtain n where n: "n \<in> set (es_nodes c)" "node_kept n' = node_kept n" using removed_node [OF r n'(1)] by blast
    have "j \<in> takes c n"
    proof (cases "j = n_id n'")
      case False
      then obtain m' where m': "m' \<in> set (containerChildren (es_nodes c') n')" "j = n_id m'"
        using n'(4) by (auto simp: takes_def)
      obtain m where m: "m \<in> set (containerChildren (es_nodes c) n)" "node_kept m' = node_kept m"
        using removed_child [OF r n(2) m'(1)] by blast
      then show ?thesis using m'(2) kept_same(1) [OF m(2)] by (simp add: takes_def)
    qed (use kept_same(1) [OF n(2)] in \<open>simp add: takes_def\<close>)
    then show ?thesis using n(1) n'(2,3) kept_same(1,4) [OF n(2)] unfolding Un_iff taken_iff by auto
  qed
  ultimately show "j \<in> D \<union> taken V c i" by blast
next
  fix j assume "j \<in> D \<union> taken V c i"
  moreover have "j \<in> taken V c' i" if t: "j \<in> taken V c i" and "j \<notin> D"
  proof -
    obtain n where n: "n \<in> set (es_nodes c)" "n_id n = i" "\<not> isUndeletable V n" "j \<in> takes c n"
      using t unfolding taken_iff by blast
    have nD: "n_id n \<notin> D" using n(2) assms(2) by simp
    obtain n' where n': "n' \<in> set (es_nodes c')" "node_kept n' = node_kept n"
      using removed_node_back [OF r n(1) nD] by blast
    note same = kept_same [OF n'(2)]
    have "j \<in> takes c' n'"
    proof (cases "j = n_id n")
      case False
      then obtain m where m: "m \<in> set (containerChildren (es_nodes c) n)" "j = n_id m" using n(4) by (auto simp: takes_def)
      then obtain m' where m': "m' \<in> set (es_nodes c')" "node_kept m' = node_kept m"
        using removed_node_back [OF r, of m] \<open>j \<notin> D\<close> by (auto simp: children_iff)
      have "m' \<in> set (containerChildren (es_nodes c') n')"
        using m(1) m'(1) kept_same(2) [OF m'(2)] same(1,3) by (simp add: children_iff)
      then have "n_id m' \<in> takes c' n'" by (simp add: takes_def)
      then show ?thesis using m(2) kept_same(1) [OF m'(2)] by simp
    qed (simp add: takes_def same(1))
    then show ?thesis using n'(1) same(1,4) n(2,3) unfolding taken_iff by auto
  qed
  ultimately show "j \<in> D \<union> taken V c' i" by blast
qed

lemma taken_gone:
  assumes r: "removed D c c'" and "j \<in> D"
  shows "taken V c' j = {}"
proof -
  have "n_id n' \<noteq> j" if n': "n' \<in> set (es_nodes c')" for n'
  proof -
    obtain n where n: "n_id n \<notin> D" "node_kept n' = node_kept n" using removed_node [OF r n'] by blast
    then show ?thesis using kept_same(1) [OF n(2)] assms(2) by auto
  qed
  then show ?thesis by (auto simp: taken_def)
qed

text \<open>What the canvas must offer for every selected node that is still there.\<close>

definition unit_at :: "node_env \<Rightarrow> edit_store \<Rightarrow> string \<Rightarrow> bool" where
  "unit_at V c i \<longleftrightarrow> (\<forall>n \<in> set (es_nodes c). n_id n = i \<longrightarrow>
     d_isBundled (n_data n) \<and> (isUndeletable V n \<or> flat_unit V c n))"

lemma unit_at_after:
  assumes r: "removed D c c'" and "unit_at V c i"
  shows "unit_at V c' i"
  unfolding unit_at_def
proof (intro ballI impI)
  fix n' assume n': "n' \<in> set (es_nodes c')" "n_id n' = i"
  obtain n where n: "n \<in> set (es_nodes c)" "node_kept n' = node_kept n" using removed_node [OF r n'(1)] by blast
  note same = kept_same [OF n(2)]
  have u: "isUndeletable V n \<or> flat_unit V c n" "d_isBundled (n_data n)"
    using assms(2) n(1) n'(2) same(1) by (auto simp: unit_at_def)
  have "leaf V m'" if d: "\<not> isUndeletable V n" and m': "m' \<in> set (containerChildren (es_nodes c') n')" for m'
  proof -
    obtain m where m: "m \<in> set (containerChildren (es_nodes c) n)" "node_kept m' = node_kept m"
      using removed_child [OF r n(2) m'] by blast
    have "leaf V m" using u(1) d m(1) by (simp add: flat_unit_def)
    then show ?thesis using kept_same(5) [OF m(2)] by simp
  qed
  then show "d_isBundled (n_data n') \<and> (isUndeletable V n' \<or> flat_unit V c' n')"
    using u same(4,6) by (auto simp: flat_unit_def)
qed

lemma taken_unit:
  assumes "distinct (map n_id (es_nodes c))" and "n \<in> set (es_nodes c)"
  shows "taken V c (n_id n) = goes V c n"
proof -
  have "{m \<in> set (es_nodes c). n_id m = n_id n} = {n}" using assms same_id [OF assms(1) _ assms(2)] by auto
  then show ?thesis by (simp add: taken_def)
qed

text \<open>What goes with a child is the child alone.\<close>

lemma taken_inside:
  assumes d: "distinct (map n_id (es_nodes c))" and "unit_at V c i" and "j \<in> taken V c i"
  shows "taken V c j \<subseteq> taken V c i"
proof -
  obtain n where n: "n \<in> set (es_nodes c)" "n_id n = i" "\<not> isUndeletable V n" "j \<in> takes c n"
    using assms(3) unfolding taken_iff by blast
  have u: "flat_unit V c n" using assms(2) n by (auto simp: unit_at_def)
  show ?thesis
  proof (cases "j = n_id n")
    case False
    then obtain m where m: "m \<in> set (containerChildren (es_nodes c) n)" "j = n_id m" using n(4) by (auto simp: takes_def)
    have "goes V c m = {j}" using m u by (auto simp: goes_def takes_def flat_unit_def leaf_def containerChildren_def)
    moreover have "m \<in> set (es_nodes c)" using m(1) by (simp add: children_iff)
    ultimately show ?thesis using taken_unit [OF d, of m V] m(2) assms(3) by auto
  qed (use n(2) in simp)
qed

lemma delete_selection:
  assumes V: "node_env_ok V"
  shows "canvas_open (ne_canvas s) \<Longrightarrow> \<forall>i \<in> set is. unit_at V (ne_canvas s) i \<Longrightarrow>
    gone (\<Union> (taken V (ne_canvas s) ` set is)) s (nodeDeleteEach V (Suc (Suc k)) is s)"
proof (induction "is" arbitrary: s)
  case (Cons i "is")
  let ?c = "ne_canvas s" and ?T = "taken V (ne_canvas s) i"
  have d: "distinct (map n_id (es_nodes ?c))" using Cons.prems(1) by (simp add: canvas_open_def)
  have one: "gone ?T s (nodeDelete V (Suc (Suc k)) i s)"
  proof (cases "i \<in> node_ids (es_nodes ?c)")
    case True
    then obtain n where n: "n \<in> set (es_nodes ?c)" "n_id n = i" by (auto simp: node_ids_def)
    then have "d_isBundled (n_data n)" "isUndeletable V n \<or> flat_unit V ?c n" using Cons.prems(2) by (auto simp: unit_at_def)
    then show ?thesis
      using delete_unit [OF V Cons.prems(1) n(1)] delete_undeletable [OF Cons.prems(1) n(1)] taken_unit [OF d n(1), of V] n(2)
      by (cases "isUndeletable V n") (auto simp: goes_def)
  next
    case False
    then have "?T = {}" by (auto simp: taken_def node_ids_def)
    then show ?thesis using delete_absent [OF False] by simp
  qed
  have "gone (?T \<union> \<Union> (taken V ?c ` set is)) s
      (andThen (nodeDelete V (Suc (Suc k)) i s) (\<lambda>t. nodeDeleteEach V (Suc (Suc k)) is t))"
  proof -
    obtain t where t: "nodeDelete V (Suc (Suc k)) i s = Ok t" "removed ?T ?c (ne_canvas t)"
      using one unfolding gone_def by blast
    have rest: "gone (\<Union> (taken V (ne_canvas t) ` set is)) t (nodeDeleteEach V (Suc (Suc k)) is t)"
      using Cons.prems unit_at_after [OF t(2)] by (intro Cons.IH removed_open [OF t(2)]) auto
    have same: "?T \<union> taken V (ne_canvas t) j = ?T \<union> taken V ?c j" if "j \<in> set is" for j
    proof (cases "j \<in> ?T")
      case True
      have "taken V (ne_canvas t) j = {}" by (rule taken_gone [OF t(2) True])
      then show ?thesis using taken_inside [OF d _ True] Cons.prems(2) by auto
    qed (rule taken_after [OF t(2)])
    have "?T \<union> \<Union> (taken V (ne_canvas t) ` set is) = ?T \<union> \<Union> (taken V ?c ` set is)"
      using same by blast
    moreover have "gone (?T \<union> \<Union> (taken V (ne_canvas t) ` set is)) s
        (andThen (nodeDelete V (Suc (Suc k)) i s) (\<lambda>t. nodeDeleteEach V (Suc (Suc k)) is t))"
      by (rule gone_andThen [OF one]) (use t rest in simp)
    ultimately show ?thesis by simp
  qed
  then show ?case by simp
qed (simp add: gone_def removed_empty)

end
