(* ===== verification/Node_Claims.thy ===== *)
theory Node_Claims
  imports Node_Laws
begin

text \<open>
  What users of the canvas rely on when they edit it: every sequence of operations leaves a graph, and keeps the
  invariant of the editor as long as edges get handles and ids of their own; what deleting a group, and
  deleting a container after the question, take; and the deletion that leaves orphans. Each on a concrete canvas.
\<close>

section \<open>Every operation keeps the invariant\<close>

text \<open>
  What the caches rely on of the operations that make or rename an edge: the canvas component names both
  handles of a new connection, an edge that already has the id of the new one is that connection (which is
  then not made again), and renaming a source handle leaves no two edges with one id. Nothing is asked of
  the other operations.
\<close>

fun new_edge_ok :: "edit_store \<Rightarrow> edit_op \<Rightarrow> bool" where
  "new_edge_ok c (Connect a sh b th) =
     ((\<exists>x y. sh = Some x \<and> th = Some y \<and> x \<noteq> [] \<and> y \<noteq> [])
      \<and> (\<forall>e \<in> set (es_edges c). e_id e = edge_key a sh b th \<longrightarrow>
           e_source e = a \<and> e_sourceHandle e = sh \<and> e_target e = b \<and> e_targetHandle e = th))"
| "new_edge_ok c (SourceHandleChange n p q) =
     (q \<noteq> [] \<and> distinct (map e_id (es_edges (handleEdgeSourceHandleChange n p q c))))"
| "new_edge_ok c _ = True"

fun node_op_ok :: "node_editor \<Rightarrow> node_op \<Rightarrow> bool" where
  "node_op_ok s (EdgeOp x) = new_edge_ok (ne_canvas s) x"
| "node_op_ok s _ = True"

fun node_ops_ok :: "node_env \<Rightarrow> node_editor \<Rightarrow> node_op list \<Rightarrow> bool" where
  "node_ops_ok V s [] = True"
| "node_ops_ok V s (x # xs) = (node_op_ok s x \<and> node_ops_ok V (stateOf (useNodesInteractions V s x)) xs)"

lemma anchored_mono:
  assumes "anchored c" and "map n_id (es_nodes c') = map n_id (es_nodes c)"
    and "\<And>e'. e' \<in> set (es_edges c') \<Longrightarrow> \<exists>e \<in> set (es_edges c). e_source e' = e_source e \<and> e_target e' = e_target e"
  shows "anchored c'"
  using assms(1,3) unfolding anchored_def node_ids_map [OF assms(2)] by metis

lemma wires_source:
  assumes "map edge_wires es' = map edge_wires es" and "e' \<in> set es'"
  shows "\<exists>e \<in> set es. e_source e' = e_source e \<and> e_target e' = e_target e"
proof -
  have "edge_wires e' \<in> set (map edge_wires es)" using assms by (metis imageI list.set_map)
  then show ?thesis by (auto simp: edge_wires_def)
qed

lemma node_inv_cong:
  assumes "map node_cache (es_nodes c') = map node_cache (es_nodes c)"
    and "map edge_wires (es_edges c') = map edge_wires (es_edges c)"
    and "map e_id (es_edges c') = map e_id (es_edges c)"
  shows "node_inv c \<Longrightarrow> node_inv c'" and "graph_ok c \<Longrightarrow> graph_ok c'"
proof -
  have ids: "map n_id (es_nodes c') = map n_id (es_nodes c)"
    using arg_cong [OF assms(1), of "map fst"] by (simp add: node_cache_def comp_def)
  note a = anchored_mono [OF _ ids wires_source [OF assms(2)]]
  show "node_inv c'" if inv: "node_inv c"
  proof -
    have "anchored c" using inv by (simp add: node_inv_def)
    then have "anchored c'" by (rule a)
    then show ?thesis using inv edit_inv_cong [OF assms(1,2)] assms(3) by (simp add: node_inv_def)
  qed
  show "graph_ok c'" if "graph_ok c"
  proof -
    have "anchored c" using that by (simp add: graph_ok_def)
    then have "anchored c'" by (rule a)
    then show ?thesis using that ids by (simp add: graph_ok_def)
  qed
qed

lemma deleteEdgeById_edges: "set (es_edges (deleteEdgeById i c)) \<subseteq> set (es_edges c)"
proof (cases "find (\<lambda>e. e_id e = i) (es_edges c)")
  case (Some e)
  then show ?thesis using deleteEdgeById_eqs(2) [OF Some] remove_first_subseq [of "\<lambda>e. e_id e = i" "es_edges c"]
    by (auto dest: list_emb_set)
next
  case None
  then have "es_edges (deleteEdgeById i c) = es_edges c" by (auto simp: deleteEdgeById_def Let_def find_None_iff)
  then show ?thesis by simp
qed

lemma deleteEdgeById_ids: "map n_id (es_nodes (deleteEdgeById i c)) = map n_id (es_nodes c)"
  by (simp add: deleteEdgeById_def Let_def)

lemma deleteEdgeById_anchored: "anchored c \<Longrightarrow> anchored (deleteEdgeById i c)"
  using deleteEdgeById_edges [of i c] by (intro anchored_mono [of c, OF _ deleteEdgeById_ids]) auto

lemma connect_anchored:
  assumes "anchored c"
  shows "anchored (stateOf (handleNodeConnect a sh b th c))"
proof (cases "stateOf (handleNodeConnect a sh b th c) = c")
  case False
  then obtain sn tn where n: "find (\<lambda>n. n_id n = a) (es_nodes c) = Some sn" "find (\<lambda>n. n_id n = b) (es_nodes c) = Some tn"
    by (auto simp: handleNodeConnect_def Let_def split: option.splits if_splits)
  let ?e = "newConnection (es_nodes c) sn tn sh th"
  have eq: "es_edges (stateOf (handleNodeConnect a sh b th c)) = es_edges c @ [?e]"
      "map n_id (es_nodes (stateOf (handleNodeConnect a sh b th c))) = map n_id (es_nodes c)"
    using False n by (auto simp: handleNodeConnect_def Let_def split: if_splits)
  have "sn \<in> set (es_nodes c)" "tn \<in> set (es_nodes c)" using n by (auto dest: find_SomeD)
  then show ?thesis
    using assms unfolding anchored_def node_ids_map [OF eq(2)] eq(1)
    by (auto simp: newConnection_def Let_def node_ids_def)
qed (use assms in simp)

lemma edge_op_anchored:
  assumes a: "anchored c"
  shows "anchored (stateOf (useEdgesInteractions c x))"
proof (cases x)
  case (Connect u sh v th)
  then show ?thesis using connect_anchored [OF a] by simp
next
  case (DeleteById i)
  then show ?thesis using a deleteEdgeById_anchored by (simp add: handleEdgeDeleteById_def)
next
  case DeleteSelected
  then show ?thesis using a deleteEdgeById_anchored by (simp add: handleEdgeDelete_def split: option.split)
next
  case (DeleteBranch n b)
  show ?thesis unfolding DeleteBranch
    by (rule anchored_mono [OF a]) (auto simp: handleEdgeDeleteByDeleteBranch_def Let_def split: if_splits)
next
  case (SourceHandleChange n p q)
  show ?thesis unfolding SourceHandleChange
    by (rule anchored_mono [OF a]) (auto simp: handleEdgeSourceHandleChange_def Let_def split: if_splits)
next
  case (Enter i)
  show ?thesis unfolding Enter
    by (rule anchored_mono [OF a], (auto simp: handleEdgeEnter_def handleEdgeHover_def split: sum.splits if_splits
      dest!: hover_wires wires_source)+)
next
  case (Leave i)
  show ?thesis unfolding Leave
    by (rule anchored_mono [OF a], (auto simp: handleEdgeLeave_def handleEdgeHover_def split: sum.splits if_splits
      dest!: hover_wires wires_source)+)
next
  case (EdgesChange cs)
  show ?thesis unfolding EdgesChange
    by (rule anchored_mono [OF a]) (auto simp: handleEdgesChange_def split: if_splits dest!: wires_source [OF selection_wires])
next
  case (ContextMenu i)
  have ids: "map n_id (clearNodeSelectionState ns) = map n_id ns" for ns
    by (simp add: clearNodeSelectionState_def comp_def)
  show ?thesis unfolding ContextMenu
    by (rule anchored_mono [OF a]) (auto simp: handleEdgeContextMenu_def ids split: sum.splits if_splits
      dest!: menu_wires wires_source)
qed

lemma edge_op_node_ids: "map n_id (es_nodes (stateOf (useEdgesInteractions c x))) = map n_id (es_nodes c)"
proof -
  have *: "map n_id (clearNodeSelectionState ns) = map n_id ns" for ns by (simp add: clearNodeSelectionState_def comp_def)
  show ?thesis
    by (cases x) (auto simp: handleNodeConnect_def handleEdgeDeleteById_def handleEdgeDelete_def deleteEdgeById_ids
      handleEdgeDeleteByDeleteBranch_def handleEdgeSourceHandleChange_def handleEdgeEnter_def handleEdgeLeave_def
      handleEdgeHover_def handleEdgesChange_def handleEdgeContextMenu_def Let_def * split: option.splits sum.splits)
qed

lemma edge_op_graph: "graph_ok c \<Longrightarrow> graph_ok (stateOf (useEdgesInteractions c x))"
  by (simp add: graph_ok_def edge_op_node_ids edge_op_anchored)

section \<open>Edges keep ids of their own\<close>

lemma hover_edge_ids: "updateEdgeHoverState es i h = Inr es' \<Longrightarrow> map e_id es' = map e_id es"
  by (auto simp: updateEdgeHoverState_def split: option.splits if_splits intro!: map_update_first)

lemma selection_edge_ids: "map e_id (updateEdgeSelectionState es cs) = map e_id es"
  unfolding updateEdgeSelectionState_def
proof (induction cs arbitrary: es)
  case (Cons c cs)
  have "map e_id (update_first p (\<lambda>e. e\<lparr>e_selected := b\<rparr>) es) = map e_id es" for p b
    by (rule map_update_first) simp
  with Cons show ?case by (cases c) simp_all
qed simp

lemma menu_edge_ids: "buildContextMenuEdges es i = Inr es' \<Longrightarrow> map e_id es' = map e_id es"
  unfolding buildContextMenuEdges_def
  by (induction es arbitrary: es') (auto split: option.splits sum.splits)

lemma deleteEdgeById_edge_ids:
  "distinct (map e_id (es_edges c)) \<Longrightarrow> distinct (map e_id (es_edges (deleteEdgeById i c)))"
proof (cases "find (\<lambda>e. e_id e = i) (es_edges c)")
  case (Some e)
  assume "distinct (map e_id (es_edges c))"
  then show ?thesis by (simp add: deleteEdgeById_eqs(2) [OF Some] remove_first_filter distinct_map_filter)
next
  case None
  then have "es_edges (deleteEdgeById i c) = es_edges c" by (auto simp: deleteEdgeById_def Let_def find_None_iff)
  then show "distinct (map e_id (es_edges c)) \<Longrightarrow> ?thesis" by simp
qed

lemma connect_edge_ids:
  assumes "new_edge_ok c (Connect a sh b th)" and d: "distinct (map e_id (es_edges c))"
  shows "distinct (map e_id (es_edges (stateOf (handleNodeConnect a sh b th c))))"
proof (cases "stateOf (handleNodeConnect a sh b th c) = c")
  case False
  then obtain sn tn where n: "find (\<lambda>n. n_id n = a) (es_nodes c) = Some sn" "find (\<lambda>n. n_id n = b) (es_nodes c) = Some tn"
    by (auto simp: handleNodeConnect_def Let_def split: option.splits if_splits)
  let ?e = "newConnection (es_nodes c) sn tn sh th"
  have new: "es_edges (stateOf (handleNodeConnect a sh b th c)) = es_edges c @ [?e]"
      "\<not> (\<exists>e \<in> set (es_edges c). e_source e = a \<and> e_sourceHandle e = sh \<and> e_target e = b \<and> e_targetHandle e = th)"
    using False n by (auto simp: handleNodeConnect_def Let_def split: if_splits)
  have "n_id sn = a" "n_id tn = b" using find_SomeD [OF n(1)] find_SomeD [OF n(2)] by simp_all
  then have "e_id ?e = edge_key a sh b th" by (simp add: newConnection_def Let_def)
  then show ?thesis using assms new by auto
qed (use d in simp)

lemma edge_op_edge_ids:
  assumes d: "distinct (map e_id (es_edges c))" and ok: "new_edge_ok c x"
  shows "distinct (map e_id (es_edges (stateOf (useEdgesInteractions c x))))"
proof (cases x)
  case (Connect a sh b th)
  then show ?thesis using connect_edge_ids [OF ok [unfolded Connect] d] by simp
next
  case (ContextMenu i)
  then show ?thesis using d by (auto simp: handleEdgeContextMenu_def split: sum.splits dest!: menu_edge_ids)
qed (use d ok in \<open>auto simp: handleEdgeDeleteById_def handleEdgeDelete_def deleteEdgeById_edge_ids distinct_map_filter
    handleEdgeDeleteByDeleteBranch_def handleEdgeEnter_def handleEdgeLeave_def handleEdgeHover_def Let_def
    handleEdgesChange_def selection_edge_ids split: option.splits sum.splits dest!: hover_edge_ids\<close>)

lemma edge_op_inv:
  assumes "node_inv c" and ok: "new_edge_ok c x"
  shows "node_inv (stateOf (useEdgesInteractions c x))"
proof -
  have c: "edit_inv c" "anchored c" and d: "distinct (map e_id (es_edges c))" using assms(1) by (simp_all add: node_inv_def)
  have "op_ok c x" using ok d by (cases x) auto
  then show ?thesis
    using useEdgesInteractions_inv [OF c(1)] edge_op_anchored [OF c(2)] edge_op_edge_ids [OF d ok] by (simp add: node_inv_def)
qed

section \<open>Every operation of the hook\<close>

text \<open>The operations other than those on edges keep the graph and the invariant alike: \<open>P\<close> is either.\<close>

definition keeps :: "node_env \<Rightarrow> (edit_store \<Rightarrow> bool) \<Rightarrow> bool" where
  "keeps V P \<longleftrightarrow>
     (\<forall>c c'. map node_cache (es_nodes c') = map node_cache (es_nodes c) \<longrightarrow>
        map edge_wires (es_edges c') = map edge_wires (es_edges c) \<longrightarrow>
        map e_id (es_edges c') = map e_id (es_edges c) \<longrightarrow> P c \<longrightarrow> P c')
   \<and> (\<forall>c i cur. P c \<longrightarrow> (\<exists>n \<in> set (es_nodes c). n_id n = i) \<longrightarrow> P (removeNode V i cur c))
   \<and> (\<forall>s i. P (ne_canvas s) \<longrightarrow> P (ne_canvas (stateOf (handleNodeDisconnect V i s))))"

lemma keepsD:
  assumes "keeps V P"
  shows "map node_cache (es_nodes c') = map node_cache (es_nodes c) \<Longrightarrow>
      map edge_wires (es_edges c') = map edge_wires (es_edges c) \<Longrightarrow>
      map e_id (es_edges c') = map e_id (es_edges c) \<Longrightarrow> P c \<Longrightarrow> P c'"
    and "P c \<Longrightarrow> \<exists>n \<in> set (es_nodes c). n_id n = i \<Longrightarrow> P (removeNode V i cur c)"
    and "P (ne_canvas s) \<Longrightarrow> P (ne_canvas (stateOf (handleNodeDisconnect V i s)))"
  using assms unfolding keeps_def by blast+

lemma disconnect_eqs:
  assumes V: "node_env_ok V"
  obtains "ne_canvas (stateOf (handleNodeDisconnect V i s)) = ne_canvas s"
    | n where "es_nodes (ne_canvas (stateOf (handleNodeDisconnect V i s))) =
        applyConnectedHandleNodeData (es_nodes (ne_canvas s)) (map (Pair RemoveEdge) (filter (touches n) (es_edges (ne_canvas s))))"
      "es_edges (ne_canvas (stateOf (handleNodeDisconnect V i s))) =
        withoutEdges (filter (touches n) (es_edges (ne_canvas s))) (es_edges (ne_canvas s))"
proof (cases "getNodesReadOnly (ne_canvas s) \<or> find (\<lambda>n. n_id n = i) (es_nodes (ne_canvas s)) = None")
  case True
  then show ?thesis using that(1) by (auto simp: handleNodeDisconnect_def)
next
  case False
  then obtain n where "find (\<lambda>n. n_id n = i) (es_nodes (ne_canvas s)) = Some n" by auto
  then show ?thesis using that(2) [of "n_id n"] False
    by (simp add: handleNodeDisconnect_def Let_def on_canvas_def connected_filter [OF V])
qed

lemma disconnect_graph:
  assumes V: "node_env_ok V" and g: "graph_ok (ne_canvas s)"
  shows "graph_ok (ne_canvas (stateOf (handleNodeDisconnect V i s)))"
proof (rule disconnect_eqs [OF V, of i s])
  fix n assume eq: "es_nodes (ne_canvas (stateOf (handleNodeDisconnect V i s))) =
        applyConnectedHandleNodeData (es_nodes (ne_canvas s)) (map (Pair RemoveEdge) (filter (touches n) (es_edges (ne_canvas s))))"
      "es_edges (ne_canvas (stateOf (handleNodeDisconnect V i s))) =
        withoutEdges (filter (touches n) (es_edges (ne_canvas s))) (es_edges (ne_canvas s))"
  have a: "anchored (ne_canvas s)" using g by (simp add: graph_ok_def)
  have ids: "map n_id (es_nodes (ne_canvas (stateOf (handleNodeDisconnect V i s)))) = map n_id (es_nodes (ne_canvas s))"
    by (simp add: eq)
  have "anchored (ne_canvas (stateOf (handleNodeDisconnect V i s)))"
    by (rule anchored_mono [OF a ids]) (auto simp: eq withoutEdges_def)
  then show ?thesis using g ids by (simp add: graph_ok_def)
qed (use g in simp)

lemma disconnect_inv:
  assumes V: "node_env_ok V" and inv: "node_inv (ne_canvas s)"
  shows "node_inv (ne_canvas (stateOf (handleNodeDisconnect V i s)))"
proof (rule disconnect_eqs [OF V, of i s])
  let ?c = "ne_canvas s" and ?c' = "ne_canvas (stateOf (handleNodeDisconnect V i s))"
  fix n assume n: "es_nodes ?c' = applyConnectedHandleNodeData (es_nodes ?c) (map (Pair RemoveEdge) (filter (touches n) (es_edges ?c)))"
    "es_edges ?c' = withoutEdges (filter (touches n) (es_edges ?c)) (es_edges ?c)"
  have d: "distinct (map e_id (es_edges ?c))" and a: "anchored ?c" using inv by (simp_all add: node_inv_def)
  have e: "es_edges ?c' = filter (\<lambda>e. \<not> touches n e) (es_edges ?c)" using n(2) withoutEdges_filter [OF d] by simp
  have "anchored ?c'" by (rule anchored_mono [OF a]) (auto simp: n(1) e)
  then show ?thesis
    using inv edges_dropped_match [of ?c "touches n"] by (auto simp: node_inv_def edit_inv_def n(1) e distinct_map_filter)
qed (use inv in simp)

lemma keepsI:
  assumes "\<And>c c'. map node_cache (es_nodes c') = map node_cache (es_nodes c) \<Longrightarrow>
      map edge_wires (es_edges c') = map edge_wires (es_edges c) \<Longrightarrow>
      map e_id (es_edges c') = map e_id (es_edges c) \<Longrightarrow> P c \<Longrightarrow> P c'"
    and "\<And>c i cur. P c \<Longrightarrow> \<exists>n \<in> set (es_nodes c). n_id n = i \<Longrightarrow> P (removeNode V i cur c)"
    and "\<And>s i. P (ne_canvas s) \<Longrightarrow> P (ne_canvas (stateOf (handleNodeDisconnect V i s)))"
  shows "keeps V P"
  unfolding keeps_def using assms by blast

lemma keeps_both:
  assumes V: "node_env_ok V"
  shows "keeps V graph_ok" and "keeps V node_inv"
  by (rule keepsI, erule (2) node_inv_cong(2), assumption, erule (1) removeNode_graph [OF V], erule disconnect_graph [OF V])
    (rule keepsI, erule (2) node_inv_cong(1), assumption, erule (1) removeNode_inv [OF V], erule disconnect_inv [OF V])

lemma keeps_deletion:
  assumes P: "keeps V P"
  shows "P (ne_canvas s) \<Longrightarrow> P (ne_canvas (stateOf (nodeDelete V k i s)))"
    and "P (ne_canvas s) \<Longrightarrow> P (ne_canvas (stateOf (nodeDeleteEach V k is s)))"
  using nodeDelete_keeps [of P V, OF keepsD(2) [OF P]] by simp_all

lemma keeps_emit: "keeps V P \<Longrightarrow> P c \<Longrightarrow> P (emit fx c)"
  by (rule keepsD(1) [of V P _ c]) simp_all

lemma keeps_select: "keeps V P \<Longrightarrow> P (ne_canvas s) \<Longrightarrow> P (ne_canvas (handleNodeSelect V i b r s))"
  by (rule keepsD(1) [of V P _ "ne_canvas s"])
    (simp_all add: handleNodeSelect_def on_canvas_def Let_def comp_def node_cache_def handle_ids_of_def edge_wires_def)

lemma keeps_menu:
  assumes P: "keeps V P" and p: "P (ne_canvas s)"
  shows "P (ne_canvas (handleNodeContextMenu V n s))"
proof -
  have "P ((ne_canvas s)\<lparr>es_contextMenuTarget := m\<rparr>)" for m
    by (rule keepsD(1) [OF P _ _ _ p]) simp_all
  then have "P (ne_canvas (on_canvas (\<lambda>c. c\<lparr>es_contextMenuTarget := m\<rparr>) s))" for m by (simp add: on_canvas_def)
  then show ?thesis using p keeps_select [OF P] by (simp add: handleNodeContextMenu_def)
qed

lemma keeps_cancel: "keeps V P \<Longrightarrow> P (ne_canvas s) \<Longrightarrow> P (ne_canvas (handleNodesCancelSelected s))"
  by (rule keepsD(1) [of V P _ "ne_canvas s"])
    (simp_all add: handleNodesCancelSelected_def on_canvas_def comp_def node_cache_def handle_ids_of_def)

lemma keeps_confirm:
  assumes P: "keeps V P" and p: "P (ne_canvas s)"
  shows "P (ne_canvas (stateOf (onConfirm V s)))"
proof (cases "ne_showConfirm s")
  case (Some dl)
  let ?Q = "\<lambda>s. P (ne_canvas s)"
  show ?thesis unfolding onConfirm_def Some
    by (auto intro!: andThen_keeps [where Q = ?Q] keeps_deletion [OF P] p
      simp: handleNodeDelete_def on_canvas_def keeps_emit [OF P])
qed (use p in \<open>simp add: onConfirm_def\<close>)

lemma node_op_keeps:
  assumes P: "keeps V P" and p: "P (ne_canvas s)"
    and e: "\<And>y. x = EdgeOp y \<Longrightarrow> P (stateOf (useEdgesInteractions (ne_canvas s) y))"
  shows "P (ne_canvas (stateOf (useNodesInteractions V s x)))"
proof (cases x)
  case (ConnectStart i h hid)
  then show ?thesis using p by (auto simp: handleNodeConnectStart_def split: option.split)
next
  case DeleteNodes
  then show ?thesis using keeps_deletion [OF P p] p
    by (auto simp: handleNodesDelete_def handleNodeDelete_def Let_def split: option.split)
next
  case (EdgeOp y)
  then show ?thesis using e [OF EdgeOp]
    by (cases "useEdgesInteractions (ne_canvas s) y") (simp_all add: map_outcome_def)
qed (use p keeps_select [OF P p] keeps_menu [OF P p] keeps_cancel [OF P p] keeps_confirm [OF P p] keeps_deletion [OF P p]
    keepsD(3) [OF P p] in \<open>simp_all add: handleNodeClick_def handleNodeDelete_def handleNodesCopy_def Let_def\<close>)

text \<open>C36: Selecting, copying, connecting, disconnecting, deleting and the handlers of edges, in any order, also when
  a deletion fails in the middle, leave a graph: node ids stay distinct and every edge joins two nodes of the
  canvas. When in addition every new connection names both its handles and no two edges are given one id
  (\<open>node_ops_ok\<close>), the invariant of the editor holds as well: edges have ids of their own and
  handles at both ends, and the cached handles of every node are those of its edges. Without handles it can fail
  (\<open>removal_without_handle_drops_last\<close>).\<close>

theorem node_edits_keep_graph:
  assumes V: "node_env_ok V" and "node_inv (ne_canvas s)"
  shows "graph_ok (ne_canvas (run_events (useNodesInteractions V) s xs))
    \<and> (node_ops_ok V s xs \<longrightarrow> node_inv (ne_canvas (run_events (useNodesInteractions V) s xs)))"
proof (intro conjI impI)
  have "graph_ok (ne_canvas s)" using assms(2) by (simp add: node_inv_def graph_ok_def edit_inv_def)
  then show "graph_ok (ne_canvas (run_events (useNodesInteractions V) s xs))"
  proof (induction xs arbitrary: s)
    case (Cons x xs)
    then show ?case using node_op_keeps [OF keeps_both(1) [OF V] _ edge_op_graph] by simp
  qed simp
  show "node_inv (ne_canvas (run_events (useNodesInteractions V) s xs))" if "node_ops_ok V s xs"
    using assms(2) that
  proof (induction xs arbitrary: s)
    case (Cons x xs)
    have "node_inv (ne_canvas (stateOf (useNodesInteractions V s x)))"
      by (rule node_op_keeps [OF keeps_both(2) [OF V] Cons.prems(1)]) (use Cons.prems edge_op_inv in auto)
    then show ?case using Cons by simp
  qed simp
qed

section \<open>Deleting what is selected\<close>

text \<open>C37: Deleting while several nodes are selected as a group takes exactly the nodes of the group that may be
  deleted, the children of those that are containers, and the edges at either; nodes of the group that may
  not be deleted stay, nothing is asked, and the stack does not overflow. Supposed are an open canvas with
  distinct ids, and that the children of the containers that go may be deleted and are no containers
  themselves. A single selected node is not such a group: it is deleted as by its own delete key, which asks
  about a container with several children.\<close>

theorem selection_is_deleted_exactly:
  assumes "node_env_ok V" and "2 \<le> nv_stack V" and "canvas_open (ne_canvas s)"
    and sel: "\<exists>n \<in> set (es_nodes (ne_canvas s)). d_isBundled (n_data n)"
    and unit: "\<forall>n \<in> set (es_nodes (ne_canvas s)). d_isBundled (n_data n) \<and> \<not> isUndeletable V n \<longrightarrow>
      (\<forall>m \<in> set (containerChildren (es_nodes (ne_canvas s)) n). leaf V m)"
  shows "\<exists>t. handleNodesDelete V s = Ok t \<and> ne_showConfirm t = ne_showConfirm s
    \<and> removed (\<Union> (takes (ne_canvas s) `
          {n \<in> set (es_nodes (ne_canvas s)). d_isBundled (n_data n) \<and> \<not> isUndeletable V n}))
        (ne_canvas s) (ne_canvas t)"
proof -
  let ?c = "ne_canvas s"
  let ?b = "filter (\<lambda>n. d_isBundled (n_data n)) (es_nodes ?c)"
  have d: "distinct (map n_id (es_nodes ?c))" using assms(3) by (simp add: canvas_open_def)
  obtain k where k: "nv_stack V = Suc (Suc k)" using assms(2) by (metis Suc_le_D numeral_2_eq_2 Suc_le_mono)
  have at: "\<forall>i \<in> set (map n_id ?b). unit_at V ?c i"
  proof
    fix i assume "i \<in> set (map n_id ?b)"
    then obtain n where n: "n \<in> set (es_nodes ?c)" "d_isBundled (n_data n)" "n_id n = i" by auto
    then have "m = n" if "m \<in> set (es_nodes ?c)" "n_id m = i" for m using same_id [OF d that(1) n(1)] that(2) by simp
    then show "unit_at V ?c i" using n(1,2) unit by (auto simp: unit_at_def flat_unit_def)
  qed
  have "\<Union> (taken V ?c ` set (map n_id ?b)) = \<Union> (goes V ?c ` set ?b)"
    using taken_unit [OF d] by (auto simp: image_image)
  also have "\<dots> = \<Union> (takes ?c ` {n \<in> set (es_nodes ?c). d_isBundled (n_data n) \<and> \<not> isUndeletable V n})"
    by (auto simp: goes_def split: if_splits)
  finally have all: "\<Union> (taken V ?c ` set (map n_id ?b)) =
      \<Union> (takes ?c ` {n \<in> set (es_nodes ?c). d_isBundled (n_data n) \<and> \<not> isUndeletable V n})" .
  moreover have "gone (\<Union> (taken V ?c ` set (map n_id ?b))) s (handleNodesDelete V s)"
    using delete_selection [OF assms(1,3) at, of k] sel assms(3)
    by (auto simp: handleNodesDelete_def Let_def k canvas_open_def filter_empty_conv)
  ultimately show ?thesis unfolding gone_def by metis
qed

section \<open>The dialog\<close>

lemma large_container_asks:
  assumes "0 < nv_stack V" and o: "canvas_open (ne_canvas s)" and n: "n \<in> set (es_nodes (ne_canvas s))"
    and "\<not> isUndeletable V n" and "\<not> d_isBundled (n_data n)"
    and "2 \<le> length (containerChildren (es_nodes (ne_canvas s)) n)" and "ne_showConfirm s = None"
  shows "\<exists>t. handleNodeDelete V (n_id n) s = Ok t \<and> ne_canvas t = ne_canvas s
    \<and> ne_showConfirm t = Some \<lparr>cd_kind = d_type (n_data n), cd_nodeId = n_id n,
        cd_children = map n_id (containerChildren (es_nodes (ne_canvas s)) n)\<rparr>"
proof -
  obtain k where k: "nv_stack V = Suc k" using assms(1) gr0_implies_Suc by blast
  have d: "distinct (map n_id (es_nodes (ne_canvas s)))" "\<not> getNodesReadOnly (ne_canvas s)"
    using o by (simp_all add: canvas_open_def)
  have "containerChildren (es_nodes (ne_canvas s)) n \<noteq> []"
    "length (containerChildren (es_nodes (ne_canvas s)) n) \<noteq> 1" using assms(6) by auto
  then show ?thesis
    using d(2) assms(4,5,7) find_by_id [OF d(1) n]
    by (simp add: handleNodeDelete_def k nodeDelete.simps Let_def)
qed

text \<open>C38: The delete key on a container that is not part of a selected group, with at least two children and no dialog
  open, changes nothing on the canvas: it opens the dialog for this container and its children. The answer yes to
  that dialog takes exactly the container, its children and the edges at them, and closes it; closing it
  without an answer leaves the canvas as it was. Supposed are an open canvas with distinct ids, and that the container
  and its children may be deleted and the children are no containers. This says what the dialog does, not that a
  container is never deleted without it: a second press of the key before the answer bypasses it,
  and a container in a selected group goes without a question; both are stated here as well.\<close>

theorem large_container_goes_after_confirmation:
  assumes V: "node_env_ok V" and st: "0 < nv_stack V" and o: "canvas_open (ne_canvas s)"
    and n: "n \<in> set (es_nodes (ne_canvas s))" and u: "flat_unit V (ne_canvas s) n"
    and b: "\<not> d_isBundled (n_data n)" and two: "2 \<le> length (containerChildren (es_nodes (ne_canvas s)) n)"
    and nc: "ne_showConfirm s = None"
  shows "\<exists>t v w. handleNodeDelete V (n_id n) s = Ok t \<and> ne_canvas t = ne_canvas s
    \<and> ne_showConfirm t = Some \<lparr>cd_kind = d_type (n_data n), cd_nodeId = n_id n,
        cd_children = map n_id (containerChildren (es_nodes (ne_canvas s)) n)\<rparr>
    \<and> onConfirm V t = Ok v \<and> removed (takes (ne_canvas s) n) (ne_canvas s) (ne_canvas v) \<and> ne_showConfirm v = None
    \<and> useNodesInteractions V t DismissDialog = Ok w \<and> ne_canvas w = ne_canvas s \<and> ne_showConfirm w = None"
proof -
  let ?cs = "containerChildren (es_nodes (ne_canvas s)) n"
  obtain k where k: "nv_stack V = Suc k" using st gr0_implies_Suc by blast
  have un: "\<not> isUndeletable V n" using u by (simp add: flat_unit_def)
  obtain t where t: "handleNodeDelete V (n_id n) s = Ok t" "ne_canvas t = ne_canvas s"
      "ne_showConfirm t = Some \<lparr>cd_kind = d_type (n_data n), cd_nodeId = n_id n, cd_children = map n_id ?cs\<rparr>"
    using large_container_asks [OF st o n un b two nc] by blast
  have d: "distinct (map n_id (es_nodes (ne_canvas t)))" using o t(2) by (simp add: canvas_open_def)
  have ot: "canvas_open (ne_canvas t)" and nt: "n \<in> set (es_nodes (ne_canvas t))" and ut: "flat_unit V (ne_canvas t) n"
    using o n u t(2) by simp_all
  have nD: "n_id n \<notin> n_id ` set (containerChildren (es_nodes (ne_canvas t)) n)"
    using ut by (intro own_child [OF d nt, where V = V]) (simp add: flat_unit_def)
  have "gone (takes (ne_canvas t) n) t
      (andThen (nodeDeleteEach V (Suc k) (map n_id ?cs) t) (\<lambda>t. nodeDelete V (Suc k) (n_id n) t))"
    using delete_after_children [OF V ot nt ut refl nD delete_children [OF V ot ut]] t(2) by simp
  then obtain w where w: "andThen (nodeDeleteEach V (Suc k) (map n_id ?cs) t) (\<lambda>t. nodeDelete V (Suc k) (n_id n) t) = Ok w"
      "removed (takes (ne_canvas t) n) (ne_canvas t) (ne_canvas w)" unfolding gone_def by blast
  let ?v = "(on_canvas (emit [SyncDraft]) w)\<lparr>ne_showConfirm := None\<rparr>"
  have "onConfirm V t = Ok ?v"
    using w(1) by (auto simp: onConfirm_def t(3) handleNodeDelete_def k andThen_eq_Ok)
  moreover have "removed (takes (ne_canvas s) n) (ne_canvas s) (ne_canvas ?v)"
    using w(2) t(2) by (simp add: removed_def on_canvas_def)
  moreover have "ne_showConfirm ?v = None" by simp
  ultimately show ?thesis using t by auto
qed

text \<open>C39: The dialog stops the deletion only while it is not open: a second press of the delete key on the same
  container, before the question is answered, deletes the container alone, and its children stay on the
  canvas with a parent that no longer exists.\<close>

theorem second_delete_leaves_orphans:
  assumes V: "node_env_ok V" and st: "0 < nv_stack V" and o: "canvas_open (ne_canvas s)"
    and n: "n \<in> set (es_nodes (ne_canvas s))" and u: "flat_unit V (ne_canvas s) n"
    and b: "\<not> d_isBundled (n_data n)" and two: "2 \<le> length (containerChildren (es_nodes (ne_canvas s)) n)"
    and nc: "ne_showConfirm s = None"
  shows "let t = run_events (useNodesInteractions V) s [DeleteNode (n_id n), DeleteNode (n_id n)] in
    n_id n \<notin> node_ids (es_nodes (ne_canvas t))
    \<and> (\<forall>m \<in> set (containerChildren (es_nodes (ne_canvas s)) n).
         \<exists>m' \<in> set (es_nodes (ne_canvas t)). n_id m' = n_id m \<and> n_parentId m' = Some (n_id n))"
proof -
  let ?cs = "containerChildren (es_nodes (ne_canvas s)) n"
  obtain k where k: "nv_stack V = Suc k" using st gr0_implies_Suc by blast
  have un: "\<not> isUndeletable V n" using u by (simp add: flat_unit_def)
  obtain t where t: "handleNodeDelete V (n_id n) s = Ok t" "ne_canvas t = ne_canvas s" "ne_showConfirm t \<noteq> None"
    using large_container_asks [OF st o n un b two nc] by auto
  have d: "distinct (map n_id (es_nodes (ne_canvas s)))" "distinct (map e_id (es_edges (ne_canvas s)))"
    "\<not> getNodesReadOnly (ne_canvas s)" using o by (simp_all add: canvas_open_def)
  have len: "?cs \<noteq> []" "length ?cs \<noteq> 1" using two by auto
  let ?t' = "t\<lparr>ne_clearedVars := ne_clearedVars t @ [n_id n]\<rparr>"
  let ?w = "on_canvas (removeNode V (n_id n) n) (dropRagVariables n ?t')"
  have w: "handleNodeDelete V (n_id n) t = Ok ?w"
    using len d(3) un b t(2,3) find_by_id [OF d(1) n]
    by (auto simp: handleNodeDelete_def k nodeDelete.simps Let_def)
  have r: "removed {n_id n} (ne_canvas s) (ne_canvas ?w)"
    using removeNode_removed [OF V d(1,2), of "n_id n" n] n t(2) by (auto simp: on_canvas_def)
  have run: "run_events (useNodesInteractions V) s [DeleteNode (n_id n), DeleteNode (n_id n)] = ?w"
    using t(1) w by simp
  have "n_id n \<notin> set (map n_id (es_nodes (ne_canvas ?w)))" by (simp add: removed_ids [OF r])
  moreover have "\<exists>m' \<in> set (es_nodes (ne_canvas ?w)). n_id m' = n_id m \<and> n_parentId m' = Some (n_id n)"
    if m: "m \<in> set ?cs" for m
  proof -
    have "n_id n \<notin> n_id ` set ?cs" using u by (intro own_child [OF d(1) n, where V = V]) (simp add: flat_unit_def)
    then have "n_id m \<noteq> n_id n" using imageI [OF m, of n_id] by auto
    then have "n_id m \<notin> {n_id n}" and "m \<in> set (es_nodes (ne_canvas s))" using m by (simp_all add: children_iff)
    then obtain m' where "m' \<in> set (es_nodes (ne_canvas ?w))" "node_kept m' = node_kept m"
      using removed_node_back [OF r] by blast
    then show ?thesis using m kept_same(1,2) by (metis children_iff)
  qed
  ultimately show ?thesis unfolding run Let_def by (simp add: node_ids_def)
qed

section \<open>A concrete canvas\<close>

text \<open>An iteration with its start node and a model call inside, followed by an answer; the iteration is part of
  a selection or not.\<close>

definition child_of :: "string \<Rightarrow> string \<Rightarrow> BlockEnum \<Rightarrow> handle_ids \<Rightarrow> node" where
  "child_of p i t h = (cached_node i t h)\<lparr>n_parentId := Some p\<rparr>"

definition iteration_canvas :: "bool \<Rightarrow> edit_store" where
  "iteration_canvas sel = \<lparr>es_nodes =
       [with_data (\<lambda>d. d\<lparr>d_isBundled := sel\<rparr>) (cached_node ''it'' Iteration ([''source''], [])),
        child_of ''it'' ''its'' IterationStart ([''source''], []), child_of ''it'' ''llm'' LLM ([], [''target'']),
        cached_node ''ans'' Answer ([], [''target''])],
     es_edges = [sample_edge ''it'' ''ans'', sample_edge ''its'' ''llm''],
     es_canvasReadOnly = False, es_canEdit = True, es_runningStatus = None, es_historyWorkflowData = False,
     es_isRestoring = False, es_contextMenuTarget = None, es_effects = []\<rparr>"

definition iteration_editor :: "bool \<Rightarrow> node_editor" where
  "iteration_editor sel = \<lparr>ne_canvas = iteration_canvas sel, ne_showConfirm = None, ne_ragPipelineVariables = None,
     ne_clearedVars = [], ne_connectingNodePayload = None, ne_clipboardData = None, ne_initShowLastRunTab = False\<rparr>"

definition iteration_node :: "bool \<Rightarrow> node" where
  "iteration_node sel = hd (es_nodes (iteration_canvas sel))"

definition sample_env :: node_env where
  "sample_env = \<lparr>nv_meta = (\<lambda>t. Some \<lparr>mt_isUndeletable = False, mt_isSingleton = False\<rparr>),
     getConnectedEdges = (\<lambda>i. filter (\<lambda>e. e_source e = i \<or> e_target e = i)), nv_stack = 2\<rparr>"

lemma sample_env_ok: "node_env_ok sample_env"
  by (simp add: node_env_ok_def sample_env_def)

lemma cached_node_more [simp]:
  "n_parentId (cached_node i t h) = None" "d_type (n_data (cached_node i t h)) = t"
  "d_isBundled (n_data (cached_node i t h)) = False"
  by (simp_all add: cached_node_def setHandleIds_def sample_node_def node_data_of_def)

lemma child_of_simps [simp]:
  "n_id (child_of p i t h) = i" "n_parentId (child_of p i t h) = Some p" "handle_ids_of (child_of p i t h) = h"
  "d_type (n_data (child_of p i t h)) = t" "d_isBundled (n_data (child_of p i t h)) = False"
  by (simp_all add: child_of_def handle_ids_of_def cached_node_def setHandleIds_def opt_list_def sample_node_def node_data_of_def)

lemma sample_edge_simps [simp]:
  "e_source (sample_edge a b) = a" "e_target (sample_edge a b) = b" "e_id (sample_edge a b) = a @ ''-'' @ b"
  "e_sourceHandle (sample_edge a b) = Some ''source''" "e_targetHandle (sample_edge a b) = Some ''target''"
  by (simp_all add: sample_edge_def)

lemma iteration_open: "canvas_open (ne_canvas (iteration_editor sel))"
  by (simp add: canvas_open_def iteration_editor_def iteration_canvas_def getNodesReadOnly_def)

lemma iteration_inv: "node_inv (ne_canvas (iteration_editor sel))"
proof -
  have "handle_ids_of (with_data (\<lambda>d. d\<lparr>d_isBundled := sel\<rparr>) n) = handle_ids_of n" for n by (simp add: handle_ids_of_def)
  then show ?thesis
    by (simp add: node_inv_def edit_inv_def iteration_editor_def iteration_canvas_def has_handles_def handles_match_def
      handles_simps handleOr_def anchored_def node_ids_def)
qed

lemma iteration_children:
  "containerChildren (es_nodes (ne_canvas (iteration_editor sel))) (iteration_node sel) =
     [child_of ''it'' ''its'' IterationStart ([''source''], []), child_of ''it'' ''llm'' LLM ([], [''target''])]"
  by (simp add: containerChildren_def iteration_editor_def iteration_node_def iteration_canvas_def isContainerKind_def)

lemma iteration_unit: "flat_unit sample_env (ne_canvas (iteration_editor sel)) (iteration_node sel)"
proof -
  have "\<not> isUndeletable sample_env n" for n by (simp add: isUndeletable_def sample_env_def)
  then show ?thesis unfolding flat_unit_def iteration_children by (simp add: leaf_def isContainerKind_def)
qed

lemma iteration_node_in: "iteration_node sel \<in> set (es_nodes (ne_canvas (iteration_editor sel)))"
  by (simp add: iteration_node_def iteration_editor_def iteration_canvas_def)

lemma iteration_node_id [simp]: "n_id (iteration_node sel) = ''it''" "d_isBundled (n_data (iteration_node sel)) = sel"
  by (simp_all add: iteration_node_def iteration_canvas_def)

lemma iteration_takes: "takes (ne_canvas (iteration_editor sel)) (iteration_node sel) = {''it'', ''its'', ''llm''}"
  unfolding takes_def iteration_children by simp

lemma sample_facts: "nv_stack sample_env = 2" "ne_showConfirm (iteration_editor sel) = None"
  by (simp_all add: sample_env_def iteration_editor_def)

theorem node_edits_keep_graph_witness:
  "node_inv (ne_canvas (run_events (useNodesInteractions sample_env) (iteration_editor False)
     [EdgeOp (Connect ''llm'' (Some ''source'') ''its'' (Some ''target'')), Disconnect ''its'', DeleteNode ''it'']))"
proof -
  have "node_ops_ok sample_env (iteration_editor False)
      [EdgeOp (Connect ''llm'' (Some ''source'') ''its'' (Some ''target'')), Disconnect ''its'', DeleteNode ''it'']"
    by (simp add: iteration_editor_def iteration_canvas_def edge_key_def handle_text_def
        del: useNodesInteractions.simps useEdgesInteractions.simps)
  then show ?thesis
    using node_edits_keep_graph [OF sample_env_ok iteration_inv, of False "[EdgeOp (Connect ''llm'' (Some ''source'') ''its'' (Some ''target'')),
      Disconnect ''its'', DeleteNode ''it'']"] by blast
qed

text \<open>The start of a chat is selected with the iteration and stays.\<close>

definition chat_env :: node_env where
  "chat_env = sample_env\<lparr>nv_meta := (\<lambda>t. Some \<lparr>mt_isUndeletable = (t = Start), mt_isSingleton = (t = Start)\<rparr>)\<rparr>"

definition chat_editor :: node_editor where
  "chat_editor = on_canvas (\<lambda>c. c\<lparr>es_nodes :=
     with_data (\<lambda>d. d\<lparr>d_isBundled := True\<rparr>) (cached_node ''start'' Start ([''source''], [])) # es_nodes c,
     es_edges := []\<rparr>) (iteration_editor True)"

theorem selection_is_deleted_exactly_witness:
  "\<exists>t. handleNodesDelete chat_env chat_editor = Ok t \<and> ne_showConfirm t = ne_showConfirm chat_editor
     \<and> removed {''it'', ''its'', ''llm''} (ne_canvas chat_editor) (ne_canvas t)"
proof -
  let ?c = "ne_canvas chat_editor"
  have V: "node_env_ok chat_env" by (simp add: node_env_ok_def chat_env_def sample_env_def)
  have "canvas_open ?c"
    by (simp add: canvas_open_def chat_editor_def on_canvas_def iteration_editor_def iteration_canvas_def getNodesReadOnly_def)
  have b: "{n \<in> set (es_nodes ?c). d_isBundled (n_data n) \<and> \<not> isUndeletable chat_env n} = {iteration_node True}"
    by (auto simp: chat_editor_def on_canvas_def iteration_editor_def iteration_canvas_def iteration_node_def
        isUndeletable_def chat_env_def getNodeCatalogType_def isAgentV2NodeData_def)
  have cs: "containerChildren (es_nodes ?c) (iteration_node True) =
      [child_of ''it'' ''its'' IterationStart ([''source''], []), child_of ''it'' ''llm'' LLM ([], [''target''])]"
    by (simp add: containerChildren_def chat_editor_def on_canvas_def iteration_editor_def iteration_node_def
        iteration_canvas_def isContainerKind_def)
  have "leaf chat_env m" if "m \<in> set (containerChildren (es_nodes ?c) (iteration_node True))" for m
    using that unfolding cs
    by (auto simp: leaf_def isContainerKind_def isUndeletable_def chat_env_def getNodeCatalogType_def isAgentV2NodeData_def)
  moreover have "n = iteration_node True"
    if "n \<in> set (es_nodes ?c)" "d_isBundled (n_data n) \<and> \<not> isUndeletable chat_env n" for n
  proof -
    have "n \<in> {n \<in> set (es_nodes ?c). d_isBundled (n_data n) \<and> \<not> isUndeletable chat_env n}" using that by simp
    then show ?thesis unfolding b by simp
  qed
  ultimately have "\<forall>n \<in> set (es_nodes ?c). d_isBundled (n_data n) \<and> \<not> isUndeletable chat_env n \<longrightarrow>
      (\<forall>m \<in> set (containerChildren (es_nodes ?c) n). leaf chat_env m)"
    by simp
  moreover have "\<exists>n \<in> set (es_nodes ?c). d_isBundled (n_data n)" using b by blast
  moreover have "takes ?c (iteration_node True) = {''it'', ''its'', ''llm''}" unfolding takes_def cs by simp
  ultimately show ?thesis
    using selection_is_deleted_exactly [OF V _ \<open>canvas_open ?c\<close>] b by (simp add: chat_env_def sample_facts)
qed

theorem large_container_goes_after_confirmation_witness:
  "\<exists>t v. handleNodeDelete sample_env ''it'' (iteration_editor False) = Ok t
     \<and> ne_canvas t = ne_canvas (iteration_editor False) \<and> onConfirm sample_env t = Ok v
     \<and> removed {''it'', ''its'', ''llm''} (ne_canvas (iteration_editor False)) (ne_canvas v) \<and> ne_showConfirm v = None"
proof -
  have "2 \<le> length (containerChildren (es_nodes (ne_canvas (iteration_editor False))) (iteration_node False))"
    by (simp add: iteration_children)
  then show ?thesis
    using large_container_goes_after_confirmation [OF sample_env_ok _ iteration_open iteration_node_in iteration_unit, of False]
    unfolding iteration_takes iteration_node_id by (auto simp: sample_facts)
qed

theorem second_delete_leaves_orphans_witness:
  "let t = run_events (useNodesInteractions sample_env) (iteration_editor False) [DeleteNode ''it'', DeleteNode ''it''] in
    ''it'' \<notin> node_ids (es_nodes (ne_canvas t))
    \<and> (\<exists>m \<in> set (es_nodes (ne_canvas t)). n_id m = ''llm'' \<and> n_parentId m = Some ''it'')"
  using second_delete_leaves_orphans [OF sample_env_ok _ iteration_open iteration_node_in iteration_unit, of False]
  unfolding iteration_children by (simp add: Let_def sample_facts)

end
