(* ===== verification/Node_Copy.thy ===== *)
theory Node_Copy
  imports Node_Claims
begin

text \<open>
  What a copy takes: the chosen nodes, everything inside the containers among them, and the edges between
  those nodes.
\<close>

section \<open>The children of one container\<close>

definition new_children :: "node list \<Rightarrow> string \<Rightarrow> (string \<times> node) list \<Rightarrow> node list" where
  "new_children ns p c = filter (\<lambda>n. n_parentId n = Some p \<and> n_id n \<notin> fst ` set c) ns"

lemma copyChildren_new:
  "distinct (map n_id ns) \<Longrightarrow> copyChildren ns p (c, q) =
     (c @ map (\<lambda>n. (n_id n, n)) (new_children ns p c), q @ map n_id (filter isContainerKind (new_children ns p c)))"
proof (induction ns arbitrary: c q)
  case (Cons n ns)
  have later: "new_children ns p (c @ [(n_id n, n)]) = new_children ns p c"
    using Cons.prems unfolding new_children_def by (intro filter_cong) (auto simp: image_iff)
  show ?case
  proof (cases "n_parentId n \<noteq> Some p \<or> map_of c (n_id n) \<noteq> None")
    case True
    then have "copyChild p n (c, q) = (c, q)" "new_children (n # ns) p c = new_children ns p c"
      by (auto simp: copyChild_def new_children_def map_of_eq_None_iff)
    then show ?thesis using Cons by (simp add: copyChildren_def)
  next
    case False
    then have "copyChild p n (c, q) = (c @ [(n_id n, n)], if isContainerKind n then q @ [n_id n] else q)"
      "new_children (n # ns) p c = n # new_children ns p c"
      by (auto simp: copyChild_def new_children_def map_of_eq_None_iff)
    then show ?thesis using Cons.IH [of "c @ [(n_id n, n)]"] Cons.prems later by (simp add: copyChildren_def)
  qed
qed (simp add: copyChildren_def new_children_def)

section \<open>The walk\<close>

inductive_set inside :: "node list \<Rightarrow> node list \<Rightarrow> node set" for ns chosen where
  inside_chosen: "n \<in> set chosen \<Longrightarrow> n \<in> inside ns chosen"
| inside_child: "p \<in> inside ns chosen \<Longrightarrow> isContainerKind p \<Longrightarrow> n \<in> set ns \<Longrightarrow> n_parentId n = Some (n_id p) \<Longrightarrow>
    n \<in> inside ns chosen"

text \<open>
  Between two rounds: the map holds nodes that belong to the copy under their ids; the queue holds
  containers of the map; and the children of a container of the map are in the map unless it waits.
\<close>

definition keyed :: "node list \<Rightarrow> node list \<Rightarrow> (string \<times> node) list \<Rightarrow> bool" where
  "keyed ns chosen c \<longleftrightarrow> distinct (map fst c) \<and> (\<forall>x \<in> set c. fst x = n_id (snd x) \<and> snd x \<in> inside ns chosen)"

definition waiting :: "(string \<times> node) list \<Rightarrow> string list \<Rightarrow> bool" where
  "waiting c q \<longleftrightarrow> (\<forall>p \<in> set q. \<exists>x \<in> set c. fst x = p \<and> isContainerKind (snd x))"

definition complete_but :: "node list \<Rightarrow> (string \<times> node) list \<Rightarrow> string set \<Rightarrow> bool" where
  "complete_but ns c Q \<longleftrightarrow> (\<forall>x \<in> set c. isContainerKind (snd x) \<longrightarrow> fst x \<in> Q \<or>
     (\<forall>m \<in> set ns. n_parentId m = Some (fst x) \<longrightarrow> n_id m \<in> fst ` set c))"

definition copy_round :: "node list \<Rightarrow> node list \<Rightarrow> (string \<times> node) list \<Rightarrow> string list \<Rightarrow> bool" where
  "copy_round ns chosen c q \<longleftrightarrow> keyed ns chosen c \<and> waiting c q \<and> complete_but ns c (set q)
     \<and> n_id ` set chosen \<subseteq> fst ` set c"

lemma copy_round_step:
  assumes d: "distinct (map n_id ns)" and r: "copy_round ns chosen c (p # q)"
  shows "copy_round ns chosen (c @ map (\<lambda>n. (n_id n, n)) (new_children ns p c))
    (q @ map n_id (filter isContainerKind (new_children ns p c)))"
proof -
  let ?new = "new_children ns p c"
  let ?c = "c @ map (\<lambda>n. (n_id n, n)) ?new" and ?q = "q @ map n_id (filter isContainerKind ?new)"
  have k: "keyed ns chosen c" and w: "waiting c (p # q)" and f: "complete_but ns c (insert p (set q))"
    and ch: "n_id ` set chosen \<subseteq> fst ` set c" using r by (simp_all add: copy_round_def)
  obtain x where x: "x \<in> set c" "fst x = p" "isContainerKind (snd x)" using w by (auto simp: waiting_def)
  have xk: "n_id (snd x) = p" "snd x \<in> inside ns chosen" using k x(1,2) by (auto simp: keyed_def)
  have new: "n \<in> set ns" "n_parentId n = Some p" "n_id n \<notin> fst ` set c" if "n \<in> set ?new" for n
    using that by (auto simp: new_children_def)
  have ins: "n \<in> inside ns chosen" if "n \<in> set ?new" for n
    using inside_child [OF xk(2) x(3)] new [OF that] xk(1) by simp
  have "distinct (map n_id ?new)" using d by (simp add: new_children_def distinct_map_filter)
  moreover have "fst ` set c \<inter> n_id ` set ?new = {}"
  proof (rule equals0I)
    fix i assume i: "i \<in> fst ` set c \<inter> n_id ` set ?new"
    then obtain n where n: "n \<in> set ?new" "i = n_id n" by blast
    have "i \<in> fst ` set c" using i by (rule IntD1)
    then show False using new(3) [OF n(1)] n(2) by simp
  qed
  ultimately have "distinct (map fst ?c)" using k by (simp add: keyed_def comp_def image_image)
  then have "keyed ns chosen ?c" using k ins by (auto simp: keyed_def)
  moreover have "waiting ?c ?q"
    using w unfolding waiting_def by (auto intro: bexI [of _ "(n_id n, n)" for n])
  moreover have "complete_but ns ?c (set ?q)"
    unfolding complete_but_def
  proof (intro ballI impI)
    fix y assume y: "y \<in> set ?c" "isContainerKind (snd y)"
    show "fst y \<in> set ?q \<or> (\<forall>m \<in> set ns. n_parentId m = Some (fst y) \<longrightarrow> n_id m \<in> fst ` set ?c)"
    proof (cases "y \<in> set c")
      case True
      then consider "fst y = p" | "fst y \<in> set q" | "\<forall>m \<in> set ns. n_parentId m = Some (fst y) \<longrightarrow> n_id m \<in> fst ` set c"
        using f y(2) by (auto simp: complete_but_def)
      then show ?thesis
      proof cases
        case 1
        have "n_id m \<in> fst ` set ?c" if "m \<in> set ns" "n_parentId m = Some p" for m
          using that by (cases "n_id m \<in> fst ` set c") (auto simp: new_children_def image_Un image_image)
        then show ?thesis using 1 by simp
      qed auto
    next
      case False
      then obtain n where "n \<in> set ?new" "y = (n_id n, n)" using y(1) by auto
      then show ?thesis using y(2) by auto
    qed
  qed
  moreover have "n_id ` set chosen \<subseteq> fst ` set ?c" using ch by auto
  ultimately show ?thesis by (simp add: copy_round_def)
qed

lemma copyLoop_done:
  assumes "distinct (map n_id ns)"
  shows "copy_round ns chosen c q \<Longrightarrow> copy_round ns chosen (copyLoop ns c q) []"
  using assms
proof (induction ns c q rule: copyLoop.induct)
  case (2 ns c p q)
  note new = copyChildren_new [OF "2.prems"(2), of p c q]
  show ?case
    using "2.IH" [OF new [symmetric] copy_round_step [OF "2.prems"(2,1)] "2.prems"(2)] new by simp
qed simp

lemma chosen_map:
  fixes chosen :: "node list"
  assumes "distinct (map n_id chosen)"
  shows "foldl (\<lambda>m n. obj_set (n_id n) n m) [] chosen = map (\<lambda>n. (n_id n, n)) chosen"
proof -
  have put: "k \<notin> fst ` set ob \<Longrightarrow> obj_set k v ob = ob @ [(k, v)]" for k and v :: node and ob
    by (induction ob) auto
  show ?thesis using assms
  proof (induction chosen rule: rev_induct)
    case (snoc n ns)
    then show ?case using put [of "n_id n" "map (\<lambda>n. (n_id n, n)) ns" n] by (auto simp: image_iff)
  qed simp
qed

lemma copied_exactly:
  assumes d: "distinct (map n_id ns)" and sub: "set chosen \<subseteq> set ns" and dc: "distinct (map n_id chosen)"
  shows "distinct (map n_id (map snd (copied_of ns chosen)))"
    and "set (map snd (copied_of ns chosen)) = inside ns chosen"
proof -
  let ?c = "copied_of ns chosen"
  have "copy_round ns chosen (map (\<lambda>n. (n_id n, n)) chosen) (map n_id (filter isContainerKind chosen))"
    using dc by (auto simp: copy_round_def keyed_def waiting_def complete_but_def comp_def image_image intro: inside_chosen)
  then have r: "copy_round ns chosen ?c []"
    unfolding copied_of_def chosen_map [OF dc] by (rule copyLoop_done [OF d])
  have k: "keyed ns chosen ?c" and f: "complete_but ns ?c {}" and ch: "n_id ` set chosen \<subseteq> fst ` set ?c"
    using r by (simp_all add: copy_round_def)
  have keys: "map n_id (map snd ?c) = map fst ?c" using k by (auto simp: keyed_def)
  then show "distinct (map n_id (map snd ?c))" using k by (simp only: keyed_def)
  have in_ns: "n \<in> set ns" if "n \<in> inside ns chosen" for n using that sub by induction auto
  have here: "n \<in> set (map snd ?c)" if n: "n \<in> set ns" "n_id n \<in> fst ` set ?c" for n
  proof -
    obtain x where x: "x \<in> set ?c" "fst x = n_id n" using n(2) by auto
    then have "n_id (snd x) = n_id n" "snd x \<in> set ns" using k in_ns by (auto simp: keyed_def)
    then have "snd x = n" using same_id [OF d _ n(1)] by simp
    then show ?thesis using x(1) by auto
  qed
  have "n \<in> set (map snd ?c)" if "n \<in> inside ns chosen" for n
    using that
  proof induction
    case (inside_chosen n)
    then show ?case using here ch sub by blast
  next
    case (inside_child p n)
    then obtain x where x: "x \<in> set ?c" "snd x = p" by auto
    then have "fst x = n_id p" using k by (auto simp: keyed_def)
    then have "n_id n \<in> fst ` set ?c" using f x inside_child by (auto simp: complete_but_def)
    then show ?case using here inside_child by blast
  qed
  moreover have "n \<in> inside ns chosen" if "n \<in> set (map snd ?c)" for n using that k by (auto simp: keyed_def)
  ultimately show "set (map snd ?c) = inside ns chosen" by blast
qed

lemma nodesToCopy_subseq: "subseq (nodesToCopy V i ns) ns"
  by (auto simp: nodesToCopy_def Let_def subseq_singleton_left split: option.split dest: find_SomeD)

text \<open>C40: A copy holds each chosen node, and each node inside a copied container at any depth, once, and exactly
  the edges between two of them.\<close>

theorem copy_takes_what_is_inside:
  assumes d: "distinct (map n_id (es_nodes (ne_canvas s)))" and "\<not> getNodesReadOnly (ne_canvas s)"
    and "nodesToCopy V i (es_nodes (ne_canvas s)) \<noteq> []"
  shows "\<exists>ns es. ne_clipboardData (handleNodesCopy V i s) = Some (ns, es) \<and> distinct (map n_id ns)
    \<and> set ns = inside (es_nodes (ne_canvas s)) (nodesToCopy V i (es_nodes (ne_canvas s)))
    \<and> es = filter (\<lambda>e. e_source e \<in> node_ids ns \<and> e_target e \<in> node_ids ns) (es_edges (ne_canvas s))"
proof -
  let ?ns = "es_nodes (ne_canvas s)"
  have "set (nodesToCopy V i ?ns) \<subseteq> set ?ns" using nodesToCopy_subseq by (auto dest: list_emb_set)
  moreover have "distinct (map n_id (nodesToCopy V i ?ns))" by (rule distinct_map_subseq [OF nodesToCopy_subseq d])
  ultimately have "distinct (map n_id (map snd (copied_of ?ns (nodesToCopy V i ?ns))))"
      "set (map snd (copied_of ?ns (nodesToCopy V i ?ns))) = inside ?ns (nodesToCopy V i ?ns)"
    using copied_exactly [OF d] by blast+
  moreover have "ne_clipboardData (handleNodesCopy V i s) = Some (map snd (copied_of ?ns (nodesToCopy V i ?ns)),
      filter (\<lambda>e. e_source e \<in> node_ids (map snd (copied_of ?ns (nodesToCopy V i ?ns)))
        \<and> e_target e \<in> node_ids (map snd (copied_of ?ns (nodesToCopy V i ?ns)))) (es_edges (ne_canvas s)))"
    using assms(2,3) by (simp add: handleNodesCopy_def Let_def node_ids_def)
  ultimately show ?thesis by blast
qed

text \<open>Copying the iteration of the sample canvas takes its start node and the model call along.\<close>

theorem copy_takes_what_is_inside_witness:
  "\<exists>ns es. ne_clipboardData (handleNodesCopy sample_env (Some ''it'') (iteration_editor False)) = Some (ns, es)
    \<and> distinct (map n_id ns)
    \<and> set ns = inside (es_nodes (iteration_canvas False)) [iteration_node False]
    \<and> es = filter (\<lambda>e. e_source e \<in> node_ids ns \<and> e_target e \<in> node_ids ns) (es_edges (iteration_canvas False))"
proof -
  have "nodesToCopy sample_env (Some ''it'') (es_nodes (iteration_canvas False)) = [iteration_node False]"
    by (simp add: nodesToCopy_def nonempty_opt_def isNodeCopyable_def sample_env_def iteration_canvas_def
      iteration_node_def cached_node_def setHandleIds_def sample_node_def node_data_of_def)
  then show ?thesis
    using copy_takes_what_is_inside [of "iteration_editor False" sample_env "Some ''it''"] iteration_open [of False]
    by (simp add: canvas_open_def iteration_editor_def)
qed

end
