(* ===== verification/Spec2Isabelle.thy ===== *)
theory Spec2Isabelle
  imports Run_Laws Init_Laws Log_Format Cli_Laws Clipboard Sse_Queue Flag_Laws Token_Store Chat_Log
    Http_Laws Account_File Command_Suggest Node_Copy
begin

text \<open>
  A model of the TypeScript core of the repository, with its laws: the workflow editor of the web
  front end (\<^verbatim>\<open>web/app/components/workflow\<close>), its conversations (\<^verbatim>\<open>web/app/components/base/chat\<close>), and the command line client (\<^verbatim>\<open>cli/src\<close>): its commands,
  requests, accounts and stores.

  \<^bold>\<open>The program.\<close> A workflow is a graph of typed nodes and edges. It is stored as a draft, loaded onto a
  canvas, edited by hand, copied and pasted, and run on the server. While it runs, events arrive
  and update the run panel and the canvas; afterwards the log of the run is formatted for the
  tracing panel. The command line client runs the same apps and prints the events, either as they
  arrive or after collecting them.

  \<^bold>\<open>Language layer.\<close>
  \<^item> \<open>Js_Prelude\<close>: dynamic values, exceptions (\<open>outcome\<close>: \<open>Threw\<close> keeps the state reached before the
    exception), arrays (\<^verbatim>\<open>findIndex\<close>, \<^verbatim>\<open>splice\<close>), strings, insertion-ordered sets, callbacks that throw.
    Its locales are the interfaces the components share: \<open>keyed_update\<close> (replacing the object of a key in
    an array), \<open>event_machine\<close> and \<open>event_frame\<close> (what single events keep, whole runs keep); each is
    interpreted on the run handlers or the edge editor.
  \<^item> \<open>Text_Search\<close>: \<^verbatim>\<open>indexOf\<close>, \<^verbatim>\<open>trim\<close>, and the law that a text can be cut before its longest suffix
    that begins a tag. \<open>Ref_Forest\<close>: sums over forests of references. \<open>Json_Text\<close>, \<open>Json_Laws\<close>: \<^verbatim>\<open>JSON.stringify\<close> and \<^verbatim>\<open>JSON.parse\<close> with their round
    trip.

  \<^bold>\<open>The editor.\<close>
  \<^item> \<open>Flow_Types\<close> (\<^verbatim>\<open>types.ts\<close>): block kinds, statuses, nodes, edges. \<open>File_Utils\<close>
    (\<^verbatim>\<open>base/file-uploader/utils.ts\<close>): classification of files in outputs.
  \<^item> \<open>Run_Events\<close>, \<open>Run_Laws\<close> (\<^verbatim>\<open>hooks/use-workflow-run-event/*.ts\<close>): one definition per event handler on
    the record \<open>run_store\<close>. Laws: events never change the shape of the canvas; a node has at most one open
    form; streamed text is the groups of chunks of one selector, with a line break between two groups where
    neither side has one; start, finish and iteration events report what they
    should; and the error paths, among them handlers that touch the wrong array element.
  \<^item> \<open>Flow_Graph\<close>, \<open>Flow_Graph_Laws\<close> (\<^verbatim>\<open>hooks/use-workflow.ts\<close>, \<^verbatim>\<open>utils/workflow.ts\<close>): the graph queries.
    \<^verbatim>\<open>getIncomers\<close>, \<^verbatim>\<open>getOutgoers\<close> and \<^verbatim>\<open>uniqBy\<close> of the packages are parameters (\<open>flow_lib\<close>) with their
    documented behaviour as hypothesis (\<open>flow_lib_ok\<close>). Laws: a connection is accepted exactly when it is
    allowed and closes no cycle; before, after, root and reachable nodes are exactly those of the graph.
    Walks without a visited set carry fuel, the number of nodes plus one: on an acyclic graph it is proved
    to be enough, on a cyclic one the code overflows the stack and the model returns that error.
  \<^item> \<open>Edge_Editing\<close>, \<open>Edge_Laws\<close> (\<^verbatim>\<open>use-edges-interactions.ts\<close>, its helpers, \<^verbatim>\<open>handleNodeConnect\<close>): a step
    relation over the editor state; in every reachable state the handles cached in the nodes are those of
    the edges; a read-only canvas is never changed.
  \<^item> \<open>Node_Editing\<close>, \<open>Node_Laws\<close>, \<open>Node_Claims\<close>, \<open>Node_Copy\<close> (\<^verbatim>\<open>use-nodes-interactions.ts\<close>): selecting, disconnecting,
    deleting and copying nodes, on top of the edge editor. The recursion of the deletion carries the depth of
    the stack: two levels are proved to be enough when children are no containers. Laws: no edit leaves an edge
    without its nodes, and the invariant of the edge editor is kept when new connections name their handles
    and edges keep ids of their own; deleting a selected group takes exactly its deletable nodes with what is
    inside; the dialog, and the second key press that passes it by; a copy is the closure of what is chosen.
  \<^item> \<open>Graph_Init\<close>, \<open>Init_Laws\<close> (\<^verbatim>\<open>utils/workflow-init.ts\<close>): loading a draft. Loaded edges are acyclic, an
    acyclic draft loads completely, containers get their start node, preparation is idempotent, and the
    result meets the invariant of the edge editor exactly when no edge was dropped.
  \<^item> \<open>Clipboard\<close> (\<^verbatim>\<open>utils/clipboard.ts\<close>): copy and paste is a round trip through JSON text; pasted data
    fitted to a default is compatible with it at every depth.
  \<^item> \<open>Trace_Log\<close>, \<open>Trace_Laws\<close> (\<^verbatim>\<open>run/utils/format-log/*\<close>): agent messages as trees that are complete (the
    number of messages bounds their depth) and free of circles, the latest entry of human input nodes,
    retries, rounds of iterations and loops. \<open>Parallel_Log\<close>, \<open>Parallel_Laws\<close>: parallel branches, on a heap of
    entries; the tree shows every entry once, and the depth of its titles is bounded by the number of cells, the fuel.
    \<open>Log_Format\<close>: the composition, which does not depend on the order in which entries arrived.

  \<^bold>\<open>Conversations.\<close>
  \<^item> \<open>Chat_Tree\<close>, \<open>Chat_Laws\<close> (\<^verbatim>\<open>base/chat/utils.ts\<close>): the tree of a conversation is built on a heap of nodes, as the
    code shares and mutates them, and read as a value. Laws: every message stands in it once, answers know their
    place among their siblings, and a thread is a path through its target down the newest branch.
  \<^item> \<open>Chat_Log\<close> (\<^verbatim>\<open>app/log/list-utils.ts\<close>): pages of messages, the state of the conversation panel, annotations.

  \<^bold>\<open>The command line client.\<close>
  \<^item> \<open>Think_Filter\<close>, \<open>Think_Laws\<close> (\<^verbatim>\<open>sys/io/think-filter.ts\<close>): the filter that keeps reasoning out of the
    answer, in one pass and chunk by chunk. Laws: chunk boundaries are invisible unless one stands between a
    closing tag and its line break (\<open>safe_cuts\<close>), streaming then agrees with the batch function, at most seven
    characters are held back; and the line break that escapes at such a boundary.
  \<^item> \<open>Cli_Run\<close>, \<open>Cli_Laws\<close> (\<^verbatim>\<open>commands/run/app/*\<close>, \<^verbatim>\<open>sys/io/reasoning.ts\<close>): collectors, live printers, errors
    of the stream. Laws: a chat printed live and the collected response show the same answer when its
    reasoning is closed, its cuts are safe and nothing fails or pauses; an error event ends both; a pause without a form is noticed by one strategy only.
  \<^item> \<open>Sse_Queue\<close> (\<^verbatim>\<open>http/sse.ts\<close>): the pump that reads the response and the generator that yields its
    events, as a step relation over their shared queue and wake-up flag. Laws: no wake-up is lost, and every
    interleaving delivers all events in order after a bounded number of steps; an abort during a read is
    silent.
  \<^item> \<open>Cli_Flags\<close>, \<open>Flag_Laws\<close> (\<^verbatim>\<open>framework/flags.ts\<close>): the parser of the command line. Laws: a flag has its
    default or a value that its own words on the command line give, at its type and among its options; settings
    round trip.
  \<^item> \<open>Kv_Store\<close>, \<open>Kv_Laws\<close> (\<^verbatim>\<open>store/store.ts\<close>): the stores behind the interface \<open>key_value_store\<close>, whose client law
    is that the last write to a key wins. It is interpreted on documents under dotted keys, which the locked
    file store is proved to refine, and on the keyring; what writes above and below a key do to it is stated for
    documents without arrays. The YAML package is a parameter (\<open>codec\<close>).
  \<^item> \<open>Token_Store\<close> (\<^verbatim>\<open>store/token-store.ts\<close>, \<^verbatim>\<open>store/manager.ts\<close>): credentials behind the interface \<open>token_store\<close>, a
    sublocale of \<open>key_value_store\<close>, interpreted on token documents and on the keychain; logins of two
    processes that lose a token, accounts that share a keyring entry, and the probe that chooses a store.
  \<^item> \<open>Cli_Errors\<close> (\<^verbatim>\<open>errors/*\<close>, \<^verbatim>\<open>http/error-mapper.ts\<close>, \<^verbatim>\<open>http/sanitize.ts\<close>): errors as values with code, exit
    code, envelope and text; the classification of answers of the server; the redaction of bearer tokens.
  \<^item> \<open>Http_Client\<close>, \<open>Http_Laws\<close> (\<^verbatim>\<open>http/client.ts\<close> and the modules it composes): requests, hooks, timeouts and
    the retry loop. The network is the list of what the attempts meet, the clock and the random numbers are
    arguments. Laws: a call repeats the same request until the first answer that its policy does not
    repeat; attempts and waits are bounded whatever the network does; an unsafe request is sent once. The
    loop recurses over the attempts that are left, which the options bound.
  \<^item> \<open>Device_Flow\<close> (\<^verbatim>\<open>api/oauth-device.ts\<close>, \<^verbatim>\<open>auth/login/device-flow.ts\<close>): the device authorisation. The polling
    loop is a partial function: it is proved to return when the user approves, and never to return on a
    server that stays pending, because nothing looks at the lifetime of the code.
  \<^item> \<open>Accounts\<close>, \<open>Account_Laws\<close>, \<open>Account_File\<close> (\<^verbatim>\<open>auth/hosts.ts\<close>, \<^verbatim>\<open>commands/auth/*\<close>, \<^verbatim>\<open>commands/use/*\<close>, \<^verbatim>\<open>util/host.ts\<close>):
    the registry of hosts and accounts, the commands that change it, and its file. The commands work on any
    token store that meets the laws of \<open>token_store\<close>; both stores do. Laws: the current host and accounts
    always exist; a login and a logout do what they say to one account and nothing to the others; the file
    is read back as it was saved. At most a hundred pages of sessions are listed, as in the code.
  \<^item> \<open>Command_Tree\<close>, \<open>Command_Laws\<close>, \<open>Command_Suggest\<close> (\<^verbatim>\<open>framework/registry.ts\<close>): commands as a tree of words, the
    search for the named one, and the suggestions for a misspelt one. Laws: the command found is the one
    of the longest prefix; the row-by-row edit distance and the alignment cost are the least possible;
    every suggestion resolves to a visible command.

  \<^bold>\<open>Conventions.\<close> Numbers are reals or integers without rounding; strings are lists of 8-bit characters;
  keys of objects keep insertion order, and inherited properties of objects (\<^verbatim>\<open>__proto__\<close>,
  \<^verbatim>\<open>toString\<close>) are not modelled as keys. Values of other packages and of the platform are arguments:
  the table of MIME types, identifiers that the clock generates, the texts of syntax errors, terminal
  colours. A theorem that is a claim stands after a text that states it; its witness applies it to a
  concrete input.

  \<^bold>\<open>Not modelled.\<close> Adding, pasting, dragging and resizing nodes, the validation of the single node kinds, help texts and output
  formats of the command line client, and the schedule calculator are left for further work, in this order. The
  React components, the HTTP services, the generated contracts and clients, and the Python backend are
  input and output, generated code, or in another language.
\<close>

end
